(* ===== verification/Go_Prelude.thy ===== *)
theory Go_Prelude
  imports Main "HOL-Library.Word" "HOL-Library.Char_ord" "HOL-Library.List_Lexorder"
    "HOL-Library.Product_Lexorder"
    "HOL-Library.AList" "HOL-Library.Sublist" "HOL-Library.Multiset"
begin

text \<open>
  What the components share: the machine integers of Go, Go's string order, Go's
  \<open>map[string]T\<close> and the laws of both.

  \<^item> Go's \<open>int\<close> and \<open>int64\<close> are HOL's \<open>int\<close> with the wrap-around written out by \<open>wrap64\<close>
    wherever the code adds, subtracts or multiplies; Go's \<open>uint64\<close> and \<open>uint16\<close> are words.
  \<^item> Go's \<open>string\<close> is a list of bytes (\<open>char list\<close>), ordered byte by byte as Go's \<open><\<close> on
    strings is.
  \<^item> Go's \<open>map[string]T\<close> is an association list with distinct keys (\<open>gm_wf\<close>). Go ranges over a
    map in no fixed order, so every loop over a map in the model is one whose result does not
    depend on the order (a \<open>gm_map\<close> or a count) or one that sorts first (\<open>gm_sorted\<close>).
\<close>

unbundle bit_operations_syntax

section \<open>Collections of facts\<close>

named_theorems go_map \<open>laws of the map operations\<close>
named_theorems go_wf \<open>operations that keep well-formedness\<close>

section \<open>Integers\<close>

type_synonym u64 = "64 word"
type_synonym u16 = "16 word"
type_synonym i64 = int

definition max_u64 :: u64 where
  "max_u64 = NOT 0"

definition wrap64 :: "int \<Rightarrow> i64" where
  "wrap64 x = signed_take_bit 63 x"

definition in_i64 :: "int \<Rightarrow> bool" where
  "in_i64 x \<longleftrightarrow> - (2 ^ 63) \<le> x \<and> x < 2 ^ 63"

lemma unat_max_u64: "unat max_u64 = 2 ^ 64 - 1"
  by (simp add: max_u64_def unsigned_minus_1_eq_mask mask_eq_exp_minus_1)

lemma wrap64_id [simp]: "in_i64 x \<Longrightarrow> wrap64 x = x"
  by (simp add: wrap64_def in_i64_def signed_take_bit_int_eq_self)

lemma in_i64_wrap64 [simp, intro]: "in_i64 (wrap64 x)"
  unfolding in_i64_def wrap64_def
  using signed_take_bit_int_greater_eq_minus_exp [of 63 x] signed_take_bit_int_less_exp [of 63 x]
  by simp

lemma wrap64_add: "wrap64 (wrap64 x + d) = wrap64 (x + d)"
  unfolding wrap64_def by (simp add: signed_take_bit_eq_take_bit_shift take_bit_eq_mod mod_simps ac_simps)

text \<open>The sum of two saturating steps is one saturating step.\<close>

lemma min_add_min: "min m (min m (a::nat) + b) = min m (a + b)"
  by (auto simp: min_def)

section \<open>Go maps\<close>

type_synonym 'v gomap = "(string \<times> 'v) list"

abbreviation gm_get :: "'v gomap \<Rightarrow> string \<Rightarrow> 'v option" where
  "gm_get m k \<equiv> map_of m k"

abbreviation gm_put :: "string \<Rightarrow> 'v \<Rightarrow> 'v gomap \<Rightarrow> 'v gomap" where
  "gm_put k v m \<equiv> AList.update k v m"

definition gm_wf :: "'v gomap \<Rightarrow> bool" where
  "gm_wf m \<longleftrightarrow> distinct (map fst m)"

definition gm_map :: "(string \<Rightarrow> 'v \<Rightarrow> 'w) \<Rightarrow> 'v gomap \<Rightarrow> 'w gomap" where
  "gm_map f m = map (\<lambda>(k, v). (k, f k v)) m"

definition gm_keys :: "'v gomap \<Rightarrow> string set" where
  "gm_keys m = fst ` set m"

text \<open>The entries in ascending byte order of their keys, as after a \<open>sort.Slice\<close> on the key.\<close>

definition gm_sorted :: "'v gomap \<Rightarrow> (string \<times> 'v) list" where
  "gm_sorted m = sort_key fst m"

lemma gm_wf_Nil [go_wf, simp]: "gm_wf []"
  by (simp add: gm_wf_def)

lemma gm_wf_put [go_wf]: "gm_wf m \<Longrightarrow> gm_wf (gm_put k v m)"
  by (simp add: gm_wf_def distinct_update)

lemma keys_gm_map [go_map]: "map fst (gm_map f m) = map fst m"
  by (induction m) (auto simp: gm_map_def)

lemma gm_wf_map [go_wf]: "gm_wf m \<Longrightarrow> gm_wf (gm_map f m)"
  by (simp add: gm_wf_def keys_gm_map)

lemma gm_get_put [go_map]: "gm_get (gm_put k v m) k' = (if k' = k then Some v else gm_get m k')"
  by (simp add: update_conv')

lemma gm_get_map [go_map]: "gm_get (gm_map f m) k = map_option (f k) (gm_get m k)"
  by (induction m) (auto simp: gm_map_def)

lemma gm_keys_put [go_map]: "gm_keys (gm_put k v m) = insert k (gm_keys m)"
  by (simp add: gm_keys_def dom_map_of_conv_image_fst [symmetric] update_conv')

lemma gm_keys_map [go_map]: "gm_keys (gm_map f m) = gm_keys m"
  by (force simp: gm_keys_def gm_map_def)

lemma gm_keys_get: "k \<in> gm_keys m \<longleftrightarrow> gm_get m k \<noteq> None"
  by (simp add: gm_keys_def map_of_eq_None_iff)

lemma gm_keys_finite [simp]: "finite (gm_keys m)"
  by (simp add: gm_keys_def)

lemma gm_get_in: "gm_wf m \<Longrightarrow> (k, v) \<in> set m \<longleftrightarrow> gm_get m k = Some v"
  by (simp add: gm_wf_def)

lemma gm_all: "gm_wf m \<Longrightarrow> (\<forall>(k, v)\<in>set m. P k v) \<longleftrightarrow> (\<forall>k v. gm_get m k = Some v \<longrightarrow> P k v)"
  by (simp add: gm_get_in [symmetric] split_beta Ball_def)

text \<open>A sum over a map's entries is a sum over its keys.\<close>

lemma gm_sum_keys:
  assumes "gm_wf m" and "\<And>k v. gm_get m k = Some v \<Longrightarrow> f k v = g k"
  shows "(\<Sum>(k, v)\<leftarrow>m. f k v) = sum g (gm_keys m)"
proof -
  have "(\<Sum>(k, v)\<leftarrow>m. f k v) = sum_list (map (g \<circ> fst) m)"
    using assms by (intro arg_cong [of _ _ sum_list] map_cong) (auto simp: gm_get_in)
  also have "\<dots> = sum g (gm_keys m)"
    using assms(1) by (simp add: gm_wf_def gm_keys_def sum_list_distinct_conv_sum_set flip: map_map)
  finally show ?thesis .
qed

lemma gm_length_filter:
  assumes "gm_wf m"
  shows "length (filter (P \<circ> snd) m) = card {k. \<exists>v. gm_get m k = Some v \<and> P v}"
proof -
  have "distinct (map fst (filter (P \<circ> snd) m))"
    using assms by (simp add: gm_wf_def distinct_map_filter)
  from distinct_card [OF this]
  have "length (filter (P \<circ> snd) m) = card (fst ` set (filter (P \<circ> snd) m))"
    by simp
  also have "fst ` set (filter (P \<circ> snd) m) = {k. \<exists>v. gm_get m k = Some v \<and> P v}"
    using assms by (force simp: gm_get_in [symmetric])
  finally show ?thesis .
qed

lemma gm_length_keys: "gm_wf m \<Longrightarrow> length m = card (gm_keys m)"
  by (metis distinct_card gm_keys_def gm_wf_def length_map set_map)

lemma set_gm_sorted [simp]: "set (gm_sorted m) = set m"
  by (simp add: gm_sorted_def)

lemma length_gm_sorted [simp]: "length (gm_sorted m) = length m"
  by (simp add: gm_sorted_def)

lemma mset_gm_sorted [simp]: "mset (gm_sorted m) = mset m"
  by (simp add: gm_sorted_def)

lemma gm_sorted_ascending: "gm_wf m \<Longrightarrow> sorted_wrt (<) (map fst (gm_sorted m))"
proof -
  assume "gm_wf m"
  then have "distinct (map fst (gm_sorted m))"
    by (metis gm_wf_def mset_gm_sorted mset_map mset_eq_imp_distinct_iff)
  moreover have "sorted (map fst (gm_sorted m))"
    by (simp add: gm_sorted_def)
  ultimately show ?thesis by (simp add: strict_sorted_iff)
qed

lemma gm_wf_sorted [go_wf]: "gm_wf m \<Longrightarrow> gm_wf (gm_sorted m)"
  by (metis gm_wf_def mset_gm_sorted mset_map mset_eq_imp_distinct_iff)

lemma gm_get_sorted: "gm_wf m \<Longrightarrow> gm_get (gm_sorted m) k = gm_get m k"
  by (metis gm_get_in gm_wf_sorted not_Some_eq set_gm_sorted)

text \<open>
  Two well-formed maps with the same bindings sort to the same list: what a reader sees after
  sorting does not depend on the order in which the map was filled or is ranged over.
\<close>

lemma gm_sorted_unique:
  assumes "gm_wf m" "gm_wf m'" "\<And>k. gm_get m k = gm_get m' k"
  shows "gm_sorted m = gm_sorted m'"
proof -
  have "set m = set m'"
    using assms by (auto simp: gm_get_in)
  moreover have "distinct m" "distinct m'"
    using assms by (auto simp: gm_wf_def distinct_map)
  ultimately have "mset m = mset m'"
    using set_eq_iff_mset_eq_distinct by blast
  moreover have "inj_on fst (set m)"
    using assms by (simp add: gm_wf_def distinct_map)
  ultimately show ?thesis
    unfolding gm_sorted_def by (intro sort_key_inj_key_eq) simp_all
qed

section \<open>The interface of a keyed store\<close>

text \<open>
  The registry's two levels of maps are used through four operations only: lookup, insertion,
  a pass over all values, and the key set. Their laws, and what the code derives from them: a
  get-or-create loop (\<open>intern\<close>) keeps the bindings it finds and adds exactly the missing keys.
\<close>

locale keyed_store =
  fixes get :: "'m \<Rightarrow> string \<Rightarrow> 'v option"
    and put :: "string \<Rightarrow> 'v \<Rightarrow> 'm \<Rightarrow> 'm"
    and invar :: "'m \<Rightarrow> bool"
  assumes get_put: "get (put k v m) k' = (if k' = k then Some v else get m k')"
    and invar_put: "invar m \<Longrightarrow> invar (put k v m)"
begin

text \<open>A loop over items that looks up each item's key and stores what \<open>f\<close> makes of the binding.\<close>

lemma invar_visits:
  "invar m \<Longrightarrow> invar (fold (\<lambda>x m. put (key x) (f x (get m (key x))) m) xs m)"
  by (induction xs arbitrary: m) (auto intro: invar_put)

lemma get_visits_other:
  "k \<notin> key ` set xs \<Longrightarrow> get (fold (\<lambda>x m. put (key x) (f x (get m (key x))) m) xs m) k = get m k"
  by (induction xs arbitrary: m) (auto simp: get_put)

lemma get_visits_distinct:
  assumes "distinct (map key xs)"
  shows "get (fold (\<lambda>x m. put (key x) (f x (get m (key x))) m) xs m) k =
    (case find (\<lambda>x. key x = k) xs of None \<Rightarrow> get m k | Some x \<Rightarrow> Some (f x (get m k)))"
  using assms
proof (induction xs arbitrary: m)
  case Nil
  then show ?case by simp
next
  case (Cons x xs)
  let ?m = "put (key x) (f x (get m (key x))) m"
  show ?case
  proof (cases "key x = k")
    case True
    with Cons.prems have "k \<notin> key ` set xs" by auto
    with True show ?thesis by (simp add: get_put get_visits_other)
  next
    case False
    with Cons.IH [of ?m] Cons.prems show ?thesis by (simp add: get_put split: option.splits)
  qed
qed

lemma get_visits_idem:
  assumes "\<And>k v. f k (Some (f k v)) = f k v"
  shows "get (fold (\<lambda>k m. put k (f k (get m k)) m) ks m) k =
    (if k \<in> set ks then Some (f k (get m k)) else get m k)"
  using assms by (induction ks arbitrary: m) (auto simp: get_put)

text \<open>What every pass keeps of a binding, the whole loop keeps.\<close>

lemma visits_keep:
  assumes "get m k = Some v" and "\<And>x v. key x = k \<Longrightarrow> R v (f x (Some v))"
    and "\<And>v. R v v" and "\<And>u v w. R u v \<Longrightarrow> R v w \<Longrightarrow> R u w"
  shows "\<exists>w. get (fold (\<lambda>x m. put (key x) (f x (get m (key x))) m) xs m) k = Some w \<and> R v w"
  using assms(1)
proof (induction xs arbitrary: m v)
  case Nil
  then show ?case using assms(3) by simp
next
  case (Cons x xs)
  let ?m = "put (key x) (f x (get m (key x))) m"
  obtain u where u: "get ?m k = Some u" "R v u"
    using Cons.prems assms(2,3) by (cases "key x = k") (auto simp: get_put)
  from Cons.IH [OF u(1)] u(2) assms(4) show ?case by auto
qed

end

interpretation gm: keyed_store gm_get gm_put gm_wf
  by unfold_locales (auto simp: go_map go_wf)

end
