(* ===== verification/Go_Strings.thy ===== *)
theory Go_Strings
  imports Go_Prelude
begin

text \<open>
  The parts of Go's \<open>strings\<close>, \<open>strconv\<close> and \<open>encoding/hex\<close> that the components use, on byte
  strings. \<open>strings.HasPrefix\<close> and \<open>strings.HasSuffix\<close> are \<open>prefix\<close> and \<open>suffix\<close> of the library.
\<close>

section \<open>Bytes\<close>

abbreviation byte_of :: "char \<Rightarrow> nat" where
  "byte_of c \<equiv> of_char c"

section \<open>Prefixes and suffixes\<close>

definition TrimPrefix :: "string \<Rightarrow> string \<Rightarrow> string" where
  "TrimPrefix s p = (if prefix p s then drop (length p) s else s)"

definition TrimSuffix :: "string \<Rightarrow> string \<Rightarrow> string" where
  "TrimSuffix s p = (if suffix p s then take (length s - length p) s else s)"

lemma TrimPrefix_append [simp]: "TrimPrefix (p @ s) p = s"
  by (simp add: TrimPrefix_def)

lemma TrimSuffix_append [simp]: "TrimSuffix (s @ p) p = s"
  by (simp add: TrimSuffix_def suffix_def)

text \<open>\<open>strings.Index\<close>: the first position at which the pattern stands, if any.\<close>

fun Index :: "string \<Rightarrow> string \<Rightarrow> nat option" where
  "Index [] p = (if p = [] then Some 0 else None)"
| "Index (c # s) p = (if prefix p (c # s) then Some 0 else map_option Suc (Index s p))"

lemma Index_Some: "Index s p = Some i \<Longrightarrow> prefix p (drop i s) \<and> i + length p \<le> length s"
  by (induction s p arbitrary: i rule: Index.induct)
    (auto split: if_splits dest: prefix_length_le)

lemma Index_least: "Index s p = Some i \<Longrightarrow> j < i \<Longrightarrow> \<not> prefix p (drop j s)"
proof (induction s p arbitrary: i j rule: Index.induct)
  case (2 c s p)
  then show ?case by (cases j) (auto split: if_splits)
qed (auto split: if_splits)

section \<open>Hexadecimal\<close>

definition hex_digit :: "nat \<Rightarrow> char" where
  "hex_digit n = ''0123456789abcdef'' ! n"

definition hex_EncodeToString :: "string \<Rightarrow> string" where
  "hex_EncodeToString s =
    concat (map (\<lambda>c. [hex_digit (byte_of c div 16), hex_digit (byte_of c mod 16)]) s)"

lemma length_hex [simp]: "length (hex_EncodeToString s) = 2 * length s"
  by (induction s) (auto simp: hex_EncodeToString_def)

lemma hex_digit_inj: "m < 16 \<Longrightarrow> n < 16 \<Longrightarrow> hex_digit m = hex_digit n \<Longrightarrow> m = n"
proof -
  have "distinct ''0123456789abcdef''" by simp
  then show "m < 16 \<Longrightarrow> n < 16 \<Longrightarrow> hex_digit m = hex_digit n \<Longrightarrow> m = n"
    unfolding hex_digit_def by (subst (asm) nth_eq_iff_index_eq) simp_all
qed

lemma hex_byte_inj:
  "hex_digit (byte_of c div 16) = hex_digit (byte_of d div 16) \<Longrightarrow>
   hex_digit (byte_of c mod 16) = hex_digit (byte_of d mod 16) \<Longrightarrow> c = d"
proof -
  have bound: "byte_of x div 16 < 16" for x
    using nat_of_char_less_256 [of x] by (simp add: less_mult_imp_div_less)
  assume "hex_digit (byte_of c div 16) = hex_digit (byte_of d div 16)"
    and "hex_digit (byte_of c mod 16) = hex_digit (byte_of d mod 16)"
  then have "byte_of c div 16 = byte_of d div 16" "byte_of c mod 16 = byte_of d mod 16"
    by (auto intro!: hex_digit_inj bound)
  then have "byte_of c = byte_of d" by (metis div_mult_mod_eq)
  then show "c = d" by simp
qed

text \<open>Two keys with the same hexadecimal fingerprint are the same key.\<close>

lemma hex_inject: "hex_EncodeToString s = hex_EncodeToString t \<longleftrightarrow> s = t"
proof
  assume "hex_EncodeToString s = hex_EncodeToString t"
  then show "s = t"
  proof (induction s arbitrary: t)
    case Nil
    then show ?case by (cases t) (auto simp: hex_EncodeToString_def)
  next
    case (Cons c s)
    then show ?case
      by (cases t) (auto simp: hex_EncodeToString_def dest: hex_byte_inj)
  qed
qed simp

section \<open>Decimal numbers\<close>

definition is_digit :: "char \<Rightarrow> bool" where
  "is_digit c \<longleftrightarrow> 48 \<le> byte_of c \<and> byte_of c \<le> 57"

definition digit_val :: "char \<Rightarrow> nat" where
  "digit_val c = byte_of c - 48"

definition decimal :: "string \<Rightarrow> nat" where
  "decimal s = foldl (\<lambda>n c. 10 * n + digit_val c) 0 s"

fun itoa_nat :: "nat \<Rightarrow> string" where
  "itoa_nat n = (if n < 10 then [char_of (48 + n)] else itoa_nat (n div 10) @ [char_of (48 + n mod 10)])"

declare itoa_nat.simps [simp del]

definition Itoa :: "int \<Rightarrow> string" where
  "Itoa n = (if n < 0 then CHR ''-'' # itoa_nat (nat (- n)) else itoa_nat (nat n))"

text \<open>\<open>strconv.Atoi\<close>: an optional sign, at least one digit, nothing else, and the value in range.\<close>

definition Atoi :: "string \<Rightarrow> i64 option" where
  "Atoi s =
    (let (neg, ds) = (case s of [] \<Rightarrow> (False, s) | c # t \<Rightarrow>
           if c = CHR ''-'' then (True, t) else if c = CHR ''+'' then (False, t) else (False, s));
         v = (if neg then - int (decimal ds) else int (decimal ds))
     in if ds \<noteq> [] \<and> list_all is_digit ds \<and> in_i64 v then Some v else None)"

lemma decimal_snoc: "decimal (s @ [c]) = 10 * decimal s + digit_val c"
  by (simp add: decimal_def)

lemma digit_char:
  assumes "n < 10"
  shows "is_digit (char_of (48 + n))" "digit_val (char_of (48 + n)) = n"
  using assms by (simp_all add: is_digit_def digit_val_def)

lemma itoa_nat_correct: "list_all is_digit (itoa_nat n) \<and> decimal (itoa_nat n) = n \<and> itoa_nat n \<noteq> []"
proof (induction n rule: itoa_nat.induct)
  case (1 n)
  show ?case
  proof (cases "n < 10")
    case True
    then show ?thesis
      using digit_char [of n] by (simp add: itoa_nat.simps [of n] decimal_def)
  next
    case False
    with 1 show ?thesis
      using digit_char [of "n mod 10"]
      by (simp add: itoa_nat.simps [of n] decimal_snoc)
  qed
qed

lemma Atoi_Itoa: "in_i64 n \<Longrightarrow> Atoi (Itoa n) = Some n"
proof -
  assume n: "in_i64 n"
  obtain c t where ct: "itoa_nat (nat n) = c # t" using itoa_nat_correct [of "nat n"] by (cases "itoa_nat (nat n)") auto
  then have "is_digit c" using itoa_nat_correct [of "nat n"] by simp
  then have "c \<noteq> CHR ''-''" "c \<noteq> CHR ''+''" by (auto simp: is_digit_def)
  with n ct show ?thesis
    using itoa_nat_correct [of "nat n"] itoa_nat_correct [of "nat (- n)"]
    by (auto simp: Atoi_def Itoa_def)
qed

lemma Atoi_in_range: "Atoi s = Some n \<Longrightarrow> in_i64 n"
  by (auto simp: Atoi_def Let_def split: prod.splits if_splits)

end
