(* ===== verification/Go_Utf8.thy ===== *)
theory Go_Utf8
  imports Go_Strings
begin

text \<open>
  Go's \<open>unicode/utf8\<close> and the functions of \<open>strings\<close> that look at runes: \<open>DecodeRune\<close>,
  \<open>EncodeRune\<close>, \<open>ValidString\<close>, \<open>ToValidUTF8\<close>, \<open>ToLower\<close> and \<open>TrimSpace\<close>. Unicode's case table
  for runes outside ASCII is a parameter \<open>ul\<close> of the functions that lower case.
\<close>

section \<open>Decoding and encoding\<close>

definition RuneError :: nat where
  "RuneError = 65533"

definition cont :: "char \<Rightarrow> bool" where
  "cont c \<longleftrightarrow> 128 \<le> byte_of c \<and> byte_of c < 192"

text \<open>The bounds of the second byte depend on the first (\<open>acceptRanges\<close> of the library).\<close>

definition second_ok :: "char \<Rightarrow> char \<Rightarrow> bool" where
  "second_ok c0 c1 \<longleftrightarrow>
    (let b0 = byte_of c0; b1 = byte_of c1 in
     (if b0 = 224 then 160 else if b0 = 240 then 144 else 128) \<le> b1 \<and>
     b1 < (if b0 = 237 then 160 else if b0 = 244 then 144 else 192))"

fun DecodeRune :: "string \<Rightarrow> nat \<times> nat" where
  "DecodeRune [] = (RuneError, 0)"
| "DecodeRune (c0 # s) =
    (let b0 = byte_of c0 in
     if b0 < 128 then (b0, 1)
     else if 194 \<le> b0 \<and> b0 < 224 then
       (case s of c1 # _ \<Rightarrow>
          if cont c1 then ((b0 - 192) * 64 + (byte_of c1 - 128), 2) else (RuneError, 1)
        | [] \<Rightarrow> (RuneError, 1))
     else if 224 \<le> b0 \<and> b0 < 240 then
       (case s of c1 # c2 # _ \<Rightarrow>
          if second_ok c0 c1 \<and> cont c2
          then ((b0 - 224) * 4096 + (byte_of c1 - 128) * 64 + (byte_of c2 - 128), 3)
          else (RuneError, 1)
        | _ \<Rightarrow> (RuneError, 1))
     else if 240 \<le> b0 \<and> b0 < 245 then
       (case s of c1 # c2 # c3 # _ \<Rightarrow>
          if second_ok c0 c1 \<and> cont c2 \<and> cont c3
          then ((b0 - 240) * 262144 + (byte_of c1 - 128) * 4096 +
                (byte_of c2 - 128) * 64 + (byte_of c3 - 128), 4)
          else (RuneError, 1)
        | _ \<Rightarrow> (RuneError, 1))
     else (RuneError, 1))"

text \<open>\<open>utf8.AppendRune\<close>: surrogates and values beyond \<open>U+10FFFF\<close> are written as \<open>RuneError\<close>.\<close>

definition EncodeRune :: "nat \<Rightarrow> string" where
  "EncodeRune r =
    (let r = (if 55296 \<le> r \<and> r < 57344 \<or> 1114111 < r then RuneError else r) in
     if r < 128 then [char_of r]
     else if r < 2048 then [char_of (192 + r div 64), char_of (128 + r mod 64)]
     else if r < 65536 then
       [char_of (224 + r div 4096), char_of (128 + r div 64 mod 64), char_of (128 + r mod 64)]
     else
       [char_of (240 + r div 262144), char_of (128 + r div 4096 mod 64),
        char_of (128 + r div 64 mod 64), char_of (128 + r mod 64)])"

lemma DecodeRune_width:
  "s \<noteq> [] \<Longrightarrow> 1 \<le> snd (DecodeRune s) \<and> snd (DecodeRune s) \<le> 4 \<and> snd (DecodeRune s) \<le> length s"
  by (cases s) (auto simp: Let_def split: list.splits)

text \<open>The bytes that do not start a valid encoding have width 1 and rune \<open>RuneError\<close>.\<close>

definition invalid_head :: "string \<Rightarrow> bool" where
  "invalid_head s \<longleftrightarrow> DecodeRune s = (RuneError, 1)"

function runes :: "string \<Rightarrow> nat list" where
  "runes [] = []"
| "runes (c # s) = fst (DecodeRune (c # s)) # runes (drop (snd (DecodeRune (c # s))) (c # s))"
  by pat_completeness auto
termination
proof (relation "measure length")
  fix c s
  show "(drop (snd (DecodeRune (c # s))) (c # s), c # s) \<in> measure length"
    using DecodeRune_width [of "c # s"] by (simp del: DecodeRune.simps)
qed simp

function ValidString :: "string \<Rightarrow> bool" where
  "ValidString [] = True"
| "ValidString (c # s) =
    (\<not> invalid_head (c # s) \<and> ValidString (drop (snd (DecodeRune (c # s))) (c # s)))"
  by pat_completeness auto
termination
proof (relation "measure length")
  fix c s
  show "(drop (snd (DecodeRune (c # s))) (c # s), c # s) \<in> measure length"
    using DecodeRune_width [of "c # s"] by (simp del: DecodeRune.simps)
qed simp

text \<open>\<open>strings.ToValidUTF8\<close>: each maximal run of invalid bytes becomes one copy of \<open>rep\<close>. The
  flag says whether the previous byte was invalid.\<close>

function to_valid :: "string \<Rightarrow> bool \<Rightarrow> string \<Rightarrow> string" where
  "to_valid rep was_invalid [] = []"
| "to_valid rep was_invalid (c # s) =
    (if invalid_head (c # s)
     then (if was_invalid then [] else rep) @ to_valid rep True s
     else let w = snd (DecodeRune (c # s)) in
       take w (c # s) @ to_valid rep False (drop w (c # s)))"
  by pat_completeness auto
termination
proof (relation "measure (\<lambda>(_, _, s). length s)")
  fix rep was_invalid c s w
  assume "w = snd (DecodeRune (c # s))"
  then show "((rep, False, drop w (c # s)), rep, was_invalid, c # s) \<in> measure (\<lambda>(_, _, s). length s)"
    using DecodeRune_width [of "c # s"] by (simp del: DecodeRune.simps)
qed simp_all

definition ToValidUTF8 :: "string \<Rightarrow> string \<Rightarrow> string" where
  "ToValidUTF8 s rep = to_valid rep False s"

declare DecodeRune.simps [simp del]

section \<open>Case and space\<close>

definition ascii_lower :: "char \<Rightarrow> char" where
  "ascii_lower c = (if 65 \<le> byte_of c \<and> byte_of c \<le> 90 then char_of (byte_of c + 32) else c)"

definition is_ascii :: "string \<Rightarrow> bool" where
  "is_ascii s \<longleftrightarrow> (\<forall>c\<in>set s. byte_of c < 128)"

definition rune_lower :: "(nat \<Rightarrow> nat) \<Rightarrow> nat \<Rightarrow> nat" where
  "rune_lower ul r = (if r < 128 then byte_of (ascii_lower (char_of r)) else ul r)"

definition ToLower :: "(nat \<Rightarrow> nat) \<Rightarrow> string \<Rightarrow> string" where
  "ToLower ul s =
    (if is_ascii s then map ascii_lower s
     else concat (map (EncodeRune \<circ> rune_lower ul) (runes s)))"

lemma ascii_lower_idem [simp]: "ascii_lower (ascii_lower c) = ascii_lower c"
  by (simp add: ascii_lower_def)

lemma is_ascii_lower: "is_ascii s \<Longrightarrow> is_ascii (map ascii_lower s)"
  by (auto simp: is_ascii_def ascii_lower_def)

lemma ToLower_ascii_idem: "is_ascii s \<Longrightarrow> ToLower ul (ToLower ul s) = ToLower ul s"
  by (simp add: ToLower_def is_ascii_lower comp_def)

text \<open>The encodings of the runes with the property \<open>White_Space\<close> (\<open>unicode.IsSpace\<close>). Matching
  them at either end is what \<open>TrimSpace\<close> does: no encoding is a proper suffix of another rune's.\<close>

definition space_seqs :: "string list" where
  "space_seqs = map (map char_of)
    ([[9 :: nat], [10], [11], [12], [13], [32], [194, 133], [194, 160], [225, 154, 128]] @
     map (\<lambda>b. [226, 128, b]) ([128, 129, 130, 131, 132, 133, 134, 135, 136, 137, 138] @ [168, 169, 175]) @
     [[226, 129, 159], [227, 128, 128]])"

lemma space_seqs_nonempty: "q \<in> set space_seqs \<Longrightarrow> q \<noteq> []"
  by (auto simp: space_seqs_def)

function trim_front :: "string list \<Rightarrow> string \<Rightarrow> string" where
  "trim_front seqs s =
    (case find (\<lambda>q. q \<noteq> [] \<and> prefix q s) seqs of
       None \<Rightarrow> s | Some q \<Rightarrow> trim_front seqs (drop (length q) s))"
  by pat_completeness auto
termination
proof (relation "measure (\<lambda>(_, s). length s)")
  fix seqs s and q :: string
  assume "find (\<lambda>q. q \<noteq> [] \<and> prefix q s) seqs = Some q"
  then have "q \<noteq> []" "prefix q s" by (auto simp: find_Some_iff)
  then show "((seqs, drop (length q) s), seqs, s) \<in> measure (\<lambda>(_, s). length s)"
    by (cases s) auto
qed simp

declare trim_front.simps [simp del]

definition TrimSpace :: "string \<Rightarrow> string" where
  "TrimSpace s = rev (trim_front (map rev space_seqs) (rev (trim_front space_seqs s)))"

lemma trim_front_none: "q \<in> set seqs \<Longrightarrow> q \<noteq> [] \<Longrightarrow> \<not> prefix q (trim_front seqs s)"
proof (induction seqs s rule: trim_front.induct)
  case (1 seqs s)
  show ?case
  proof (cases "find (\<lambda>q. q \<noteq> [] \<and> prefix q s) seqs")
    case None
    then have "trim_front seqs s = s" by (simp add: trim_front.simps [of seqs s])
    with None 1 show ?thesis by (auto simp: find_None_iff)
  next
    case (Some p)
    with 1 show ?thesis by (simp add: trim_front.simps [of seqs s])
  qed
qed

lemma suffix_trim_front: "suffix (trim_front seqs s) s"
proof (induction seqs s rule: trim_front.induct)
  case (1 seqs s)
  then show ?case
    by (cases "find (\<lambda>q. q \<noteq> [] \<and> prefix q s) seqs")
      (auto simp: trim_front.simps [of seqs s] intro: suffix_order.trans suffix_drop)
qed

section \<open>Laws\<close>

lemma invalid_tail: "invalid_head (c # s) \<Longrightarrow> drop (snd (DecodeRune (c # s))) (c # s) = s"
  by (simp add: invalid_head_def)

text \<open>A string without invalid bytes is left alone; and every valid string in front of another
  string keeps the decoder in step.\<close>

lemma to_valid_id: "ValidString s \<Longrightarrow> to_valid rep b s = s"
  by (induction rep b s rule: to_valid.induct) (auto simp: Let_def)

lemma DecodeRune_append:
  "s \<noteq> [] \<Longrightarrow> \<not> invalid_head s \<Longrightarrow> DecodeRune (s @ t) = DecodeRune s"
  by (cases s)
    (auto simp: invalid_head_def DecodeRune.simps Let_def split: list.splits if_splits)

lemma ValidString_append: "ValidString s \<Longrightarrow> ValidString (s @ t) \<longleftrightarrow> ValidString t"
proof (induction s rule: ValidString.induct)
  case (2 c s)
  let ?w = "snd (DecodeRune (c # s))"
  from "2.prems" have ok: "\<not> invalid_head (c # s)" and rest: "ValidString (drop ?w (c # s))"
    by auto
  have same: "DecodeRune (c # (s @ t)) = DecodeRune (c # s)"
    using DecodeRune_append [of "c # s" t] ok by simp
  moreover have "?w \<le> length (c # s)" using DecodeRune_width [of "c # s"] by simp
  ultimately have "drop ?w (c # (s @ t)) = drop ?w (c # s) @ t"
    by (metis append_Cons drop_append diff_is_0_eq drop0)
  with "2.IH" ok rest same show ?case
    by (auto simp: invalid_head_def)
qed simp

lemma ValidString_head:
  assumes "\<not> invalid_head (c # s)"
  shows "ValidString (take (snd (DecodeRune (c # s))) (c # s))"
proof -
  let ?w = "snd (DecodeRune (c # s))"
  have w: "1 \<le> ?w" "?w \<le> length (c # s)" using DecodeRune_width [of "c # s"] by auto
  then obtain s' where s': "take ?w (c # s) = c # s'" by (cases ?w) auto
  have "DecodeRune (take ?w (c # s)) = DecodeRune (c # s)"
  proof -
    consider "s = []" | c1 where "s = [c1]" | c1 c2 where "s = [c1, c2]"
      | c1 c2 c3 r where "s = c1 # c2 # c3 # r"
      by (metis list.exhaust)
    then show ?thesis
      using assms by cases (simp_all add: invalid_head_def Let_def DecodeRune.simps split: if_splits)
  qed
  moreover have "drop ?w (c # s') = []" by (simp flip: s')
  ultimately show ?thesis using s' assms by (simp add: invalid_head_def)
qed

lemma ValidString_to_valid: "ValidString rep \<Longrightarrow> ValidString (to_valid rep b s)"
proof (induction rep b s rule: to_valid.induct)
  case (2 rep b c s)
  show ?case
  proof (cases "invalid_head (c # s)")
    case True
    with 2 show ?thesis by (simp add: ValidString_append)
  next
    case False
    with 2 show ?thesis by (simp add: ValidString_append ValidString_head Let_def)
  qed
qed simp

lemma ToValidUTF8_id: "ValidString s \<Longrightarrow> ToValidUTF8 s rep = s"
  by (simp add: ToValidUTF8_def to_valid_id)

lemma ToValidUTF8_valid: "ValidString rep \<Longrightarrow> ValidString (ToValidUTF8 s rep)"
  by (simp add: ToValidUTF8_def ValidString_to_valid)

end
