(* ===== verification/Netip.thy ===== *)
theory Netip
  imports Go_Strings
begin

text \<open>
  What the audit exclusion uses of Go's \<open>net/netip\<close>: parsing of addresses and prefixes,
  \<open>Unmap\<close>, \<open>Masked\<close> and \<open>Contains\<close>. An IPv6 address carries its zone (empty when it has none).
\<close>

datatype addr = V4 "32 word" | V6 "128 word" string

fun BitLen :: "addr \<Rightarrow> nat" where
  "BitLen (V4 _) = 32"
| "BitLen (V6 _ _) = 128"

fun zone :: "addr \<Rightarrow> string" where
  "zone (V4 _) = []"
| "zone (V6 _ z) = z"

section \<open>Parsing\<close>

text \<open>\<open>parseIPv4Fields\<close>: \<open>val\<close> is the octet so far, \<open>digLen\<close> its digits, \<open>fields\<close> the octets done.\<close>

fun ipv4_fields :: "nat \<Rightarrow> nat \<Rightarrow> nat list \<Rightarrow> string \<Rightarrow> nat list option" where
  "ipv4_fields val digLen fields [] =
    (if length fields < 3 then None else Some (fields @ [val]))"
| "ipv4_fields val digLen fields (c # s) =
    (if is_digit c then
       if digLen = 1 \<and> val = 0 then None
       else let val = val * 10 + digit_val c in
         if val > 255 then None else ipv4_fields val (Suc digLen) fields s
     else if c = CHR ''.'' then
       if digLen = 0 \<or> s = [] then None
       else if length fields = 3 then None
       else ipv4_fields 0 0 (fields @ [val]) s
     else None)"

definition be_word :: "nat list \<Rightarrow> 'a :: len word" where
  "be_word bs = foldl (\<lambda>w b. push_bit 8 w OR of_nat b) 0 bs"

definition parseIPv4 :: "string \<Rightarrow> addr option" where
  "parseIPv4 s = map_option (\<lambda>fs. V4 (be_word fs)) (ipv4_fields 0 0 [] s)"

definition hex_val :: "char \<Rightarrow> nat option" where
  "hex_val c =
    (let b = byte_of c in
     if is_digit c then Some (b - 48)
     else if 97 \<le> b \<and> b \<le> 102 then Some (b - 87)
     else if 65 \<le> b \<and> b \<le> 70 then Some (b - 55)
     else None)"

text \<open>The loop of \<open>parseIPv6\<close>: the bytes so far, the place of the ellipsis, the rest of the text.\<close>

function ipv6_loop :: "nat list \<Rightarrow> nat option \<Rightarrow> string \<Rightarrow> (nat list \<times> nat option \<times> string) option" where
  "ipv6_loop ip ell s =
    (if 16 \<le> length ip then Some (ip, ell, s)
     else let ds = takeWhile (\<lambda>c. hex_val c \<noteq> None) s; rest = drop (length ds) s in
       if ds = [] \<or> 4 < length ds then None
       else if rest \<noteq> [] \<and> hd rest = CHR ''.'' then
         if ell = None \<and> length ip \<noteq> 12 then None
         else if 16 < length ip + 4 then None
         else map_option (\<lambda>fs. (ip @ fs, ell, [])) (ipv4_fields 0 0 [] s)
       else let acc = foldl (\<lambda>n c. 16 * n + the (hex_val c)) 0 ds;
                ip = ip @ [acc div 256, acc mod 256] in
         if rest = [] then Some (ip, ell, [])
         else if hd rest \<noteq> CHR '':'' \<or> tl rest = [] then None
         else if hd (tl rest) = CHR '':'' then
           if ell \<noteq> None then None
           else if tl (tl rest) = [] then Some (ip, Some (length ip), [])
           else ipv6_loop ip (Some (length ip)) (tl (tl rest))
         else ipv6_loop ip ell (tl rest))"
  by pat_completeness auto
termination
  by (relation "measure (\<lambda>(ip, _, _). 16 - length ip)") auto

declare ipv6_loop.simps [simp del]

definition expand_ellipsis :: "nat list \<Rightarrow> nat option \<Rightarrow> nat list option" where
  "expand_ellipsis ip ell =
    (if length ip < 16
     then map_option (\<lambda>e. take e ip @ replicate (16 - length ip) 0 @ drop e ip) ell
     else if ell \<noteq> None then None else Some ip)"

definition parseIPv6 :: "string \<Rightarrow> addr option" where
  "parseIPv6 text =
    (let s = takeWhile (\<lambda>c. c \<noteq> CHR ''%'') text; z = drop (Suc (length s)) text in
     if length s < length text \<and> z = [] then None
     else if s = ''::'' then Some (V6 0 z)
     else let (ell, s) = (if prefix ''::'' s then (Some 0, drop 2 s) else (None, s)) in
       case ipv6_loop [] ell s of
         None \<Rightarrow> None
       | Some (ip, ell, rest) \<Rightarrow>
           if rest \<noteq> [] then None
           else map_option (\<lambda>bs. V6 (be_word bs) z) (expand_ellipsis ip ell))"

text \<open>\<open>ParseAddr\<close> looks for the first of \<open>.\<close>, \<open>:\<close> and \<open>%\<close> to tell the two families apart.\<close>

definition ParseAddr :: "string \<Rightarrow> addr option" where
  "ParseAddr s =
    (case find (\<lambda>c. c = CHR ''.'' \<or> c = CHR '':'' \<or> c = CHR ''%'') s of
       None \<Rightarrow> None
     | Some c \<Rightarrow> if c = CHR ''.'' then parseIPv4 s else if c = CHR '':'' then parseIPv6 s else None)"

text \<open>\<open>::ffff:a.b.c.d\<close> becomes \<open>a.b.c.d\<close>.\<close>

fun Unmap :: "addr \<Rightarrow> addr" where
  "Unmap (V4 a) = V4 a"
| "Unmap (V6 a z) = (if drop_bit 32 a = 0xffff then V4 (ucast a) else V6 a z)"

section \<open>Prefixes\<close>

datatype addr_prefix = Prefix (pfx_addr: addr) (pfx_bits: nat)

fun without_zone :: "addr \<Rightarrow> addr" where
  "without_zone (V4 a) = V4 a"
| "without_zone (V6 a _) = V6 a []"

definition PrefixFrom :: "addr \<Rightarrow> nat \<Rightarrow> addr_prefix" where
  "PrefixFrom a n = Prefix (without_zone a) n"

definition last_slash :: "string \<Rightarrow> (string \<times> string) option" where
  "last_slash s =
    (let after = rev (takeWhile (\<lambda>c. c \<noteq> CHR ''/'') (rev s)) in
     if length after = length s then None
     else Some (take (length s - Suc (length after)) s, after))"

definition ParsePrefix :: "string \<Rightarrow> addr_prefix option" where
  "ParsePrefix s =
    (case last_slash s of
       None \<Rightarrow> None
     | Some (ipStr, bitsStr) \<Rightarrow>
         (case ParseAddr ipStr of
            None \<Rightarrow> None
          | Some ip \<Rightarrow>
              if zone ip \<noteq> [] then None
              else if 1 < length bitsStr \<and> \<not> (CHR ''1'' \<le> hd bitsStr \<and> hd bitsStr \<le> CHR ''9'') then None
              else (case Atoi bitsStr of
                 None \<Rightarrow> None
               | Some bits \<Rightarrow> if bits < 0 \<or> bits > int (BitLen ip) then None
                   else Some (PrefixFrom ip (nat bits)))))"

fun mask_addr :: "nat \<Rightarrow> addr \<Rightarrow> addr" where
  "mask_addr n (V4 a) = V4 (push_bit (32 - n) (drop_bit (32 - n) a))"
| "mask_addr n (V6 a z) = V6 (push_bit (128 - n) (drop_bit (128 - n) a)) z"

definition Masked :: "addr_prefix \<Rightarrow> addr_prefix" where
  "Masked p = Prefix (mask_addr (pfx_bits p) (pfx_addr p)) (pfx_bits p)"

fun Contains :: "addr_prefix \<Rightarrow> addr \<Rightarrow> bool" where
  "Contains (Prefix (V4 p) n) (V4 a) = (drop_bit (32 - n) (a XOR p) = 0)"
| "Contains (Prefix (V6 p _) n) (V6 a z) = (z = [] \<and> drop_bit (128 - n) (a XOR p) = 0)"
| "Contains _ _ = False"

section \<open>Printing\<close>

fun hex_nat :: "nat \<Rightarrow> string" where
  "hex_nat n = (if n < 16 then [hex_digit n] else hex_nat (n div 16) @ [hex_digit (n mod 16)])"

declare hex_nat.simps [simp del]

definition string4 :: "32 word \<Rightarrow> string" where
  "string4 a =
    (let octet = (\<lambda>i. itoa_nat (unat (drop_bit (24 - 8 * i) a AND 0xff))) in
     octet 0 @ ''.'' @ octet 1 @ ''.'' @ octet 2 @ ''.'' @ octet 3)"

definition v6u16 :: "128 word \<Rightarrow> nat \<Rightarrow> nat" where
  "v6u16 a i = unat (drop_bit (112 - 16 * i) a AND 0xffff)"

text \<open>The first longest run of at least two zero groups, \<open>(255, 255)\<close> when there is none.\<close>

definition zero_run :: "128 word \<Rightarrow> nat \<times> nat" where
  "zero_run a = fold (\<lambda>i (zs, ze).
     let l = length (takeWhile (\<lambda>j. v6u16 a j = 0) [i..<8]) in
     if 2 \<le> l \<and> ze - zs < l then (i, i + l) else (zs, ze)) [0..<8] (255, 255)"

definition string6 :: "128 word \<Rightarrow> string" where
  "string6 a =
    (let (zs, ze) = zero_run a in
     concat (map (\<lambda>i.
       if i = zs then ''::'' else if zs < i \<and> i < ze then []
       else if i = ze then hex_nat (v6u16 a i)
       else (if 0 < i then '':'' else []) @ hex_nat (v6u16 a i)) [0..<8]))"

fun addr_String :: "addr \<Rightarrow> string" where
  "addr_String (V4 a) = string4 a"
| "addr_String (V6 a z) =
    (if drop_bit 32 a = 0xffff then ''::ffff:'' @ string4 (ucast a) else string6 a) @
    (if z = [] then [] else CHR ''%'' # z)"

definition prefix_String :: "addr_prefix \<Rightarrow> string" where
  "prefix_String p = addr_String (pfx_addr p) @ ''/'' @ itoa_nat (pfx_bits p)"

section \<open>Laws\<close>

lemma xor_eq_0 [simp]: "(x :: 'a :: len word) XOR y = 0 \<longleftrightarrow> x = y"
  by (metis xor.assoc xor.left_neutral xor.right_neutral xor_self_eq)

lemma Contains_V4: "Contains (Prefix (V4 p) n) (V4 a) \<longleftrightarrow> drop_bit (32 - n) a = drop_bit (32 - n) p"
  by (simp add: drop_bit_xor)

lemma Contains_V6:
  "Contains (Prefix (V6 p z') n) (V6 a z) \<longleftrightarrow> z = [] \<and> drop_bit (128 - n) a = drop_bit (128 - n) p"
  by (simp add: drop_bit_xor)

text \<open>A full-length prefix holds its own address only; masking does not change what is held.\<close>

lemma Contains_full: "zone a = [] \<Longrightarrow> Contains (PrefixFrom a (BitLen a)) b \<longleftrightarrow> b = a"
  by (cases a; cases b) (auto simp: PrefixFrom_def drop_bit_xor)

lemma drop_push_drop: "n \<le> LENGTH('a) \<Longrightarrow> drop_bit n (push_bit n (drop_bit n (a :: 'a :: len word))) = drop_bit n a"
  by (rule bit_word_eqI) (auto simp: bit_simps dest: bit_imp_le_length)

lemma Contains_Masked: "Contains (Masked p) a = Contains p a"
  by (cases p; cases "pfx_addr p"; cases a)
    (simp_all add: Masked_def drop_bit_xor drop_push_drop)

end
