(* ===== verification/Exclude.thy ===== *)
theory Exclude
  imports Go_Utf8 Netip
begin

text \<open>
  \<^verbatim>\<open>sing-box-plus/internal/userstats/audit_exclude.go\<close>: which connections are kept out of the
  audit. A filter is built from the configuration (\<open>newExcludeFilter\<close>), asked once per connection
  (\<open>match\<close>) and written into every audit file (\<open>describe\<close>). Go's \<open>nil\<close> filter is \<open>None\<close>.
\<close>

section \<open>Building a filter\<close>

record excludeFilter =
  ef_suffixes :: "string list"
  ef_prefixes :: "addr_prefix list"
  ef_ports :: "u16 list"

datatype exclude_error =
  EmptyHost
| HostNotSuffix string
| HostIsAddress string
| DuplicateHost string
| EmptyIP
| BadPrefix string
| BadAddress string
| HostBitsSet string
| DuplicateIP string
| PortZero
| DuplicatePort u16

definition trim_dots :: "string \<Rightarrow> string" where
  "trim_dots s = rev (dropWhile (\<lambda>c. c = CHR ''.'') (rev (dropWhile (\<lambda>c. c = CHR ''.'') s)))"

definition host_entry :: "(nat \<Rightarrow> nat) \<Rightarrow> string \<Rightarrow> string" where
  "host_entry ul item = trim_dots (TrimPrefix (ToLower ul (TrimSpace item)) ''*.'')"

definition empty_filter :: "excludeFilter option \<Rightarrow> bool" where
  "empty_filter f = (case f of None \<Rightarrow> True
     | Some f \<Rightarrow> ef_suffixes f = [] \<and> ef_prefixes f = [] \<and> ef_ports f = [])"

primrec add_hosts :: "(nat \<Rightarrow> nat) \<Rightarrow> string list \<Rightarrow> string list \<Rightarrow> exclude_error + string list" where
  "add_hosts ul [] sfxs = Inr sfxs"
| "add_hosts ul (item # items) sfxs =
    (let entry = host_entry ul item in
     if entry = [] then Inl EmptyHost
     else if \<exists>c\<in>set entry. c = CHR ''/'' \<or> c = CHR '' '' \<or> c = CHR 0x09 then Inl (HostNotSuffix item)
     else if ParseAddr entry \<noteq> None then Inl (HostIsAddress item)
     else if entry \<in> set sfxs then Inl (DuplicateHost entry)
     else add_hosts ul items (sfxs @ [entry]))"

definition parseExcludePrefix :: "string \<Rightarrow> exclude_error + addr_prefix" where
  "parseExcludePrefix entry =
    (if CHR ''/'' \<in> set entry then
       (case ParsePrefix entry of
          None \<Rightarrow> Inl (BadPrefix entry)
        | Some pfx \<Rightarrow> if Masked pfx \<noteq> pfx then Inl (HostBitsSet entry) else Inr pfx)
     else
       (case ParseAddr entry of
          None \<Rightarrow> Inl (BadAddress entry)
        | Some a \<Rightarrow> Inr (PrefixFrom a (BitLen a))))"

primrec add_ips :: "string list \<Rightarrow> string list \<Rightarrow> addr_prefix list \<Rightarrow> exclude_error + addr_prefix list" where
  "add_ips [] seenPrefix pfxs = Inr pfxs"
| "add_ips (item # items) seenPrefix pfxs =
    (let entry = TrimSpace item in
     if entry = [] then Inl EmptyIP
     else case parseExcludePrefix entry of
       Inl e \<Rightarrow> Inl e
     | Inr pfx \<Rightarrow>
         let key = prefix_String pfx in
         if key \<in> set seenPrefix then Inl (DuplicateIP key)
         else add_ips items (key # seenPrefix) (pfxs @ [pfx]))"

primrec add_ports :: "u16 list \<Rightarrow> u16 list \<Rightarrow> exclude_error + u16 list" where
  "add_ports [] seenPort = Inr seenPort"
| "add_ports (port # ports) seenPort =
    (if port = 0 then Inl PortZero
     else if port \<in> set seenPort then Inl (DuplicatePort port)
     else add_ports ports (seenPort @ [port]))"

definition newExcludeFilter :: "(nat \<Rightarrow> nat) \<Rightarrow> string list \<Rightarrow> string list \<Rightarrow> u16 list \<Rightarrow>
    exclude_error + excludeFilter option" where
  "newExcludeFilter ul hosts ips ports =
    (case add_hosts ul hosts [] of Inl e \<Rightarrow> Inl e
     | Inr sfxs \<Rightarrow> (case add_ips ips [] [] of Inl e \<Rightarrow> Inl e
       | Inr pfxs \<Rightarrow> (case add_ports ports [] of Inl e \<Rightarrow> Inl e
         | Inr seen \<Rightarrow>
             let f = \<lparr>ef_suffixes = sfxs, ef_prefixes = pfxs, ef_ports = seen\<rparr> in
             Inr (if empty_filter (Some f) then None else Some f))))"

section \<open>Asking it\<close>

definition auditHostSourceSniff :: string where "auditHostSourceSniff = ''sniff''"
definition auditHostSourceFqdn :: string where "auditHostSourceFqdn = ''fqdn''"
definition auditHostSourceIP :: string where "auditHostSourceIP = ''ip''"

definition match :: "(nat \<Rightarrow> nat) \<Rightarrow> excludeFilter option \<Rightarrow> string \<Rightarrow> string \<Rightarrow> u16 \<Rightarrow> bool" where
  "match ul f host source port =
    (case f of None \<Rightarrow> False
     | Some g \<Rightarrow>
       if empty_filter f then False
       else if port \<in> set (ef_ports g) then True
       else if host = [] then False
       else if source = auditHostSourceIP then
         (case ParseAddr host of
            None \<Rightarrow> False
          | Some a \<Rightarrow> list_ex (\<lambda>pfx. Contains pfx (Unmap a)) (ef_prefixes g))
       else
         let lowered = ToLower ul host in
         list_ex (\<lambda>d. lowered = d \<or> suffix (CHR ''.'' # d) lowered) (ef_suffixes g))"

definition describe :: "excludeFilter option \<Rightarrow> string list \<times> string list \<times> u16 list" where
  "describe f =
    (if empty_filter f then ([], [], [])
     else case f of None \<Rightarrow> ([], [], [])
       | Some g \<Rightarrow> (ef_suffixes g, map prefix_String (ef_prefixes g), sort (ef_ports g)))"

section \<open>What a built filter looks like\<close>

definition ok_suffix :: "string \<Rightarrow> bool" where
  "ok_suffix d \<longleftrightarrow> d \<noteq> [] \<and> hd d \<noteq> CHR ''.'' \<and> last d \<noteq> CHR ''.'' \<and> ParseAddr d = None \<and>
    CHR ''/'' \<notin> set d \<and> CHR '' '' \<notin> set d"

lemma trim_dots_ends:
  assumes "trim_dots s \<noteq> []"
  shows "hd (trim_dots s) \<noteq> CHR ''.''" "last (trim_dots s) \<noteq> CHR ''.''"
proof -
  let ?P = "\<lambda>c. c = CHR ''.''"
  let ?t = "dropWhile ?P s"
  have t: "trim_dots s = rev (dropWhile ?P (rev ?t))" by (simp add: trim_dots_def)
  with assms have "dropWhile ?P (rev ?t) \<noteq> []" by simp
  from hd_dropWhile [OF this] show "last (trim_dots s) \<noteq> CHR ''.''"
    using t assms by (simp add: last_rev)
  have eq: "?t = trim_dots s @ rev (takeWhile ?P (rev ?t))"
    unfolding t by (metis rev_append rev_rev_ident takeWhile_dropWhile_id)
  have "hd ?t = hd (trim_dots s)" by (subst eq) (simp add: assms)
  moreover have "?t \<noteq> []" by (subst eq) (simp add: assms)
  ultimately show "hd (trim_dots s) \<noteq> CHR ''.''" using hd_dropWhile [of ?P s] by auto
qed

lemma add_hosts_ok:
  assumes "add_hosts ul items acc = Inr out" and "\<forall>d\<in>set acc. ok_suffix d" and "distinct acc"
  shows "(\<forall>d\<in>set out. ok_suffix d) \<and> distinct out \<and> set out = set acc \<union> host_entry ul ` set items"
  using assms
proof (induction items arbitrary: acc)
  case (Cons item items)
  let ?e = "host_entry ul item"
  from Cons.prems(1) have step: "?e \<noteq> []" "ParseAddr ?e = None" "?e \<notin> set acc"
      "CHR ''/'' \<notin> set ?e" "CHR '' '' \<notin> set ?e" "add_hosts ul items (acc @ [?e]) = Inr out"
    by (auto simp: Let_def split: if_splits)
  have "ok_suffix ?e"
    using step trim_dots_ends [of "TrimPrefix (ToLower ul (TrimSpace item)) ''*.''"]
    by (simp add: ok_suffix_def host_entry_def)
  with Cons.IH [OF step(6)] Cons.prems(2,3) step(3) show ?case by auto
qed simp

lemma add_ports_ok:
  assumes "add_ports ports acc = Inr out" and "0 \<notin> set acc" and "distinct acc"
  shows "0 \<notin> set out \<and> distinct out \<and> set out = set acc \<union> set ports"
  using assms
proof (induction ports arbitrary: acc)
  case (Cons p ports)
  then have "p \<noteq> 0" "p \<notin> set acc" "add_ports ports (acc @ [p]) = Inr out"
    by (auto split: if_splits)
  with Cons.IH [of "acc @ [p]"] Cons.prems show ?case by auto
qed simp

lemma add_ips_masked:
  assumes "add_ips items seen acc = Inr out" and "\<forall>p\<in>set acc. Masked p = p"
  shows "\<forall>p\<in>set out. Masked p = p"
  using assms
proof (induction items arbitrary: seen acc)
  case (Cons item items)
  have full: "Masked (PrefixFrom a (BitLen a)) = PrefixFrom a (BitLen a)" for a
    by (cases a) (simp_all add: Masked_def PrefixFrom_def)
  from Cons.prems(1) obtain p where p: "parseExcludePrefix (TrimSpace item) = Inr p"
      "add_ips items (prefix_String p # seen) (acc @ [p]) = Inr out"
    by (auto simp: Let_def split: if_splits sum.splits)
  then have "Masked p = p"
    by (auto simp: parseExcludePrefix_def full split: if_splits option.splits)
  with Cons.IH [OF p(2)] Cons.prems(2) show ?case by simp
qed simp

section \<open>Properties\<close>

text \<open>A filter that was accepted is in normal form: host suffixes are non-empty, distinct, do
  not start or end with a dot and are not addresses; networks carry no host bits; ports are
  distinct and not zero, and the ports are exactly those configured.\<close>

theorem newExcludeFilter_normal:
  assumes "newExcludeFilter ul hosts ips ports = Inr (Some f)"
  shows "(\<forall>d\<in>set (ef_suffixes f). ok_suffix d) \<and> distinct (ef_suffixes f) \<and>
    (\<forall>p\<in>set (ef_prefixes f). Masked p = p) \<and>
    distinct (ef_ports f) \<and> 0 \<notin> set (ef_ports f) \<and> set (ef_ports f) = set ports"
  using assms add_hosts_ok [of ul hosts "[]"] add_ips_masked [of ips "[]" "[]"] add_ports_ok [of ports "[]"]
  by (auto simp: newExcludeFilter_def Let_def split: sum.splits if_splits)

theorem newExcludeFilter_normal_witness:
  "distinct [123 :: u16, 53] \<and> 0 \<notin> set [123 :: u16, 53]"
proof -
  have "newExcludeFilter id [] [] [123, 53] = Inr (Some \<lparr>ef_suffixes = [], ef_prefixes = [], ef_ports = [123, 53]\<rparr>)"
    by (simp add: newExcludeFilter_def empty_filter_def Let_def)
  from newExcludeFilter_normal [OF this] show ?thesis by simp
qed

text \<open>A host suffix excludes whole labels only: for a name in lower case, a connection with a
  sniffed or resolved name (whose port is not excluded) is excluded exactly when the name is a
  configured suffix or ends in a dot followed by one.\<close>

theorem match_host:
  assumes "f = Some g" and "source \<noteq> auditHostSourceIP" and "port \<notin> set (ef_ports g)"
    and "host \<noteq> []" and "ToLower ul host = host"
  shows "match ul f host source port \<longleftrightarrow>
    (\<exists>d\<in>set (ef_suffixes g). host = d \<or> (\<exists>sub. host = sub @ ''.'' @ d))"
  using assms
  by (auto simp: match_def empty_filter_def list_ex_iff suffix_def)

definition demo_filter :: excludeFilter where
  "demo_filter = \<lparr>ef_suffixes = [''github.com''], ef_prefixes = [], ef_ports = [123]\<rparr>"

theorem match_host_witness:
  "match id (Some demo_filter) ''api.github.com'' ''sniff'' 443 \<and>
   \<not> match id (Some demo_filter) ''evilgithub.com'' ''sniff'' 443"
proof -
  have low: "ToLower id h = h" if "h = ''api.github.com'' \<or> h = ''evilgithub.com''" for h
    using that by (elim disjE) (simp_all, code_simp+)
  show ?thesis
    using match_host [of "Some demo_filter" demo_filter "''sniff''" 443 "''api.github.com''" id]
      match_host [of "Some demo_filter" demo_filter "''sniff''" 443 "''evilgithub.com''" id] low
    by (simp add: demo_filter_def auditHostSourceIP_def append_eq_Cons_conv Cons_eq_append_conv)
qed

text \<open>Ports are judged first and alone: an excluded port excludes every connection to it,
  whatever the host, even when none is known; and the nil filter excludes nothing.\<close>

theorem match_port:
  assumes "port \<in> set (ef_ports g)"
  shows "match ul (Some g) host source port \<and> \<not> match ul None host source port"
  using assms by (auto simp: match_def empty_filter_def)

theorem match_port_witness:
  "match id (Some demo_filter) [] ''ip'' 123 \<and> \<not> match id None [] ''ip'' 123"
  by (rule match_port) (simp add: demo_filter_def)

end
