(* ===== verification/Quota_Cell.thy ===== *)
theory Quota_Cell
  imports Counter
begin

text \<open>
  \<^verbatim>\<open>sing-box-plus/internal/userstats/quota.go\<close>, first half: the cut-off cell of one lineage
  (\<open>quotaCell\<close>), the policy and the control-plane state (\<open>quotaPolicy\<close>, \<open>quotaState\<close>). A cell's
  operations are modelled twice: as functions (nobody interferes), and as sequences of the
  single atomic loads and stores they consist of, interleaved with those of one other goroutine.
\<close>

section \<open>The cell\<close>

definition quotaUnlimited :: "32 word" where
  "quotaUnlimited = 0"

definition quotaLimited :: "32 word" where
  "quotaLimited = 1"

record quotaCell =
  qc_state :: "32 word"
  qc_remaining :: i64
  qc_throttleUntilNanos :: i64

definition zero_quotaCell :: quotaCell where
  "zero_quotaCell = \<lparr>qc_state = 0, qc_remaining = 0, qc_throttleUntilNanos = 0\<rparr>"

definition cell_init :: "quotaCell \<Rightarrow> quotaCell" where
  "cell_init c = c\<lparr>qc_state := quotaUnlimited\<rparr>"

definition consume :: "quotaCell \<Rightarrow> i64 \<Rightarrow> bool \<times> quotaCell" where
  "consume c delta =
    (if qc_state c = quotaUnlimited then (False, c)
     else let r = wrap64 (qc_remaining c - delta) in (r \<le> 0, c\<lparr>qc_remaining := r\<rparr>))"

definition exhausted :: "quotaCell \<Rightarrow> bool" where
  "exhausted c = (if qc_state c = quotaUnlimited then False else qc_remaining c \<le> 0)"

definition setLimited :: "i64 \<Rightarrow> quotaCell \<Rightarrow> quotaCell" where
  "setLimited remaining c =
    (let c = c\<lparr>qc_remaining := remaining\<rparr> in c\<lparr>qc_state := quotaLimited\<rparr>)"

definition setUnlimited :: "quotaCell \<Rightarrow> quotaCell" where
  "setUnlimited c =
    (let c = c\<lparr>qc_state := quotaUnlimited\<rparr> in c\<lparr>qc_remaining := 0\<rparr>)"

definition throttled :: "quotaCell \<Rightarrow> i64 \<Rightarrow> bool" where
  "throttled c nowNanos =
    (let until = qc_throttleUntilNanos c in until \<noteq> 0 \<and> nowNanos < until)"

definition markThrottle :: "i64 \<Rightarrow> quotaCell \<Rightarrow> quotaCell" where
  "markThrottle untilNanos c = c\<lparr>qc_throttleUntilNanos := untilNanos\<rparr>"

lemmas cell_defs = zero_quotaCell_def cell_init_def consume_def exhausted_def setLimited_def
  setUnlimited_def throttled_def markThrottle_def quotaUnlimited_def quotaLimited_def

lemma limited_neq_unlimited [simp]: "quotaLimited \<noteq> quotaUnlimited"
  by (simp add: cell_defs)

lemma exhausted_setLimited [simp]: "exhausted (setLimited r c) \<longleftrightarrow> r \<le> 0"
  by (simp add: cell_defs)

lemma exhausted_setUnlimited [simp]: "\<not> exhausted (setUnlimited c)"
  by (simp add: cell_defs)

lemma throttled_setLimited [simp]: "throttled (setLimited r c) = throttled c"
  by (simp add: cell_defs fun_eq_iff)

lemma throttled_setUnlimited [simp]: "throttled (setUnlimited c) = throttled c"
  by (simp add: cell_defs fun_eq_iff)

lemma throttled_mark [simp]: "throttled (markThrottle u c) now \<longleftrightarrow> u \<noteq> 0 \<and> now < u"
  by (simp add: cell_defs)

lemma exhausted_mark [simp]: "exhausted (markThrottle u c) = exhausted c"
  by (simp add: cell_defs)

lemma consume_exhausted: "consume c d = (b, c') \<Longrightarrow> b \<longleftrightarrow> exhausted c'"
  by (auto simp: cell_defs Let_def split: if_splits)

lemma throttled_consume [simp]: "throttled (snd (consume c d)) = throttled c"
  by (simp add: cell_defs Let_def fun_eq_iff)

section \<open>The interface of a budget\<close>

text \<open>
  What admission and accounting rely on: setting a limit makes the budget known, each callback
  takes its bytes off it and reports whether it is used up. The callbacks of a run then report
  exhaustion exactly from the point on where their bytes reach the limit.
\<close>

primrec consume_all :: "('c \<Rightarrow> int \<Rightarrow> bool \<times> 'c) \<Rightarrow> 'c \<Rightarrow> int list \<Rightarrow> bool list \<times> 'c" where
  "consume_all f c [] = ([], c)"
| "consume_all f c (d # ds) =
    (let (b, c') = f c d; (bs, c'') = consume_all f c' ds in (b # bs, c''))"

locale budget =
  fixes limit :: "int \<Rightarrow> 'c \<Rightarrow> 'c"
    and take_off :: "'c \<Rightarrow> int \<Rightarrow> bool \<times> 'c"
    and left :: "'c \<Rightarrow> int option"
    and fits :: "int \<Rightarrow> bool"
  assumes left_limit: "fits r \<Longrightarrow> left (limit r c) = Some r"
    and left_take: "left c = Some r \<Longrightarrow> fits (r - d) \<Longrightarrow> left (snd (take_off c d)) = Some (r - d)"
    and report: "left c = Some r \<Longrightarrow> fits (r - d) \<Longrightarrow> fst (take_off c d) \<longleftrightarrow> r - d \<le> 0"
begin

lemma run_reports:
  assumes "left c = Some r" and "\<forall>d\<in>set ds. 0 \<le> d"
    and "\<And>x. r - sum_list ds \<le> x \<Longrightarrow> x \<le> r \<Longrightarrow> fits x"
  shows "fst (consume_all take_off c ds) =
    map (\<lambda>n. r - sum_list (take (Suc n) ds) \<le> 0) [0..<length ds] \<and>
    left (snd (consume_all take_off c ds)) = Some (r - sum_list ds)"
  using assms
proof (induction ds arbitrary: c r)
  case Nil
  then show ?case by simp
next
  case (Cons d ds)
  obtain b c' where step: "take_off c d = (b, c')" by fastforce
  have sum: "0 \<le> sum_list ds" using Cons.prems(2) by (auto intro: sum_list_nonneg)
  then have fits: "fits (r - d)" using Cons.prems(2) by (intro Cons.prems(3)) auto
  have b: "b \<longleftrightarrow> r - d \<le> 0" and c': "left c' = Some (r - d)"
    using left_take [OF Cons.prems(1) fits] report [OF Cons.prems(1) fits] step by auto
  have rest: "fst (consume_all take_off c' ds) =
      map (\<lambda>n. r - d - sum_list (take (Suc n) ds) \<le> 0) [0..<length ds] \<and>
      left (snd (consume_all take_off c' ds)) = Some (r - d - sum_list ds)"
    using Cons.prems(2) by (intro Cons.IH [OF c']) (auto intro!: Cons.prems(3))
  have shift: "map f [0..<Suc n] = f 0 # map (\<lambda>i. f (Suc i)) [0..<n]" for f :: "nat \<Rightarrow> bool" and n
    by (simp add: upt_conv_Cons map_Suc_upt [symmetric] del: upt_Suc)
  show ?case
    using rest b step by (auto simp: shift diff_diff_eq split: prod.splits simp del: upt_Suc)
qed

end

definition cell_left :: "quotaCell \<Rightarrow> int option" where
  "cell_left c = (if qc_state c = quotaUnlimited then None else Some (qc_remaining c))"

interpretation cell: budget setLimited consume cell_left in_i64
  by unfold_locales (auto simp: cell_left_def consume_def setLimited_def Let_def split: if_splits)

section \<open>Two goroutines on one cell\<close>

text \<open>
  The table writer runs a list of atomic stores. The data plane runs one call of \<open>exhausted\<close> or
  of \<open>consume\<close>: first the load of the state, then (if that was not \<open>quotaUnlimited\<close>) the load of
  the remaining bytes, or their atomic decrement. A schedule says who moves next.
\<close>

datatype cell_store = StoreState "32 word" | StoreRemaining i64

primrec do_store :: "cell_store \<Rightarrow> quotaCell \<Rightarrow> quotaCell" where
  "do_store (StoreState w) c = c\<lparr>qc_state := w\<rparr>"
| "do_store (StoreRemaining r) c = c\<lparr>qc_remaining := r\<rparr>"

definition setLimited_stores :: "i64 \<Rightarrow> cell_store list" where
  "setLimited_stores r = [StoreRemaining r, StoreState quotaLimited]"

definition setUnlimited_stores :: "cell_store list" where
  "setUnlimited_stores = [StoreState quotaUnlimited, StoreRemaining 0]"

lemma stores_setLimited: "fold do_store (setLimited_stores r) c = setLimited r c"
  by (simp add: setLimited_stores_def setLimited_def)

lemma stores_setUnlimited: "fold do_store setUnlimited_stores c = setUnlimited c"
  by (simp add: setUnlimited_stores_def setUnlimited_def)

datatype cell_call = CallExhausted | CallConsume i64

datatype reader_pc = ReadState | ReadRemaining | ReaderDone bool

primrec reader_move :: "cell_call \<Rightarrow> reader_pc \<Rightarrow> quotaCell \<Rightarrow> reader_pc \<times> quotaCell" where
  "reader_move call ReadState c =
    (if qc_state c = quotaUnlimited then ReaderDone False else ReadRemaining, c)"
| "reader_move call ReadRemaining c =
    (case call of
       CallExhausted \<Rightarrow> (ReaderDone (qc_remaining c \<le> 0), c)
     | CallConsume d \<Rightarrow>
        (let r = wrap64 (qc_remaining c - d) in (ReaderDone (r \<le> 0), c\<lparr>qc_remaining := r\<rparr>)))"
| "reader_move call (ReaderDone b) c = (ReaderDone b, c)"

datatype turn = Writer | Reader

fun race :: "cell_call \<Rightarrow> turn list \<Rightarrow> cell_store list \<Rightarrow> reader_pc \<Rightarrow> quotaCell \<Rightarrow>
    cell_store list \<times> reader_pc \<times> quotaCell" where
  "race call [] ws pc c = (ws, pc, c)"
| "race call (Writer # ts) [] pc c = race call ts [] pc c"
| "race call (Writer # ts) (w # ws) pc c = race call ts ws pc (do_store w c)"
| "race call (Reader # ts) ws pc c = (case reader_move call pc c of (pc', c') \<Rightarrow> race call ts ws pc' c')"

text \<open>Alone, the data plane's atomic steps compute what the functions above say.\<close>

lemma race_alone_exhausted: "race CallExhausted [Reader, Reader] [] ReadState c = ([], ReaderDone (exhausted c), c)"
  by (simp add: exhausted_def)

lemma race_alone_consume:
  "race (CallConsume d) [Reader, Reader] [] ReadState c = ([], ReaderDone (fst (consume c d)), snd (consume c d))"
  by (simp add: consume_def Let_def)

text \<open>
  While a positive limit is being set, the reader can only pass the state check with a positive
  amount in the cell: \<open>limit_safe\<close> holds before every step.
\<close>

definition limit_safe :: "i64 \<Rightarrow> cell_store list \<Rightarrow> reader_pc \<Rightarrow> quotaCell \<Rightarrow> bool" where
  "limit_safe r ws pc c \<longleftrightarrow> pc \<noteq> ReaderDone True \<and>
    (ws = setLimited_stores r \<and> (qc_state c = quotaUnlimited \<longrightarrow> pc \<noteq> ReadRemaining) \<and>
       (qc_state c \<noteq> quotaUnlimited \<longrightarrow> qc_remaining c > 0) \<or>
     (ws = [StoreState quotaLimited] \<or> ws = []) \<and> qc_remaining c > 0)"

lemma limit_safe_race:
  assumes "limit_safe r ws pc c" "r > 0"
  shows "(case race CallExhausted ts ws pc c of (ws', pc', c') \<Rightarrow> limit_safe r ws' pc' c')"
  using assms
proof (induction CallExhausted ts ws pc c rule: race.induct)
  case (3 ts w ws pc c)
  then have "limit_safe r ws pc (do_store w c)"
    by (auto simp: limit_safe_def setLimited_stores_def)
  with "3.hyps" "3.prems" show ?case by simp
next
  case (4 ts ws pc c)
  then have "limit_safe r ws (fst (reader_move CallExhausted pc c)) (snd (reader_move CallExhausted pc c))"
    by (cases pc) (auto simp: limit_safe_def)
  with 4 show ?case by (auto split: prod.splits)
qed auto

section \<open>Policy and control-plane state\<close>

type_synonym QuotaAction = string

definition QuotaActionAllow :: QuotaAction where
  "QuotaActionAllow = ''allow''"

definition QuotaActionDeny :: QuotaAction where
  "QuotaActionDeny = ''deny''"

record quotaPolicy =
  qp_enabled :: bool
  qp_startupAction :: QuotaAction
  qp_staleAction :: QuotaAction
  qp_staleAfter :: i64
  qp_reconnectThrottle :: i64

definition disabled_policy :: quotaPolicy where
  "disabled_policy = \<lparr>qp_enabled = False, qp_startupAction = QuotaActionAllow,
    qp_staleAction = QuotaActionAllow, qp_staleAfter = 0, qp_reconnectThrottle = 0\<rparr>"

record quotaState =
  qs_policy :: quotaPolicy
  qs_epoch :: u64
  qs_accepted :: bool
  qs_lastAcceptedNanos :: i64
  qs_appliedEntries :: i64
  qs_lastAppliedUnixMs :: i64
  qs_rejectedByRuntime :: i64
  qs_rejectedByEpoch :: i64
  qs_rejectedByUnknown :: i64
  qs_throttledConnCount :: i64

definition quotaState_init :: quotaState where
  "quotaState_init = \<lparr>qs_policy = disabled_policy, qs_epoch = 0, qs_accepted = False,
    qs_lastAcceptedNanos = 0, qs_appliedEntries = 0, qs_lastAppliedUnixMs = 0,
    qs_rejectedByRuntime = 0, qs_rejectedByEpoch = 0, qs_rejectedByUnknown = 0,
    qs_throttledConnCount = 0\<rparr>"

record QuotaEntry =
  qe_InboundTag :: string
  qe_Name :: string
  qe_RemainingBytes :: i64

section \<open>Properties\<close>

text \<open>C29. A lineage limited to \<open>r\<close> bytes is reported exhausted by exactly those accounting
  callbacks at which the bytes of the run so far reach \<open>r\<close>: none earlier, all from then on. The
  remaining amount is exact as long as it stays in the range of \<open>int64\<close>.\<close>

theorem consume_cuts_at_limit:
  assumes "in_i64 r" and "\<forall>d\<in>set ds. 0 \<le> d" and "in_i64 (r - sum_list ds)"
  shows "fst (consume_all consume (setLimited r c) ds) =
    map (\<lambda>n. r \<le> sum_list (take (Suc n) ds)) [0..<length ds] \<and>
    qc_remaining (snd (consume_all consume (setLimited r c) ds)) = r - sum_list ds"
proof -
  have "fst (consume_all consume (setLimited r c) ds) =
      map (\<lambda>n. r - sum_list (take (Suc n) ds) \<le> 0) [0..<length ds] \<and>
      cell_left (snd (consume_all consume (setLimited r c) ds)) = Some (r - sum_list ds)"
    using assms by (intro cell.run_reports cell.left_limit) (auto simp: in_i64_def)
  then show ?thesis
    by (auto simp: cell_left_def split: if_splits)
qed

theorem consume_cuts_at_limit_witness:
  "fst (consume_all consume (setLimited 10 zero_quotaCell) [4, 5, 1, 7]) = [False, False, True, True]"
  using consume_cuts_at_limit [of 10 "[4, 5, 1, 7]" zero_quotaCell]
  by (simp add: in_i64_def upt_rec)

text \<open>The order of the two stores of \<open>setLimited\<close> is safe against a concurrent admission check:
  while a positive limit is set on a cell that was unlimited or still had bytes, \<open>exhausted\<close>
  never answers true, whatever the interleaving.\<close>

theorem setLimited_race_safe:
  assumes "0 < r" and "\<not> exhausted c"
  shows "fst (snd (race CallExhausted ts (setLimited_stores r) ReadState c)) \<noteq> ReaderDone True"
proof -
  have "limit_safe r (setLimited_stores r) ReadState c"
    using assms by (auto simp: limit_safe_def exhausted_def split: if_splits)
  from limit_safe_race [OF this assms(1), of ts] show ?thesis
    by (auto simp: limit_safe_def split: prod.splits)
qed

theorem setLimited_race_safe_witness:
  "fst (snd (race CallExhausted [Writer, Reader, Writer, Reader] (setLimited_stores 100) ReadState
     zero_quotaCell)) \<noteq> ReaderDone True"
  by (rule setLimited_race_safe) (simp_all add: cell_defs)

text \<open>C37. The order of the two stores of \<open>setUnlimited\<close> is not: a lineage with any number of bytes
  left that is being freed can be judged exhausted. The admission check and the accounting
  callback load the state before the first store and the remaining bytes after the second.
  The comment of \<open>setLimited\<close> and \<open>setUnlimited\<close> claims that the two stores are equivalent to
  an atomic switch as far as wrong cut-offs are concerned.\<close>

theorem setUnlimited_race_cuts_wrongly:
  assumes "qc_state c = quotaLimited" and "0 < d" and "in_i64 (- d)"
  shows "(\<exists>ts. race CallExhausted ts setUnlimited_stores ReadState c =
      ([], ReaderDone True, setUnlimited c)) \<and>
    (\<exists>ts. fst (snd (race (CallConsume d) ts setUnlimited_stores ReadState c)) = ReaderDone True)"
proof -
  let ?ts = "[Reader, Writer, Writer, Reader]"
  have "race CallExhausted ?ts setUnlimited_stores ReadState c =
      ([], ReaderDone True, setUnlimited c)"
    using assms by (simp add: setUnlimited_stores_def setUnlimited_def)
  moreover have "fst (snd (race (CallConsume d) ?ts setUnlimited_stores ReadState c)) = ReaderDone True"
    using assms by (simp add: setUnlimited_stores_def Let_def)
  ultimately show ?thesis by blast
qed

theorem setUnlimited_race_cuts_wrongly_witness:
  "\<exists>ts. race CallExhausted ts setUnlimited_stores ReadState (setLimited 1000000 zero_quotaCell) =
      ([], ReaderDone True, setUnlimited (setLimited 1000000 zero_quotaCell))"
  using setUnlimited_race_cuts_wrongly [of "setLimited 1000000 zero_quotaCell" 1]
  by (simp add: setLimited_def in_i64_def)

end
