(* ===== verification/Options.thy ===== *)
theory Options
  imports Exclude Quota_Cell
begin

text \<open>
  \<^verbatim>\<open>sing-box-plus/internal/userstats/options.go\<close>: the configuration of the service and its
  \<open>normalize\<close>, which fills the defaults in and refuses what is out of range. \<open>user.LookupGroup\<close>
  (does the operating system know a group) and the table of \<open>unicode.ToLower\<close> are arguments.
\<close>

section \<open>Options and errors\<close>

definition defaultMaxIdentities :: i64 where "defaultMaxIdentities = 4096"
definition defaultReadTimeout :: i64 where "defaultReadTimeout = 5000000000"
definition defaultWriteTimeout :: i64 where "defaultWriteTimeout = 5000000000"
definition defaultMaxConcurrency :: i64 where "defaultMaxConcurrency = 8"
definition defaultMaxRequestBytes :: i64 where "defaultMaxRequestBytes = 65536"
definition defaultQuotaRequestBytes :: i64 where "defaultQuotaRequestBytes = 4194304"
definition defaultAuditQueueSize :: i64 where "defaultAuditQueueSize = 8192"
definition defaultAuditFlushMs :: i64 where "defaultAuditFlushMs = 1000"
definition defaultAuditMaxBytes :: i64 where "defaultAuditMaxBytes = 16777216"
definition defaultAuditMaxOpenFiles :: i64 where "defaultAuditMaxOpenFiles = 256"
definition defaultAuditMaxTotalBytes :: i64 where "defaultAuditMaxTotalBytes = 2147483648"
definition maxUnixPathBytes :: nat where "maxUnixPathBytes = 103"

lemmas option_defaults = defaultMaxIdentities_def defaultReadTimeout_def defaultWriteTimeout_def
  defaultMaxConcurrency_def defaultMaxRequestBytes_def defaultQuotaRequestBytes_def
  defaultAuditQueueSize_def defaultAuditFlushMs_def defaultAuditMaxBytes_def
  defaultAuditMaxOpenFiles_def defaultAuditMaxTotalBytes_def

record AccessLogOptions =
  al_Directory :: string
  al_MaxBytes :: i64
  al_MaxTotalBytes :: i64
  al_FlushIntervalMs :: i64
  al_QueueSize :: i64
  al_MaxOpenFiles :: i64
  al_ExcludeHosts :: "string list"
  al_ExcludeIPs :: "string list"
  al_ExcludePorts :: "u16 list"

record QuotaControlOptions =
  qo_ListenPath :: string
  qo_StartupAction :: string
  qo_StaleAfter :: i64
  qo_StaleAction :: string
  qo_ReconnectThrottle :: i64
  qo_MaxRequestBytes :: i64

record Options =
  opt_NodeID :: string
  opt_ListenPath :: string
  opt_SocketGroup :: string
  opt_SocketMode :: string
  opt_MaxIdentities :: i64
  opt_Inbounds :: "string list"
  opt_DrainTimeout :: i64
  opt_ReadTimeout :: i64
  opt_WriteTimeout :: i64
  opt_MaxConcurrency :: i64
  opt_MaxRequestBytes :: i64
  opt_AccessLog :: "AccessLogOptions option"
  opt_QuotaControl :: "QuotaControlOptions option"

datatype option_error =
  FieldEmpty string
| FieldTooLong string nat
| NotPrintable string nat
| NotAbsolute string string
| NoInbounds
| DuplicateTag string
| NotPositive string
| Negative string
| TooSmall string
| BadSocketMode string
| GroupNeeds0660 string
| GroupUnknown string
| SamePath
| TotalBelowFile
| BadExclude exclude_error
| BadAction string string
| DenyNeedsStaleAfter

definition or_default :: "i64 \<Rightarrow> i64 \<Rightarrow> i64" where
  "or_default d x = (if x = 0 then d else x)"

section \<open>Tokens and socket paths\<close>

primrec token_bytes :: "string \<Rightarrow> nat \<Rightarrow> string \<Rightarrow> option_error option" where
  "token_bytes field index [] = None"
| "token_bytes field index (c # cs) =
    (if of_char c \<le> (0x20 :: nat) \<or> of_char c \<ge> (0x7f :: nat) then Some (NotPrintable field index)
     else token_bytes field (Suc index) cs)"

definition validateToken :: "string \<Rightarrow> string \<Rightarrow> option_error option" where
  "validateToken field s =
    (if s = [] then Some (FieldEmpty field)
     else if length s > 128 then Some (FieldTooLong field (length s))
     else token_bytes field 0 s)"

definition validateSocketPath :: "string \<Rightarrow> string \<Rightarrow> option_error option" where
  "validateSocketPath field path =
    (if path = [] then Some (FieldEmpty field)
     else if \<not> prefix ''/'' path then Some (NotAbsolute field path)
     else if length path > maxUnixPathBytes then Some (FieldTooLong field (length path))
     else None)"

section \<open>Normalizing\<close>

definition AccessLog_normalize :: "(nat \<Rightarrow> nat) \<Rightarrow> AccessLogOptions \<Rightarrow> option_error + AccessLogOptions" where
  "AccessLog_normalize ul o1 =
    (if al_Directory o1 = [] then Inl (FieldEmpty ''access_log.directory'')
     else if \<not> prefix ''/'' (al_Directory o1) then Inl (NotAbsolute ''access_log.directory'' (al_Directory o1))
     else let o2 = o1\<lparr>al_MaxBytes := or_default defaultAuditMaxBytes (al_MaxBytes o1),
                      al_MaxOpenFiles := or_default defaultAuditMaxOpenFiles (al_MaxOpenFiles o1)\<rparr> in
     if al_MaxOpenFiles o2 < 1 then Inl (NotPositive ''max_open_files'')
     else if al_MaxBytes o2 < 64 * 1024 then Inl (TooSmall ''max_bytes'')
     else let o3 = o2\<lparr>al_MaxTotalBytes := or_default defaultAuditMaxTotalBytes (al_MaxTotalBytes o2)\<rparr> in
     if al_MaxTotalBytes o3 < 0 then Inl (Negative ''max_total_bytes'')
     else if al_MaxTotalBytes o3 < al_MaxBytes o3 then Inl TotalBelowFile
     else let o4 = o3\<lparr>al_FlushIntervalMs := or_default defaultAuditFlushMs (al_FlushIntervalMs o3)\<rparr> in
     if al_FlushIntervalMs o4 < 10 then Inl (TooSmall ''flush_interval_ms'')
     else let o5 = o4\<lparr>al_QueueSize := or_default defaultAuditQueueSize (al_QueueSize o4)\<rparr> in
     if al_QueueSize o5 < 1 then Inl (NotPositive ''queue_size'')
     else case newExcludeFilter ul (al_ExcludeHosts o5) (al_ExcludeIPs o5) (al_ExcludePorts o5) of
       Inl e \<Rightarrow> Inl (BadExclude e)
     | Inr _ \<Rightarrow> Inr o5)"

primrec check_actions :: "(string \<times> string) list \<Rightarrow> option_error option" where
  "check_actions [] = None"
| "check_actions (p # ps) =
    (if snd p \<noteq> QuotaActionAllow \<and> snd p \<noteq> QuotaActionDeny then Some (BadAction (fst p) (snd p))
     else check_actions ps)"

text \<open>The two actions are in a Go map that is ranged over: \<open>swap\<close> is the order it came out in.\<close>

definition QuotaControl_normalize :: "bool \<Rightarrow> QuotaControlOptions \<Rightarrow> option_error + QuotaControlOptions" where
  "QuotaControl_normalize swap o1 =
    (case validateSocketPath ''quota_control.listen_path'' (qo_ListenPath o1) of
       Some e \<Rightarrow> Inl e
     | None \<Rightarrow>
     let o2 = o1\<lparr>qo_StartupAction := (if qo_StartupAction o1 = [] then QuotaActionAllow else qo_StartupAction o1),
                qo_StaleAction := (if qo_StaleAction o1 = [] then QuotaActionAllow else qo_StaleAction o1)\<rparr>;
         actions = [(''startup_action'', qo_StartupAction o2), (''stale_action'', qo_StaleAction o2)]
     in case check_actions (if swap then rev actions else actions) of
       Some e \<Rightarrow> Inl e
     | None \<Rightarrow>
     if qo_StaleAction o2 = QuotaActionDeny \<and> qo_StaleAfter o2 = 0 then Inl DenyNeedsStaleAfter
     else if qo_StaleAfter o2 < 0 then Inl (Negative ''stale_after'')
     else if qo_ReconnectThrottle o2 < 0 then Inl (Negative ''reconnect_throttle'')
     else let o3 = o2\<lparr>qo_MaxRequestBytes := or_default defaultQuotaRequestBytes (qo_MaxRequestBytes o2)\<rparr> in
     if qo_MaxRequestBytes o3 < 256 then Inl (TooSmall ''quota_control.max_request_bytes'')
     else Inr o3)"

primrec check_tags :: "string list \<Rightarrow> string list \<Rightarrow> option_error option" where
  "check_tags [] seen = None"
| "check_tags (tag # tags) seen =
    (case validateToken ''inbounds[]'' tag of
       Some e \<Rightarrow> Some e
     | None \<Rightarrow> if tag \<in> set seen then Some (DuplicateTag tag) else check_tags tags (tag # seen))"

definition check_socket :: "(string \<Rightarrow> bool) \<Rightarrow> Options \<Rightarrow> option_error option" where
  "check_socket group_known o1 =
    (if opt_SocketMode o1 \<noteq> [] \<and> opt_SocketMode o1 \<noteq> ''0600'' \<and> opt_SocketMode o1 \<noteq> ''0660''
     then Some (BadSocketMode (opt_SocketMode o1))
     else if opt_SocketGroup o1 \<noteq> [] then
       (if opt_SocketMode o1 \<noteq> ''0660'' then Some (GroupNeeds0660 (opt_SocketMode o1))
        else if \<not> group_known (opt_SocketGroup o1) then Some (GroupUnknown (opt_SocketGroup o1))
        else None)
     else None)"

definition normalize_parts :: "(nat \<Rightarrow> nat) \<Rightarrow> bool \<Rightarrow> Options \<Rightarrow> option_error + Options" where
  "normalize_parts ul swap o1 =
    (case (case opt_AccessLog o1 of None \<Rightarrow> Inr None
       | Some a \<Rightarrow> map_sum id Some (AccessLog_normalize ul a)) of
       Inl e \<Rightarrow> Inl e
     | Inr a \<Rightarrow>
     let o2 = o1\<lparr>opt_AccessLog := a\<rparr> in
     case opt_QuotaControl o2 of None \<Rightarrow> Inr o2
     | Some q \<Rightarrow>
       (case QuotaControl_normalize swap q of
          Inl e \<Rightarrow> Inl e
        | Inr q \<Rightarrow> if qo_ListenPath q = opt_ListenPath o2 then Inl SamePath
                  else Inr (o2\<lparr>opt_QuotaControl := Some q\<rparr>)))"

definition normalize :: "(nat \<Rightarrow> nat) \<Rightarrow> (string \<Rightarrow> bool) \<Rightarrow> bool \<Rightarrow> Options \<Rightarrow> option_error + Options" where
  "normalize ul group_known swap o1 =
    (case validateToken ''node_id'' (opt_NodeID o1) of Some e \<Rightarrow> Inl e
     | None \<Rightarrow> (case validateSocketPath ''listen_path'' (opt_ListenPath o1) of Some e \<Rightarrow> Inl e
     | None \<Rightarrow>
     if opt_Inbounds o1 = [] then Inl NoInbounds
     else case check_tags (opt_Inbounds o1) [] of Some e \<Rightarrow> Inl e
     | None \<Rightarrow>
     let o2 = o1\<lparr>opt_MaxIdentities := or_default defaultMaxIdentities (opt_MaxIdentities o1)\<rparr> in
     if opt_MaxIdentities o2 < 0 then Inl (NotPositive ''max_identities'')
     else if opt_DrainTimeout o2 < 0 then Inl (Negative ''drain_timeout'')
     else let o3 = o2\<lparr>opt_ReadTimeout := or_default defaultReadTimeout (opt_ReadTimeout o2),
                      opt_WriteTimeout := or_default defaultWriteTimeout (opt_WriteTimeout o2),
                      opt_MaxConcurrency := or_default defaultMaxConcurrency (opt_MaxConcurrency o2)\<rparr> in
     if opt_MaxConcurrency o3 < 1 then Inl (NotPositive ''max_concurrency'')
     else let o4 = o3\<lparr>opt_MaxRequestBytes := or_default defaultMaxRequestBytes (opt_MaxRequestBytes o3)\<rparr> in
     if opt_MaxRequestBytes o4 < 256 then Inl (TooSmall ''max_request_bytes'')
     else case check_socket group_known o4 of Some e \<Rightarrow> Inl e
     | None \<Rightarrow> normalize_parts ul swap o4))"

section \<open>What an accepted configuration looks like\<close>

definition ok_token :: "string \<Rightarrow> bool" where
  "ok_token s \<longleftrightarrow> s \<noteq> [] \<and> length s \<le> 128 \<and> list_all (\<lambda>c. 0x20 < (of_char c :: nat) \<and> of_char c < (0x7f :: nat)) s"

definition ok_path :: "string \<Rightarrow> bool" where
  "ok_path p \<longleftrightarrow> prefix ''/'' p \<and> length p \<le> maxUnixPathBytes"

lemma token_bytes_None: "token_bytes field n s = None \<longleftrightarrow>
    list_all (\<lambda>c. 0x20 < (of_char c :: nat) \<and> of_char c < (0x7f :: nat)) s"
  by (induction s arbitrary: n) auto

lemma validateToken_None: "validateToken field s = None \<longleftrightarrow> ok_token s"
  by (auto simp: validateToken_def ok_token_def token_bytes_None split: if_splits)

lemma validateSocketPath_None: "validateSocketPath field p = None \<longleftrightarrow> ok_path p"
  by (auto simp: validateSocketPath_def ok_path_def split: if_splits)

lemma check_tags_None:
  "check_tags tags seen = None \<longleftrightarrow> list_all ok_token tags \<and> distinct tags \<and> set tags \<inter> set seen = {}"
proof (induction tags arbitrary: seen)
  case (Cons tag tags)
  then show ?case
    using validateToken_None [of "''inbounds[]''" tag] by (cases "validateToken ''inbounds[]'' tag") auto
qed simp

lemma or_default_id [simp]: "d \<noteq> 0 \<Longrightarrow> or_default d (or_default d x) = or_default d x"
  by (simp add: or_default_def)

definition ok_access_log :: "(nat \<Rightarrow> nat) \<Rightarrow> AccessLogOptions \<Rightarrow> bool" where
  "ok_access_log ul a \<longleftrightarrow> prefix ''/'' (al_Directory a) \<and> 1 \<le> al_MaxOpenFiles a \<and>
    65536 \<le> al_MaxBytes a \<and> al_MaxBytes a \<le> al_MaxTotalBytes a \<and> 10 \<le> al_FlushIntervalMs a \<and>
    1 \<le> al_QueueSize a \<and>
    \<not> isl (newExcludeFilter ul (al_ExcludeHosts a) (al_ExcludeIPs a) (al_ExcludePorts a))"

definition ok_quota_control :: "QuotaControlOptions \<Rightarrow> bool" where
  "ok_quota_control q \<longleftrightarrow> ok_path (qo_ListenPath q) \<and>
    qo_StartupAction q \<in> {QuotaActionAllow, QuotaActionDeny} \<and>
    qo_StaleAction q \<in> {QuotaActionAllow, QuotaActionDeny} \<and>
    (qo_StaleAction q = QuotaActionDeny \<longrightarrow> qo_StaleAfter q > 0) \<and> qo_StaleAfter q \<ge> 0 \<and>
    qo_ReconnectThrottle q \<ge> 0 \<and> qo_MaxRequestBytes q \<ge> 256"

definition ok_options :: "(nat \<Rightarrow> nat) \<Rightarrow> (string \<Rightarrow> bool) \<Rightarrow> Options \<Rightarrow> bool" where
  "ok_options ul group_known x \<longleftrightarrow> ok_token (opt_NodeID x) \<and> ok_path (opt_ListenPath x) \<and>
    opt_Inbounds x \<noteq> [] \<and> list_all ok_token (opt_Inbounds x) \<and> distinct (opt_Inbounds x) \<and>
    opt_MaxIdentities x > 0 \<and> opt_DrainTimeout x \<ge> 0 \<and> opt_ReadTimeout x \<noteq> 0 \<and>
    opt_WriteTimeout x \<noteq> 0 \<and> opt_MaxConcurrency x \<ge> 1 \<and> opt_MaxRequestBytes x \<ge> 256 \<and>
    opt_SocketMode x \<in> {[], ''0600'', ''0660''} \<and>
    (opt_SocketGroup x \<noteq> [] \<longrightarrow> opt_SocketMode x = ''0660'' \<and> group_known (opt_SocketGroup x)) \<and>
    pred_option (ok_access_log ul) (opt_AccessLog x) \<and>
    pred_option (\<lambda>q. ok_quota_control q \<and> qo_ListenPath q \<noteq> opt_ListenPath x) (opt_QuotaControl x)"

lemma prefix_slash: "prefix ''/'' p \<longleftrightarrow> p \<noteq> [] \<and> hd p = CHR ''/''"
  by (cases p) auto

lemma AccessLog_ok: "AccessLog_normalize ul a = Inr b \<Longrightarrow> ok_access_log ul b"
  by (auto simp: AccessLog_normalize_def ok_access_log_def Let_def split: if_splits sum.splits)

lemma AccessLog_fixed: "ok_access_log ul a \<Longrightarrow> AccessLog_normalize ul a = Inr a"
  by (auto simp: AccessLog_normalize_def ok_access_log_def Let_def or_default_def prefix_slash split: sum.splits)

lemma check_actions_None: "check_actions ps = None \<longleftrightarrow>
    (\<forall>p\<in>set ps. snd p \<in> {QuotaActionAllow, QuotaActionDeny})"
  by (induction ps) auto

lemma QuotaControl_ok: "QuotaControl_normalize swap q = Inr p \<Longrightarrow> ok_quota_control p"
  by (auto simp: QuotaControl_normalize_def ok_quota_control_def Let_def check_actions_None
      validateSocketPath_None split: if_splits option.splits)

lemma QuotaControl_fixed: "ok_quota_control q \<Longrightarrow> QuotaControl_normalize swap q = Inr q"
proof -
  assume ok: "ok_quota_control q"
  then have "qo_StartupAction q \<noteq> []" "qo_StaleAction q \<noteq> []" "qo_MaxRequestBytes q \<noteq> 0"
    by (auto simp: ok_quota_control_def QuotaActionAllow_def QuotaActionDeny_def)
  then have "check_actions (if swap then rev [(''startup_action'', qo_StartupAction q), (''stale_action'', qo_StaleAction q)]
      else [(''startup_action'', qo_StartupAction q), (''stale_action'', qo_StaleAction q)]) = None"
    using ok by (auto simp: check_actions_None ok_quota_control_def)
  moreover have "validateSocketPath ''quota_control.listen_path'' (qo_ListenPath q) = None"
    using ok by (simp add: validateSocketPath_None ok_quota_control_def)
  ultimately show ?thesis
    using ok \<open>qo_StartupAction q \<noteq> []\<close> \<open>qo_StaleAction q \<noteq> []\<close> \<open>qo_MaxRequestBytes q \<noteq> 0\<close>
    by (auto simp: QuotaControl_normalize_def ok_quota_control_def Let_def or_default_def)
qed

section \<open>Properties\<close>

lemma normalized_ok:
  assumes "normalize ul group_known swap x = Inr y"
  shows "ok_options ul group_known y"
proof -
  from assms obtain z where z: "normalize_parts ul swap z = Inr y" "ok_token (opt_NodeID z)"
      "ok_path (opt_ListenPath z)" "opt_Inbounds z \<noteq> []" "check_tags (opt_Inbounds z) [] = None"
      "opt_MaxIdentities z > 0" "opt_DrainTimeout z \<ge> 0" "opt_ReadTimeout z \<noteq> 0" "opt_WriteTimeout z \<noteq> 0"
      "opt_MaxConcurrency z \<ge> 1" "opt_MaxRequestBytes z \<ge> 256" "check_socket group_known z = None"
    by (auto simp: normalize_def Let_def validateToken_None validateSocketPath_None or_default_def
        option_defaults split: option.splits if_splits)
  from z(1) obtain a q where y: "y = z\<lparr>opt_AccessLog := a, opt_QuotaControl := q\<rparr>"
      "pred_option (ok_access_log ul) a" "pred_option (\<lambda>q. ok_quota_control q \<and> qo_ListenPath q \<noteq> opt_ListenPath z) q"
    by (cases z) (auto simp: normalize_parts_def Let_def AccessLog_ok QuotaControl_ok map_sum_def
        split: option.splits sum.splits if_splits)
  show ?thesis using z(2-) y
    by (auto simp: ok_options_def check_tags_None check_socket_def split: if_splits)
qed

text \<open>An accepted configuration is in range: what \<open>normalize\<close> returns has a printable node id,
  distinct printable inbound tags, an absolute socket path that fits \<open>sun_path\<close>, positive limits,
  a group only with mode 0660, two different sockets, and a deny-when-stale policy that can fire.\<close>

theorem normalize_ok:
  assumes "normalize ul group_known swap x = Inr y"
  shows "ok_options ul group_known y"
  using assms by (rule normalized_ok)

definition demo_options :: Options where
  "demo_options = \<lparr>opt_NodeID = ''n'', opt_ListenPath = ''/s'', opt_SocketGroup = [], opt_SocketMode = [],
    opt_MaxIdentities = 0, opt_Inbounds = [''in''], opt_DrainTimeout = 0, opt_ReadTimeout = 0,
    opt_WriteTimeout = 7, opt_MaxConcurrency = 0, opt_MaxRequestBytes = 0, opt_AccessLog = None,
    opt_QuotaControl = Some \<lparr>qo_ListenPath = ''/q'', qo_StartupAction = [], qo_StaleAfter = 9,
      qo_StaleAction = ''deny'', qo_ReconnectThrottle = 0, qo_MaxRequestBytes = 0\<rparr>\<rparr>"

definition demo_normal :: Options where
  "demo_normal = \<lparr>opt_NodeID = ''n'', opt_ListenPath = ''/s'', opt_SocketGroup = [], opt_SocketMode = [],
    opt_MaxIdentities = 4096, opt_Inbounds = [''in''], opt_DrainTimeout = 0, opt_ReadTimeout = 5000000000,
    opt_WriteTimeout = 7, opt_MaxConcurrency = 8, opt_MaxRequestBytes = 65536, opt_AccessLog = None,
    opt_QuotaControl = Some \<lparr>qo_ListenPath = ''/q'', qo_StartupAction = ''allow'', qo_StaleAfter = 9,
      qo_StaleAction = ''deny'', qo_ReconnectThrottle = 0, qo_MaxRequestBytes = 4194304\<rparr>\<rparr>"

lemma normalize_demo: "normalize ul g False demo_options = Inr demo_normal"
  by (simp add: normalize_def demo_options_def demo_normal_def validateToken_def validateSocketPath_def
      maxUnixPathBytes_def or_default_def option_defaults check_socket_def normalize_parts_def
      QuotaControl_normalize_def QuotaActionAllow_def QuotaActionDeny_def)

theorem normalize_ok_witness: "ok_options id (\<lambda>_. False) demo_normal"
  by (rule normalize_ok [OF normalize_demo])

text \<open>Normalizing is idempotent: a configuration that is in range (in particular one that
  \<open>normalize\<close> returned) is accepted again and unchanged, in whatever order the actions are checked.\<close>

theorem normalize_idempotent:
  assumes "ok_options ul group_known x"
  shows "normalize ul group_known swap x = Inr x"
proof -
  have "normalize_parts ul swap x = Inr x"
    using assms by (cases x) (auto simp: normalize_parts_def Let_def ok_options_def AccessLog_fixed
        QuotaControl_fixed split: option.splits)
  moreover have "validateToken ''node_id'' (opt_NodeID x) = None"
      "validateSocketPath ''listen_path'' (opt_ListenPath x) = None"
      "check_tags (opt_Inbounds x) [] = None" "check_socket group_known x = None"
    using assms by (auto simp: ok_options_def validateToken_None validateSocketPath_None
        check_tags_None check_socket_def)
  ultimately show ?thesis
    using assms by (auto simp: normalize_def ok_options_def Let_def or_default_def)
qed

theorem normalize_idempotent_witness:
  "normalize id (\<lambda>_. False) True demo_normal = Inr demo_normal"
  by (rule normalize_idempotent) (simp add: ok_options_def demo_normal_def ok_token_def ok_path_def
      maxUnixPathBytes_def ok_quota_control_def QuotaActionAllow_def QuotaActionDeny_def)

end
