(* ===== verification/Registry.thy ===== *)
theory Registry
  imports Quota_Cell Go_Strings
begin

text \<open>
  \<^verbatim>\<open>sing-box-plus/internal/userstats/registry.go\<close>: the process-wide holder of the counters and of
  the cut-off state. A lineage is a pair of an inbound tag and a user name; Go's pointers to
  \<open>inboundRecord\<close> and \<open>userRecord\<close> are modelled by these keys, which is faithful because no
  operation removes a record or replaces it (\<open>Reconcile_keeps\<close>). The audit writer hangs on the
  registry by reference: \<open>reg_audit\<close> is its address, its counter is read from outside.
\<close>

section \<open>State\<close>

definition generationFixed :: u64 where
  "generationFixed = 1"

record InboundSpec =
  is_Tag :: string
  is_Type :: string
  is_Listen :: string
  is_ListenPort :: u16
  is_Users :: "string list"

record userRecord =
  usr_name :: string
  usr_generation :: u64
  usr_active :: bool
  usr_tcpUplink :: u64
  usr_tcpDownlink :: u64
  usr_udpUplink :: u64
  usr_udpDownlink :: u64
  usr_quota :: quotaCell

record inboundRecord =
  inb_tag :: string
  inb_generation :: u64
  inb_active :: bool
  inb_inboundType :: string
  inb_listen :: string
  inb_listenPort :: u16
  inb_tcpSessions :: i64
  inb_udpSessions :: i64
  inb_users :: "userRecord gomap"

record Registry =
  reg_nodeID :: string
  reg_runtimeID :: string
  reg_startedAtUnixMs :: u64
  reg_maxIdentities :: i64
  reg_maxTotalLineages :: i64
  reg_validationOnly :: bool
  reg_sequence :: u64
  reg_counterOverflow :: bool
  reg_sequenceOverflow :: bool
  reg_identityLimitReached :: bool
  reg_inbounds :: "inboundRecord gomap"
  reg_quota :: quotaState
  reg_audit :: "nat option"
  reg_auditDroppedSticky :: bool
  reg_draining :: bool

datatype registry_error =
  MaxIdentitiesNotPositive
| RandFailed
| ActiveOverMax int int
| TotalOverMax int int
| ValidationOnly

section \<open>Construction\<close>

text \<open>\<open>raw\<close> is what \<open>rand.Read\<close> filled the 16 bytes with, \<open>None\<close> when it failed; \<open>nowMs\<close> is
  \<open>time.Now().UnixMilli()\<close>.\<close>

definition NewRegistry :: "string \<Rightarrow> i64 \<Rightarrow> string option \<Rightarrow> i64 \<Rightarrow> registry_error + Registry" where
  "NewRegistry nodeID maxIdentities raw nowMs =
    (if maxIdentities \<le> 0 then Inl MaxIdentitiesNotPositive
     else case raw of
       None \<Rightarrow> Inl RandFailed
     | Some bytes \<Rightarrow> Inr
        \<lparr>reg_nodeID = nodeID, reg_runtimeID = hex_EncodeToString bytes,
         reg_startedAtUnixMs = word_of_int nowMs, reg_maxIdentities = maxIdentities,
         reg_maxTotalLineages = wrap64 (maxIdentities * 4), reg_validationOnly = False,
         reg_sequence = 0, reg_counterOverflow = False, reg_sequenceOverflow = False,
         reg_identityLimitReached = False, reg_inbounds = [], reg_quota = quotaState_init,
         reg_audit = None, reg_auditDroppedSticky = False, reg_draining = False\<rparr>)"

definition NewValidationRegistry :: Registry where
  "NewValidationRegistry =
    \<lparr>reg_nodeID = ''validation-only'', reg_runtimeID = replicate 32 CHR ''0'',
     reg_startedAtUnixMs = 0, reg_maxIdentities = 2 ^ 20, reg_maxTotalLineages = 2 ^ 22,
     reg_validationOnly = True, reg_sequence = 0, reg_counterOverflow = False,
     reg_sequenceOverflow = False, reg_identityLimitReached = False, reg_inbounds = [],
     reg_quota = quotaState_init, reg_audit = None, reg_auditDroppedSticky = False,
     reg_draining = False\<rparr>"

definition NodeID :: "Registry \<Rightarrow> string" where
  "NodeID r = reg_nodeID r"

definition RuntimeID :: "Registry \<Rightarrow> string" where
  "RuntimeID r = reg_runtimeID r"

definition IsValidationOnly :: "Registry \<Rightarrow> bool" where
  "IsValidationOnly r = reg_validationOnly r"

section \<open>Reconciliation with a configuration\<close>

definition newUser :: "string \<Rightarrow> userRecord" where
  "newUser name = \<lparr>usr_name = name, usr_generation = generationFixed, usr_active = False,
    usr_tcpUplink = 0, usr_tcpDownlink = 0, usr_udpUplink = 0, usr_udpDownlink = 0,
    usr_quota = cell_init zero_quotaCell\<rparr>"

definition newInbound :: "string \<Rightarrow> inboundRecord" where
  "newInbound tag = \<lparr>inb_tag = tag, inb_generation = generationFixed, inb_active = False,
    inb_inboundType = [], inb_listen = [], inb_listenPort = 0, inb_tcpSessions = 0,
    inb_udpSessions = 0, inb_users = []\<rparr>"

definition reconcileUser :: "string \<Rightarrow> userRecord option \<Rightarrow> userRecord" where
  "reconcileUser name found =
    (case found of None \<Rightarrow> newUser name | Some user \<Rightarrow> user)\<lparr>usr_active := True\<rparr>"

definition reconcileUsers :: "string list \<Rightarrow> userRecord gomap \<Rightarrow> userRecord gomap" where
  "reconcileUsers names users =
    (let users = fold (\<lambda>name us. gm_put name (reconcileUser name (gm_get us name)) us) names users
     in gm_map (\<lambda>name user. if name \<in> set names then user else user\<lparr>usr_active := False\<rparr>) users)"

definition reconcileInbound :: "InboundSpec \<Rightarrow> inboundRecord option \<Rightarrow> inboundRecord" where
  "reconcileInbound spec found =
    (let record = (case found of None \<Rightarrow> newInbound (is_Tag spec) | Some record \<Rightarrow> record)
     in record\<lparr>inb_active := True, inb_inboundType := is_Type spec, inb_listen := is_Listen spec,
          inb_listenPort := is_ListenPort spec,
          inb_users := reconcileUsers (is_Users spec) (inb_users record)\<rparr>)"

definition deactivateInbound :: "inboundRecord \<Rightarrow> inboundRecord" where
  "deactivateInbound record = record\<lparr>inb_active := False,
    inb_users := gm_map (\<lambda>_ user. user\<lparr>usr_active := False\<rparr>) (inb_users record)\<rparr>"

definition reconcileInbounds :: "InboundSpec list \<Rightarrow> inboundRecord gomap \<Rightarrow> inboundRecord gomap" where
  "reconcileInbounds specs inbounds =
    (let inbounds = fold (\<lambda>spec m. gm_put (is_Tag spec)
           (reconcileInbound spec (gm_get m (is_Tag spec))) m) specs inbounds
     in gm_map (\<lambda>tag record. if tag \<in> set (map is_Tag specs) then record
          else deactivateInbound record) inbounds)"

definition countActiveLineages :: "Registry \<Rightarrow> int" where
  "countActiveLineages r =
    (\<Sum>(_, record)\<leftarrow>reg_inbounds r. int (length (filter (usr_active \<circ> snd) (inb_users record))))"

definition countAllLineages :: "Registry \<Rightarrow> int" where
  "countAllLineages r = (\<Sum>(_, record)\<leftarrow>reg_inbounds r. int (length (inb_users record)))"

text \<open>The changes made before an error is found stay: the new registry is returned in every case.\<close>

definition Reconcile :: "InboundSpec list \<Rightarrow> bool \<Rightarrow> Registry \<Rightarrow> registry_error option \<times> Registry" where
  "Reconcile specs startup r =
    (let r = r\<lparr>reg_inbounds := reconcileInbounds specs (reg_inbounds r)\<rparr>;
         active = countActiveLineages r
     in if active > reg_maxIdentities r \<and> startup
        then (Some (ActiveOverMax active (reg_maxIdentities r)), r)
        else let r = (if active > reg_maxIdentities r then r\<lparr>reg_identityLimitReached := True\<rparr> else r);
                 total = countAllLineages r
          in if total > reg_maxTotalLineages r \<and> startup
             then (Some (TotalOverMax total (reg_maxTotalLineages r)), r)
             else (None, if total > reg_maxTotalLineages r then r\<lparr>reg_identityLimitReached := True\<rparr> else r))"

section \<open>Reading and small updates\<close>

definition inbound_spec :: "inboundRecord \<Rightarrow> string \<times> string \<times> u16" where
  "inbound_spec record = (inb_inboundType record, inb_listen record, inb_listenPort record)"

definition lookup :: "Registry \<Rightarrow> string \<Rightarrow> string \<Rightarrow> inboundRecord option \<times> userRecord option" where
  "lookup r tag name =
    (case gm_get (reg_inbounds r) tag of
       None \<Rightarrow> (None, None)
     | Some record \<Rightarrow> (Some record, gm_get (inb_users record) name))"

definition markOverflow :: "Registry \<Rightarrow> Registry" where
  "markOverflow r = r\<lparr>reg_counterOverflow := True\<rparr>"

definition nextSequence :: "Registry \<Rightarrow> u64 \<times> Registry" where
  "nextSequence r =
    (let current = reg_sequence r in
     if current = max_u64 then (current, r\<lparr>reg_sequenceOverflow := True\<rparr>)
     else (current + 1, r\<lparr>reg_sequence := current + 1\<rparr>))"

definition sortedInbounds :: "Registry \<Rightarrow> inboundRecord list" where
  "sortedInbounds r = sort_key (\<lambda>rec. (inb_tag rec, inb_generation rec)) (map snd (reg_inbounds r))"

definition sortedUsers :: "inboundRecord \<Rightarrow> userRecord list" where
  "sortedUsers record = sort_key (\<lambda>u. (usr_name u, usr_generation u)) (map snd (inb_users record))"

definition setAudit :: "nat option \<Rightarrow> Registry \<Rightarrow> Registry" where
  "setAudit writer r = r\<lparr>reg_audit := writer\<rparr>"

definition auditWriterRef :: "Registry \<Rightarrow> nat option" where
  "auditWriterRef r = reg_audit r"

definition unhealthy :: "Registry \<Rightarrow> bool" where
  "unhealthy r \<longleftrightarrow> reg_counterOverflow r \<or> reg_sequenceOverflow r \<or> reg_identityLimitReached r"

text \<open>\<open>droppedWrite\<close> reads the counter of the writer at an address.\<close>

definition auditDropped :: "(nat \<Rightarrow> u64) \<Rightarrow> Registry \<Rightarrow> bool \<times> Registry" where
  "auditDropped droppedWrite r =
    (if reg_auditDroppedSticky r then (True, r)
     else case auditWriterRef r of
       Some writer \<Rightarrow>
         if droppedWrite writer > 0 then (True, r\<lparr>reg_auditDroppedSticky := True\<rparr>) else (False, r)
     | None \<Rightarrow> (False, r))"

definition noteAuditDropped :: "Registry \<Rightarrow> Registry" where
  "noteAuditDropped r = r\<lparr>reg_auditDroppedSticky := True\<rparr>"

definition BeginDrain :: "Registry \<Rightarrow> Registry" where
  "BeginDrain r = r\<lparr>reg_draining := True\<rparr>"

definition Draining :: "Registry \<Rightarrow> bool" where
  "Draining r = reg_draining r"

definition ActiveSessions :: "Registry \<Rightarrow> i64" where
  "ActiveSessions r =
    fold (\<lambda>rec total. wrap64 (wrap64 (total + inb_tcpSessions rec) + inb_udpSessions rec))
      (sortedInbounds r) 0"

definition Identities :: "Registry \<Rightarrow> string list" where
  "Identities r = concat (map (\<lambda>rec. map usr_name (sortedUsers rec)) (sortedInbounds r))"

text \<open>
  \<open>WaitDrained\<close> polls. Each element of the list is one round: the registry as
  \<open>ActiveSessions\<close> finds it, and the clock as \<open>time.Now()\<close> finds it afterwards. \<open>None\<close> means that
  the rounds given were not enough.
\<close>

fun WaitDrained :: "i64 \<Rightarrow> (Registry \<times> i64) list \<Rightarrow> bool option" where
  "WaitDrained deadline [] = None"
| "WaitDrained deadline ((r, now) # rounds) =
    (if ActiveSessions r = 0 then Some True
     else if now > deadline then Some False
     else WaitDrained deadline rounds)"

section \<open>Well-formedness\<close>

definition wf_users :: "userRecord gomap \<Rightarrow> bool" where
  "wf_users us \<longleftrightarrow> gm_wf us \<and> (\<forall>(n, u)\<in>set us. usr_name u = n \<and> usr_generation u = generationFixed)"

definition wf_inbounds :: "inboundRecord gomap \<Rightarrow> bool" where
  "wf_inbounds m \<longleftrightarrow> gm_wf m \<and>
    (\<forall>(t, rec)\<in>set m. inb_tag rec = t \<and> inb_generation rec = generationFixed \<and> wf_users (inb_users rec))"

definition wf_registry :: "Registry \<Rightarrow> bool" where
  "wf_registry r \<longleftrightarrow> wf_inbounds (reg_inbounds r)"

lemma wf_users_get: "wf_users us \<longleftrightarrow> gm_wf us \<and>
    (\<forall>n u. gm_get us n = Some u \<longrightarrow> usr_name u = n \<and> usr_generation u = generationFixed)"
  by (simp add: wf_users_def gm_all cong: conj_cong)

lemma wf_inbounds_get: "wf_inbounds m \<longleftrightarrow> gm_wf m \<and>
    (\<forall>t rec. gm_get m t = Some rec \<longrightarrow>
      inb_tag rec = t \<and> inb_generation rec = generationFixed \<and> wf_users (inb_users rec))"
  by (simp add: wf_inbounds_def gm_all cong: conj_cong)

lemma wf_users_Nil [simp]: "wf_users []"
  by (simp add: wf_users_def)

end
