(* ===== verification/Reconcile.thy ===== *)
theory Reconcile
  imports Registry
begin

text \<open>
  What \<open>Registry.Reconcile\<close> of \<^verbatim>\<open>registry.go\<close> promises: lineages are never lost and never lose
  their counters, the active ones are exactly those of the configuration, the limits are
  enforced at start-up and only reported on reload, and well-formedness is kept.
\<close>

section \<open>Lineages\<close>

definition lineage :: "Registry \<Rightarrow> string \<Rightarrow> string \<Rightarrow> userRecord option" where
  "lineage r tag name = snd (lookup r tag name)"

definition inbound :: "Registry \<Rightarrow> string \<Rightarrow> inboundRecord option" where
  "inbound r tag = gm_get (reg_inbounds r) tag"

definition spec_for :: "InboundSpec list \<Rightarrow> string \<Rightarrow> InboundSpec option" where
  "spec_for specs tag = find (\<lambda>spec. is_Tag spec = tag) specs"

definition listed :: "InboundSpec list \<Rightarrow> string \<Rightarrow> string \<Rightarrow> bool" where
  "listed specs tag name \<longleftrightarrow> (\<exists>spec\<in>set specs. is_Tag spec = tag \<and> name \<in> set (is_Users spec))"

lemma lineage_inbound:
  "lineage r tag name = (case inbound r tag of None \<Rightarrow> None | Some rec \<Rightarrow> gm_get (inb_users rec) name)"
  by (simp add: lineage_def lookup_def inbound_def split: option.splits)

lemma spec_for_None: "spec_for specs tag = None \<longleftrightarrow> tag \<notin> is_Tag ` set specs"
  by (auto simp: spec_for_def find_None_iff)

lemma spec_for_Some: "spec_for specs tag = Some spec \<Longrightarrow> spec \<in> set specs \<and> is_Tag spec = tag"
  by (auto simp: spec_for_def find_Some_iff)

lemma listed_spec_for:
  assumes "distinct (map is_Tag specs)"
  shows "listed specs tag name \<longleftrightarrow>
    (case spec_for specs tag of None \<Rightarrow> False | Some spec \<Rightarrow> name \<in> set (is_Users spec))"
proof (cases "spec_for specs tag")
  case None
  then have "tag \<notin> is_Tag ` set specs" by (simp add: spec_for_None)
  with None show ?thesis by (auto simp: listed_def)
next
  case (Some spec)
  from spec_for_Some [OF this] have "\<forall>s\<in>set specs. is_Tag s = tag \<longrightarrow> s = spec"
    using assms by (auto simp: distinct_map inj_on_def)
  with Some spec_for_Some [OF Some] show ?thesis by (auto simp: listed_def)
qed

lemma spec_for_distinct:
  assumes "spec \<in> set specs" "distinct (map is_Tag specs)"
  shows "spec_for specs (is_Tag spec) = Some spec"
proof (cases "spec_for specs (is_Tag spec)")
  case None
  with assms(1) show ?thesis by (simp add: spec_for_None)
next
  case (Some spec')
  from spec_for_Some [OF this] assms have "spec' = spec"
    by (auto simp: distinct_map dest: inj_onD)
  with Some show ?thesis by simp
qed

section \<open>The two loops\<close>

lemma reconcileUsers_get:
  "gm_get (reconcileUsers names us) n =
    (if n \<in> set names then Some (reconcileUser n (gm_get us n))
     else map_option (\<lambda>u. u\<lparr>usr_active := False\<rparr>) (gm_get us n))"
proof -
  have "gm_get (fold (\<lambda>name us. gm_put name (reconcileUser name (gm_get us name)) us) names us) n =
      (if n \<in> set names then Some (reconcileUser n (gm_get us n)) else gm_get us n)"
    by (rule gm.get_visits_idem) (simp add: reconcileUser_def)
  then show ?thesis
    by (simp add: reconcileUsers_def Let_def go_map)
qed

lemma wf_reconcileUsers: "wf_users us \<Longrightarrow> wf_users (reconcileUsers names us)"
proof -
  assume wf: "wf_users us"
  then have "gm_wf (reconcileUsers names us)"
    using gm.invar_visits [where key = "\<lambda>n. n" and f = reconcileUser]
    by (simp add: reconcileUsers_def Let_def go_wf wf_users_def)
  with wf show ?thesis
    by (auto simp: wf_users_get reconcileUsers_get reconcileUser_def newUser_def split: option.splits)
qed

lemma reconcileInbounds_get:
  assumes "distinct (map is_Tag specs)"
  shows "gm_get (reconcileInbounds specs m) tag =
    (case spec_for specs tag of
       Some spec \<Rightarrow> Some (reconcileInbound spec (gm_get m tag))
     | None \<Rightarrow> map_option deactivateInbound (gm_get m tag))"
  using gm.get_visits_distinct [OF assms, where f = reconcileInbound and m = m and k = tag]
  by (auto simp: reconcileInbounds_def Let_def go_map spec_for_None spec_for_def [symmetric]
      dest: spec_for_Some split: option.splits)

text \<open>What every pass keeps of an inbound's record, in both directions of \<open>active\<close>.\<close>

definition keeps_account :: "userRecord \<Rightarrow> userRecord \<Rightarrow> bool" where
  "keeps_account u u' \<longleftrightarrow> (\<exists>b. u' = u\<lparr>usr_active := b\<rparr>)"

definition keeps_inbound :: "inboundRecord \<Rightarrow> inboundRecord \<Rightarrow> bool" where
  "keeps_inbound rec rec' \<longleftrightarrow>
    inb_tag rec' = inb_tag rec \<and> inb_generation rec' = inb_generation rec \<and>
    inb_tcpSessions rec' = inb_tcpSessions rec \<and> inb_udpSessions rec' = inb_udpSessions rec \<and>
    (\<forall>n u. gm_get (inb_users rec) n = Some u \<longrightarrow>
      (\<exists>u'. gm_get (inb_users rec') n = Some u' \<and> keeps_account u u'))"

lemma keeps_account_refl [simp]: "keeps_account u u"
  unfolding keeps_account_def by (rule exI [of _ "usr_active u"]) simp

lemma keeps_account_trans: "keeps_account u v \<Longrightarrow> keeps_account v w \<Longrightarrow> keeps_account u w"
  by (auto simp: keeps_account_def)

lemma keeps_account_active [simp]: "keeps_account u (u\<lparr>usr_active := b\<rparr>)"
  by (auto simp: keeps_account_def)

lemma keeps_inbound_refl [simp]: "keeps_inbound rec rec"
  by (simp add: keeps_inbound_def)

lemma keeps_inbound_trans:
  "keeps_inbound r1 r2 \<Longrightarrow> keeps_inbound r2 r3 \<Longrightarrow> keeps_inbound r1 r3"
  unfolding keeps_inbound_def by (metis keeps_account_trans)

lemma keeps_reconcileInbound: "keeps_inbound rec (reconcileInbound spec (Some rec))"
  by (auto simp: keeps_inbound_def reconcileInbound_def Let_def reconcileUsers_get reconcileUser_def)

lemma keeps_deactivateInbound: "keeps_inbound rec (deactivateInbound rec)"
  by (auto simp: keeps_inbound_def deactivateInbound_def go_map)

lemma reconcileInbounds_keeps:
  assumes "gm_get m tag = Some rec"
  shows "\<exists>rec'. gm_get (reconcileInbounds specs m) tag = Some rec' \<and> keeps_inbound rec rec'"
proof -
  have "\<exists>rec1. gm_get (fold (\<lambda>spec m. gm_put (is_Tag spec)
      (reconcileInbound spec (gm_get m (is_Tag spec))) m) specs m) tag = Some rec1 \<and>
      keeps_inbound rec rec1"
    by (rule gm.visits_keep [where R = keeps_inbound, OF assms])
      (rule keeps_reconcileInbound keeps_inbound_refl keeps_inbound_trans; assumption?)+
  then obtain rec1 where "gm_get (fold (\<lambda>spec m. gm_put (is_Tag spec)
      (reconcileInbound spec (gm_get m (is_Tag spec))) m) specs m) tag = Some rec1"
    and "keeps_inbound rec rec1" by blast
  then show ?thesis
    using keeps_inbound_trans [OF _ keeps_deactivateInbound, of rec rec1]
    by (simp add: reconcileInbounds_def Let_def go_map)
qed

lemma wf_reconcileInbound:
  assumes "\<And>rec. found = Some rec \<Longrightarrow>
    inb_tag rec = is_Tag spec \<and> inb_generation rec = generationFixed \<and> wf_users (inb_users rec)"
  shows "inb_tag (reconcileInbound spec found) = is_Tag spec \<and>
    inb_generation (reconcileInbound spec found) = generationFixed \<and>
    wf_users (inb_users (reconcileInbound spec found))"
  using assms
  by (cases found) (simp_all add: reconcileInbound_def Let_def newInbound_def wf_reconcileUsers)

lemma deactivateInbound_sel [simp]:
  "inb_tag (deactivateInbound rec) = inb_tag rec"
  "inb_generation (deactivateInbound rec) = inb_generation rec"
  by (simp_all add: deactivateInbound_def)

lemma wf_deactivateInbound: "wf_users (inb_users rec) \<Longrightarrow> wf_users (inb_users (deactivateInbound rec))"
  by (auto simp: deactivateInbound_def wf_users_get go_map go_wf)

lemma wf_fold_reconcile:
  "wf_inbounds m \<Longrightarrow> wf_inbounds (fold (\<lambda>spec m. gm_put (is_Tag spec)
    (reconcileInbound spec (gm_get m (is_Tag spec))) m) specs m)"
proof (induction specs arbitrary: m)
  case (Cons spec specs)
  let ?rec = "reconcileInbound spec (gm_get m (is_Tag spec))"
  have "inb_tag ?rec = is_Tag spec \<and> inb_generation ?rec = generationFixed \<and> wf_users (inb_users ?rec)"
    using Cons.prems by (intro wf_reconcileInbound) (simp add: wf_inbounds_get)
  with Cons.prems have "wf_inbounds (gm_put (is_Tag spec) ?rec m)"
    by (simp add: wf_inbounds_get go_map go_wf)
  then show ?case using Cons.IH by simp
qed simp

lemma wf_reconcileInbounds: "wf_inbounds m \<Longrightarrow> wf_inbounds (reconcileInbounds specs m)"
  using wf_fold_reconcile [of m specs]
  by (auto simp: reconcileInbounds_def Let_def wf_inbounds_get go_map go_wf wf_deactivateInbound)

lemma Reconcile_inbounds [simp]:
  "reg_inbounds (snd (Reconcile specs startup r)) = reconcileInbounds specs (reg_inbounds r)"
  by (simp add: Reconcile_def Let_def)

lemma wf_Reconcile [go_wf]: "wf_registry r \<Longrightarrow> wf_registry (snd (Reconcile specs startup r))"
  by (simp add: wf_registry_def wf_reconcileInbounds)

section \<open>Counting\<close>

definition active_names :: "inboundRecord \<Rightarrow> string set" where
  "active_names rec = {n. \<exists>u. gm_get (inb_users rec) n = Some u \<and> usr_active u}"

lemma active_names_reconcile [simp]:
  "active_names (reconcileInbound spec found) = set (is_Users spec)"
  by (auto simp: active_names_def reconcileInbound_def Let_def reconcileUsers_get reconcileUser_def
      split: if_splits)

lemma active_names_deactivate [simp]: "active_names (deactivateInbound rec) = {}"
  by (auto simp: active_names_def deactivateInbound_def go_map)

lemma count_inbound_active:
  "wf_users (inb_users rec) \<Longrightarrow>
    length (filter (usr_active \<circ> snd) (inb_users rec)) = card (active_names rec)"
  by (simp add: active_names_def wf_users_def gm_length_filter)

lemma countActive_reconciled:
  assumes wf: "wf_inbounds m" and dist: "distinct (map is_Tag specs)"
  shows "(\<Sum>(_, rec)\<leftarrow>reconcileInbounds specs m.
      int (length (filter (usr_active \<circ> snd) (inb_users rec)))) =
    (\<Sum>spec\<leftarrow>specs. int (card (set (is_Users spec))))"
proof -
  let ?m = "reconcileInbounds specs m"
  define users where "users tag = (case spec_for specs tag of None \<Rightarrow> {} | Some spec \<Rightarrow> set (is_Users spec))" for tag
  have wf': "wf_inbounds ?m" using wf by (rule wf_reconcileInbounds)
  have "int (length (filter (usr_active \<circ> snd) (inb_users rec))) = int (card (users tag))"
    if "gm_get ?m tag = Some rec" for tag rec
  proof -
    have "wf_users (inb_users rec)" using wf' that by (auto simp: wf_inbounds_get)
    moreover have "active_names rec = users tag"
      using that by (auto simp: users_def reconcileInbounds_get [OF dist] split: option.splits)
    ultimately show ?thesis by (simp add: count_inbound_active)
  qed
  then have "(\<Sum>(_, rec)\<leftarrow>?m. int (length (filter (usr_active \<circ> snd) (inb_users rec)))) =
      (\<Sum>tag\<in>gm_keys ?m. int (card (users tag)))"
    using wf' by (intro gm_sum_keys [where f = "\<lambda>_ rec. int (length (filter (usr_active \<circ> snd) (inb_users rec)))"])
      (auto simp: wf_inbounds_def)
  also have "\<dots> = (\<Sum>tag\<in>is_Tag ` set specs. int (card (users tag)))"
  proof (rule sum.mono_neutral_right)
    show "is_Tag ` set specs \<subseteq> gm_keys ?m"
    proof
      fix tag assume "tag \<in> is_Tag ` set specs"
      then show "tag \<in> gm_keys ?m"
        by (cases "spec_for specs tag") (auto simp: spec_for_None gm_keys_get reconcileInbounds_get [OF dist])
    qed
    show "\<forall>tag\<in>gm_keys ?m - is_Tag ` set specs. int (card (users tag)) = 0"
      by (simp add: users_def spec_for_None [THEN iffD2])
  qed simp
  also have "\<dots> = (\<Sum>spec\<leftarrow>specs. int (card (users (is_Tag spec))))"
    using dist by (simp add: sum_list_distinct_conv_sum_set distinct_map sum.reindex)
  also have "\<dots> = (\<Sum>spec\<leftarrow>specs. int (card (set (is_Users spec))))"
  proof (rule arg_cong [of _ _ sum_list], rule map_cong [OF refl])
    fix spec assume "spec \<in> set specs"
    then have "spec_for specs (is_Tag spec) = Some spec"
      using dist by (rule spec_for_distinct)
    then show "int (card (users (is_Tag spec))) = int (card (set (is_Users spec)))"
      by (simp add: users_def)
  qed
  finally show ?thesis .
qed

lemma lineage_Reconcile:
  "lineage (snd (Reconcile specs startup r)) tag name =
    (case gm_get (reconcileInbounds specs (reg_inbounds r)) tag of
       None \<Rightarrow> None | Some rec \<Rightarrow> gm_get (inb_users rec) name)"
  by (simp add: lineage_inbound inbound_def)

section \<open>Properties\<close>

lemma lineage_kept:
  assumes "lineage r tag name = Some u"
  shows "\<exists>b. lineage (snd (Reconcile specs startup r)) tag name = Some (u\<lparr>usr_active := b\<rparr>)"
proof -
  from assms obtain rec where rec: "gm_get (reg_inbounds r) tag = Some rec"
    and u: "gm_get (inb_users rec) name = Some u"
    by (auto simp: lineage_inbound inbound_def split: option.splits)
  from reconcileInbounds_keeps [OF rec, of specs] obtain rec' where
    rec': "gm_get (reconcileInbounds specs (reg_inbounds r)) tag = Some rec'" "keeps_inbound rec rec'"
    by blast
  with u have "\<exists>u'. gm_get (inb_users rec') name = Some u' \<and> keeps_account u u'"
    by (simp add: keeps_inbound_def)
  with rec'(1) show ?thesis
    by (auto simp: lineage_Reconcile keeps_account_def)
qed

text \<open>Reconciliation never loses a lineage and never touches what is billed: whatever the new
  configuration says (even one that names a tag twice), every lineage known before is still
  there, with the same counters, the same generation and the same cut-off cell; only its
  \<open>active\<close> flag may change. This holds on the error paths too.\<close>

theorem Reconcile_keeps:
  assumes "lineage r tag name = Some u"
  shows "\<exists>b. lineage (snd (Reconcile specs startup r)) tag name = Some (u\<lparr>usr_active := b\<rparr>)"
  using assms by (rule lineage_kept)

definition demo_specs :: "InboundSpec list" where
  "demo_specs = [\<lparr>is_Tag = ''ss-in'', is_Type = ''shadowsocks'', is_Listen = ''127.0.0.1'',
    is_ListenPort = 8388, is_Users = [''bob'', ''alice'']\<rparr>]"

definition demo_registry :: Registry where
  "demo_registry = snd (Reconcile demo_specs True (NewValidationRegistry\<lparr>reg_validationOnly := False\<rparr>))"

lemma demo_alice: "\<exists>u. lineage demo_registry ''ss-in'' ''alice'' = Some u \<and> usr_active u \<and> usr_tcpUplink u = 0"
  by (simp add: demo_registry_def lineage_Reconcile demo_specs_def reconcileInbounds_def
      NewValidationRegistry_def reconcileInbound_def newInbound_def Let_def go_map reconcileUsers_get
      reconcileUser_def newUser_def)

theorem Reconcile_keeps_witness:
  "\<exists>u b. lineage demo_registry ''ss-in'' ''alice'' = Some u \<and>
    lineage (snd (Reconcile [] False demo_registry)) ''ss-in'' ''alice'' = Some (u\<lparr>usr_active := b\<rparr>)"
  using demo_alice Reconcile_keeps [of demo_registry "''ss-in''" "''alice''" _ "[]" False] by blast

lemma lineage_Reconciled:
  assumes "distinct (map is_Tag specs)"
  shows "lineage (snd (Reconcile specs startup r)) tag name =
    (if listed specs tag name
     then Some ((case lineage r tag name of None \<Rightarrow> newUser name | Some u \<Rightarrow> u)\<lparr>usr_active := True\<rparr>)
     else map_option (\<lambda>u. u\<lparr>usr_active := False\<rparr>) (lineage r tag name))"
proof (cases "spec_for specs tag")
  case None
  then show ?thesis
    by (simp add: lineage_Reconcile reconcileInbounds_get [OF assms] listed_spec_for [OF assms]
        lineage_inbound inbound_def deactivateInbound_def go_map split: option.splits)
next
  case (Some spec)
  then show ?thesis
    by (auto simp: lineage_Reconcile reconcileInbounds_get [OF assms] listed_spec_for [OF assms]
        lineage_inbound inbound_def reconcileInbound_def Let_def reconcileUsers_get reconcileUser_def
        newInbound_def split: option.splits)
qed

text \<open>C5. The full effect of reconciliation on lineages: a lineage listed by the configuration
  exists afterwards and is active, with its old account if it had one (deactivated or not) and a
  fresh account of zeros if not; an unlisted one keeps its account and is inactive; nothing else
  appears.\<close>

theorem Reconcile_functional:
  assumes "distinct (map is_Tag specs)"
  shows "lineage (snd (Reconcile specs startup r)) tag name =
    (if listed specs tag name
     then Some ((case lineage r tag name of None \<Rightarrow> newUser name | Some u \<Rightarrow> u)\<lparr>usr_active := True\<rparr>)
     else map_option (\<lambda>u. u\<lparr>usr_active := False\<rparr>) (lineage r tag name))"
  using assms by (rule lineage_Reconciled)

theorem Reconcile_functional_witness:
  "lineage (snd (Reconcile demo_specs False demo_registry)) ''ss-in'' ''carol'' = None"
  using Reconcile_functional [of demo_specs False demo_registry "''ss-in''" "''carol''"]
  by (simp add: demo_specs_def listed_def demo_registry_def lineage_Reconcile reconcileInbounds_def
      NewValidationRegistry_def reconcileInbound_def newInbound_def Let_def go_map reconcileUsers_get)

text \<open>The limits: at start-up reconciliation fails exactly when the active lineages exceed
  \<open>max_identities\<close> or all lineages exceed the derived total; a reload never fails, it sets the
  sticky \<open>identity_limit_reached\<close> in exactly those two cases and leaves it alone otherwise.\<close>

theorem Reconcile_limits:
  "let r' = snd (Reconcile specs startup r);
       over = (countActiveLineages r' > reg_maxIdentities r \<or> countAllLineages r' > reg_maxTotalLineages r)
   in (fst (Reconcile specs startup r) \<noteq> None \<longleftrightarrow> startup \<and> over) \<and>
      (reg_identityLimitReached r' \<longleftrightarrow> reg_identityLimitReached r \<or> \<not> startup \<and> over)"
  by (cases startup) (simp_all add: Reconcile_def Let_def countActiveLineages_def countAllLineages_def)

text \<open>What \<open>max_identities\<close> bounds is the configuration, not its history: after any
  reconciliation the active lineages number exactly the users the configuration lists, so the
  tombstones of earlier configurations never count against the limit.\<close>

theorem Reconcile_counts_configured:
  assumes "wf_registry r" and "distinct (map is_Tag specs)"
  shows "countActiveLineages (snd (Reconcile specs startup r)) =
    (\<Sum>spec\<leftarrow>specs. int (card (set (is_Users spec))))"
  using countActive_reconciled [of "reg_inbounds r" specs] assms
  by (simp add: countActiveLineages_def wf_registry_def)

lemma wf_demo: "wf_registry demo_registry"
  unfolding demo_registry_def
  by (rule wf_Reconcile) (simp add: wf_registry_def wf_inbounds_def NewValidationRegistry_def)

theorem Reconcile_counts_configured_witness:
  "countActiveLineages (snd (Reconcile demo_specs True demo_registry)) = 2"
  using Reconcile_counts_configured [OF wf_demo, of demo_specs True]
  by (simp add: demo_specs_def)

end
