(* ===== verification/Snapshot.thy ===== *)
theory Snapshot
  imports Reconcile
begin

text \<open>
  \<^verbatim>\<open>sing-box-plus/internal/userstats/snapshot.go\<close>: the response of \<open>GET /v3/snapshot\<close>, the
  fixed error bodies, and the mutex that pairs a sequence number with the counters it covers.
\<close>

section \<open>The response\<close>

definition SchemaVersion :: int where
  "SchemaVersion = 3"

record Health =
  he_CounterOverflow :: bool
  he_SequenceOverflow :: bool
  he_IdentityLimitReached :: bool
  he_AuditDropped :: bool

record SnapshotUser =
  su_Name :: string
  su_Generation :: u64
  su_Active :: bool
  su_TCPUplinkBytes :: u64
  su_TCPDownlinkBytes :: u64
  su_UDPUplinkBytes :: u64
  su_UDPDownlinkBytes :: u64

record SnapshotInbound =
  si_Tag :: string
  si_Type :: string
  si_Listen :: string
  si_ListenPort :: u16
  si_Generation :: u64
  si_Active :: bool
  si_TCPSessions :: i64
  si_UDPSessions :: i64
  si_Users :: "SnapshotUser list"

record SnapshotBody =
  sn_SchemaVersion :: int
  sn_NodeID :: string
  sn_RuntimeID :: string
  sn_StartedAtUnixMs :: u64
  sn_Sequence :: u64
  sn_Health :: Health
  sn_Inbounds :: "SnapshotInbound list"

definition snapshot_user :: "userRecord \<Rightarrow> SnapshotUser" where
  "snapshot_user user =
    \<lparr>su_Name = usr_name user, su_Generation = usr_generation user, su_Active = usr_active user,
     su_TCPUplinkBytes = usr_tcpUplink user, su_TCPDownlinkBytes = usr_tcpDownlink user,
     su_UDPUplinkBytes = usr_udpUplink user, su_UDPDownlinkBytes = usr_udpDownlink user\<rparr>"

definition snapshot_inbound :: "inboundRecord \<Rightarrow> SnapshotInbound" where
  "snapshot_inbound record =
    (let (inboundType, listen, listenPort) = inbound_spec record in
     \<lparr>si_Tag = inb_tag record, si_Type = inboundType, si_Listen = listen,
      si_ListenPort = listenPort, si_Generation = inb_generation record,
      si_Active = inb_active record, si_TCPSessions = inb_tcpSessions record,
      si_UDPSessions = inb_udpSessions record,
      si_Users = map snapshot_user (sortedUsers record)\<rparr>)"

text \<open>The calls in the struct literal run from left to right: the sequence number is taken first,
  so an overflow it causes shows in the health bits of the same snapshot.\<close>

definition Snapshot :: "(nat \<Rightarrow> u64) \<Rightarrow> Registry \<Rightarrow> (registry_error + SnapshotBody) \<times> Registry" where
  "Snapshot droppedWrite r =
    (if reg_validationOnly r then (Inl ValidationOnly, r)
     else let (seq, r1) = nextSequence r;
              (dropped, r2) = auditDropped droppedWrite r1
       in (Inr \<lparr>sn_SchemaVersion = SchemaVersion, sn_NodeID = reg_nodeID r,
              sn_RuntimeID = reg_runtimeID r, sn_StartedAtUnixMs = reg_startedAtUnixMs r,
              sn_Sequence = seq,
              sn_Health = \<lparr>he_CounterOverflow = reg_counterOverflow r1,
                 he_SequenceOverflow = reg_sequenceOverflow r1,
                 he_IdentityLimitReached = reg_identityLimitReached r1,
                 he_AuditDropped = dropped\<rparr>,
              sn_Inbounds = map snapshot_inbound (sortedInbounds r2)\<rparr>, r2))"

record errorBody =
  eb_SchemaVersion :: int
  eb_Code :: int

definition newErrorBody :: "int \<Rightarrow> errorBody" where
  "newErrorBody code = \<lparr>eb_SchemaVersion = SchemaVersion, eb_Code = code\<rparr>"

section \<open>Sorting\<close>

text \<open>The two sorts of \<^verbatim>\<open>registry.go\<close> compare names first and generations second; with the records
  filed under their own names the second comparison never decides.\<close>

lemma sorted_pair_const: "sorted ks \<Longrightarrow> sorted (map (\<lambda>k. (k, g :: 'g :: linorder)) ks)"
  by (induction ks) auto

lemma sort_records_by_key:
  assumes "gm_wf m" and "\<And>k v. gm_get m k = Some v \<Longrightarrow> name v = k \<and> gen v = (g :: 'g :: linorder)"
  shows "sort_key (\<lambda>v. (name v, gen v)) (map snd m) = map snd (gm_sorted m)"
proof (rule sort_key_inj_key_eq)
  show "mset (map snd m) = mset (map snd (gm_sorted m))" by simp
  show "inj_on (\<lambda>v. (name v, gen v)) (set (map snd m))"
  proof (rule inj_onI)
    fix v w assume "v \<in> set (map snd m)" "w \<in> set (map snd m)" "(name v, gen v) = (name w, gen w)"
    moreover from this(1,2) obtain k l where "gm_get m k = Some v" "gm_get m l = Some w"
      using assms(1) by (auto simp: gm_get_in)
    ultimately show "v = w" using assms(2) by (metis option.inject prod.inject)
  qed
  have keys: "map (\<lambda>v. (name v, gen v)) (map snd (gm_sorted m)) =
      map (\<lambda>k. (k, g)) (map fst (gm_sorted m))"
    using assms by (auto simp: gm_get_in)
  have "sorted (map fst (gm_sorted m))" by (simp add: gm_sorted_def)
  then show "sorted (map (\<lambda>v. (name v, gen v)) (map snd (gm_sorted m)))"
    unfolding keys by (rule sorted_pair_const)
qed

lemma sortedInbounds_eq:
  "wf_registry r \<Longrightarrow> sortedInbounds r = map snd (gm_sorted (reg_inbounds r))"
  unfolding sortedInbounds_def
  by (rule sort_records_by_key [of _ _ _ generationFixed]) (auto simp: wf_registry_def wf_inbounds_get)

lemma sortedUsers_eq:
  "wf_users (inb_users rec) \<Longrightarrow> sortedUsers rec = map snd (gm_sorted (inb_users rec))"
  unfolding sortedUsers_def
  by (rule sort_records_by_key [of _ _ _ generationFixed]) (auto simp: wf_users_get)

lemma names_sortedUsers:
  assumes "wf_users (inb_users rec)"
  shows "map usr_name (sortedUsers rec) = map fst (gm_sorted (inb_users rec))"
  using assms by (auto simp: sortedUsers_eq wf_users_def)

lemma tags_sortedInbounds:
  assumes "wf_registry r"
  shows "map inb_tag (sortedInbounds r) = map fst (gm_sorted (reg_inbounds r))"
  using assms by (auto simp: sortedInbounds_eq wf_registry_def wf_inbounds_def)

lemma set_sortedInbounds:
  assumes "wf_registry r"
  shows "rec \<in> set (sortedInbounds r) \<longleftrightarrow> gm_get (reg_inbounds r) (inb_tag rec) = Some rec"
  using assms
  by (force simp: sortedInbounds_eq wf_registry_def wf_inbounds_def gm_get_in [symmetric] image_iff)

lemma wf_users_sortedInbounds:
  "wf_registry r \<Longrightarrow> rec \<in> set (sortedInbounds r) \<Longrightarrow> wf_users (inb_users rec)"
  by (auto simp: set_sortedInbounds wf_registry_def wf_inbounds_get)

text \<open>What a reader of the response finds under a tag and a name.\<close>

definition snapshot_find :: "SnapshotBody \<Rightarrow> string \<Rightarrow> string \<Rightarrow> SnapshotUser option" where
  "snapshot_find s tag name =
    (case find (\<lambda>i. si_Tag i = tag) (sn_Inbounds s) of
       None \<Rightarrow> None | Some i \<Rightarrow> find (\<lambda>u. su_Name u = name) (si_Users i))"

lemma find_gm_sorted:
  assumes "gm_wf m" and "\<And>k v. gm_get m k = Some v \<Longrightarrow> name (f v) = k"
  shows "find (\<lambda>x. name x = k) (map f (map snd (gm_sorted m))) = map_option f (gm_get m k)"
proof -
  have "find (\<lambda>x. name x = k) (map (f \<circ> snd) es) = map_option f (map_of es k)"
    if "\<And>l v. (l, v) \<in> set es \<Longrightarrow> name (f v) = l" for es
    using that by (induction es) auto
  from this [of "gm_sorted m"] assms show ?thesis
    by (simp add: gm_get_in gm_get_sorted)
qed

lemma nextSequence_inbounds [simp]: "reg_inbounds (snd (nextSequence r)) = reg_inbounds r"
  by (simp add: nextSequence_def Let_def)

lemma auditDropped_inbounds [simp]: "reg_inbounds (snd (auditDropped dw r)) = reg_inbounds r"
  by (simp add: auditDropped_def split: option.splits)

lemma Snapshot_Inr:
  assumes "Snapshot dw r = (Inr s, r')"
  shows "sn_Inbounds s = map snapshot_inbound (sortedInbounds r) \<and>
    sn_Sequence s = fst (nextSequence r) \<and> reg_inbounds r' = reg_inbounds r \<and>
    he_SequenceOverflow (sn_Health s) = reg_sequenceOverflow (snd (nextSequence r)) \<and>
    reg_sequence r' = reg_sequence (snd (nextSequence r))"
  using assms
  by (auto simp: Snapshot_def sortedInbounds_def auditDropped_def nextSequence_def Let_def
      split: if_splits option.splits)

section \<open>The mutex of the snapshot\<close>

text \<open>
  Any number of goroutines take snapshots of \<open>n\<close> counters while others add to them. A snapshot
  locks, takes a sequence number, reads the counters one after the other and unlocks; each of
  these is one step. \<open>ss_published\<close> is a ghost: the responses in the order of their completion.
\<close>

datatype snap_pc = SnapIdle | SnapLocked | SnapReading u64 "u64 list"

record snap_sys =
  ss_registry :: Registry
  ss_counters :: "nat \<Rightarrow> u64"
  ss_lock :: "nat option"
  ss_pcs :: "nat \<Rightarrow> snap_pc"
  ss_published :: "(u64 \<times> u64 list) list"

inductive snap_step :: "nat \<Rightarrow> snap_sys \<Rightarrow> snap_sys \<Rightarrow> bool" for n where
  count: "snap_step n s (s\<lparr>ss_counters := (ss_counters s)(k := fst (sat_add (ss_counters s k) d))\<rparr>)"
| lock: "ss_pcs s t = SnapIdle \<Longrightarrow> ss_lock s = None \<Longrightarrow>
    snap_step n s (s\<lparr>ss_lock := Some t, ss_pcs := (ss_pcs s)(t := SnapLocked)\<rparr>)"
| number: "ss_pcs s t = SnapLocked \<Longrightarrow> nextSequence (ss_registry s) = (q, r') \<Longrightarrow>
    snap_step n s (s\<lparr>ss_registry := r', ss_pcs := (ss_pcs s)(t := SnapReading q [])\<rparr>)"
| read: "ss_pcs s t = SnapReading q vs \<Longrightarrow> length vs < n \<Longrightarrow>
    snap_step n s (s\<lparr>ss_pcs := (ss_pcs s)(t := SnapReading q (vs @ [ss_counters s (length vs)]))\<rparr>)"
| unlock: "ss_pcs s t = SnapReading q vs \<Longrightarrow> length vs = n \<Longrightarrow>
    snap_step n s (s\<lparr>ss_lock := None, ss_pcs := (ss_pcs s)(t := SnapIdle),
      ss_published := ss_published s @ [(q, vs)]\<rparr>)"

definition snap_init :: "Registry \<Rightarrow> snap_sys" where
  "snap_init r = \<lparr>ss_registry = r, ss_counters = (\<lambda>_. 0), ss_lock = None,
    ss_pcs = (\<lambda>_. SnapIdle), ss_published = []\<rparr>"

definition below :: "u64 list \<Rightarrow> (nat \<Rightarrow> u64) \<Rightarrow> bool" where
  "below vs c \<longleftrightarrow> (\<forall>i<length vs. vs ! i \<le> c i)"

definition covers :: "u64 list \<Rightarrow> u64 list \<Rightarrow> bool" where
  "covers vs ws \<longleftrightarrow> (\<forall>i<length ws. vs ! i \<le> ws ! i)"

text \<open>The invariant. Only the holder of the lock is inside; its number is the latest one; every
  published response is covered by what the holder has read so far and by the counters.\<close>

definition snap_inv :: "nat \<Rightarrow> snap_sys \<Rightarrow> bool" where
  "snap_inv n s \<longleftrightarrow>
    (\<forall>t. ss_pcs s t \<noteq> SnapIdle \<longleftrightarrow> ss_lock s = Some t) \<and>
    (\<forall>(q, vs)\<in>set (ss_published s). length vs = n \<and> q \<le> reg_sequence (ss_registry s) \<and> below vs (ss_counters s)) \<and>
    (\<forall>t q ws. ss_pcs s t = SnapReading q ws \<longrightarrow> q = reg_sequence (ss_registry s) \<and> length ws \<le> n \<and>
       below ws (ss_counters s) \<and> (\<forall>(_, vs)\<in>set (ss_published s). covers vs ws)) \<and>
    sorted_wrt (\<lambda>(q, vs) (q', vs'). q \<le> q' \<and> covers vs vs') (ss_published s)"

lemma below_count: "below vs c \<Longrightarrow> below vs (c(k := fst (sat_add (c k) d)))"
  using sat_add_mono [of "c k" d] by (auto simp: below_def intro: order_trans)

lemma covers_snoc: "covers vs ws \<Longrightarrow> below vs c \<Longrightarrow> length ws < length vs \<Longrightarrow> covers vs (ws @ [c (length ws)])"
  by (auto simp: covers_def below_def nth_append less_Suc_eq)

lemma below_snoc: "below ws c \<Longrightarrow> below (ws @ [c (length ws)]) c"
  by (auto simp: below_def nth_append less_Suc_eq)

lemma nextSequence_grows:
  "nextSequence r = (q, r') \<Longrightarrow> q = reg_sequence r' \<and> reg_sequence r \<le> reg_sequence r'"
proof -
  assume "nextSequence r = (q, r')"
  moreover have "c \<noteq> max_u64 \<Longrightarrow> c \<le> c + 1" for c :: u64
    by (simp add: word_le_nat_alt unat_succ_u64)
  ultimately show ?thesis
    by (auto simp: nextSequence_def Let_def split: if_splits)
qed

text \<open>The same, seen from the goroutine that is inside.\<close>

definition published_ok :: "nat \<Rightarrow> snap_sys \<Rightarrow> bool" where
  "published_ok n s \<longleftrightarrow>
    (\<forall>(q, vs)\<in>set (ss_published s). length vs = n \<and> q \<le> reg_sequence (ss_registry s) \<and> below vs (ss_counters s)) \<and>
    sorted_wrt (\<lambda>(q, vs) (q', vs'). q \<le> q' \<and> covers vs vs') (ss_published s)"

lemma snap_inv_inside:
  assumes "ss_pcs s t \<noteq> SnapIdle"
  shows "snap_inv n s \<longleftrightarrow> ss_lock s = Some t \<and> (\<forall>u. u \<noteq> t \<longrightarrow> ss_pcs s u = SnapIdle) \<and> published_ok n s \<and>
    (\<forall>q ws. ss_pcs s t = SnapReading q ws \<longrightarrow> q = reg_sequence (ss_registry s) \<and> length ws \<le> n \<and>
       below ws (ss_counters s) \<and> (\<forall>(_, vs)\<in>set (ss_published s). covers vs ws))"
    (is "_ \<longleftrightarrow> ?lock \<and> ?others \<and> _ \<and> _")
proof -
  have inside: "(\<forall>u. ss_pcs s u \<noteq> SnapIdle \<longleftrightarrow> ss_lock s = Some u) \<longleftrightarrow> ?lock \<and> ?others"
    using assms by (metis option.inject)
  show ?thesis
  proof (cases ?others)
    case True
    then have "(\<forall>u q ws. ss_pcs s u = SnapReading q ws \<longrightarrow> P q ws) \<longleftrightarrow>
        (\<forall>q ws. ss_pcs s t = SnapReading q ws \<longrightarrow> P q ws)" for P
      by (metis snap_pc.distinct(3))
    with True inside show ?thesis
      by (simp add: snap_inv_def published_ok_def conj_ac)
  next
    case False
    then show ?thesis
      unfolding snap_inv_def inside by (simp only: simp_thms)
  qed
qed

lemma snap_inv_outside:
  assumes "ss_lock s = None"
  shows "snap_inv n s \<longleftrightarrow> (\<forall>u. ss_pcs s u = SnapIdle) \<and> published_ok n s"
  using assms by (auto simp: snap_inv_def published_ok_def)

lemma snap_inv_init: "snap_inv n (snap_init r)"
  by (simp add: snap_inv_def snap_init_def)

lemma snap_inv_step: "snap_step n s s' \<Longrightarrow> snap_inv n s \<Longrightarrow> snap_inv n s'"
proof (induction rule: snap_step.induct)
  case (count s k d)
  then show ?case by (auto simp: snap_inv_def intro: below_count)
next
  case (lock s t)
  then show ?case
    by (simp add: snap_inv_outside snap_inv_inside [of _ t] published_ok_def)
next
  case (number s t q r')
  from nextSequence_grows [OF number(2)] have "q = reg_sequence r'"
      "reg_sequence (ss_registry s) \<le> reg_sequence r'" by auto
  with number(1,3) show ?case
    by (auto simp: snap_inv_inside [of _ t] published_ok_def below_def covers_def)
next
  case (read s t q vs)
  then have q: "q = reg_sequence (ss_registry s)" "below vs (ss_counters s)"
      "\<forall>(_, us)\<in>set (ss_published s). covers us vs"
    and pub: "\<forall>(q, us)\<in>set (ss_published s). length us = n \<and> below us (ss_counters s)"
    by (auto simp: snap_inv_inside [of _ t] published_ok_def)
  from q(2) have "below (vs @ [ss_counters s (length vs)]) (ss_counters s)"
    by (rule below_snoc)
  moreover have "\<forall>(_, us)\<in>set (ss_published s). covers us (vs @ [ss_counters s (length vs)])"
    using q(3) pub read(2) by (auto intro: covers_snoc)
  ultimately show ?case
    using read q(1) by (simp add: snap_inv_inside [of _ t] published_ok_def)
next
  case (unlock s t q vs)
  then show ?case
    by (auto simp: snap_inv_inside [of _ t] snap_inv_outside published_ok_def sorted_wrt_append)
qed

interpretation snap: invariant_machine "\<lambda>s. s = snap_init r" "snap_step n" "snap_inv n" for r n
  by unfold_locales (simp_all add: snap_inv_init snap_inv_step)

section \<open>Properties\<close>


lemma demo_snapshot: "\<exists>s r'. Snapshot (\<lambda>_. 0) demo_registry = (Inr s, r')"
proof -
  have "\<not> reg_validationOnly demo_registry"
    by (simp add: demo_registry_def Reconcile_def Let_def NewValidationRegistry_def)
  then show ?thesis by (simp add: Snapshot_def split: prod.splits)
qed


text \<open>The sequence number of a snapshot is one more than the last, or stays at \<open>2^64 - 1\<close> with
  the overflow bit set in that very snapshot; either way counters, quota and lineages are left
  alone, and the next snapshot's number is larger unless this one was already the last.\<close>

theorem Snapshot_sequence:
  assumes "Snapshot dw r = (Inr s, r')"
  shows "(if reg_sequence r = max_u64 then sn_Sequence s = max_u64 \<and> he_SequenceOverflow (sn_Health s)
          else unat (sn_Sequence s) = unat (reg_sequence r) + 1) \<and>
    reg_sequence r' = sn_Sequence s \<and>
    r' = r\<lparr>reg_sequence := reg_sequence r', reg_sequenceOverflow := reg_sequenceOverflow r',
      reg_auditDroppedSticky := reg_auditDroppedSticky r'\<rparr>"
proof -
  show ?thesis
    using assms
    by (auto simp: Snapshot_def auditDropped_def nextSequence_def Let_def unat_succ_u64
        split: if_splits option.splits)
qed

theorem Snapshot_sequence_witness:
  "\<exists>s r'. Snapshot (\<lambda>_. 0) demo_registry = (Inr s, r') \<and> reg_sequence r' = sn_Sequence s"
  using demo_snapshot Snapshot_sequence by blast

text \<open>C9. Because number and counters are taken under one mutex, snapshots ordered by their sequence
  numbers never show a counter going back, whatever the interleaving of any number of readers
  and of the data plane.\<close>

theorem snapshots_monotone:
  assumes "(snap_step n)\<^sup>*\<^sup>* (snap_init r) s"
    and "(q, vs) \<in> set (ss_published s)" and "(q', vs') \<in> set (ss_published s)" and "q < q'" and "i < n"
  shows "vs ! i \<le> vs' ! i"
proof -
  have inv: "snap_inv n s" using snap.inv_reachable [OF refl assms(1)] .
  from assms(2,3) obtain a b where
    a: "a < length (ss_published s)" "ss_published s ! a = (q, vs)" and
    b: "b < length (ss_published s)" "ss_published s ! b = (q', vs')"
    by (metis in_set_conv_nth)
  have order: "fst (ss_published s ! j) \<le> fst (ss_published s ! k) \<and>
      covers (snd (ss_published s ! j)) (snd (ss_published s ! k))"
    if "j < k" "k < length (ss_published s)" for j k
  proof -
    from inv have "sorted_wrt (\<lambda>(q, vs) (q', vs'). q \<le> q' \<and> covers vs vs') (ss_published s)"
      by (simp add: snap_inv_def)
    from sorted_wrt_nth_less [OF this that] show ?thesis by (simp add: case_prod_unfold)
  qed
  have "a < b"
  proof (rule ccontr)
    assume "\<not> a < b"
    then consider "b < a" | "a = b" by linarith
    then show False
      using order [of b a] a b assms(4) by cases auto
  qed
  then have "covers vs vs'" using order [of a b] a b by simp
  moreover have "length vs' = n" using inv assms(3) by (auto simp: snap_inv_def)
  ultimately show ?thesis using assms(5) by (simp add: covers_def)
qed

text \<open>A goroutine that finds the mutex free takes a snapshot of one counter in four steps.\<close>

lemma solo_snapshot:
  assumes "ss_lock s = None" and "ss_pcs s t = SnapIdle" and "nextSequence (ss_registry s) = (q, r')"
  shows "(snap_step 1)\<^sup>*\<^sup>* s (s\<lparr>ss_registry := r', ss_published := ss_published s @ [(q, [ss_counters s 0])]\<rparr>)"
proof -
  let ?s1 = "s\<lparr>ss_lock := Some t, ss_pcs := (ss_pcs s)(t := SnapLocked)\<rparr>"
  let ?s2 = "?s1\<lparr>ss_registry := r', ss_pcs := (ss_pcs ?s1)(t := SnapReading q [])\<rparr>"
  let ?s3 = "?s2\<lparr>ss_pcs := (ss_pcs ?s2)(t := SnapReading q ([] @ [ss_counters ?s2 (length ([] :: u64 list))]))\<rparr>"
  let ?s4 = "?s3\<lparr>ss_lock := None, ss_pcs := (ss_pcs ?s3)(t := SnapIdle),
    ss_published := ss_published ?s3 @ [(q, [ss_counters s 0])]\<rparr>"
  have "snap_step 1 s ?s1" using assms by (intro snap_step.lock) simp_all
  moreover have "snap_step 1 ?s1 ?s2" using assms(3) by (intro snap_step.number) simp_all
  moreover have "snap_step 1 ?s2 ?s3" by (rule snap_step.read) simp_all
  moreover have "snap_step 1 ?s3 ?s4" by (rule snap_step.unlock) simp_all
  ultimately have "(snap_step 1)\<^sup>*\<^sup>* s ?s4"
    by (meson converse_rtranclp_into_rtranclp rtranclp.rtrancl_refl)
  moreover have "?s4 = s\<lparr>ss_registry := r', ss_published := ss_published s @ [(q, [ss_counters s 0])]\<rparr>"
    using assms(1,2) by (cases s) (simp add: fun_upd_idem)
  ultimately show ?thesis by simp
qed

theorem snapshots_monotone_witness:
  "\<exists>s. (snap_step 1)\<^sup>*\<^sup>* (snap_init NewValidationRegistry) s \<and>
    ss_published s = [(1, [0]), (2, [7])] \<and> [0 :: u64] ! 0 \<le> [7] ! 0"
proof -
  let ?s0 = "snap_init NewValidationRegistry"
  let ?r1 = "NewValidationRegistry\<lparr>reg_sequence := 1\<rparr>"
  let ?s1 = "?s0\<lparr>ss_registry := ?r1, ss_published := [(1, [0])]\<rparr>"
  let ?s2 = "?s1\<lparr>ss_counters := (ss_counters ?s1)(0 := fst (sat_add (ss_counters ?s1 0) 7))\<rparr>"
  let ?s3 = "?s2\<lparr>ss_registry := ?r1\<lparr>reg_sequence := 2\<rparr>, ss_published := [(1, [0]), (2, [7])]\<rparr>"
  have max: "(0 :: u64) \<noteq> max_u64" "(1 :: u64) \<noteq> max_u64"
    by (simp_all add: max_u64_def)
  have "(snap_step 1)\<^sup>*\<^sup>* ?s0 ?s1"
    using solo_snapshot [of ?s0 0 1 ?r1] max
    by (simp add: snap_init_def NewValidationRegistry_def nextSequence_def)
  moreover have "snap_step 1 ?s1 ?s2" by (rule snap_step.count)
  moreover have "(snap_step 1)\<^sup>*\<^sup>* ?s2 ?s3"
    using solo_snapshot [of ?s2 0 2 "?r1\<lparr>reg_sequence := 2\<rparr>"] max
    by (simp add: snap_init_def NewValidationRegistry_def nextSequence_def sat_add_def)
  ultimately have run: "(snap_step 1)\<^sup>*\<^sup>* ?s0 ?s3" by (meson rtranclp.rtrancl_into_rtrancl rtranclp_trans)
  have "[0 :: u64] ! 0 \<le> [7] ! 0"
    by (rule snapshots_monotone [OF run, of 1 _ 2]) simp_all
  with run show ?thesis by (intro exI [of _ ?s3]) simp
qed

end
