(* ===== verification/Admission.thy ===== *)
theory Admission
  imports Options Snapshot
begin

text \<open>
  \<^verbatim>\<open>sing-box-plus/internal/userstats/quota.go\<close>, second half, and the quota operations of
  \<^verbatim>\<open>registry.go\<close>: may a new connection pass (\<open>admit\<close>), what a refusal leaves behind
  (\<open>noteDenied\<close>), and the whole-table replacement of the limits (\<open>ApplyQuotaTable\<close>), which the
  mutex \<open>apply\<close> makes one step. The monotonic and the wall clock are arguments.
\<close>

section \<open>Updating a lineage in place\<close>

text \<open>Go writes through a \<open>*userRecord\<close>; here the record is reached by its key.\<close>

definition update_inbound :: "string \<Rightarrow> (inboundRecord \<Rightarrow> inboundRecord) \<Rightarrow> Registry \<Rightarrow> Registry" where
  "update_inbound tag f r =
    (case gm_get (reg_inbounds r) tag of
       None \<Rightarrow> r
     | Some record \<Rightarrow> r\<lparr>reg_inbounds := gm_put tag (f record) (reg_inbounds r)\<rparr>)"

definition update_user :: "string \<Rightarrow> string \<Rightarrow> (userRecord \<Rightarrow> userRecord) \<Rightarrow> Registry \<Rightarrow> Registry" where
  "update_user tag name f r =
    update_inbound tag (\<lambda>record.
      case gm_get (inb_users record) name of
        None \<Rightarrow> record
      | Some user \<Rightarrow> record\<lparr>inb_users := gm_put name (f user) (inb_users record)\<rparr>) r"

definition update_quota :: "(quotaCell \<Rightarrow> quotaCell) \<Rightarrow> userRecord \<Rightarrow> userRecord" where
  "update_quota f user = user\<lparr>usr_quota := f (usr_quota user)\<rparr>"

lemma inbound_update_inbound: "inbound (update_inbound tag f r) tag' =
    (if tag' = tag then map_option f (inbound r tag') else inbound r tag')"
  by (auto simp: update_inbound_def inbound_def go_map split: option.splits)

lemma inbound_update_user: "inbound (update_user tag name f r) tag' =
    (if tag' = tag then map_option (\<lambda>record. case gm_get (inb_users record) name of None \<Rightarrow> record
       | Some user \<Rightarrow> record\<lparr>inb_users := gm_put name (f user) (inb_users record)\<rparr>) (inbound r tag')
     else inbound r tag')"
  by (simp add: update_user_def inbound_update_inbound)

lemma lineage_update_user: "lineage (update_user tag name f r) tag' name' =
    (if tag' = tag \<and> name' = name then map_option f (lineage r tag' name') else lineage r tag' name')"
  by (auto simp: lineage_inbound inbound_update_user go_map split: option.splits)

lemma update_user_rest [simp]:
  "reg_quota (update_user tag name f r) = reg_quota r"
  "reg_draining (update_user tag name f r) = reg_draining r"
  "reg_nodeID (update_user tag name f r) = reg_nodeID r"
  "reg_runtimeID (update_user tag name f r) = reg_runtimeID r"
  "reg_audit (update_user tag name f r) = reg_audit r"
  by (simp_all add: update_user_def update_inbound_def split: option.splits)

lemma wf_update_user [go_wf]:
  assumes "wf_registry r" and "\<And>u. usr_name (f u) = usr_name u" "\<And>u. usr_generation (f u) = usr_generation u"
  shows "wf_registry (update_user tag name f r)"
  using assms
  by (auto simp: wf_registry_def wf_inbounds_get wf_users_get update_user_def update_inbound_def go_map
      intro!: gm_wf_put split: option.splits if_splits)

text \<open>The interface: a store whose entries are changed one at a time by key. A loop of changes does to
  one entry what its own changes do, in their order.\<close>

locale updatable =
  fixes entry :: "'s \<Rightarrow> 'k \<Rightarrow> 'v option"
    and change :: "'k \<Rightarrow> ('v \<Rightarrow> 'v) \<Rightarrow> 's \<Rightarrow> 's"
  assumes entry_change: "entry (change k f s) k' = (if k' = k then map_option f (entry s k') else entry s k')"
begin

lemma entry_changes:
  "entry (fold (\<lambda>x. change (key x) (f x)) xs s) k =
    map_option (fold f (filter (\<lambda>x. key x = k) xs)) (entry s k)"
  by (induction xs arbitrary: s) (auto simp: entry_change option.map_comp o_def option.map_id)

lemma entry_changes_last:
  assumes "\<And>x y v. f x (f y v) = f x v"
  shows "entry (fold (\<lambda>x. change (key x) (f x)) xs s) k =
    (case find (\<lambda>x. key x = k) (rev xs) of None \<Rightarrow> entry s k | Some x \<Rightarrow> map_option (f x) (entry s k))"
proof -
  have last: "fold f ys v = f (last ys) v" if "ys \<noteq> []" for ys v
    using that assms by (induction ys arbitrary: v) (auto split: if_splits)
  have "find P (rev xs) = (if filter P xs = [] then None else Some (last (filter P xs)))" for P
    by (induction xs rule: rev_induct) auto
  then show ?thesis
    by (auto simp: entry_changes last option.map_id intro!: option.map_cong0)
qed

lemma changes_kept:
  assumes "\<And>k f s. P s \<Longrightarrow> Q f \<Longrightarrow> P (change k f s)" "P s" "\<forall>x\<in>set xs. Q (f x)"
  shows "P (fold (\<lambda>x. change (key x) (f x)) xs s)"
  using assms(2,3) by (induction xs arbitrary: s) (auto intro: assms(1))

end

interpretation users: updatable "\<lambda>r k. lineage r (fst k) (snd k)" "\<lambda>k. update_user (fst k) (snd k)"
  by unfold_locales (auto simp: lineage_update_user prod_eq_iff)

section \<open>Admission\<close>

datatype admitVerdict =
  admitAllow
| admitDenyExhausted
| admitDenyThrottled
| admitDenyNoTable
| admitDenyStale
| admitDenyDraining

definition admit :: "Registry \<Rightarrow> userRecord \<Rightarrow> i64 \<Rightarrow> admitVerdict" where
  "admit r user nowNanos =
    (if reg_draining r then admitDenyDraining
     else let policy = qs_policy (reg_quota r) in
     if \<not> qp_enabled policy then admitAllow
     else if exhausted (usr_quota user) then admitDenyExhausted
     else if throttled (usr_quota user) nowNanos then admitDenyThrottled
     else if \<not> qs_accepted (reg_quota r) then
       (if qp_startupAction policy = QuotaActionDeny then admitDenyNoTable else admitAllow)
     else if qp_staleAfter policy > 0 \<and> qp_staleAction policy = QuotaActionDeny \<and>
       wrap64 (nowNanos - qs_lastAcceptedNanos (reg_quota r)) > qp_staleAfter policy then admitDenyStale
     else admitAllow)"

definition noteDenied :: "string \<Rightarrow> string \<Rightarrow> i64 \<Rightarrow> Registry \<Rightarrow> Registry" where
  "noteDenied tag name nowNanos r =
    (let throttle = qp_reconnectThrottle (qs_policy (reg_quota r)) in
     if throttle \<le> 0 then r
     else update_user tag name (update_quota (markThrottle (wrap64 (nowNanos + throttle)))) r)"

definition configureQuota :: "QuotaControlOptions option \<Rightarrow> Registry \<Rightarrow> Registry" where
  "configureQuota options r = r\<lparr>reg_quota := (reg_quota r)\<lparr>qs_policy :=
    (case options of
       None \<Rightarrow> disabled_policy
     | Some q \<Rightarrow> \<lparr>qp_enabled = True, qp_startupAction = qo_StartupAction q,
         qp_staleAction = qo_StaleAction q, qp_staleAfter = qo_StaleAfter q,
         qp_reconnectThrottle = qo_ReconnectThrottle q\<rparr>)\<rparr>\<rparr>"

section \<open>The table\<close>

datatype quota_error = errStaleEpoch | errUnknownLineage

fun resolve_entries :: "Registry \<Rightarrow> QuotaEntry list \<Rightarrow> QuotaEntry list \<Rightarrow> string list \<Rightarrow>
    QuotaEntry list \<times> string list" where
  "resolve_entries r [] resolved unknown = (resolved, unknown)"
| "resolve_entries r (entry # entries) resolved unknown =
    (case lookup r (qe_InboundTag entry) (qe_Name entry) of
       (_, None) \<Rightarrow> resolve_entries r entries resolved
         (if length unknown < 8 then unknown @ [qe_InboundTag entry @ ''/'' @ qe_Name entry] else unknown)
     | (_, Some user) \<Rightarrow> resolve_entries r entries (resolved @ [entry]) unknown)"

definition lineage_keys :: "Registry \<Rightarrow> (string \<times> string) list" where
  "lineage_keys r = concat (map (\<lambda>record. map (\<lambda>user. (inb_tag record, usr_name user)) (sortedUsers record))
    (sortedInbounds r))"

definition entry_key :: "QuotaEntry \<Rightarrow> string \<times> string" where
  "entry_key e = (qe_InboundTag e, qe_Name e)"

definition free_unlisted :: "QuotaEntry list \<Rightarrow> Registry \<Rightarrow> Registry" where
  "free_unlisted resolved r =
    fold (\<lambda>k. update_user (fst k) (snd k) (update_quota setUnlimited))
      (filter (\<lambda>k. k \<notin> entry_key ` set resolved) (lineage_keys r)) r"

definition limit_listed :: "QuotaEntry list \<Rightarrow> Registry \<Rightarrow> Registry" where
  "limit_listed resolved r =
    fold (\<lambda>e. update_user (qe_InboundTag e) (qe_Name e)
        (update_quota (\<lambda>c. markThrottle 0 (setLimited (qe_RemainingBytes e) c)))) resolved r"

definition ApplyQuotaTable :: "i64 \<Rightarrow> i64 \<Rightarrow> u64 \<Rightarrow> QuotaEntry list \<Rightarrow> Registry \<Rightarrow>
    ((quota_error \<times> string list) + nat) \<times> Registry" where
  "ApplyQuotaTable nowNanos nowMs epoch entries r =
    (let q = reg_quota r in
     if qs_accepted q \<and> epoch \<le> qs_epoch q
     then (Inl (errStaleEpoch, []), r\<lparr>reg_quota := q\<lparr>qs_rejectedByEpoch := wrap64 (qs_rejectedByEpoch q + 1)\<rparr>\<rparr>)
     else let (resolved, unknown) = resolve_entries r entries [] [] in
     if unknown \<noteq> []
     then (Inl (errUnknownLineage, unknown),
           r\<lparr>reg_quota := q\<lparr>qs_rejectedByUnknown := wrap64 (qs_rejectedByUnknown q + 1)\<rparr>\<rparr>)
     else let r = limit_listed resolved (free_unlisted resolved r) in
       (Inr (length resolved),
        r\<lparr>reg_quota := (reg_quota r)\<lparr>qs_epoch := epoch, qs_accepted := True,
           qs_lastAcceptedNanos := nowNanos, qs_lastAppliedUnixMs := nowMs,
           qs_appliedEntries := int (length resolved)\<rparr>\<rparr>))"

record QuotaStatus =
  st_SchemaVersion :: int
  st_Enabled :: bool
  st_Accepted :: bool
  st_Epoch :: u64
  st_LastAppliedUnixMs :: i64
  st_AppliedEntries :: i64
  st_RejectedByRuntime :: i64
  st_RejectedByEpoch :: i64
  st_RejectedByUnknown :: i64
  st_ThrottledConns :: i64
  st_ActiveLineages :: int
  st_TotalLineages :: int

definition get_QuotaStatus :: "Registry \<Rightarrow> QuotaStatus" where
  "get_QuotaStatus r =
    (let q = reg_quota r in
     \<lparr>st_SchemaVersion = SchemaVersion, st_Enabled = qp_enabled (qs_policy q),
      st_Accepted = qs_accepted q, st_Epoch = qs_epoch q,
      st_LastAppliedUnixMs = qs_lastAppliedUnixMs q, st_AppliedEntries = qs_appliedEntries q,
      st_RejectedByRuntime = qs_rejectedByRuntime q, st_RejectedByEpoch = qs_rejectedByEpoch q,
      st_RejectedByUnknown = qs_rejectedByUnknown q, st_ThrottledConns = qs_throttledConnCount q,
      st_ActiveLineages = countActiveLineages r, st_TotalLineages = countAllLineages r\<rparr>)"

section \<open>What the two passes do to a lineage\<close>

lemma resolve_entries_eq:
  "resolve_entries r entries res unk =
    (res @ filter (\<lambda>e. lineage r (qe_InboundTag e) (qe_Name e) \<noteq> None) entries,
     unk @ take (8 - length unk) (map (\<lambda>e. qe_InboundTag e @ ''/'' @ qe_Name e)
       (filter (\<lambda>e. lineage r (qe_InboundTag e) (qe_Name e) = None) entries)))"
proof (induction entries arbitrary: res unk)
  case (Cons e entries)
  obtain a u where "lookup r (qe_InboundTag e) (qe_Name e) = (a, u)" by fastforce
  then show ?case
    by (cases u; cases "length unk < 8") (simp_all add: Cons.IH lineage_def Suc_diff_Suc [symmetric] take_Cons' del: Suc_diff_Suc)
qed simp

lemma set_sortedUsers:
  assumes "wf_users (inb_users rec)"
  shows "u \<in> set (sortedUsers rec) \<longleftrightarrow> gm_get (inb_users rec) (usr_name u) = Some u"
  using assms by (force simp: sortedUsers_eq wf_users_def gm_get_in [symmetric] image_iff)

lemma lineage_keys_set:
  assumes "wf_registry r"
  shows "(tag, name) \<in> set (lineage_keys r) \<longleftrightarrow> lineage r tag name \<noteq> None"
proof
  assume "(tag, name) \<in> set (lineage_keys r)"
  then obtain rec u where ru: "rec \<in> set (sortedInbounds r)" "tag = inb_tag rec" "u \<in> set (sortedUsers rec)"
      "name = usr_name u" by (auto simp: lineage_keys_def)
  with assms wf_users_sortedInbounds [OF assms ru(1)] show "lineage r tag name \<noteq> None"
    by (simp add: lineage_inbound inbound_def set_sortedInbounds set_sortedUsers)
next
  assume "lineage r tag name \<noteq> None"
  then obtain rec u where rec: "gm_get (reg_inbounds r) tag = Some rec" and u: "gm_get (inb_users rec) name = Some u"
    by (auto simp: lineage_inbound inbound_def split: option.splits)
  with assms have "inb_tag rec = tag" "wf_users (inb_users rec)" by (auto simp: wf_registry_def wf_inbounds_get)
  moreover from this u have "usr_name u = name" by (auto simp: wf_users_get)
  ultimately have "rec \<in> set (sortedInbounds r)" "u \<in> set (sortedUsers rec)"
    using rec u assms by (auto simp: set_sortedInbounds set_sortedUsers)
  then show "(tag, name) \<in> set (lineage_keys r)"
    using \<open>inb_tag rec = tag\<close> \<open>usr_name u = name\<close> by (auto simp: lineage_keys_def intro!: bexI [of _ rec])
qed

definition table_entry :: "QuotaEntry list \<Rightarrow> string \<times> string \<Rightarrow> QuotaEntry option" where
  "table_entry entries k = find (\<lambda>e. entry_key e = k) (rev entries)"

lemma table_entry_None: "table_entry entries k = None \<longleftrightarrow> k \<notin> entry_key ` set entries"
  by (auto simp: table_entry_def find_None_iff)

definition listed_cell :: "QuotaEntry \<Rightarrow> quotaCell \<Rightarrow> quotaCell" where
  "listed_cell e c = c\<lparr>qc_state := quotaLimited, qc_remaining := qe_RemainingBytes e, qc_throttleUntilNanos := 0\<rparr>"

definition freed_cell :: "quotaCell \<Rightarrow> quotaCell" where
  "freed_cell c = c\<lparr>qc_state := quotaUnlimited, qc_remaining := 0\<rparr>"

lemma find_itself: "find (\<lambda>k'. k' = k) ks = (if k \<in> set ks then Some k else None)"
  by (induction ks) auto

lemma lineage_free_unlisted:
  assumes "wf_registry r"
  shows "lineage (free_unlisted es r) tag name =
    (if (tag, name) \<in> entry_key ` set es then lineage r tag name
     else map_option (update_quota freed_cell) (lineage r tag name))"
proof -
  let ?ks = "filter (\<lambda>k. k \<notin> entry_key ` set es) (lineage_keys r)"
  have "lineage (free_unlisted es r) tag name =
      (case find (\<lambda>k. k = (tag, name)) (rev ?ks) of None \<Rightarrow> lineage r tag name
       | Some k \<Rightarrow> map_option (update_quota setUnlimited) (lineage r tag name))"
    using users.entry_changes_last [of "\<lambda>_. update_quota setUnlimited" "\<lambda>k. k" ?ks r "(tag, name)"]
    by (simp add: free_unlisted_def update_quota_def setUnlimited_def split: option.splits)
  moreover have "update_quota setUnlimited = update_quota freed_cell"
    by (simp add: setUnlimited_def freed_cell_def fun_eq_iff update_quota_def)
  ultimately show ?thesis
    using lineage_keys_set [OF assms, of tag name]
    by (cases "lineage r tag name") (auto simp: find_itself)
qed

lemma lineage_limit_listed:
  "lineage (limit_listed es r) tag name =
    (case table_entry es (tag, name) of None \<Rightarrow> lineage r tag name
     | Some e \<Rightarrow> map_option (update_quota (listed_cell e)) (lineage r tag name))"
proof -
  have "update_quota (\<lambda>c. markThrottle 0 (setLimited (qe_RemainingBytes e) c)) = update_quota (listed_cell e)" for e
    by (simp add: markThrottle_def setLimited_def listed_cell_def update_quota_def fun_eq_iff)
  then show ?thesis
    using users.entry_changes_last [of "\<lambda>e. update_quota (listed_cell e)" entry_key es r "(tag, name)"]
    by (simp add: limit_listed_def entry_key_def table_entry_def update_quota_def listed_cell_def split: option.splits)
qed

lemma limit_listed_rest [simp]:
  "reg_quota (limit_listed es r) = reg_quota r" "reg_draining (limit_listed es r) = reg_draining r"
  by (induction es arbitrary: r) (simp_all add: limit_listed_def)

lemma free_unlisted_rest [simp]:
  "reg_quota (free_unlisted es r) = reg_quota r" "reg_draining (free_unlisted es r) = reg_draining r"
proof -
  have "reg_quota (fold (\<lambda>k. update_user (fst k) (snd k) f) ks r) = reg_quota r \<and>
      reg_draining (fold (\<lambda>k. update_user (fst k) (snd k) f) ks r) = reg_draining r" for f ks
    by (induction ks arbitrary: r) simp_all
  then show "reg_quota (free_unlisted es r) = reg_quota r" "reg_draining (free_unlisted es r) = reg_draining r"
    by (simp_all add: free_unlisted_def)
qed

lemma lineage_with_quota [simp]: "lineage (r\<lparr>reg_quota := q\<rparr>) = lineage r"
  by (simp add: lineage_def lookup_def fun_eq_iff)

definition known :: "Registry \<Rightarrow> QuotaEntry \<Rightarrow> bool" where
  "known r e \<longleftrightarrow> lineage r (qe_InboundTag e) (qe_Name e) \<noteq> None"

lemma resolve_all:
  "resolve_entries r es [] [] = (filter (known r) es,
     take 8 (map (\<lambda>e. qe_InboundTag e @ ''/'' @ qe_Name e) (filter (\<lambda>e. \<not> known r e) es)))"
  by (simp add: resolve_entries_eq known_def [abs_def])

lemma ApplyQuotaTable_Inr:
  assumes "ApplyQuotaTable now ms epoch es r = (Inr n, r')"
  shows "\<forall>e\<in>set es. known r e" "n = length es" "\<not> (qs_accepted (reg_quota r) \<and> epoch \<le> qs_epoch (reg_quota r))"
    "r' = (limit_listed es (free_unlisted es r))\<lparr>reg_quota := (reg_quota r)\<lparr>qs_epoch := epoch,
      qs_accepted := True, qs_lastAcceptedNanos := now, qs_lastAppliedUnixMs := ms,
      qs_appliedEntries := int (length es)\<rparr>\<rparr>"
proof -
  show known: "\<forall>e\<in>set es. known r e"
    using assms by (auto simp: ApplyQuotaTable_def Let_def resolve_all filter_empty_conv split: if_splits)
  then have res: "resolve_entries r es [] [] = (es, [])"
    by (auto simp: resolve_all filter_id_conv filter_empty_conv)
  show "n = length es" "\<not> (qs_accepted (reg_quota r) \<and> epoch \<le> qs_epoch (reg_quota r))"
    "r' = (limit_listed es (free_unlisted es r))\<lparr>reg_quota := (reg_quota r)\<lparr>qs_epoch := epoch,
      qs_accepted := True, qs_lastAcceptedNanos := now, qs_lastAppliedUnixMs := ms,
      qs_appliedEntries := int (length es)\<rparr>\<rparr>"
    using assms by (auto simp: ApplyQuotaTable_def Let_def res split: if_splits)
qed

lemma lineage_applied:
  assumes "wf_registry r" and "ApplyQuotaTable now ms epoch es r = (Inr n, r')"
  shows "lineage r' tag name =
    map_option (update_quota (case table_entry es (tag, name) of Some e \<Rightarrow> listed_cell e | None \<Rightarrow> freed_cell))
      (lineage r tag name)"
proof -
  have "(tag, name) \<notin> entry_key ` set es \<longleftrightarrow> table_entry es (tag, name) = None"
    by (simp add: table_entry_None)
  then show ?thesis
    by (auto simp: ApplyQuotaTable_Inr(4) [OF assms(2)] lineage_limit_listed
        lineage_free_unlisted [OF assms(1)] split: option.splits)
qed

section \<open>Properties\<close>


lemma demo_registry_quota [simp]: "reg_quota demo_registry = quotaState_init" "\<not> reg_draining demo_registry"
  by (simp_all add: demo_registry_def Reconcile_def Let_def NewValidationRegistry_def)

definition demo_table :: "QuotaEntry list" where
  "demo_table = [\<lparr>qe_InboundTag = ''ss-in'', qe_Name = ''alice'', qe_RemainingBytes = 100\<rparr>]"

lemma demo_applied: "\<exists>r'. ApplyQuotaTable 5 6 7 demo_table demo_registry = (Inr 1, r')"
proof -
  have "filter (known demo_registry) demo_table = demo_table" "filter (\<lambda>e. \<not> known demo_registry e) demo_table = []"
    using demo_alice by (auto simp: demo_table_def known_def)
  then show ?thesis
    by (simp add: ApplyQuotaTable_def Let_def resolve_all demo_table_def quotaState_init_def)
qed


text \<open>A table is refused as a whole, exactly when its epoch is not new or an entry names no
  lineage of this process; a refusal changes nothing but one rejection counter and reports at
  most eight of the unknown names.\<close>

theorem ApplyQuotaTable_refuses:
  "(case ApplyQuotaTable now ms epoch es r of
      (Inr n, r') \<Rightarrow> (qs_accepted (reg_quota r) \<longrightarrow> qs_epoch (reg_quota r) < epoch) \<and> (\<forall>e\<in>set es. known r e)
    | (Inl (errStaleEpoch, unknown), r') \<Rightarrow> qs_accepted (reg_quota r) \<and> epoch \<le> qs_epoch (reg_quota r) \<and>
        unknown = [] \<and> (\<exists>c. r' = r\<lparr>reg_quota := (reg_quota r)\<lparr>qs_rejectedByEpoch := c\<rparr>\<rparr>)
    | (Inl (errUnknownLineage, unknown), r') \<Rightarrow> (\<exists>e\<in>set es. \<not> known r e) \<and>
        length unknown = min 8 (length (filter (\<lambda>e. \<not> known r e) es)) \<and>
        (\<exists>c. r' = r\<lparr>reg_quota := (reg_quota r)\<lparr>qs_rejectedByUnknown := c\<rparr>\<rparr>))"
  by (auto simp: ApplyQuotaTable_def Let_def resolve_all filter_empty_conv)

definition demo_stranger :: QuotaEntry where
  "demo_stranger = \<lparr>qe_InboundTag = ''ss-in'', qe_Name = ''mallory'', qe_RemainingBytes = 1\<rparr>"

theorem ApplyQuotaTable_refuses_witness:
  "\<exists>unknown r' c. ApplyQuotaTable 5 6 7 [demo_stranger, demo_stranger] NewValidationRegistry =
      (Inl (errUnknownLineage, unknown), r') \<and> length unknown = 2 \<and>
    r' = NewValidationRegistry\<lparr>reg_quota := (reg_quota NewValidationRegistry)\<lparr>qs_rejectedByUnknown := c\<rparr>\<rparr>"
proof -
  have unknown: "\<not> known NewValidationRegistry demo_stranger"
    by (simp add: known_def lookup_def lineage_def NewValidationRegistry_def)
  have "\<not> qs_accepted (reg_quota NewValidationRegistry)"
    by (simp add: NewValidationRegistry_def quotaState_init_def)
  with unknown ApplyQuotaTable_refuses
      [where now = 5 and ms = 6 and epoch = 7 and es = "[demo_stranger, demo_stranger]" and r = NewValidationRegistry]
  show ?thesis by (force split: sum.splits prod.splits quota_error.splits)
qed


fun apply_tables :: "(i64 \<times> i64 \<times> u64 \<times> QuotaEntry list) list \<Rightarrow> Registry \<Rightarrow> u64 list \<times> Registry" where
  "apply_tables [] r = ([], r)"
| "apply_tables ((now, ms, epoch, es) # reqs) r =
    (case ApplyQuotaTable now ms epoch es r of
       (Inl _, r') \<Rightarrow> apply_tables reqs r'
     | (Inr _, r') \<Rightarrow> (case apply_tables reqs r' of (epochs, r'') \<Rightarrow> (epoch # epochs, r'')))"

text \<open>Accepted epochs only grow: in any sequence of tables (each applied under the mutex, in
  whatever order the requests got it), the epochs of those that were accepted are strictly increasing,
  so an older table that arrives late never replaces a newer one.\<close>

theorem epochs_increase:
  "sorted_wrt (<) (fst (apply_tables reqs r)) \<and>
   qs_epoch (reg_quota (snd (apply_tables reqs r))) =
     last (qs_epoch (reg_quota r) # fst (apply_tables reqs r))"
proof -
  have "sorted_wrt (<) (fst (apply_tables reqs r)) \<and>
    (qs_accepted (reg_quota r) \<longrightarrow> (\<forall>e\<in>set (fst (apply_tables reqs r)). qs_epoch (reg_quota r) < e)) \<and>
    qs_epoch (reg_quota (snd (apply_tables reqs r))) = last (qs_epoch (reg_quota r) # fst (apply_tables reqs r))"
  proof (induction reqs arbitrary: r)
    case (Cons req reqs)
    obtain now ms epoch es where req: "req = (now, ms, epoch, es)" by (cases req)
    obtain res r' where res: "ApplyQuotaTable now ms epoch es r = (res, r')" by fastforce
    show ?case
    proof (cases res)
      case (Inl e)
      obtain q u where e: "e = (q, u)" by fastforce
      have "qs_accepted (reg_quota r') = qs_accepted (reg_quota r) \<and> qs_epoch (reg_quota r') = qs_epoch (reg_quota r)"
        using ApplyQuotaTable_refuses [where now = now and ms = ms and epoch = epoch and es = es and r = r] res Inl e by (cases q) auto
      with Cons.IH [of r'] res Inl req show ?thesis by simp
    next
      case (Inr n)
      note facts = ApplyQuotaTable_Inr [OF res [unfolded Inr]]
      then have "qs_accepted (reg_quota r')" "qs_epoch (reg_quota r') = epoch" by simp_all
      moreover obtain epochs r'' where rest: "apply_tables reqs r' = (epochs, r'')" by fastforce
      moreover have "fst (apply_tables (req # reqs) r) = epoch # epochs" "snd (apply_tables (req # reqs) r) = r''"
        using res Inr req rest by simp_all
      ultimately show ?thesis using Cons.IH [of r'] facts(3) by auto
    qed
  qed simp
  then show ?thesis by simp
qed

text \<open>Admission decides exactly as documented: a new connection passes unless the process is
  draining or (with quota control on) the budget is used up, the throttle has not ended, no table has
  come yet and the start-up action denies, or the table is older than allowed and the stale action
  denies.\<close>

theorem admit_allows_iff:
  "admit r user now = admitAllow \<longleftrightarrow>
    \<not> reg_draining r \<and>
    (let p = qs_policy (reg_quota r); q = reg_quota r in
     qp_enabled p \<longrightarrow>
       \<not> (qc_state (usr_quota user) \<noteq> quotaUnlimited \<and> qc_remaining (usr_quota user) \<le> 0) \<and>
       (qc_throttleUntilNanos (usr_quota user) = 0 \<or> qc_throttleUntilNanos (usr_quota user) \<le> now) \<and>
       (\<not> qs_accepted q \<longrightarrow> qp_startupAction p \<noteq> QuotaActionDeny) \<and>
       (qs_accepted q \<and> qp_staleAfter p > 0 \<and> qp_staleAction p = QuotaActionDeny \<longrightarrow>
         wrap64 (now - qs_lastAcceptedNanos q) \<le> qp_staleAfter p))"
  by (auto simp: admit_def Let_def exhausted_def throttled_def)

theorem admit_allows_iff_witness:
  "admit NewValidationRegistry (newUser ''alice'') 5 = admitAllow"
  using admit_allows_iff [of NewValidationRegistry "newUser ''alice''" 5]
  by (simp add: NewValidationRegistry_def quotaState_init_def disabled_policy_def)

text \<open>C28. An accepted configuration that denies when stale fails closed: once the last table is older
  than \<open>stale_after\<close>, no lineage is admitted, whatever its cell says.\<close>

theorem stale_fails_closed:
  assumes "QuotaControl_normalize swap raw = Inr q" and "qo_StaleAction q = QuotaActionDeny"
    and "qs_accepted (reg_quota r)" and "in_i64 (now - qs_lastAcceptedNanos (reg_quota r))"
    and "now - qs_lastAcceptedNanos (reg_quota r) > qo_StaleAfter q"
  shows "admit (configureQuota (Some q) r) user now \<noteq> admitAllow"
proof -
  have "qo_StaleAfter q > 0" using QuotaControl_ok [OF assms(1)] assms(2) by (simp add: ok_quota_control_def)
  with assms show ?thesis
    by (simp add: admit_def configureQuota_def Let_def)
qed

theorem stale_fails_closed_witness:
  "\<forall>u. admit (configureQuota (Some (the (opt_QuotaControl demo_normal)))
      (demo_registry\<lparr>reg_quota := quotaState_init\<lparr>qs_accepted := True\<rparr>\<rparr>)) u 10 \<noteq> admitAllow"
proof
  fix u
  show "admit (configureQuota (Some (the (opt_QuotaControl demo_normal)))
      (demo_registry\<lparr>reg_quota := quotaState_init\<lparr>qs_accepted := True\<rparr>\<rparr>)) u 10 \<noteq> admitAllow"
  proof (rule stale_fails_closed)
    show "QuotaControl_normalize False (the (opt_QuotaControl demo_normal)) = Inr (the (opt_QuotaControl demo_normal))"
      by (rule QuotaControl_fixed) (simp add: demo_normal_def ok_quota_control_def ok_path_def
          maxUnixPathBytes_def QuotaActionAllow_def QuotaActionDeny_def)
  qed (simp_all add: demo_normal_def QuotaActionDeny_def quotaState_init_def in_i64_def)
qed

text \<open>Topping up unblocks at once: after an accepted table that lists a lineage with bytes left, its
  next connection is admitted, even inside a reconnect throttle, unless the process drains.\<close>

theorem relisted_is_admitted:
  assumes "wf_registry r" and "ApplyQuotaTable now ms epoch es r = (Inr n, r')"
    and "table_entry es (tag, name) = Some e" and "qe_RemainingBytes e > 0"
    and "lineage r' tag name = Some user" and "\<not> reg_draining r"
    and "qp_staleAfter (qs_policy (reg_quota r)) \<ge> 0"
    and "now \<le> t" and "t - now \<le> qp_staleAfter (qs_policy (reg_quota r)) \<or>
      qp_staleAction (qs_policy (reg_quota r)) \<noteq> QuotaActionDeny" and "in_i64 (t - now)"
  shows "admit r' user t = admitAllow"
proof -
  note facts = ApplyQuotaTable_Inr [OF assms(2)]
  from assms lineage_applied [OF assms(1,2)] obtain u where "user = update_quota (listed_cell e) u"
    by auto
  with assms facts(4) show ?thesis
    by (auto simp: admit_def Let_def update_quota_def listed_cell_def exhausted_def throttled_def)
qed

theorem relisted_is_admitted_witness:
  "\<exists>r' u. ApplyQuotaTable 5 6 7 demo_table demo_registry = (Inr 1, r') \<and>
    lineage r' ''ss-in'' ''alice'' = Some u \<and> admit r' u 8 = admitAllow"
proof -
  obtain r' where r': "ApplyQuotaTable 5 6 7 demo_table demo_registry = (Inr 1, r')" using demo_applied by blast
  obtain u where u: "lineage r' ''ss-in'' ''alice'' = Some u"
    using demo_alice lineage_applied [OF wf_demo r'] by auto
  have e: "table_entry demo_table (''ss-in'', ''alice'') = Some (hd demo_table)"
    by (simp add: table_entry_def demo_table_def entry_key_def)
  have "admit r' u 8 = admitAllow"
    by (rule relisted_is_admitted [OF wf_demo r' e _ u])
      (simp_all add: demo_table_def quotaState_init_def disabled_policy_def
        QuotaActionAllow_def QuotaActionDeny_def in_i64_def)
  with r' u show ?thesis by blast
qed

end
