(* ===== verification/Go_Base64.thy ===== *)
theory Go_Base64
  imports Go_Strings
begin

text \<open>
  Go's \<^verbatim>\<open>encoding/base64\<close>: the raw (unpadded) URL alphabet names the audit files, the padded
  standard alphabet carries Shadowsocks keys. Decoding is the library's default: line breaks are
  skipped, left-over bits of the last character are ignored.
\<close>

definition url_alphabet :: string where
  "url_alphabet = ''ABCDEFGHIJKLMNOPQRSTUVWXYZabcdefghijklmnopqrstuvwxyz0123456789-_''"

definition std_alphabet :: string where
  "std_alphabet = ''ABCDEFGHIJKLMNOPQRSTUVWXYZabcdefghijklmnopqrstuvwxyz0123456789+/''"

definition enc6 :: "string \<Rightarrow> nat \<Rightarrow> char" where
  "enc6 alpha n = alpha ! (n mod 64)"

definition dec6 :: "string \<Rightarrow> char \<Rightarrow> nat option" where
  "dec6 alpha c = find (\<lambda>i. alpha ! i = c) [0..<64]"

fun raw_encode :: "string \<Rightarrow> string \<Rightarrow> string" where
  "raw_encode alpha [] = []"
| "raw_encode alpha [a] = [enc6 alpha (byte_of a div 4), enc6 alpha (byte_of a * 16)]"
| "raw_encode alpha [a, b] =
    [enc6 alpha (byte_of a div 4), enc6 alpha (byte_of a * 16 + byte_of b div 16), enc6 alpha (byte_of b * 4)]"
| "raw_encode alpha (a # b # c # s) =
    [enc6 alpha (byte_of a div 4), enc6 alpha (byte_of a * 16 + byte_of b div 16),
     enc6 alpha (byte_of b * 4 + byte_of c div 64), enc6 alpha (byte_of c)] @ raw_encode alpha s"

fun raw_quanta :: "string \<Rightarrow> string \<Rightarrow> string option" where
  "raw_quanta alpha [] = Some []"
| "raw_quanta alpha [w] = None"
| "raw_quanta alpha [w, x] =
    (case (dec6 alpha w, dec6 alpha x) of
       (Some w, Some x) \<Rightarrow> Some [char_of (w * 4 + x div 16)]
     | _ \<Rightarrow> None)"
| "raw_quanta alpha [w, x, y] =
    (case (dec6 alpha w, dec6 alpha x, dec6 alpha y) of
       (Some w, Some x, Some y) \<Rightarrow> Some [char_of (w * 4 + x div 16), char_of (x * 16 + y div 4)]
     | _ \<Rightarrow> None)"
| "raw_quanta alpha (w # x # y # z # s) =
    (case (dec6 alpha w, dec6 alpha x, dec6 alpha y, dec6 alpha z) of
       (Some w, Some x, Some y, Some z) \<Rightarrow>
         map_option (\<lambda>rest. [char_of (w * 4 + x div 16), char_of (x * 16 + y div 4), char_of (y * 64 + z)] @ rest)
           (raw_quanta alpha s)
     | _ \<Rightarrow> None)"

definition strip_newlines :: "string \<Rightarrow> string" where
  "strip_newlines s = filter (\<lambda>c. c \<noteq> CHR 0x0a \<and> c \<noteq> CHR 0x0d) s"

definition raw_decode :: "string \<Rightarrow> string \<Rightarrow> string option" where
  "raw_decode alpha s = raw_quanta alpha (strip_newlines s)"

text \<open>With padding, the length is a multiple of four and the last group may end in one or two \<open>=\<close>.\<close>

definition std_decode :: "string \<Rightarrow> string \<Rightarrow> string option" where
  "std_decode alpha s =
    (let t = strip_newlines s; n = length t in
     if n mod 4 \<noteq> 0 then None
     else if n \<ge> 4 \<and> drop (n - 2) t = ''=='' then raw_quanta alpha (take (n - 2) t)
     else if n \<ge> 4 \<and> last t = CHR ''='' then raw_quanta alpha (butlast t)
     else raw_quanta alpha t)"

section \<open>Round trip\<close>

definition ok_alphabet :: "string \<Rightarrow> bool" where
  "ok_alphabet alpha \<longleftrightarrow> length alpha = 64 \<and> distinct alpha \<and>
    list_all (\<lambda>c. c \<noteq> CHR 0x0a \<and> c \<noteq> CHR 0x0d \<and> c \<noteq> CHR ''.'' \<and> c \<noteq> CHR 0x00 \<and> c \<noteq> CHR ''='') alpha"

lemma ok_url: "ok_alphabet url_alphabet" and ok_std: "ok_alphabet std_alphabet"
  by (simp_all add: ok_alphabet_def url_alphabet_def std_alphabet_def)

lemma dec6_enc6:
  assumes "ok_alphabet alpha"
  shows "dec6 alpha (enc6 alpha n) = Some (n mod 64)"
proof -
  have uniq: "i = n mod 64" if "i < 64" "alpha ! i = alpha ! (n mod 64)" for i
    using assms that nth_eq_iff_index_eq [of alpha i "n mod 64"] by (simp add: ok_alphabet_def)
  have "find (\<lambda>i. alpha ! i = alpha ! (n mod 64)) [0..<64] = Some (n mod 64)"
    unfolding find_Some_iff by (intro exI [of _ "n mod 64"]) (auto simp del: upt_rec_numeral, metis less_trans mod_less_divisor less_irrefl uniq zero_less_numeral)
  then show ?thesis by (simp only: dec6_def enc6_def)
qed

lemma mod_div_swap: "m > 0 \<Longrightarrow> (x mod (m * n)) div m = (x div m) mod (n :: nat)"
  by (simp add: mod_mult2_eq)

lemma pack1:
  assumes "a < 256" "k < 16"
  shows "(a div 4) mod 64 * 4 + (a * 16 + k) mod 64 div 16 = (a :: nat)"
proof -
  have "(a * 16 + k) mod 64 div 16 = a mod 4"
    using mod_div_swap [of 16 "a * 16 + k" 4] assms(2) by simp
  moreover have "(a div 4) mod 64 = a div 4" using assms(1) by (simp add: less_mult_imp_div_less)
  ultimately show ?thesis by simp
qed

lemma pack2:
  assumes "b < 256" "k < 4"
  shows "((a * 16 + b div 16) mod 64 * 16 + (b * 4 + k) mod 64 div 4) mod 256 = (b :: nat)"
proof -
  have low: "(b * 4 + k) mod 64 div 4 = b mod 16"
    using mod_div_swap [of 4 "b * 4 + k" 16] assms(2) by simp
  have "b div 16 < 16" using assms(1) by (simp add: less_mult_imp_div_less)
  then have "(a * 16 + b div 16) mod 64 = 16 * (a mod 4) + b div 16"
    using mod_mult2_eq [of "a * 16 + b div 16" 16 4] by simp
  then have "(a * 16 + b div 16) mod 64 * 16 + (b * 4 + k) mod 64 div 4 = 256 * (a mod 4) + b"
    using low by simp
  then show ?thesis using assms(1) by simp
qed

lemma pack3:
  assumes "c < 256"
  shows "((b * 4 + c div 64) mod 64 * 64 + c mod 64) mod 256 = (c :: nat)"
proof -
  have "c div 64 < 4" using assms by (simp add: less_mult_imp_div_less)
  then have "(b * 4 + c div 64) mod 64 = 4 * (b mod 16) + c div 64"
    using mod_mult2_eq [of "b * 4 + c div 64" 4 16] by simp
  then have "(b * 4 + c div 64) mod 64 * 64 + c mod 64 = 256 * (b mod 16) + c" by simp
  then show ?thesis using assms by simp
qed

lemma char_of_mod_eq: "n mod 256 = byte_of c \<Longrightarrow> char_of n = c"
  by (metis char_of_mod_256 char_of_char)

lemma pack_bytes:
  "k < 16 \<Longrightarrow> char_of (byte_of a div 4 mod 64 * 4 + (byte_of a * 16 + k) mod 64 div 16) = a"
  "k < 4 \<Longrightarrow> char_of ((byte_of a * 16 + byte_of b div 16) mod 64 * 16 + (byte_of b * 4 + k) mod 64 div 4) = b"
  "char_of ((byte_of b * 4 + byte_of c div 64) mod 64 * 64 + byte_of c mod 64) = c"
proof -
  show "k < 16 \<Longrightarrow> char_of (byte_of a div 4 mod 64 * 4 + (byte_of a * 16 + k) mod 64 div 16) = a"
    by (subst pack1) (simp_all add: nat_of_char_less_256)
  show "k < 4 \<Longrightarrow> char_of ((byte_of a * 16 + byte_of b div 16) mod 64 * 16 + (byte_of b * 4 + k) mod 64 div 4) = b"
    by (rule char_of_mod_eq) (rule pack2, rule nat_of_char_less_256)
  show "char_of ((byte_of b * 4 + byte_of c div 64) mod 64 * 64 + byte_of c mod 64) = c"
    by (rule char_of_mod_eq) (rule pack3, rule nat_of_char_less_256)
qed

lemma raw_encode_chars: "ok_alphabet alpha \<Longrightarrow> set (raw_encode alpha s) \<subseteq> set alpha"
  by (induction alpha s rule: raw_encode.induct) (auto simp: ok_alphabet_def enc6_def)

lemma raw_quanta_encode:
  assumes "ok_alphabet alpha"
  shows "raw_quanta alpha (raw_encode alpha s) = Some s"
  using assms
proof (induction alpha s rule: raw_encode.induct)
  case (2 alpha a)
  then show ?case using pack_bytes(1) [of 0 a] by (simp add: dec6_enc6)
next
  case (3 alpha a b)
  then show ?case
    using pack_bytes(1) [of "byte_of b div 16" a] pack_bytes(2) [of 0 a b]
    by (simp add: dec6_enc6 less_mult_imp_div_less)
next
  case (4 alpha a b c s)
  then show ?case
    using pack_bytes(1) [of "byte_of b div 16" a] pack_bytes(2) [of "byte_of c div 64" a b] pack_bytes(3) [of b c]
    by (simp add: dec6_enc6 less_mult_imp_div_less)
qed simp

lemma raw_roundtrip:
  assumes "ok_alphabet alpha"
  shows "raw_decode alpha (raw_encode alpha s) = Some s"
proof -
  have "strip_newlines (raw_encode alpha s) = raw_encode alpha s"
    using assms raw_encode_chars [OF assms, of s]
    by (auto simp: strip_newlines_def filter_id_conv ok_alphabet_def list_all_iff)
  then show ?thesis by (simp add: raw_decode_def raw_quanta_encode [OF assms])
qed

lemma std_decode_plain: "length s mod 4 \<noteq> 0 \<Longrightarrow> strip_newlines s = s \<Longrightarrow> std_decode alpha s = None"
  by (simp add: std_decode_def)

end
