(* ===== verification/Audit_Name.thy ===== *)
theory Audit_Name
  imports Go_Base64 Go_Utf8
begin

text \<open>
  \<^verbatim>\<open>sing-box-plus/internal/userstats/audit_file.go\<close>, naming: the audit file of a billing identity.
  An identity is an arbitrary printable string, so its name in the file system is encoded.
\<close>

section \<open>Names\<close>

definition auditFilePrefix :: string where "auditFilePrefix = ''access-''"
definition auditFileSuffix :: string where "auditFileSuffix = ''.jsonl''"

definition auditFileName :: "string \<Rightarrow> string" where
  "auditFileName identity = auditFilePrefix @ raw_encode url_alphabet identity @ auditFileSuffix"

definition auditIdentityFromFileName :: "string \<Rightarrow> string option" where
  "auditIdentityFromFileName name =
    (if \<not> prefix auditFilePrefix name then None
     else let rest = TrimPrefix name auditFilePrefix in
       case Index rest auditFileSuffix of
         None \<Rightarrow> None
       | Some index \<Rightarrow> raw_decode url_alphabet (take index rest))"

definition folded_name :: "string \<Rightarrow> string" where
  "folded_name identity = ToLower id (auditFileName identity)"

text \<open>The map of folded names to identities is threaded through the loop; \<open>strings.ToLower\<close> of a name
  over the base64url alphabet only ever sees ASCII, so the Unicode table does not matter.\<close>

fun collisions :: "string list \<Rightarrow> string gomap \<Rightarrow> (string \<times> string) option" where
  "collisions [] folded = None"
| "collisions (identity # identities) folded =
    (let key = folded_name identity in
     case gm_get folded key of
       Some previous \<Rightarrow>
         if previous \<noteq> identity then Some (previous, identity)
         else collisions identities (gm_put key identity folded)
     | None \<Rightarrow> collisions identities (gm_put key identity folded))"

definition checkAuditNameCollisions :: "string list \<Rightarrow> (string \<times> string) option" where
  "checkAuditNameCollisions identities = collisions identities []"

section \<open>Facts\<close>

lemma url_chars: "c \<in> set (raw_encode url_alphabet s) \<Longrightarrow> c \<in> set url_alphabet"
  using raw_encode_chars [OF ok_url] by blast

lemma Index_dotless:
  "CHR ''.'' \<notin> set s \<Longrightarrow> Index (s @ ''.jsonl'' @ rest) ''.jsonl'' = Some (length s)"
  by (induction s) (auto simp: prefix_Cons)

lemma no_dot: "CHR ''.'' \<notin> set (raw_encode url_alphabet s)"
  using url_chars [of "CHR ''.''" s] by (auto simp: url_alphabet_def)

lemma identity_of_name: "auditIdentityFromFileName (auditFileName identity @ rest) = Some identity"
  using Index_dotless [OF no_dot, of identity rest]
  by (simp add: auditIdentityFromFileName_def auditFileName_def auditFilePrefix_def auditFileSuffix_def
      TrimPrefix_def raw_roundtrip [OF ok_url])

lemma auditFileName_inj: "auditFileName a = auditFileName b \<longleftrightarrow> a = b"
  by (metis append_Nil2 identity_of_name option.inject)

lemma collisions_None:
  "collisions identities folded = None \<longleftrightarrow>
    (\<forall>x\<in>set identities. \<forall>y. gm_get folded (folded_name x) = Some y \<longrightarrow> y = x) \<and>
    (\<forall>x\<in>set identities. \<forall>y\<in>set identities. folded_name x = folded_name y \<longrightarrow> x = y)"
proof (induction identities arbitrary: folded)
  case (Cons i rest)
  have IH: "collisions rest (gm_put (folded_name i) i folded) = None \<longleftrightarrow>
    (\<forall>x\<in>set rest. if folded_name x = folded_name i then x = i
       else \<forall>y. gm_get folded (folded_name x) = Some y \<longrightarrow> y = x) \<and>
    (\<forall>x\<in>set rest. \<forall>y\<in>set rest. folded_name x = folded_name y \<longrightarrow> x = y)"
    unfolding Cons.IH by (auto simp: go_map)
  show ?case
  proof (cases "gm_get folded (folded_name i)")
    case None
    then have "collisions (i # rest) folded = None \<longleftrightarrow> collisions rest (gm_put (folded_name i) i folded) = None"
      by simp
    then show ?thesis unfolding IH using None by auto
  next
    case (Some previous)
    then have "collisions (i # rest) folded = None \<longleftrightarrow>
        previous = i \<and> collisions rest (gm_put (folded_name i) i folded) = None"
      by simp
    then show ?thesis unfolding IH using Some by auto
  qed
qed simp

section \<open>Properties\<close>

text \<open>C33. A file name gives its identity back, also after rotation has appended a dot and a time stamp
  (or anything else) to it.\<close>

theorem auditFileName_roundtrip:
  "auditIdentityFromFileName (auditFileName identity @ rest) = Some identity"
  by (rule identity_of_name)

text \<open>No identity, however it is spelled, escapes the audit directory: its file name has no path
  separator and no NUL byte, is neither \<open>.\<close> nor \<open>..\<close>, and different identities have different names.\<close>

theorem auditFileName_contained:
  "CHR ''/'' \<notin> set (auditFileName identity) \<and> CHR 0x00 \<notin> set (auditFileName identity) \<and>
   hd (auditFileName identity) \<noteq> CHR ''.'' \<and> (auditFileName other = auditFileName identity \<longleftrightarrow> other = identity)"
  using url_chars [of "CHR ''/''" identity] url_chars [of "CHR 0x00" identity]
  by (auto simp: auditFileName_inj) (auto simp: auditFileName_def auditFilePrefix_def auditFileSuffix_def url_alphabet_def)

text \<open>The start-up check refuses exactly the sets of identities two of which would share a file on
  a file system that ignores case.\<close>

theorem checkAuditNameCollisions_iff:
  "checkAuditNameCollisions identities = None \<longleftrightarrow>
    (\<forall>x\<in>set identities. \<forall>y\<in>set identities.
      ToLower id (auditFileName x) = ToLower id (auditFileName y) \<longrightarrow> x = y)"
  by (simp add: checkAuditNameCollisions_def collisions_None flip: folded_name_def)

theorem checkAuditNameCollisions_iff_witness: "checkAuditNameCollisions [''alice'', ''bob'', ''alice''] = None"
proof -
  have "ToLower id (auditFileName ''alice'') \<noteq> ToLower id (auditFileName ''bob'')" by code_simp
  then show ?thesis
    unfolding checkAuditNameCollisions_iff [of "[''alice'', ''bob'', ''alice'']"] by auto
qed

end
