(* ===== verification/Go_Json.thy ===== *)
theory Go_Json
  imports Go_Utf8
begin

text \<open>
  The encoder of Go's \<^verbatim>\<open>encoding/json\<close> for the values the program writes: compact, keys of a Go map in
  byte order, keys of a struct in the order of its fields. The flag says whether \<open><\<close>, \<open>>\<close> and \<open>&\<close>
  are escaped (\<open>json.Marshal\<close> does, an encoder with \<open>SetEscapeHTML(false)\<close> does not).
\<close>

datatype json =
  JNull
| JBool bool
| JNum int
| JStr string
| JArr "json list"
| JObj "(string \<times> json) list"

definition JMap :: "(string \<times> json) list \<Rightarrow> json" where
  "JMap kvs = JObj (sort_key fst kvs)"

definition escape_ascii :: "bool \<Rightarrow> char \<Rightarrow> string" where
  "escape_ascii html c =
    (if c = CHR 0x5c then [CHR 0x5c, CHR 0x5c]
     else if c = CHR 0x22 then [CHR 0x5c, CHR 0x22]
     else if c = CHR 0x08 then [CHR 0x5c, CHR ''b'']
     else if c = CHR 0x0c then [CHR 0x5c, CHR ''f'']
     else if c = CHR 0x0a then [CHR 0x5c, CHR ''n'']
     else if c = CHR 0x0d then [CHR 0x5c, CHR ''r'']
     else if c = CHR 0x09 then [CHR 0x5c, CHR ''t'']
     else if byte_of c < 32 \<or> html \<and> (c = CHR ''<'' \<or> c = CHR ''>'' \<or> c = CHR ''&'')
     then [CHR 0x5c, CHR ''u'', CHR ''0'', CHR ''0'', hex_digit (byte_of c div 16), hex_digit (byte_of c mod 16)]
     else [c])"

function escape_string :: "bool \<Rightarrow> string \<Rightarrow> string" where
  "escape_string html [] = []"
| "escape_string html (c # s) =
    (if byte_of c < 128 then escape_ascii html c @ escape_string html s
     else if invalid_head (c # s) then [CHR 0x5c, CHR ''u'', CHR ''f'', CHR ''f'', CHR ''f'', CHR ''d''] @ escape_string html s
     else let (r, w) = DecodeRune (c # s) in
       (if r = 8232 \<or> r = 8233
        then [CHR 0x5c, CHR ''u'', CHR ''2'', CHR ''0'', CHR ''2'', hex_digit (r mod 16)]
        else take w (c # s)) @ escape_string html (drop w (c # s)))"
  by pat_completeness auto
termination
proof (relation "measure (\<lambda>(_, s). length s)")
  fix html c s x r w
  assume "x = DecodeRune (c # s)" "(r, w) = x"
  then have "1 \<le> w" using DecodeRune_width [of "c # s"] by (metis list.discI snd_conv)
  then show "((html, drop w (c # s)), html, c # s) \<in> measure (\<lambda>(_, s). length s)" by simp
qed simp_all

definition json_string :: "bool \<Rightarrow> string \<Rightarrow> string" where
  "json_string html s = CHR 0x22 # escape_string html s @ [CHR 0x22]"

definition commas :: "string list \<Rightarrow> string" where
  "commas xs = concat (map (\<lambda>x. '','' @ x) xs)"

definition bracketed :: "char \<Rightarrow> char \<Rightarrow> string list \<Rightarrow> string" where
  "bracketed l r xs = l # drop 1 (commas xs) @ [r]"

fun marshal :: "bool \<Rightarrow> json \<Rightarrow> string" where
  "marshal html JNull = ''null''"
| "marshal html (JBool b) = (if b then ''true'' else ''false'')"
| "marshal html (JNum n) = Itoa n"
| "marshal html (JStr s) = json_string html s"
| "marshal html (JArr xs) = bracketed CHR ''['' CHR '']'' (map (marshal html) xs)"
| "marshal html (JObj kvs) =
    bracketed (CHR 0x7b) (CHR 0x7d) (map (\<lambda>(k, v). json_string html k @ '':'' @ marshal html v) kvs)"

text \<open>One value on a line of its own, as both the exporter and the audit write it.\<close>

definition json_line :: "bool \<Rightarrow> json \<Rightarrow> string" where
  "json_line html v = marshal html v @ [CHR 0x0a]"

section \<open>A line stays a line\<close>

definition no_control :: "string \<Rightarrow> bool" where
  "no_control s \<longleftrightarrow> (\<forall>c\<in>set s. 32 \<le> byte_of c)"

lemma no_control_simps [simp]:
  "no_control []" "no_control (c # s) \<longleftrightarrow> 32 \<le> byte_of c \<and> no_control s"
  "no_control (s @ t) \<longleftrightarrow> no_control s \<and> no_control t"
  by (auto simp: no_control_def)

lemma no_control_drop: "no_control s \<Longrightarrow> no_control (drop n s)"
  by (auto simp: no_control_def dest: in_set_dropD)

lemma hex_digit_printable: "n < 16 \<Longrightarrow> 32 \<le> byte_of (hex_digit n)"
proof -
  assume "n < 16"
  then have "hex_digit n \<in> set ''0123456789abcdef''"
    unfolding hex_digit_def by (intro nth_mem) simp
  then show ?thesis by auto
qed

lemma escape_ascii_clean: "byte_of c < 128 \<Longrightarrow> no_control (escape_ascii html c)"
  by (auto simp: escape_ascii_def hex_digit_printable less_mult_imp_div_less)

lemma cont_high: "cont c \<Longrightarrow> 128 \<le> byte_of c" "second_ok c0 c \<Longrightarrow> 128 \<le> byte_of c"
  by (auto simp: cont_def second_ok_def Let_def split: if_splits)

lemma DecodeRune_high:
  assumes "\<not> invalid_head (c # s)" and "128 \<le> byte_of c"
  shows "no_control (take (snd (DecodeRune (c # s))) (c # s))"
proof -
  have high: "32 \<le> byte_of d" if "cont d \<or> second_ok e d" for d e
    using that cont_high(1) [of d] cont_high(2) [of e d] by auto
  consider "s = []" | c1 where "s = [c1]" | c1 c2 where "s = [c1, c2]"
    | c1 c2 c3 r where "s = c1 # c2 # c3 # r"
    by (metis list.exhaust)
  then show ?thesis
    using assms by cases (simp_all add: invalid_head_def Let_def DecodeRune.simps high split: if_splits)
qed

lemma escape_string_clean: "no_control (escape_string html s)"
proof (induction html s rule: escape_string.induct)
  case (2 html c s)
  obtain r w where rw: "DecodeRune (c # s) = (r, w)" by fastforce
  consider "byte_of c < 128" | "\<not> byte_of c < 128" "invalid_head (c # s)"
    | "\<not> byte_of c < 128" "\<not> invalid_head (c # s)" by blast
  then show ?case
  proof cases
    case 1
    then show ?thesis using 2(1) by (simp add: escape_ascii_clean)
  next
    case 2
    then show ?thesis using "2.IH"(2) by simp
  next
    case 3
    have "no_control (escape_string html (drop w (c # s)))" using "2.IH"(3) [OF 3] rw by simp
    moreover have "no_control (take w (c # s))" using DecodeRune_high [of c s] 3 rw by simp
    ultimately show ?thesis using 3 rw by (simp add: hex_digit_printable del: DecodeRune.simps)
  qed
qed simp

lemma json_string_clean [simp]: "no_control (json_string html s)"
  by (simp add: json_string_def escape_string_clean)

lemma itoa_nat_clean: "no_control (itoa_nat n)"
  using itoa_nat_correct [of n] by (auto simp: no_control_def list_all_iff is_digit_def)

lemma commas_clean: "\<forall>x\<in>set xs. no_control x \<Longrightarrow> no_control (commas xs)"
  by (induction xs) (auto simp: commas_def)

lemma bracketed_clean: "\<forall>x\<in>set xs. no_control x \<Longrightarrow> 32 \<le> byte_of l \<Longrightarrow> 32 \<le> byte_of r \<Longrightarrow>
    no_control (bracketed l r xs)"
  by (simp add: bracketed_def commas_clean no_control_drop)

lemma marshal_clean: "no_control (marshal html v)"
proof (induction html v rule: marshal.induct)
  case (3 html n)
  then show ?case by (simp add: Itoa_def itoa_nat_clean)
next
  case (5 html xs)
  then show ?case by (auto intro!: bracketed_clean)
next
  case (6 html kvs)
  then show ?case by (auto intro!: bracketed_clean)
qed simp_all

lemma json_line_once: "filter (\<lambda>c. c = CHR 0x0a) (json_line html v) = [CHR 0x0a]"
proof -
  have "CHR 0x0a \<notin> set (marshal html v)" using marshal_clean [of html v] by (auto simp: no_control_def)
  then have "filter (\<lambda>c. c = CHR 0x0a) (marshal html v) = []" by (auto simp: filter_empty_conv)
  then show ?thesis by (simp add: json_line_def)
qed

lemma json_line_nonempty [simp]: "json_line html v \<noteq> []"
  by (simp add: json_line_def)

end
