(* ===== verification/Audit_Line.thy ===== *)
theory Audit_Line
  imports Exclude Go_Json
begin

text \<open>
  \<^verbatim>\<open>sing-box-plus/internal/userstats/audit.go\<close>, first part: what is recorded and how one line of
  the audit looks. A host name comes from the client (the sniffed SNI) and may be any byte string.
\<close>

section \<open>Records and hosts\<close>

record auditRecord =
  ar_user :: string
  ar_inboundTag :: string
  ar_network :: string
  ar_host :: string
  ar_hostSource :: string
  ar_port :: u16
  ar_up :: i64
  ar_down :: i64
  ar_durationMs :: i64

definition auditSentinelHosts :: "string list" where
  "auditSentinelHosts = [''sp.mux.sing-box.arpa'', ''sp.v2.udp-over-tcp.arpa'', ''sp.udp-over-tcp.arpa'',
    ''sp.packet-addr.v2fly.arpa'']"

definition auditMaxHostBytes :: nat where
  "auditMaxHostBytes = 255"

text \<open>The fields of \<open>adapter.InboundContext\<close> that the audit and the tracker read; an invalid address
  (\<open>netip.Addr{}\<close>) is \<open>None\<close>.\<close>

record InboundContext =
  md_Inbound :: string
  md_User :: string
  md_Domain :: string
  md_Fqdn :: string
  md_Addr :: "addr option"
  md_Port :: u16

definition auditHost :: "InboundContext \<Rightarrow> string \<times> string" where
  "auditHost md =
    (if md_Domain md \<noteq> [] then (md_Domain md, auditHostSourceSniff)
     else if md_Fqdn md \<noteq> [] then (md_Fqdn md, auditHostSourceFqdn)
     else case md_Addr md of Some a \<Rightarrow> (addr_String a, auditHostSourceIP) | None \<Rightarrow> ([], auditHostSourceIP))"

function cut_to_valid :: "string \<Rightarrow> string" where
  "cut_to_valid s = (if s \<noteq> [] \<and> \<not> ValidString s then cut_to_valid (butlast s) else s)"
  by pat_completeness auto
termination by (relation "measure length") auto

declare cut_to_valid.simps [simp del]

definition replacement_char :: string where
  "replacement_char = [CHR 0xef, CHR 0xbf, CHR 0xbd]"

definition normalizeAuditHost :: "(nat \<Rightarrow> nat) \<Rightarrow> string \<Rightarrow> string" where
  "normalizeAuditHost ul host =
    (let host = ToLower ul host;
         host = TrimSuffix host ''.'';
         host = ToValidUTF8 host replacement_char
     in if length host > auditMaxHostBytes then cut_to_valid (take auditMaxHostBytes host) else host)"

text \<open>The success criterion of \<open>submit\<close>, and the carrier addresses that are no destination.\<close>

definition worth_recording :: "auditRecord \<Rightarrow> bool" where
  "worth_recording r \<longleftrightarrow>
    (if ar_network r = ''tcp'' then \<not> (ar_up r \<le> 0 \<or> ar_down r \<le> 0) else \<not> ar_up r \<le> 0) \<and>
    ar_host r \<notin> set auditSentinelHosts"

section \<open>Lines\<close>

definition json_list :: "('a \<Rightarrow> json) \<Rightarrow> 'a list \<Rightarrow> json" where
  "json_list f xs = (if xs = [] then JNull else JArr (map f xs))"

definition record_line :: "(nat \<Rightarrow> nat) \<Rightarrow> string \<Rightarrow> string \<Rightarrow> u64 \<Rightarrow> i64 \<Rightarrow> auditRecord \<Rightarrow> string" where
  "record_line ul nodeID runtimeID seq nowMs r = json_line True (JMap
    [(''seq'', JNum (uint seq)), (''ts'', JNum nowMs), (''node'', JStr nodeID), (''run'', JStr runtimeID),
     (''user'', JStr (ar_user r)), (''in'', JStr (ar_inboundTag r)), (''net'', JStr (ar_network r)),
     (''host'', JStr (normalizeAuditHost ul (ar_host r))), (''host_src'', JStr (ar_hostSource r)),
     (''port'', JNum (uint (ar_port r))), (''up'', JNum (ar_up r)), (''down'', JNum (ar_down r)),
     (''ms'', JNum (ar_durationMs r))])"

definition filter_line :: "excludeFilter option \<Rightarrow> u64 \<Rightarrow> string" where
  "filter_line f seq =
    (case describe f of (hosts, ips, ports) \<Rightarrow> json_line True (JMap
      [(''seq'', JNum (uint seq)), (''ev'', JStr ''filter''), (''hosts'', json_list JStr hosts),
       (''ips'', json_list JStr ips), (''ports'', json_list (\<lambda>p. JNum (uint p)) ports)]))"

definition event_line :: "string \<Rightarrow> u64 \<Rightarrow> u64 \<Rightarrow> u64 option \<Rightarrow> string \<Rightarrow> string" where
  "event_line event seq after num reason = json_line True (JMap
    ([(''seq'', JNum (uint seq)), (''ev'', JStr event)] @
     (if event = ''gap'' then
        [(''after'', JNum (uint after)),
         (''n'', case num of None \<Rightarrow> JNull | Some n \<Rightarrow> JNum (uint n)), (''reason'', JStr reason)]
      else [])))"

section \<open>Facts\<close>

lemma cut_to_valid_props: "ValidString (cut_to_valid s) \<and> length (cut_to_valid s) \<le> length s \<and> prefix (cut_to_valid s) s"
proof (induction s rule: cut_to_valid.induct)
  case (1 s)
  show ?case
  proof (cases "s \<noteq> [] \<and> \<not> ValidString s")
    case True
    with 1 have "prefix (cut_to_valid (butlast s)) s" using prefixeq_butlast prefix_order.trans by blast
    moreover have "length (cut_to_valid (butlast s)) \<le> length s" using 1 True by auto
    ultimately show ?thesis using 1 True by (simp add: cut_to_valid.simps [of s])
  next
    case False
    then show ?thesis by (auto simp: cut_to_valid.simps [of s])
  qed
qed

lemma cut_to_valid_longest:
  "prefix t s \<Longrightarrow> ValidString t \<Longrightarrow> length t \<le> length (cut_to_valid s)"
proof (induction s rule: cut_to_valid.induct)
  case (1 s)
  show ?case
  proof (cases "s \<noteq> [] \<and> \<not> ValidString s")
    case True
    with "1.prems" have "t \<noteq> s" by auto
    then have "prefix t (butlast s)" using "1.prems"(1) True
      by (metis append_butlast_last_id prefix_snoc)
    with 1 True show ?thesis by (simp add: cut_to_valid.simps [of s])
  next
    case False
    with "1.prems" show ?thesis by (auto simp: cut_to_valid.simps [of s] dest: prefix_length_le)
  qed
qed

lemma replacement_valid: "ValidString replacement_char"
  by (simp add: replacement_char_def invalid_head_def DecodeRune.simps RuneError_def cont_def second_ok_def Let_def)

lemma ValidString_ascii: "is_ascii s \<Longrightarrow> ValidString s"
  by (induction s) (auto simp: invalid_head_def DecodeRune.simps RuneError_def is_ascii_def)

section \<open>Properties\<close>

text \<open>Whatever a client sends as its host name, what is recorded is valid UTF-8 of at most 255
  bytes; a name that is already lower-case valid UTF-8 of that length without a trailing dot is recorded
  unchanged.\<close>

theorem normalizeAuditHost_bounds:
  "ValidString (normalizeAuditHost ul host) \<and> length (normalizeAuditHost ul host) \<le> 255 \<and>
   (ToLower ul host = host \<and> ValidString host \<and> length host \<le> 255 \<and> \<not> suffix ''.'' host \<longrightarrow>
     normalizeAuditHost ul host = host)"
proof -
  have "ValidString (ToValidUTF8 s replacement_char)" for s by (rule ToValidUTF8_valid [OF replacement_valid])
  then show ?thesis
    using cut_to_valid_props [of "take 255 (ToValidUTF8 (TrimSuffix (ToLower ul host) ''.'') replacement_char)"]
    by (auto simp: normalizeAuditHost_def auditMaxHostBytes_def Let_def ToValidUTF8_id TrimSuffix_def)
qed

theorem normalizeAuditHost_bounds_witness: "normalizeAuditHost id ''github.com'' = ''github.com''"
proof -
  have "ToLower id ''github.com'' = ''github.com''" by code_simp
  moreover have "ValidString ''github.com''" by (rule ValidString_ascii) (simp add: is_ascii_def)
  ultimately show ?thesis using normalizeAuditHost_bounds [of id "''github.com''"] by (simp add: suffix_def)
qed

text \<open>One event, one line: every line of the audit contains exactly one line feed, at its end, so no
  host name, user or tag can forge a second record.\<close>

theorem audit_lines_single:
  "(\<forall>l\<in>{record_line ul node run seq now r, filter_line f seq, event_line ev seq after n reason}.
     \<exists>body. l = body @ [CHR 0x0a] \<and> CHR 0x0a \<notin> set body)"
proof -
  have "\<exists>body. json_line html v = body @ [CHR 0x0a] \<and> CHR 0x0a \<notin> set body" for html v
    using marshal_clean [of html v] by (auto simp: json_line_def no_control_def)
  then show ?thesis
    by (auto simp: record_line_def filter_line_def event_line_def split: prod.splits)
qed

definition demo_record :: auditRecord where
  "demo_record = \<lparr>ar_user = ''alice'', ar_inboundTag = ''ss-in'', ar_network = ''tcp'', ar_host = ''a.b'',
    ar_hostSource = ''sniff'', ar_port = 443, ar_up = 1, ar_down = 1, ar_durationMs = 0\<rparr>"

theorem audit_lines_single_witness:
  "\<exists>body. filter_line None 7 = body @ [CHR 0x0a] \<and> CHR 0x0a \<notin> set body"
  using audit_lines_single [of id "''n1''" "''r1''" 7 0 demo_record None "''gap''" 0 None "''restart''"] by simp


end
