(* ===== verification/Os_Files.thy ===== *)
theory Os_Files
  imports Go_Prelude
begin

text \<open>
  What the audit uses of Go's \<^verbatim>\<open>os\<close>, \<^verbatim>\<open>bufio\<close> and \<^verbatim>\<open>time\<close>: one directory of append-only files
  that are reached by name or through an open descriptor, a clock, and a buffered writer. Every call
  that can fail takes the next element of a script of faults; an empty script means success. A write
  that fails may have written some bytes first.
\<close>

section \<open>Files and faults\<close>

datatype fault = NoFault | Fault nat

record world =
  w_names :: "nat gomap"
  w_data :: "nat \<Rightarrow> string"
  w_next :: nat
  w_clock :: "nat \<Rightarrow> i64 \<times> string"
  w_tick :: nat
  w_faults :: "fault list"

definition next_fault :: "world \<Rightarrow> nat option \<times> world" where
  "next_fault w =
    (case w_faults w of
       [] \<Rightarrow> (None, w)
     | NoFault # fs \<Rightarrow> (None, w\<lparr>w_faults := fs\<rparr>)
     | Fault k # fs \<Rightarrow> (Some k, w\<lparr>w_faults := fs\<rparr>))"

text \<open>A call whose only result is whether it succeeded (\<open>Chmod\<close>, \<open>Stat\<close>, the checks of mode and owner).\<close>

definition os_call :: "world \<Rightarrow> bool \<times> world" where
  "os_call w = (case next_fault w of (f, w) \<Rightarrow> (f = None, w))"

text \<open>\<open>os.OpenFile\<close> with \<open>O_CREATE|O_RDWR|O_APPEND\<close>.\<close>

definition os_open :: "string \<Rightarrow> world \<Rightarrow> nat option \<times> world" where
  "os_open name w =
    (case next_fault w of
       (Some _, w) \<Rightarrow> (None, w)
     | (None, w) \<Rightarrow>
        (case gm_get (w_names w) name of
           Some ino \<Rightarrow> (Some ino, w)
         | None \<Rightarrow> (Some (w_next w), w\<lparr>w_names := gm_put name (w_next w) (w_names w),
             w_data := (w_data w)(w_next w := []), w_next := Suc (w_next w)\<rparr>)))"

text \<open>\<open>File.Write\<close> appends; on a closed descriptor (\<open>None\<close>) it fails at once. The result is the number of
  bytes written and whether it failed.\<close>

definition os_write :: "nat option \<Rightarrow> string \<Rightarrow> world \<Rightarrow> (nat \<times> bool) \<times> world" where
  "os_write fd p w =
    (case fd of
       None \<Rightarrow> ((0, True), w)
     | Some ino \<Rightarrow>
        (case next_fault w of
           (None, w) \<Rightarrow> ((length p, False), w\<lparr>w_data := (w_data w)(ino := w_data w ino @ p)\<rparr>)
         | (Some k, w) \<Rightarrow> ((min k (length p), True),
             w\<lparr>w_data := (w_data w)(ino := w_data w ino @ take k p)\<rparr>)))"

definition os_rename :: "string \<Rightarrow> string \<Rightarrow> world \<Rightarrow> bool \<times> world" where
  "os_rename old new w =
    (case next_fault w of
       (Some _, w) \<Rightarrow> (False, w)
     | (None, w) \<Rightarrow>
        (case gm_get (w_names w) old of
           None \<Rightarrow> (False, w)
         | Some ino \<Rightarrow> (True, w\<lparr>w_names := gm_put new ino (AList.delete old (w_names w))\<rparr>)))"

definition os_remove :: "string \<Rightarrow> world \<Rightarrow> bool \<times> world" where
  "os_remove name w =
    (case next_fault w of
       (Some _, w) \<Rightarrow> (False, w)
     | (None, w) \<Rightarrow> (case gm_get (w_names w) name of None \<Rightarrow> (False, w)
         | Some _ \<Rightarrow> (True, w\<lparr>w_names := AList.delete name (w_names w)\<rparr>)))"

definition os_size :: "nat \<Rightarrow> world \<Rightarrow> nat" where
  "os_size ino w = length (w_data w ino)"

text \<open>\<open>os.Stat\<close>, \<open>File.Stat\<close> and \<open>os.SameFile\<close> as \<open>checkRotationAll\<close> combines them.\<close>

definition os_same :: "string \<Rightarrow> nat option \<Rightarrow> world \<Rightarrow> bool \<times> world" where
  "os_same name fd w =
    (case os_call w of (ok, w) \<Rightarrow> (ok \<and> fd \<noteq> None \<and> gm_get (w_names w) name = fd, w))"

definition time_now :: "world \<Rightarrow> (i64 \<times> string) \<times> world" where
  "time_now w = (w_clock w (w_tick w), w\<lparr>w_tick := Suc (w_tick w)\<rparr>)"

lemma os_write_all: "os_write fd p w = ((n, False), w') \<Longrightarrow> n = length p"
  by (auto simp: os_write_def split: option.splits prod.splits)

lemma os_write_ok:
  "os_write fd p w = ((n, False), w') \<Longrightarrow> \<exists>ino. fd = Some ino \<and>
    w_data w' = (w_data w)(ino := w_data w ino @ p) \<and> w_names w' = w_names w \<and> w_next w' = w_next w"
  by (auto simp: os_write_def next_fault_def split: option.splits prod.splits list.splits fault.splits)

section \<open>The buffered writer\<close>

text \<open>\<open>bufio.Writer\<close>: an error is sticky until \<open>Reset\<close>.\<close>

definition auditFileBufferMax :: nat where
  "auditFileBufferMax = 8192"

record bufio =
  bw_buf :: string
  bw_err :: bool

definition bufio_reset :: bufio where
  "bufio_reset = \<lparr>bw_buf = [], bw_err = False\<rparr>"

definition Available :: "bufio \<Rightarrow> nat" where
  "Available b = auditFileBufferMax - length (bw_buf b)"

definition bufio_Flush :: "nat option \<Rightarrow> bufio \<Rightarrow> world \<Rightarrow> bool \<times> bufio \<times> world" where
  "bufio_Flush fd b w =
    (if bw_err b then (True, b, w)
     else if bw_buf b = [] then (False, b, w)
     else case os_write fd (bw_buf b) w of
       ((n, True), w) \<Rightarrow> (True, b\<lparr>bw_buf := drop n (bw_buf b), bw_err := True\<rparr>, w)
     | ((n, False), w) \<Rightarrow> (False, b\<lparr>bw_buf := []\<rparr>, w))"

function bufio_fill :: "nat option \<Rightarrow> nat \<Rightarrow> string \<Rightarrow> bufio \<Rightarrow> world \<Rightarrow> nat \<times> string \<times> bufio \<times> world" where
  "bufio_fill fd nn p b w =
    (if length p > Available b \<and> \<not> bw_err b then
       if bw_buf b = [] then
         case os_write fd p w of ((n, err), w) \<Rightarrow> bufio_fill fd (nn + n) (drop n p) (b\<lparr>bw_err := err\<rparr>) w
       else
         case bufio_Flush fd (b\<lparr>bw_buf := bw_buf b @ take (Available b) p\<rparr>) w of
           (_, b', w) \<Rightarrow> bufio_fill fd (nn + Available b) (drop (Available b) p) b' w
     else (nn, p, b, w))"
  by pat_completeness auto
termination
proof (relation "measure (\<lambda>(_, _, p, b, _). if bw_err b then 0 else Suc (2 * length p + (if bw_buf b = [] then 0 else 1)))",
    goal_cases)
  case (2 fd nn p b w x y n err)
  then show ?case using os_write_all [of fd p w n y] by (cases err) auto
next
  case (3 fd nn p b w x y b' w')
  then have "bw_err b' \<or> bw_buf b' = []"
    by (auto simp: bufio_Flush_def split: if_splits prod.splits bool.splits)
  with 3 show ?case by auto
qed simp

declare bufio_fill.simps [simp del]

text \<open>\<open>bufio.Writer.Write\<close>: the number of bytes taken, whether it failed.\<close>

definition bufio_Write :: "nat option \<Rightarrow> string \<Rightarrow> bufio \<Rightarrow> world \<Rightarrow> (nat \<times> bool) \<times> bufio \<times> world" where
  "bufio_Write fd p b w =
    (case bufio_fill fd 0 p b w of
       (nn, rest, b, w) \<Rightarrow>
         if bw_err b then ((nn, True), b, w)
         else ((nn + length rest, False), b\<lparr>bw_buf := bw_buf b @ rest\<rparr>, w))"

text \<open>What has been written through a descriptor, flushed or not.\<close>

definition logical :: "nat option \<Rightarrow> bufio \<Rightarrow> world \<Rightarrow> string" where
  "logical fd b w = (case fd of None \<Rightarrow> [] | Some ino \<Rightarrow> w_data w ino) @ bw_buf b"

text \<open>What no write touches: the names, the clock, the other files.\<close>

definition same_but :: "nat option \<Rightarrow> world \<Rightarrow> world \<Rightarrow> bool" where
  "same_but fd w w' \<longleftrightarrow> w_names w' = w_names w \<and> w_next w' = w_next w \<and> w_clock w' = w_clock w \<and>
    w_tick w' = w_tick w \<and> (\<forall>i. fd \<noteq> Some i \<longrightarrow> w_data w' i = w_data w i)"

lemma same_but_refl [simp]: "same_but fd w w"
  by (simp add: same_but_def)

lemma same_but_trans: "same_but fd w v \<Longrightarrow> same_but fd v u \<Longrightarrow> same_but fd w u"
  by (simp add: same_but_def)

lemma next_fault_world: "next_fault w = (f, w') \<Longrightarrow> \<exists>fs. w' = w\<lparr>w_faults := fs\<rparr>"
  by (cases w) (auto simp: next_fault_def split: list.splits fault.splits)

lemma os_write_same: "os_write fd p w = (r, w') \<Longrightarrow> same_but fd w w'"
  by (auto simp: os_write_def same_but_def split: option.splits prod.splits dest!: next_fault_world)

lemma Flush_same: "bufio_Flush fd b w = (e, b', w') \<Longrightarrow> same_but fd w w'"
  by (auto simp: bufio_Flush_def split: if_splits prod.splits bool.splits dest: os_write_same)

lemma Flush_ok: "bufio_Flush fd b w = (False, b', w') \<Longrightarrow>
    logical fd b' w' = logical fd b w \<and> \<not> bw_err b' \<and> bw_buf b' = [] \<and> (bw_buf b \<noteq> [] \<longrightarrow> fd \<noteq> None)"
  by (auto simp: bufio_Flush_def logical_def split: if_splits prod.splits bool.splits
      dest!: os_write_ok)

lemma Flush_err: "bufio_Flush fd b w = (e, b', w') \<Longrightarrow> e \<Longrightarrow> bw_err b'"
  by (auto simp: bufio_Flush_def split: if_splits prod.splits bool.splits)

lemma fill_spec:
  "bufio_fill fd nn p b w = (nn', rest, b', w') \<Longrightarrow> same_but fd w w' \<and>
    (\<not> bw_err b' \<longrightarrow> \<not> bw_err b \<and> logical fd b' w' @ rest = logical fd b w @ p \<and>
      nn' + length rest = nn + length p \<and> length rest \<le> Available b')"
proof (induction fd nn p b w arbitrary: nn' rest b' w' rule: bufio_fill.induct)
  case (1 fd nn p b w)
  show ?case
  proof (cases "length p > Available b \<and> \<not> bw_err b")
    case False
    with "1.prems" show ?thesis by (auto simp: bufio_fill.simps [of fd nn p b w])
  next
    case True
    show ?thesis
    proof (cases "bw_buf b = []")
      case empty: True
      obtain n err v where v: "os_write fd p w = ((n, err), v)" by (metis prod.exhaust)
      with "1.prems" True empty have fill: "bufio_fill fd (nn + n) (drop n p) (b\<lparr>bw_err := err\<rparr>) v = (nn', rest, b', w')"
        by (simp add: bufio_fill.simps [of fd nn p b w])
      note IH = "1.IH"(1) [OF True empty v [symmetric] refl fill]
      show ?thesis
      proof (cases "bw_err b'")
        case True
        with IH os_write_same [OF v] show ?thesis by (auto intro: same_but_trans)
      next
        case ok: False
        with IH have "\<not> err" by simp
        with v os_write_ok [of fd p w n v] os_write_all [of fd p w n v] obtain ino where
          "fd = Some ino" "w_data v ino = w_data w ino @ p" "n = length p" by auto
        with IH ok True empty os_write_same [OF v] show ?thesis
          by (auto simp: logical_def intro: same_but_trans)
      qed
    next
      case nonempty: False
      obtain e c v where v: "bufio_Flush fd (b\<lparr>bw_buf := bw_buf b @ take (Available b) p\<rparr>) w = (e, c, v)"
        by (metis prod.exhaust)
      with "1.prems" True nonempty have fill: "bufio_fill fd (nn + Available b) (drop (Available b) p) c v = (nn', rest, b', w')"
        by (simp add: bufio_fill.simps [of fd nn p b w])
      note IH = "1.IH"(2) [OF True nonempty v [symmetric] refl fill]
      show ?thesis
      proof (cases "bw_err b'")
        case True
        with IH Flush_same [OF v] show ?thesis by (auto intro: same_but_trans)
      next
        case ok: False
        with IH have "\<not> bw_err c" by simp
        with Flush_err [OF v] have e: "\<not> e" by blast
        with v have "logical fd c v = logical fd b w @ take (Available b) p"
          using Flush_ok [OF v [unfolded eq_False [THEN iffD2, OF e]]] by (auto simp: logical_def)
        with IH ok True Flush_same [OF v] show ?thesis
          by (auto intro: same_but_trans)
      qed
    qed
  qed
qed

lemma Write_spec:
  assumes "bufio_Write fd p b w = ((n, err), b', w')"
  shows "same_but fd w w' \<and> (bw_err b' = err) \<and>
    (\<not> err \<longrightarrow> n = length p \<and> logical fd b' w' = logical fd b w @ p)"
proof -
  obtain nn rest c v where fill: "bufio_fill fd 0 p b w = (nn, rest, c, v)" by (metis prod.exhaust)
  with assms fill_spec [OF fill] show ?thesis
    by (auto simp: bufio_Write_def logical_def split: if_splits)
qed

end
