(* ===== verification/Audit_File.thy ===== *)
theory Audit_File
  imports Audit_Name Audit_Line Options Os_Files
begin

text \<open>
  One audit file: \<open>openAuditFile\<close> of \<^verbatim>\<open>audit_file.go\<close> and \<open>write\<close>, \<open>flush\<close>, \<open>resetWriter\<close>,
  \<open>rotate\<close>, \<open>reopen\<close> and \<open>stampFilter\<close> of \<^verbatim>\<open>audit.go\<close>. The operations work on the file's own state,
  the world and the number of losses noted (\<open>noteDropped\<close>), in the order of the code. Names are relative to
  the audit directory. \<open>write\<close>, \<open>rotate\<close>, \<open>reopen\<close> and \<open>stampFilter\<close> call each other; the recursion
  carries fuel, and \<open>None\<close> means that the fuel was used up.
\<close>

section \<open>State\<close>

record auditFile =
  af_identity :: string
  af_path :: string
  af_file :: "nat option"
  af_writer :: bufio
  af_size :: i64
  af_seq :: u64

record fileState =
  fs_file :: auditFile
  fs_world :: world
  fs_drops :: nat

record auditConfig =
  ac_nodeID :: string
  ac_runtimeID :: string
  ac_options :: AccessLogOptions
  ac_exclude :: "excludeFilter option"

section \<open>Opening\<close>

definition repairTrailingNewline :: "nat \<Rightarrow> nat \<Rightarrow> world \<Rightarrow> bool \<times> world" where
  "repairTrailingNewline ino sz w =
    (if sz = 0 then (True, w)
     else case os_call w of (read_ok, w) \<Rightarrow>
       if read_ok \<and> w_data w ino ! (sz - 1) = CHR 0x0a then (True, w)
       else case os_write (Some ino) [CHR 0x0a] w of ((_, err), w) \<Rightarrow> (\<not> err, w))"

text \<open>The checks between opening and use: \<open>Chmod\<close>, \<open>Stat\<close>, the mode, the owner.\<close>

fun os_calls :: "nat \<Rightarrow> world \<Rightarrow> bool \<times> world" where
  "os_calls 0 w = (True, w)"
| "os_calls (Suc n) w = (case os_call w of (ok, w) \<Rightarrow> if ok then os_calls n w else (False, w))"

definition openAuditFile :: "string \<Rightarrow> string \<Rightarrow> world \<Rightarrow> auditFile option \<times> world" where
  "openAuditFile path identity w =
    (case os_open path w of
       (None, w) \<Rightarrow> (None, w)
     | (Some ino, w) \<Rightarrow>
       (case os_calls 4 w of
          (False, w) \<Rightarrow> (None, w)
        | (True, w) \<Rightarrow>
          (case repairTrailingNewline ino (os_size ino w) w of
             (False, w) \<Rightarrow> (None, w)
           | (True, w) \<Rightarrow>
             (case os_call w of
                (False, w) \<Rightarrow> (None, w)
              | (True, w) \<Rightarrow>
                  (Some \<lparr>af_identity = identity, af_path = path, af_file = Some ino,
                     af_writer = bufio_reset, af_size = int (os_size ino w), af_seq = 0\<rparr>, w)))))"

section \<open>Writing\<close>

definition noteDropped :: "fileState \<Rightarrow> fileState" where
  "noteDropped st = st\<lparr>fs_drops := Suc (fs_drops st)\<rparr>"

definition resetWriter :: "fileState \<Rightarrow> fileState" where
  "resetWriter st = (let st = noteDropped st in
     st\<lparr>fs_file := (fs_file st)\<lparr>af_writer := bufio_reset\<rparr>\<rparr>)"

definition flush :: "fileState \<Rightarrow> fileState" where
  "flush st =
    (let f = fs_file st in
     case bufio_Flush (af_file f) (af_writer f) (fs_world st) of (err, b, w) \<Rightarrow>
       let st = st\<lparr>fs_file := f\<lparr>af_writer := b\<rparr>, fs_world := w\<rparr> in
       if err then resetWriter st else st)"

definition encodeFilterEvent :: "auditConfig \<Rightarrow> fileState \<Rightarrow> string \<times> fileState" where
  "encodeFilterEvent c st =
    (let st = st\<lparr>fs_file := (fs_file st)\<lparr>af_seq := af_seq (fs_file st) + 1\<rparr>\<rparr> in
     (filter_line (ac_exclude c) (af_seq (fs_file st)), st))"

type_synonym line_writer = "string \<Rightarrow> fileState \<Rightarrow> fileState option"

definition stampFilter :: "line_writer \<Rightarrow> auditConfig \<Rightarrow> fileState \<Rightarrow> fileState option" where
  "stampFilter wr c st =
    (if empty_filter (ac_exclude c) then Some st
     else case encodeFilterEvent c st of (line, st) \<Rightarrow> wr line st)"

text \<open>\<open>Close\<close> leaves the descriptor closed whatever it reports; a failing \<open>Stat\<close> makes the size 0.\<close>

definition reopen :: "line_writer \<Rightarrow> auditConfig \<Rightarrow> fileState \<Rightarrow> fileState option" where
  "reopen wr c st =
    (let st = flush st;
         st = st\<lparr>fs_file := (fs_file st)\<lparr>af_file := None\<rparr>\<rparr> in
     case os_open (af_path (fs_file st)) (fs_world st) of
       (None, w) \<Rightarrow> Some (noteDropped (st\<lparr>fs_world := w\<rparr>))
     | (Some ino, w) \<Rightarrow>
       (case os_call w of (ok, w) \<Rightarrow>
          stampFilter wr c (st\<lparr>fs_world := w,
            fs_file := (fs_file st)\<lparr>af_file := Some ino, af_writer := bufio_reset,
              af_size := (if ok then int (os_size ino w) else 0)\<rparr>\<rparr>)))"

definition rotated_name :: "string \<Rightarrow> string \<Rightarrow> string" where
  "rotated_name path stamp = path @ ''.'' @ stamp"

definition rotate_file :: "line_writer \<Rightarrow> auditConfig \<Rightarrow> fileState \<Rightarrow> fileState option" where
  "rotate_file wr c st =
    (case time_now (fs_world st) of ((_, stamp), w) \<Rightarrow>
       case os_rename (af_path (fs_file st)) (rotated_name (af_path (fs_file st)) stamp) w of
         (False, w) \<Rightarrow> Some (noteDropped (st\<lparr>fs_world := w\<rparr>))
       | (True, w) \<Rightarrow> reopen wr c (st\<lparr>fs_world := w\<rparr>))"

text \<open>\<open>put_line\<close> is \<open>write\<close> up to the check of the size.\<close>

definition put_line :: "string \<Rightarrow> fileState \<Rightarrow> bool \<times> fileState" where
  "put_line line st =
    (let st = (if length line > Available (af_writer (fs_file st)) then flush st else st);
         f = fs_file st in
     case bufio_Write (af_file f) line (af_writer f) (fs_world st) of ((n, err), b, w) \<Rightarrow>
       let st = st\<lparr>fs_file := f\<lparr>af_writer := b, af_size := wrap64 (af_size f + int n)\<rparr>, fs_world := w\<rparr> in
       if err then (False, resetWriter st) else (True, st))"

primrec write_line :: "nat \<Rightarrow> auditConfig \<Rightarrow> string \<Rightarrow> fileState \<Rightarrow> fileState option" where
  "write_line 0 c line st = None"
| "write_line (Suc fuel) c line st =
    (if line = [] then Some st
     else case put_line line st of
       (False, st) \<Rightarrow> Some st
     | (True, st) \<Rightarrow>
         if af_size (fs_file st) \<ge> al_MaxBytes (ac_options c)
         then rotate_file (write_line fuel c) c (flush st)
         else Some st)"

section \<open>Nothing is lost without a note\<close>

definition file_log :: "fileState \<Rightarrow> string" where
  "file_log st = logical (af_file (fs_file st)) (af_writer (fs_file st)) (fs_world st)"

definition healthy :: "fileState \<Rightarrow> bool" where
  "healthy st \<longleftrightarrow> \<not> bw_err (af_writer (fs_file st))"

lemma flush_effect:
  assumes "healthy st"
  shows "healthy (flush st)" "af_file (fs_file (flush st)) = af_file (fs_file st)"
    "af_path (fs_file (flush st)) = af_path (fs_file st)" "af_size (fs_file (flush st)) = af_size (fs_file st)"
    "same_but (af_file (fs_file st)) (fs_world st) (fs_world (flush st))"
    "fs_drops st \<le> fs_drops (flush st)" "bw_buf (af_writer (fs_file (flush st))) = []"
    "fs_drops (flush st) = fs_drops st \<Longrightarrow> file_log (flush st) = file_log st"
proof -
  let ?f = "fs_file st"
  obtain err b w where fl: "bufio_Flush (af_file ?f) (af_writer ?f) (fs_world st) = (err, b, w)"
    by (metis prod.exhaust)
  have same: "same_but (af_file ?f) (fs_world st) w" using Flush_same [OF fl] .
  have eq: "flush st = (let st = st\<lparr>fs_file := ?f\<lparr>af_writer := b\<rparr>, fs_world := w\<rparr> in
      if err then resetWriter st else st)"
    by (simp add: flush_def fl)
  have "\<not> err \<Longrightarrow> logical (af_file ?f) b w = file_log st \<and> \<not> bw_err b \<and> bw_buf b = []"
    using Flush_ok [of "af_file ?f" "af_writer ?f" "fs_world st" b w] fl by (simp add: file_log_def)
  with same show "healthy (flush st)" "af_file (fs_file (flush st)) = af_file (fs_file st)"
    "af_path (fs_file (flush st)) = af_path (fs_file st)" "af_size (fs_file (flush st)) = af_size (fs_file st)"
    "same_but (af_file (fs_file st)) (fs_world st) (fs_world (flush st))"
    "fs_drops st \<le> fs_drops (flush st)" "bw_buf (af_writer (fs_file (flush st))) = []"
    "fs_drops (flush st) = fs_drops st \<Longrightarrow> file_log (flush st) = file_log st"
    unfolding eq by (cases err; simp add: Let_def resetWriter_def noteDropped_def bufio_reset_def healthy_def file_log_def)+
qed

lemma put_line_effect:
  assumes "healthy st" and "put_line line st = (ok, st')"
  shows "healthy st'" "af_file (fs_file st') = af_file (fs_file st)" "af_path (fs_file st') = af_path (fs_file st)"
    "same_but (af_file (fs_file st)) (fs_world st) (fs_world st')" "fs_drops st \<le> fs_drops st'"
    "fs_drops st' = fs_drops st \<Longrightarrow> ok \<and> file_log st' = file_log st @ line"
proof -
  define s where "s = (if length line > Available (af_writer (fs_file st)) then flush st else st)"
  have s: "healthy s" "af_file (fs_file s) = af_file (fs_file st)" "af_path (fs_file s) = af_path (fs_file st)"
      "same_but (af_file (fs_file st)) (fs_world st) (fs_world s)" "fs_drops st \<le> fs_drops s"
      "fs_drops s = fs_drops st \<Longrightarrow> file_log s = file_log st"
    using flush_effect [OF assms(1)] assms(1) by (auto simp: s_def)
  let ?f = "fs_file s"
  obtain n err b w where wr: "bufio_Write (af_file ?f) line (af_writer ?f) (fs_world s) = ((n, err), b, w)"
    by (metis prod.exhaust)
  note spec = Write_spec [OF wr]
  have res: "put_line line st = (let st = s\<lparr>fs_file := ?f\<lparr>af_writer := b, af_size := wrap64 (af_size ?f + int n)\<rparr>,
        fs_world := w\<rparr> in if err then (False, resetWriter st) else (True, st))"
    by (simp add: put_line_def wr Let_def flip: s_def)
  have same: "same_but (af_file (fs_file st)) (fs_world st) w"
    using s(2,4) spec by (auto intro: same_but_trans)
  show "healthy st'" "af_file (fs_file st') = af_file (fs_file st)" "af_path (fs_file st') = af_path (fs_file st)"
    "same_but (af_file (fs_file st)) (fs_world st) (fs_world st')" "fs_drops st \<le> fs_drops st'"
    "fs_drops st' = fs_drops st \<Longrightarrow> ok \<and> file_log st' = file_log st @ line"
    using assms(2) s spec same unfolding res
    by (cases err; auto simp: Let_def resetWriter_def noteDropped_def bufio_reset_def healthy_def file_log_def)+
qed


section \<open>Rotation\<close>

text \<open>File numbers in use lie below \<open>w_next\<close>; a rotation moves the descriptor to a new file and from then
  on the old one is never touched.\<close>

definition files_ok :: "fileState \<Rightarrow> bool" where
  "files_ok st \<longleftrightarrow> (\<forall>name i. gm_get (w_names (fs_world st)) name = Some i \<longrightarrow> i < w_next (fs_world st)) \<and>
    (\<forall>i. af_file (fs_file st) = Some i \<longrightarrow> i < w_next (fs_world st))"

definition keeps_others :: "fileState \<Rightarrow> fileState \<Rightarrow> bool" where
  "keeps_others st st' \<longleftrightarrow> w_next (fs_world st) \<le> w_next (fs_world st') \<and>
    (\<forall>i < w_next (fs_world st). af_file (fs_file st) \<noteq> Some i \<longrightarrow>
      w_data (fs_world st') i = w_data (fs_world st) i \<and> af_file (fs_file st') \<noteq> Some i)"

lemma keeps_others_trans:
  "keeps_others st su \<Longrightarrow> keeps_others su sv \<Longrightarrow> keeps_others st sv"
  by (auto simp: keeps_others_def)

lemma files_ok_same:
  assumes "files_ok st" "same_but (af_file (fs_file st)) (fs_world st) (fs_world st')"
    "af_file (fs_file st') = af_file (fs_file st)"
  shows "files_ok st' \<and> keeps_others st st'"
  using assms by (auto simp: files_ok_def keeps_others_def same_but_def)

lemma os_open_free:
  assumes "gm_get (w_names w) name = None" "os_open name w = (Some i, w')"
  shows "i = w_next w \<and> w_next w' = Suc (w_next w) \<and> w_data w' = (w_data w)(i := []) \<and>
    w_names w' = gm_put name i (w_names w)"
  using assms by (auto simp: os_open_def next_fault_def split: list.splits fault.splits)

lemma os_open_none: "os_open name w = (None, w') \<Longrightarrow> w_names w' = w_names w \<and> w_data w' = w_data w \<and> w_next w' = w_next w"
  by (auto simp: os_open_def next_fault_def split: list.splits fault.splits option.splits)

lemma os_call_same: "os_call w = (ok, w') \<Longrightarrow> w_names w' = w_names w \<and> w_data w' = w_data w \<and> w_next w' = w_next w"
  by (auto simp: os_call_def next_fault_def split: list.splits fault.splits)

lemma time_now_same [simp]:
  "w_names (snd (time_now w)) = w_names w" "w_data (snd (time_now w)) = w_data w" "w_next (snd (time_now w)) = w_next w"
  by (simp_all add: time_now_def)

lemma os_rename_same: "os_rename old new w = (ok, w') \<Longrightarrow> old \<noteq> new \<Longrightarrow>
    w_data w' = w_data w \<and> w_next w' = w_next w \<and> (ok \<longrightarrow> gm_get (w_names w') old = None) \<and>
    (\<forall>name i. gm_get (w_names w') name = Some i \<longrightarrow> (\<exists>name'. gm_get (w_names w) name' = Some i))"
  by (auto simp: os_rename_def next_fault_def update_conv delete_conv split: list.splits fault.splits option.splits if_splits)


text \<open>What a line writer must keep, to be used by \<open>stampFilter\<close>, \<open>reopen\<close> and \<open>rotate\<close>.\<close>

definition good_writer :: "line_writer \<Rightarrow> bool" where
  "good_writer wr \<longleftrightarrow> (\<forall>line st st'. healthy st \<longrightarrow> files_ok st \<longrightarrow> wr line st = Some st' \<longrightarrow>
    healthy st' \<and> files_ok st' \<and> keeps_others st st' \<and> fs_drops st \<le> fs_drops st')"

lemma keeps_others_refl [simp]: "keeps_others st st"
  by (simp add: keeps_others_def)

lemma good_writerD:
  "good_writer wr \<Longrightarrow> healthy st \<Longrightarrow> files_ok st \<Longrightarrow> wr line st = Some st' \<Longrightarrow>
    healthy st' \<and> files_ok st' \<and> keeps_others st st' \<and> fs_drops st \<le> fs_drops st'"
  unfolding good_writer_def by blast

lemma stamp_good:
  assumes "good_writer wr" "healthy st" "files_ok st" "stampFilter wr c st = Some st'"
  shows "healthy st' \<and> files_ok st' \<and> keeps_others st st' \<and> fs_drops st \<le> fs_drops st'"
proof (cases "empty_filter (ac_exclude c)")
  case True
  with assms show ?thesis by (simp add: stampFilter_def)
next
  case False
  let ?s = "snd (encodeFilterEvent c st)"
  have s: "healthy ?s" "files_ok ?s" "fs_drops ?s = fs_drops st" "fs_world ?s = fs_world st"
      "af_file (fs_file ?s) = af_file (fs_file st)"
    using assms(2,3) by (simp_all add: encodeFilterEvent_def Let_def healthy_def files_ok_def)
  have "wr (fst (encodeFilterEvent c st)) ?s = Some st'"
    using assms(4) False by (simp add: stampFilter_def split: prod.splits)
  from good_writerD [OF assms(1) s(1,2) this] s(3-5) show ?thesis by (simp add: keeps_others_def)
qed

lemma rotate_good:
  assumes "good_writer wr" "healthy st" "files_ok st" "bw_buf (af_writer (fs_file st)) = []"
    "rotate_file wr c st = Some st'"
  shows "healthy st'" "files_ok st'" "fs_drops st \<le> fs_drops st'" "keeps_others st st'"
    "\<And>i. af_file (fs_file st) = Some i \<Longrightarrow> w_data (fs_world st') i = w_data (fs_world st) i"
    "\<And>i. af_file (fs_file st) = Some i \<Longrightarrow> af_file (fs_file st') = Some i \<Longrightarrow> file_log st' = file_log st"
proof -
  let ?path = "af_path (fs_file st)"
  obtain stamp w0 where tn: "time_now (fs_world st) = ((fst (fst (time_now (fs_world st))), stamp), w0)" "w0 = snd (time_now (fs_world st))"
    by (cases "time_now (fs_world st)") auto
  obtain ok w1 where rn: "os_rename ?path (rotated_name ?path stamp) w0 = (ok, w1)" by fastforce
  have w1: "w_data w1 = w_data (fs_world st)" "w_next w1 = w_next (fs_world st)" "ok \<longrightarrow> gm_get (w_names w1) ?path = None"
      "\<forall>name i. gm_get (w_names w1) name = Some i \<longrightarrow> (\<exists>name'. gm_get (w_names (fs_world st)) name' = Some i)"
    using os_rename_same [OF rn] tn(2) by (auto simp: rotated_name_def)
  have "(healthy st' \<and> files_ok st' \<and> fs_drops st \<le> fs_drops st' \<and> keeps_others st st') \<and>
    (\<forall>i. af_file (fs_file st) = Some i \<longrightarrow> w_data (fs_world st') i = w_data (fs_world st) i \<and>
      (af_file (fs_file st') = Some i \<longrightarrow> file_log st' = file_log st))"
  proof (cases ok)
    case False
    with assms tn rn have "st' = noteDropped (st\<lparr>fs_world := w1\<rparr>)"
      by (auto simp: rotate_file_def split: prod.splits)
    with assms w1 show ?thesis
      by (auto simp: noteDropped_def healthy_def files_ok_def keeps_others_def file_log_def logical_def split: option.splits)
  next
    case True
    with assms tn rn have ro: "reopen wr c (st\<lparr>fs_world := w1\<rparr>) = Some st'"
      by (auto simp: rotate_file_def split: prod.splits)
    let ?s = "st\<lparr>fs_world := w1\<rparr>"
    have fl: "flush ?s = ?s"
      using assms(2,4) by (cases st) (auto simp: flush_def Let_def bufio_Flush_def healthy_def)
    obtain r w2 where op: "os_open ?path w1 = (r, w2)" by fastforce
    show ?thesis
    proof (cases r)
      case None
      with ro op fl have "st' = noteDropped (?s\<lparr>fs_file := (fs_file st)\<lparr>af_file := None\<rparr>, fs_world := w2\<rparr>)"
        by (auto simp: reopen_def Let_def)
      with assms w1 os_open_none [of ?path w1 w2] op None show ?thesis
        by (auto simp: noteDropped_def healthy_def files_ok_def keeps_others_def)
    next
      case (Some j)
      have j: "j = w_next w1" "w_next w2 = Suc (w_next w1)" "w_data w2 = (w_data w1)(j := [])"
          "w_names w2 = gm_put ?path j (w_names w1)"
        using os_open_free [of w1 ?path j w2] op Some w1(3) True by auto
      obtain k w3 where call: "os_call w2 = (k, w3)" by fastforce
      let ?t = "?s\<lparr>fs_world := w3, fs_file := (fs_file st)\<lparr>af_file := Some j, af_writer := bufio_reset,
          af_size := (if k then int (os_size j w3) else 0)\<rparr>\<rparr>"
      have stamp: "stampFilter wr c ?t = Some st'"
        using ro op fl Some call by (simp add: reopen_def Let_def)
      have w3: "w_data w3 = w_data w2" "w_names w3 = w_names w2" "w_next w3 = w_next w2"
        using os_call_same [OF call] by auto
      have "files_ok ?t"
        using assms(3) w1 j w3 by (fastforce simp: files_ok_def go_map split: if_splits)
      moreover have "healthy ?t" by (simp add: healthy_def bufio_reset_def)
      ultimately have good: "healthy st'" "files_ok st'" "keeps_others ?t st'" "fs_drops st \<le> fs_drops st'"
        using stamp_good [OF assms(1) _ _ stamp] by auto
      then have "\<forall>i < w_next (fs_world st). w_data (fs_world st') i = w_data (fs_world st) i \<and> af_file (fs_file st') \<noteq> Some i"
        using j w1(1,2) w3 by (auto simp: keeps_others_def)
      moreover have "w_next (fs_world st) \<le> w_next (fs_world st')"
        using good(3) j w1(2) w3 by (auto simp: keeps_others_def)
      ultimately show ?thesis
        using good assms(3) by (auto simp: keeps_others_def files_ok_def)
    qed
  qed
  then show "healthy st'" "files_ok st'" "fs_drops st \<le> fs_drops st'" "keeps_others st st'"
    "\<And>i. af_file (fs_file st) = Some i \<Longrightarrow> w_data (fs_world st') i = w_data (fs_world st) i"
    "\<And>i. af_file (fs_file st) = Some i \<Longrightarrow> af_file (fs_file st') = Some i \<Longrightarrow> file_log st' = file_log st"
    by blast+
qed

lemma write_line_good: "good_writer (write_line fuel c)"
proof (induction fuel)
  case 0
  then show ?case by (simp add: good_writer_def)
next
  case (Suc fuel)
  show ?case unfolding good_writer_def
  proof (intro allI impI)
    fix line st st' assume st: "healthy st" "files_ok st" "write_line (Suc fuel) c line st = Some st'"
    obtain ok s where put: "put_line line st = (ok, s)" by fastforce
    note s = put_line_effect [OF st(1) put]
    have ok: "files_ok s" "keeps_others st s" using files_ok_same [OF st(2)] s by auto
    note f = flush_effect [OF s(1)]
    have okf: "files_ok (flush s)" "keeps_others st (flush s)"
      using files_ok_same [OF ok(1)] f keeps_others_trans [OF ok(2)] by auto
    consider "st' = st" | "st' = s" | "rotate_file (write_line fuel c) c (flush s) = Some st'"
    proof (cases "line = [] \<or> \<not> ok")
      case True
      then show ?thesis using st(3) put that(1,2) by (cases "line = []"; cases ok) simp_all
    next
      case False
      then show ?thesis using st(3) put that(2,3)
        by (cases "af_size (fs_file s) \<ge> al_MaxBytes (ac_options c)") simp_all
    qed
    then show "healthy st' \<and> files_ok st' \<and> keeps_others st st' \<and> fs_drops st \<le> fs_drops st'"
    proof cases
      case 3
      note r = rotate_good [OF Suc f(1) okf(1) f(7) 3]
      show ?thesis using r(1-3) keeps_others_trans [OF okf(2) r(4)] s(5) f(6) by simp
    qed (use st s ok in simp_all)
  qed
qed

section \<open>Properties\<close>

text \<open>C31. No audit line is lost silently: whatever system calls fail, if writing a line notes no loss, the
  line stands complete behind everything written to its file before, and stays there when the file is
  rotated; the buffered writer is never left with its sticky error.\<close>

theorem write_not_silent:
  assumes "healthy st" and "files_ok st" and "af_file (fs_file st) = Some i"
    and "write_line fuel c line st = Some st'" and "fs_drops st' = fs_drops st"
  shows "healthy st' \<and> files_ok st' \<and>
    (if af_file (fs_file st') = Some i then file_log st' = file_log st @ line
     else w_data (fs_world st') i = file_log st @ line)"
proof -
  have good: "healthy st'" "files_ok st'"
    using good_writerD [OF write_line_good assms(1,2,4)] by auto
  obtain m where m: "fuel = Suc m" using assms(4) by (cases fuel) auto
  show ?thesis
  proof (cases "line = []")
    case True
    with assms m good show ?thesis by simp
  next
    case False
    obtain ok s where put: "put_line line st = (ok, s)" by fastforce
    note s = put_line_effect [OF assms(1) put]
    note f = flush_effect [OF s(1)]
    have oks: "files_ok s" using files_ok_same [OF assms(2)] s by simp
    have okf: "files_ok (flush s)" using files_ok_same [OF oks] f by simp
    show ?thesis
    proof (cases "ok \<and> af_size (fs_file s) \<ge> al_MaxBytes (ac_options c)")
      case False
      with assms(4) m put \<open>line \<noteq> []\<close> have "st' = s" by (cases ok) auto
      with s assms good show ?thesis by simp
    next
      case True
      with assms(4) m put \<open>line \<noteq> []\<close> have rot: "rotate_file (write_line m c) c (flush s) = Some st'" by simp
      note r = rotate_good [OF write_line_good f(1) okf f(7) rot]
      have "fs_drops s = fs_drops st" "fs_drops (flush s) = fs_drops s"
        using r(3) f(6) s(5) assms(5) by simp_all
      then have log: "file_log (flush s) = file_log st @ line" using f(8) s(6) by simp
      moreover have "af_file (fs_file (flush s)) = Some i" using f(2) s(2) assms(3) by simp
      ultimately have "w_data (fs_world (flush s)) i = file_log st @ line"
        using f(7) by (simp add: file_log_def logical_def)
      then show ?thesis
        using good r(5,6) log \<open>af_file (fs_file (flush s)) = Some i\<close> by auto
    qed
  qed
qed

definition demo_file :: fileState where
  "demo_file = \<lparr>fs_file = \<lparr>af_identity = ''a'', af_path = ''f'', af_file = Some 0, af_writer = bufio_reset,
      af_size = 0, af_seq = 0\<rparr>,
    fs_world = \<lparr>w_names = [(''f'', 0)], w_data = (\<lambda>_. []), w_next = 1, w_clock = (\<lambda>_. (0, ''t'')), w_tick = 0,
      w_faults = []\<rparr>, fs_drops = 0\<rparr>"

definition demo_config :: auditConfig where
  "demo_config = \<lparr>ac_nodeID = [], ac_runtimeID = [], ac_options = \<lparr>al_Directory = ''/d'', al_MaxBytes = 65536,
      al_MaxTotalBytes = 65536, al_FlushIntervalMs = 10, al_QueueSize = 1, al_MaxOpenFiles = 1,
      al_ExcludeHosts = [], al_ExcludeIPs = [], al_ExcludePorts = []\<rparr>, ac_exclude = None\<rparr>"

lemma demo_file_ok: "healthy demo_file" "files_ok demo_file"
  by (simp_all add: demo_file_def healthy_def files_ok_def bufio_reset_def)

lemma demo_write: "write_line 1 demo_config ''x'' demo_file =
    Some (demo_file\<lparr>fs_file := (fs_file demo_file)\<lparr>af_writer := \<lparr>bw_buf = ''x'', bw_err = False\<rparr>, af_size := 1\<rparr>\<rparr>)"
  by (simp add: put_line_def demo_file_def demo_config_def bufio_Write_def bufio_fill.simps bufio_reset_def
      Available_def auditFileBufferMax_def wrap64_id in_i64_def Let_def)

theorem write_not_silent_witness:
  "\<exists>st'. write_line 1 demo_config ''x'' demo_file = Some st' \<and> file_log st' = ''x''"
proof -
  let ?st = "demo_file\<lparr>fs_file := (fs_file demo_file)\<lparr>af_writer := \<lparr>bw_buf = ''x'', bw_err = False\<rparr>, af_size := 1\<rparr>\<rparr>"
  have "af_file (fs_file demo_file) = Some 0" "fs_drops ?st = fs_drops demo_file" by (simp_all add: demo_file_def)
  from write_not_silent [OF demo_file_ok this(1) demo_write this(2)] demo_write show ?thesis
    by (auto simp: file_log_def logical_def demo_file_def bufio_reset_def)
qed

text \<open>What the stamp of a freshly rotated file can do: its line is counted from zero.\<close>

lemma put_line_size:
  assumes "put_line line st = (True, st')" "in_i64 (af_size (fs_file st) + int (length line))" "healthy st"
  shows "af_size (fs_file st') = af_size (fs_file st) + int (length line)"
proof -
  define s where "s = (if length line > Available (af_writer (fs_file st)) then flush st else st)"
  have sz: "af_size (fs_file s) = af_size (fs_file st)" using flush_effect(4) [OF assms(3)] by (simp add: s_def)
  obtain n err b w where wr: "bufio_Write (af_file (fs_file s)) line (af_writer (fs_file s)) (fs_world s) = ((n, err), b, w)"
    by (metis prod.exhaust)
  with assms(1) have "\<not> err" "st' = s\<lparr>fs_file := (fs_file s)\<lparr>af_writer := b, af_size := wrap64 (af_size (fs_file s) + int n)\<rparr>, fs_world := w\<rparr>"
    by (auto simp: put_line_def Let_def simp flip: s_def split: if_splits)
  with Write_spec [OF wr] assms(2) sz show ?thesis by simp
qed

definition stamp_fits :: "auditConfig \<Rightarrow> bool" where
  "stamp_fits c \<longleftrightarrow> in_i64 (al_MaxBytes (ac_options c)) \<and> 0 < al_MaxBytes (ac_options c) \<and>
    (empty_filter (ac_exclude c) \<or>
     (\<forall>seq. int (length (filter_line (ac_exclude c) seq)) < al_MaxBytes (ac_options c)))"

lemma stamp_returns:
  assumes "stamp_fits c" "healthy st" "af_size (fs_file st) = 0"
  shows "stampFilter (write_line (Suc n) c) c st \<noteq> None"
proof (cases "empty_filter (ac_exclude c)")
  case True
  then show ?thesis by (simp add: stampFilter_def)
next
  case False
  let ?s = "snd (encodeFilterEvent c st)"
  let ?l = "fst (encodeFilterEvent c st)"
  have s: "healthy ?s" "af_size (fs_file ?s) = 0" "?l = filter_line (ac_exclude c) (af_seq (fs_file st) + 1)"
    using assms by (simp_all add: encodeFilterEvent_def Let_def healthy_def)
  obtain ok t where put: "put_line ?l ?s = (ok, t)" by fastforce
  have fits: "int (length ?l) < al_MaxBytes (ac_options c)" using assms(1) s(3) False by (simp add: stamp_fits_def)
  then have "in_i64 (af_size (fs_file ?s) + int (length ?l))"
    using assms(1) s(2) by (auto simp: stamp_fits_def in_i64_def)
  from put_line_size [OF _ this s(1), of t] put fits s(2)
  have "ok \<Longrightarrow> af_size (fs_file t) < al_MaxBytes (ac_options c)" by simp
  with put show ?thesis by (cases ok) (simp_all add: stampFilter_def split_beta)
qed

lemma rotate_returns:
  assumes "stamp_fits c" "healthy st"
  shows "rotate_file (write_line (Suc n) c) c st \<noteq> None"
proof -
  let ?path = "af_path (fs_file st)"
  define w0 where "w0 = snd (time_now (fs_world st))"
  define stamp where "stamp = snd (fst (time_now (fs_world st)))"
  obtain ok w1 where rn: "os_rename ?path (rotated_name ?path stamp) w0 = (ok, w1)" by fastforce
  have eq: "rotate_file wr c st = (if ok then reopen wr c (st\<lparr>fs_world := w1\<rparr>)
      else Some (noteDropped (st\<lparr>fs_world := w1\<rparr>)))" for wr
    using rn by (simp add: rotate_file_def w0_def stamp_def split_beta)
  have fresh: "gm_get (w_names w1) ?path = None" if ok
    using os_rename_same [OF rn] that by (simp add: rotated_name_def)
  let ?s = "flush (st\<lparr>fs_world := w1\<rparr>)"
  have h: "healthy (st\<lparr>fs_world := w1\<rparr>)" using assms(2) by (simp add: healthy_def)
  note f = flush_effect [OF h]
  obtain r w2 where op: "os_open ?path (fs_world ?s) = (r, w2)" by fastforce
  show ?thesis
  proof (cases "ok \<and> r \<noteq> None")
    case False
    then show ?thesis using op f(3) by (auto simp: eq reopen_def Let_def)
  next
    case True
    then obtain j where j: "r = Some j" by blast
    have "gm_get (w_names (fs_world ?s)) ?path = None" using fresh True f(5) by (simp add: same_but_def)
    from os_open_free [OF this op [unfolded j]] have empty: "w_data w2 j = []" by simp
    obtain k w3 where call: "os_call w2 = (k, w3)" by fastforce
    have sz: "os_size j w3 = 0" using empty os_call_same [OF call] by (simp add: os_size_def)
    show ?thesis
      using True j op f(3) call sz by (auto simp: eq reopen_def Let_def healthy_def bufio_reset_def intro!: stamp_returns [OF assms(1), unfolded not_None_eq])
  qed
qed

lemma write_line_Some:
  assumes "stamp_fits c" and "healthy st"
  shows "\<exists>st'. write_line (Suc (Suc n)) c line st = Some st'"
proof -
  obtain ok s where put: "put_line line st = (ok, s)" by fastforce
  note s = put_line_effect [OF assms(2) put]
  show ?thesis
    using put rotate_returns [OF assms(1) flush_effect(1) [OF s(1)], of n] by (cases ok) auto
qed


text \<open>C32. Writing returns: when the line that stamps the exclusion rules is shorter than \<open>max_bytes\<close>, two
  units of fuel are enough for any line, any state of the file and any failures, so a write
  rotates at most once.\<close>

theorem write_line_returns:
  assumes "stamp_fits c" and "healthy st"
  shows "\<exists>st'. write_line (Suc (Suc n)) c line st = Some st'"
  by (rule write_line_Some [OF assms])

theorem write_line_returns_witness: "\<exists>st'. write_line 2 demo_config ''x'' demo_file = Some st'"
  using write_line_returns [of demo_config demo_file 0 "''x''"] demo_file_ok
  by (simp add: stamp_fits_def demo_config_def empty_filter_def in_i64_def numeral_2_eq_2)

end
