(* ===== verification/Audit_Writer.thy ===== *)
theory Audit_Writer
  imports Audit_File "HOL-Library.Monad_Syntax"
begin

text \<open>
  \<^verbatim>\<open>sing-box-plus/internal/userstats/audit.go\<close>, the writer: the bounded queue between the data plane
  and the writer goroutine, the set of open files with its LRU limit, the periodic work, the total cap
  and the shutdown. Operations that write carry the fuel of \<open>write_line\<close>; \<open>None\<close> means used up. The
  descriptors are reached through the map of open files, as in the code.
\<close>

section \<open>State\<close>

record auditWriter =
  aw_config :: auditConfig
  aw_records :: "auditRecord list"
  aw_droppedWrite :: u64
  aw_notified :: bool
  aw_dropped :: "u64 gomap"
  aw_files :: "auditFile gomap"
  aw_order :: "string list"
  aw_closed :: bool

definition new_writer :: "auditConfig \<Rightarrow> auditWriter" where
  "new_writer c = \<lparr>aw_config = c, aw_records = [], aw_droppedWrite = 0, aw_notified = False,
    aw_dropped = [], aw_files = [], aw_order = [], aw_closed = False\<rparr>"

datatype audit_error =
  DirectoryMissing | DirectorySymlink | NotDirectory | DirectoryOwner
| NameCollision "string \<times> string" | ExcludeInvalid exclude_error

text \<open>\<open>Lstat\<close> of the directory: \<open>None\<close> if it fails, else is it a link, a directory, owned by us.\<close>

definition checkAuditDirectory :: "(bool \<times> bool \<times> bool) option \<Rightarrow> audit_error option" where
  "checkAuditDirectory info =
    (case info of
       None \<Rightarrow> Some DirectoryMissing
     | Some (symlink, dir, owned) \<Rightarrow>
         if symlink then Some DirectorySymlink else if \<not> dir then Some NotDirectory
         else if \<not> owned then Some DirectoryOwner else None)"

definition newAuditWriter :: "(nat \<Rightarrow> nat) \<Rightarrow> (bool \<times> bool \<times> bool) option \<Rightarrow> string \<Rightarrow> string \<Rightarrow>
    AccessLogOptions \<Rightarrow> string list \<Rightarrow> audit_error + auditWriter" where
  "newAuditWriter ul info nodeID runtimeID options identities =
    (case checkAuditDirectory info of Some e \<Rightarrow> Inl e
     | None \<Rightarrow> (case checkAuditNameCollisions identities of Some p \<Rightarrow> Inl (NameCollision p)
       | None \<Rightarrow> (case newExcludeFilter ul (al_ExcludeHosts options) (al_ExcludeIPs options) (al_ExcludePorts options) of
           Inl e \<Rightarrow> Inl (ExcludeInvalid e)
         | Inr exclude \<Rightarrow> Inr (new_writer \<lparr>ac_nodeID = nodeID, ac_runtimeID = runtimeID,
             ac_options = options, ac_exclude = exclude\<rparr>))))"

definition excluded :: "(nat \<Rightarrow> nat) \<Rightarrow> auditWriter \<Rightarrow> string \<Rightarrow> string \<Rightarrow> u16 \<Rightarrow> bool" where
  "excluded ul a host source port = match ul (ac_exclude (aw_config a)) host source port"

section \<open>Submitting\<close>

text \<open>\<open>submit\<close> is two moves of a data-plane goroutine: the test of \<open>closed\<close>, and the attempt to queue.\<close>

definition count_dropped :: "string \<Rightarrow> u64 gomap \<Rightarrow> u64 gomap" where
  "count_dropped user m = gm_put user ((case gm_get m user of None \<Rightarrow> 0 | Some n \<Rightarrow> n) + 1) m"

definition submit_queue :: "auditRecord \<Rightarrow> auditWriter \<Rightarrow> auditWriter" where
  "submit_queue r a =
    (if int (length (aw_records a)) < al_QueueSize (ac_options (aw_config a))
     then a\<lparr>aw_records := aw_records a @ [r]\<rparr>
     else a\<lparr>aw_dropped := count_dropped (ar_user r) (aw_dropped a)\<rparr>)"

definition submit :: "auditRecord \<Rightarrow> auditWriter \<Rightarrow> auditWriter" where
  "submit r a =
    (if \<not> worth_recording r then a
     else if aw_closed a then a\<lparr>aw_notified := True\<rparr>
     else submit_queue r a)"

section \<open>Open files\<close>

type_synonym wstate = "auditWriter \<times> world"

definition add_drops :: "nat \<Rightarrow> auditWriter \<Rightarrow> auditWriter" where
  "add_drops n a = a\<lparr>aw_droppedWrite := aw_droppedWrite a + of_nat n\<rparr>"

text \<open>Run an operation of one file on the open file of an identity.\<close>

definition on_file :: "string \<Rightarrow> (fileState \<Rightarrow> fileState option) \<Rightarrow> wstate \<Rightarrow> wstate option" where
  "on_file identity op s =
    (case s of (a, w) \<Rightarrow> case gm_get (aw_files a) identity of
       None \<Rightarrow> Some (a, w)
     | Some f \<Rightarrow> (case op \<lparr>fs_file = f, fs_world = w, fs_drops = 0\<rparr> of
         None \<Rightarrow> None
       | Some st \<Rightarrow> Some (add_drops (fs_drops st) (a\<lparr>aw_files := gm_put identity (fs_file st) (aw_files a)\<rparr>),
           fs_world st)))"

definition touch :: "string \<Rightarrow> string list \<Rightarrow> string list" where
  "touch identity order = (if identity \<in> set order then remove1 identity order @ [identity] else order @ [identity])"

definition evict :: "wstate \<Rightarrow> wstate option" where
  "evict s =
    (case s of (a, w) \<Rightarrow>
      if int (length (aw_files a)) \<ge> al_MaxOpenFiles (ac_options (aw_config a)) \<and> aw_order a \<noteq> [] then
        let victim = hd (aw_order a); a = a\<lparr>aw_order := tl (aw_order a)\<rparr> in
        do { (a, w) \<leftarrow> on_file victim (\<lambda>st. Some (flush st)) (a, w);
             Some (a\<lparr>aw_files := AList.delete victim (aw_files a)\<rparr>, w) }
      else Some (a, w))"

definition fileFor :: "nat \<Rightarrow> string \<Rightarrow> wstate \<Rightarrow> (bool \<times> wstate) option" where
  "fileFor fuel identity s =
    (case s of (a, w) \<Rightarrow>
      if gm_get (aw_files a) identity \<noteq> None
      then Some (True, a\<lparr>aw_order := touch identity (aw_order a)\<rparr>, w)
      else do {
        (a, w) \<leftarrow> evict (a, w);
        case openAuditFile (auditFileName identity) identity w of
          (None, w) \<Rightarrow> Some (False, add_drops 1 a, w)
        | (Some f, w) \<Rightarrow> do {
            s \<leftarrow> on_file identity (stampFilter (write_line fuel (aw_config a)) (aw_config a))
              (a\<lparr>aw_files := gm_put identity f (aw_files a), aw_order := aw_order a @ [identity]\<rparr>, w);
            Some (True, s) } })"

section \<open>Writing records and events\<close>

definition next_seq :: "fileState \<Rightarrow> fileState" where
  "next_seq st = st\<lparr>fs_file := (fs_file st)\<lparr>af_seq := af_seq (fs_file st) + 1\<rparr>\<rparr>"

definition write_entry :: "(nat \<Rightarrow> nat) \<Rightarrow> nat \<Rightarrow> auditConfig \<Rightarrow> auditRecord \<Rightarrow> fileState \<Rightarrow> fileState option" where
  "write_entry ul fuel c r st =
    (let st = next_seq st in
     case time_now (fs_world st) of ((ms, _), w) \<Rightarrow>
       write_line fuel c (record_line ul (ac_nodeID c) (ac_runtimeID c) (af_seq (fs_file st)) ms r) (st\<lparr>fs_world := w\<rparr>))"

definition write_event :: "nat \<Rightarrow> auditConfig \<Rightarrow> string \<Rightarrow> u64 option \<Rightarrow> string \<Rightarrow> fileState \<Rightarrow> fileState option" where
  "write_event fuel c event num reason st =
    (let after = (if event = ''gap'' then af_seq (fs_file st) else 0); st = next_seq st in
     write_line fuel c (event_line event (af_seq (fs_file st)) after num reason) st)"

definition writeRecord :: "(nat \<Rightarrow> nat) \<Rightarrow> nat \<Rightarrow> auditRecord \<Rightarrow> wstate \<Rightarrow> wstate option" where
  "writeRecord ul fuel r s =
    do { (found, s) \<leftarrow> fileFor fuel (ar_user r) s;
         if found then on_file (ar_user r) (write_entry ul fuel (aw_config (fst s)) r) s else Some s }"

fun write_gaps :: "nat \<Rightarrow> (string \<times> u64) list \<Rightarrow> wstate \<Rightarrow> wstate option" where
  "write_gaps fuel [] s = Some s"
| "write_gaps fuel ((identity, n) # pending) s =
    do { (found, s) \<leftarrow> fileFor fuel identity s;
         s \<leftarrow> (if found then on_file identity (write_event fuel (aw_config (fst s)) ''gap'' (Some n) ''queue_full'') s
              else Some s);
         write_gaps fuel pending s }"

definition flushGaps :: "nat \<Rightarrow> wstate \<Rightarrow> wstate option" where
  "flushGaps fuel s =
    (case s of (a, w) \<Rightarrow> write_gaps fuel (gm_sorted (aw_dropped a)) (a\<lparr>aw_dropped := []\<rparr>, w))"

fun each_file :: "(fileState \<Rightarrow> fileState option) \<Rightarrow> string list \<Rightarrow> wstate \<Rightarrow> wstate option" where
  "each_file op [] s = Some s"
| "each_file op (identity # ids) s = do { s \<leftarrow> on_file identity op s; each_file op ids s }"

definition flushAll :: "wstate \<Rightarrow> wstate option" where
  "flushAll s = each_file (\<lambda>st. Some (flush st)) (map fst (aw_files (fst s))) s"

definition check_rotation :: "nat \<Rightarrow> auditConfig \<Rightarrow> fileState \<Rightarrow> fileState option" where
  "check_rotation fuel c st =
    (case os_same (af_path (fs_file st)) (af_file (fs_file st)) (fs_world st) of (same, w) \<Rightarrow>
      if same then Some (st\<lparr>fs_world := w\<rparr>)
      else reopen (write_line fuel c) c (st\<lparr>fs_world := w\<rparr>))"

definition checkRotationAll :: "nat \<Rightarrow> wstate \<Rightarrow> wstate option" where
  "checkRotationAll fuel s = each_file (check_rotation fuel (aw_config (fst s))) (map fst (aw_files (fst s))) s"

section \<open>The total cap\<close>

definition rotatedTimestamp :: "string \<Rightarrow> string" where
  "rotatedTimestamp name =
    (case Index name (auditFileSuffix @ ''.'') of
       None \<Rightarrow> name
     | Some index \<Rightarrow> drop (index + length auditFileSuffix + 1) name)"

definition audit_names :: "world \<Rightarrow> (string \<times> nat) list" where
  "audit_names w = filter (\<lambda>(name, _). prefix auditFilePrefix name) (gm_sorted (w_names w))"

definition rotated_names :: "world \<Rightarrow> string list" where
  "rotated_names w = filter (\<lambda>name. Index name (auditFileSuffix @ ''.'') \<noteq> None) (map fst (audit_names w))"

text \<open>\<open>ReadDir\<close> may fail as a whole; the size of a file that vanished meanwhile is not counted, which the
  one-process directory of the model does not show.\<close>

definition auditDirectorySize :: "world \<Rightarrow> (int \<times> string option) option \<times> world" where
  "auditDirectorySize w =
    (case os_call w of
       (False, w) \<Rightarrow> (None, w)
     | (True, w) \<Rightarrow>
        (Some (sum_list (map (\<lambda>(_, ino). int (os_size ino w)) (audit_names w)),
           (case sort_key rotatedTimestamp (rotated_names w) of [] \<Rightarrow> None | name # _ \<Rightarrow> Some name)), w))"

primrec cap_loop :: "nat \<Rightarrow> nat \<Rightarrow> wstate \<Rightarrow> wstate option" where
  "cap_loop 0 fuel s = None"
| "cap_loop (Suc rounds) fuel s =
    (case s of (a, w) \<Rightarrow>
      case auditDirectorySize w of
        (None, w) \<Rightarrow> Some (add_drops 1 a, w)
      | (Some (bytes, oldest), w) \<Rightarrow>
          if bytes \<le> al_MaxTotalBytes (ac_options (aw_config a)) then Some (a, w)
          else case oldest of
            None \<Rightarrow> Some (add_drops 1 a, w)
          | Some name \<Rightarrow>
             (case os_remove name w of
                (False, w) \<Rightarrow> Some (add_drops 1 a, w)
              | (True, w) \<Rightarrow>
                 (case auditIdentityFromFileName name of
                    None \<Rightarrow> cap_loop rounds fuel (a, w)
                  | Some identity \<Rightarrow> do {
                      (found, s) \<leftarrow> fileFor fuel identity (a, w);
                      s \<leftarrow> (if found then on_file identity (write_event fuel (aw_config (fst s)) ''gap'' None ''total_cap'') s
                           else Some s);
                      cap_loop rounds fuel s })))"

definition enforceTotalCap :: "nat \<Rightarrow> nat \<Rightarrow> wstate \<Rightarrow> wstate option" where
  "enforceTotalCap rounds fuel s =
    (if al_MaxTotalBytes (ac_options (aw_config (fst s))) \<le> 0 then Some s else cap_loop rounds fuel s)"

section \<open>The writer goroutine\<close>

definition writer_tick :: "nat \<Rightarrow> nat \<Rightarrow> wstate \<Rightarrow> wstate option" where
  "writer_tick rounds fuel s =
    do { s \<leftarrow> flushGaps fuel s; s \<leftarrow> flushAll s; s \<leftarrow> checkRotationAll fuel s; enforceTotalCap rounds fuel s }"

definition writer_receive :: "(nat \<Rightarrow> nat) \<Rightarrow> nat \<Rightarrow> wstate \<Rightarrow> wstate option" where
  "writer_receive ul fuel s =
    (case s of (a, w) \<Rightarrow> case aw_records a of
       [] \<Rightarrow> Some s
     | r # rs \<Rightarrow> writeRecord ul fuel r (a\<lparr>aw_records := rs\<rparr>, w))"

fun drain_records :: "(nat \<Rightarrow> nat) \<Rightarrow> nat \<Rightarrow> auditRecord list \<Rightarrow> wstate \<Rightarrow> wstate option" where
  "drain_records ul fuel [] s = Some s"
| "drain_records ul fuel (r # rs) s = do { s \<leftarrow> writeRecord ul fuel r s; drain_records ul fuel rs s }"

definition stop_file :: "nat \<Rightarrow> auditConfig \<Rightarrow> fileState \<Rightarrow> fileState option" where
  "stop_file fuel c st = map_option flush (write_event fuel c ''stop'' None [] st)"

text \<open>\<open>Close\<close> runs once (\<open>sync.Once\<close>); the writer goroutine has ended when the queue is drained.\<close>

definition writer_close :: "(nat \<Rightarrow> nat) \<Rightarrow> nat \<Rightarrow> wstate \<Rightarrow> wstate option" where
  "writer_close ul fuel s =
    (if aw_closed (fst s) then Some s
     else do {
       s \<leftarrow> drain_records ul fuel (aw_records (fst s)) ((fst s)\<lparr>aw_closed := True, aw_records := []\<rparr>, snd s);
       s \<leftarrow> flushGaps fuel s;
       s \<leftarrow> each_file (stop_file fuel (aw_config (fst s))) (map fst (aw_files (fst s))) s;
       Some ((fst s)\<lparr>aw_files := [], aw_order := []\<rparr>, snd s) })"

end
