(* ===== verification/Audit_Safety.thy ===== *)
theory Audit_Safety
  imports Audit_Writer
begin

text \<open>
  What the audit writer keeps, whatever system calls fail: the bookkeeping of its open files, the bound of
  its queue, progress, and what becomes of a submitted record. The steps of the writer are an
  interpretation of \<open>invariant_machine\<close>.
\<close>

section \<open>Operations on one file\<close>

text \<open>\<open>sound\<close>: keeps what the map of open files relies on. \<open>answers\<close>: does not run out of fuel.\<close>

definition keeps_file :: "fileState \<Rightarrow> fileState \<Rightarrow> bool" where
  "keeps_file st st' \<longleftrightarrow> healthy st' \<and> af_path (fs_file st') = af_path (fs_file st) \<and>
    af_identity (fs_file st') = af_identity (fs_file st)"

definition sound :: "(fileState \<Rightarrow> fileState option) \<Rightarrow> bool" where
  "sound op \<longleftrightarrow> (\<forall>st st'. healthy st \<longrightarrow> op st = Some st' \<longrightarrow> keeps_file st st')"

definition answers :: "(fileState \<Rightarrow> fileState option) \<Rightarrow> bool" where
  "answers op \<longleftrightarrow> (\<forall>st. healthy st \<longrightarrow> (\<exists>st'. op st = Some st'))"

lemma soundD: "sound op \<Longrightarrow> healthy st \<Longrightarrow> op st = Some st' \<Longrightarrow> keeps_file st st'"
  unfolding sound_def by blast

lemma answersD: "answers op \<Longrightarrow> healthy st \<Longrightarrow> \<exists>st'. op st = Some st'"
  unfolding answers_def by blast

lemma keeps_file_trans: "keeps_file st su \<Longrightarrow> keeps_file su sv \<Longrightarrow> keeps_file st sv"
  by (simp add: keeps_file_def)

lemma identity_flush [simp]: "af_identity (fs_file (flush st)) = af_identity (fs_file st)"
  by (simp add: flush_def Let_def resetWriter_def noteDropped_def split: prod.splits)

lemma keeps_flush: "healthy st \<Longrightarrow> keeps_file st (flush st)"
  by (simp add: keeps_file_def flush_effect)

lemma keeps_world: "healthy st \<Longrightarrow> keeps_file st (st\<lparr>fs_world := w\<rparr>)"
  by (simp add: keeps_file_def healthy_def)

lemma keeps_put_line: "healthy st \<Longrightarrow> put_line line st = (ok, st') \<Longrightarrow> keeps_file st st'"
  using put_line_effect(1,3) [of st line ok st']
  by (auto simp: keeps_file_def put_line_def Let_def resetWriter_def noteDropped_def split: prod.splits if_splits)

lemma sound_stamp:
  assumes "sound (\<lambda>st. wr (filter_line (ac_exclude c) (af_seq (fs_file st))) st)"
  shows "sound (stampFilter wr c)"
proof -
  have "keeps_file st st'" if "healthy st" "stampFilter wr c st = Some st'" for st st'
  proof (cases "empty_filter (ac_exclude c)")
    case True
    with that show ?thesis by (simp add: stampFilter_def keeps_file_def)
  next
    case False
    let ?s = "snd (encodeFilterEvent c st)"
    have s: "healthy ?s" "keeps_file st ?s"
      using that(1) by (simp_all add: encodeFilterEvent_def Let_def healthy_def keeps_file_def)
    from that(2) False have "wr (filter_line (ac_exclude c) (af_seq (fs_file ?s))) ?s = Some st'"
      by (simp add: stampFilter_def encodeFilterEvent_def Let_def)
    from soundD [OF assms s(1) this] s(2) show ?thesis by (rule keeps_file_trans [rotated])
  qed
  then show ?thesis unfolding sound_def by blast
qed

lemma sound_reopen: "sound (stampFilter wr c) \<Longrightarrow> sound (reopen wr c)"
proof -
  assume stamp: "sound (stampFilter wr c)"
  have "keeps_file st st'" if h: "healthy st" and ro: "reopen wr c st = Some st'" for st st'
  proof -
    let ?s = "flush st\<lparr>fs_file := (fs_file (flush st))\<lparr>af_file := None\<rparr>\<rparr>"
    have s: "keeps_file st ?s" using keeps_flush [OF h] by (simp add: keeps_file_def healthy_def)
    obtain r w where op: "os_open (af_path (fs_file ?s)) (fs_world ?s) = (r, w)" by fastforce
    show ?thesis
    proof (cases r)
      case None
      with ro op s show ?thesis by (auto simp: reopen_def Let_def noteDropped_def keeps_file_def healthy_def)
    next
      case (Some i)
      obtain k v where call: "os_call w = (k, v)" by fastforce
      let ?t = "?s\<lparr>fs_world := v, fs_file := (fs_file ?s)\<lparr>af_file := Some i, af_writer := bufio_reset,
          af_size := (if k then int (os_size i v) else 0)\<rparr>\<rparr>"
      have t: "keeps_file st ?t" "healthy ?t" using s by (simp_all add: keeps_file_def healthy_def bufio_reset_def)
      have "stampFilter wr c ?t = Some st'" using ro op Some call by (simp add: reopen_def Let_def)
      from soundD [OF stamp t(2) this] t(1) show ?thesis by (rule keeps_file_trans [rotated])
    qed
  qed
  then show ?thesis unfolding sound_def by blast
qed

lemma sound_rotate:
  assumes "sound (reopen wr c)"
  shows "sound (rotate_file wr c)"
proof -
  have "keeps_file st st'" if h: "healthy st" and ro: "rotate_file wr c st = Some st'" for st st'
  proof -
    obtain w ok where "st' = noteDropped (st\<lparr>fs_world := w\<rparr>) \<or> reopen wr c (st\<lparr>fs_world := w\<rparr>) = Some st'"
      using ro by (auto simp: rotate_file_def split: prod.splits bool.splits)
    moreover have "healthy (st\<lparr>fs_world := w\<rparr>)" using h by (simp add: healthy_def)
    ultimately show ?thesis
      using soundD [OF assms, of "st\<lparr>fs_world := w\<rparr>" st'] h
      by (auto simp: noteDropped_def keeps_file_def healthy_def)
  qed
  then show ?thesis unfolding sound_def by blast
qed

lemma sound_write_line: "sound (\<lambda>st. write_line fuel c (line st) st)"
proof (induction fuel arbitrary: line)
  case 0
  then show ?case by (simp add: sound_def)
next
  case (Suc fuel)
  note rot = soundD [OF sound_rotate [OF sound_reopen [OF sound_stamp [OF Suc]]]]
  have "keeps_file st st'" if h: "healthy st" and wl: "write_line (Suc fuel) c l st = Some st'" for st st' l
  proof -
    obtain ok s where put: "put_line l st = (ok, s)" by fastforce
    have s: "keeps_file st s" "healthy s" using keeps_put_line [OF h put] by (auto simp: keeps_file_def)
    have f: "keeps_file st (flush s)" "healthy (flush s)"
      using keeps_flush [OF s(2)] s(1) by (auto simp: keeps_file_def)
    consider "st' = st" | "st' = s" | "rotate_file (write_line fuel c) c (flush s) = Some st'"
      using wl put by (cases "l = []"; cases ok; cases "af_size (fs_file s) \<ge> al_MaxBytes (ac_options c)") simp_all
    then show ?thesis
    proof cases
      case 3
      from rot [OF f(2) this] f(1) show ?thesis by (rule keeps_file_trans [rotated])
    qed (use s h in \<open>simp_all add: keeps_file_def\<close>)
  qed
  then show ?case unfolding sound_def by blast
qed

lemma sound_stampFilter: "sound (stampFilter (write_line fuel c) c)"
  by (rule sound_stamp) (rule sound_write_line)

lemma answers_write: "stamp_fits c \<Longrightarrow> 2 \<le> fuel \<Longrightarrow> answers (\<lambda>st. write_line fuel c (line st) st)"
  using write_line_Some [of c _ "fuel - 2"] by (auto simp: answers_def numeral_2_eq_2 Suc_diff_Suc)


lemma answers_stamp: "answers (\<lambda>st. wr (filter_line (ac_exclude c) (af_seq (fs_file st))) st) \<Longrightarrow> answers (stampFilter wr c)"
proof -
  assume ans: "answers (\<lambda>st. wr (filter_line (ac_exclude c) (af_seq (fs_file st))) st)"
  have "\<exists>st'. stampFilter wr c st = Some st'" if "healthy st" for st
  proof (cases "empty_filter (ac_exclude c)")
    case False
    have "healthy (snd (encodeFilterEvent c st))"
      using that by (simp add: encodeFilterEvent_def Let_def healthy_def)
    from answersD [OF ans this] False show ?thesis
      by (simp add: stampFilter_def encodeFilterEvent_def Let_def)
  qed (simp add: stampFilter_def)
  then show ?thesis unfolding answers_def by blast
qed

lemma answers_reopen:
  assumes "answers (stampFilter wr c)"
  shows "answers (reopen wr c)"
proof -
  have "\<exists>st'. reopen wr c st = Some st'" for st
  proof -
    let ?s = "flush st\<lparr>fs_file := (fs_file (flush st))\<lparr>af_file := None\<rparr>\<rparr>"
    obtain r w where op: "os_open (af_path (fs_file ?s)) (fs_world ?s) = (r, w)" by fastforce
    show ?thesis
    proof (cases r)
      case (Some i)
      obtain k v where call: "os_call w = (k, v)" by fastforce
      have "healthy (?s\<lparr>fs_world := v, fs_file := (fs_file ?s)\<lparr>af_file := Some i, af_writer := bufio_reset,
          af_size := (if k then int (os_size i v) else 0)\<rparr>\<rparr>)" by (simp add: healthy_def bufio_reset_def)
      from answersD [OF assms this] op Some call show ?thesis by (simp add: reopen_def Let_def)
    qed (use op in \<open>simp add: reopen_def Let_def\<close>)
  qed
  then show ?thesis unfolding answers_def by blast
qed

definition fine :: "(fileState \<Rightarrow> fileState option) \<Rightarrow> bool" where
  "fine op \<longleftrightarrow> sound op \<and> answers op"

lemma fine_write: "stamp_fits c \<Longrightarrow> 2 \<le> fuel \<Longrightarrow> fine (\<lambda>st. write_line fuel c (line st) st)"
  by (simp add: fine_def sound_write_line answers_write)

lemma fine_stamp: "stamp_fits c \<Longrightarrow> 2 \<le> fuel \<Longrightarrow> fine (stampFilter (write_line fuel c) c)"
  using fine_write [of c fuel "\<lambda>st. filter_line (ac_exclude c) (af_seq (fs_file st))"]
  by (simp add: fine_def sound_stampFilter answers_stamp)

lemma fine_before:
  assumes "fine op" and "\<And>st. healthy st \<Longrightarrow> keeps_file st (f st)"
  shows "fine (\<lambda>st. op (f st))"
proof -
  have h: "healthy (f st)" if "healthy st" for st using assms(2) [OF that] by (simp add: keeps_file_def)
  have "keeps_file st st'" if "healthy st" "op (f st) = Some st'" for st st'
    using soundD [of op "f st" st'] h [OF that(1)] assms that keeps_file_trans [of st "f st" st'] by (simp add: fine_def)
  moreover have "\<exists>st'. op (f st) = Some st'" if "healthy st" for st
    using answersD [of op "f st"] h [OF that] assms(1) by (simp add: fine_def)
  ultimately show ?thesis unfolding fine_def sound_def answers_def by blast
qed

lemma fine_check_rotation: "stamp_fits c \<Longrightarrow> 2 \<le> fuel \<Longrightarrow> fine (check_rotation fuel c)"
proof -
  assume c: "stamp_fits c" "2 \<le> fuel"
  then have ro: "fine (reopen (write_line fuel c) c)"
    using fine_stamp by (simp add: fine_def sound_reopen answers_reopen)
  have "check_rotation fuel c st = Some (st\<lparr>fs_world := w\<rparr>) \<or>
      check_rotation fuel c st = reopen (write_line fuel c) c (st\<lparr>fs_world := w\<rparr>)"
    if "w = snd (os_same (af_path (fs_file st)) (af_file (fs_file st)) (fs_world st))" for st w
    using that by (simp add: check_rotation_def split: prod.splits)
  with fine_before [OF ro keeps_world] keeps_world show ?thesis
    unfolding fine_def sound_def answers_def by (metis option.inject)
qed

lemma fine_write_entry: "stamp_fits c \<Longrightarrow> 2 \<le> fuel \<Longrightarrow> fine (write_entry ul fuel c r)"
proof -
  let ?f = "\<lambda>st. (next_seq st)\<lparr>fs_world := snd (time_now (fs_world st))\<rparr>"
  assume c: "stamp_fits c" "2 \<le> fuel"
  have eq: "write_entry ul fuel c r = (\<lambda>st. (\<lambda>t. write_line fuel c (record_line ul (ac_nodeID c) (ac_runtimeID c)
      (af_seq (fs_file t)) (fst (w_clock (fs_world t) (w_tick (fs_world t) - 1))) r) t) (?f st))"
    by (rule ext) (simp add: write_entry_def next_seq_def Let_def time_now_def split: prod.splits)
  have k: "keeps_file st (?f st)" if "healthy st" for st
    using that by (simp add: keeps_file_def next_seq_def healthy_def)
  show ?thesis unfolding eq by (rule fine_before [OF fine_write [OF c] k])
qed

lemma fine_write_event: "stamp_fits c \<Longrightarrow> 2 \<le> fuel \<Longrightarrow> fine (write_event fuel c event num reason)"
proof -
  assume c: "stamp_fits c" "2 \<le> fuel"
  have eq: "write_event fuel c event num reason = (\<lambda>st. (\<lambda>t. write_line fuel c
      (event_line event (af_seq (fs_file t)) (if event = ''gap'' then af_seq (fs_file t) - 1 else 0) num reason) t) (next_seq st))"
    by (rule ext) (simp add: write_event_def next_seq_def Let_def)
  have k: "keeps_file st (next_seq st)" if "healthy st" for st
    using that by (simp add: keeps_file_def next_seq_def healthy_def)
  show ?thesis unfolding eq by (rule fine_before [OF fine_write [OF c] k])
qed

lemma fine_flush: "fine (\<lambda>st. Some (flush st))"
  unfolding fine_def sound_def answers_def using keeps_flush by simp

lemma fine_stop: "stamp_fits c \<Longrightarrow> 2 \<le> fuel \<Longrightarrow> fine (stop_file fuel c)"
proof -
  assume c: "stamp_fits c" "2 \<le> fuel"
  from fine_write_event [OF c] have ev: "fine (write_event fuel c ''stop'' None [])" .
  have "keeps_file st st'" if "healthy st" "stop_file fuel c st = Some st'" for st st'
  proof -
    from that(2) obtain t where t: "write_event fuel c ''stop'' None [] st = Some t" "st' = flush t"
      by (auto simp: stop_file_def)
    from soundD [of "write_event fuel c ''stop'' None []" st t] that(1) t(1) ev have "keeps_file st t" by (simp add: fine_def)
    with keeps_flush [of t] t(2) show ?thesis by (simp add: keeps_file_def)
  qed
  moreover have "\<exists>st'. stop_file fuel c st = Some st'" if "healthy st" for st
    using answersD [OF _ that, of "write_event fuel c ''stop'' None []"] ev by (auto simp: fine_def stop_file_def)
  ultimately show ?thesis unfolding fine_def sound_def answers_def by blast
qed

section \<open>The open files\<close>

definition files_wf :: "auditWriter \<Rightarrow> bool" where
  "files_wf a \<longleftrightarrow> gm_wf (aw_files a) \<and> (\<forall>identity f. gm_get (aw_files a) identity = Some f \<longrightarrow>
    af_identity f = identity \<and> af_path f = auditFileName identity \<and> \<not> bw_err (af_writer f))"

definition lru_ok :: "auditWriter \<Rightarrow> bool" where
  "lru_ok a \<longleftrightarrow> files_wf a \<and> distinct (aw_order a) \<and> set (aw_order a) = gm_keys (aw_files a) \<and>
    int (length (aw_files a)) \<le> al_MaxOpenFiles (ac_options (aw_config a))"

definition same_files :: "auditWriter \<Rightarrow> auditWriter \<Rightarrow> bool" where
  "same_files a a' \<longleftrightarrow> aw_config a' = aw_config a \<and> aw_order a' = aw_order a \<and> aw_closed a' = aw_closed a \<and>
    aw_records a' = aw_records a \<and> aw_dropped a' = aw_dropped a \<and> gm_keys (aw_files a') = gm_keys (aw_files a) \<and>
    length (aw_files a') = length (aw_files a)"

lemma same_files_refl [simp]: "same_files a a"
  by (simp add: same_files_def)

lemma same_files_trans: "same_files a b \<Longrightarrow> same_files b c \<Longrightarrow> same_files a c"
  by (simp add: same_files_def)

lemma on_file_fine:
  assumes "fine op" "files_wf a"
  shows "\<exists>a' w'. on_file identity op (a, w) = Some (a', w') \<and> files_wf a' \<and> same_files a a'"
proof (cases "gm_get (aw_files a) identity")
  case None
  with assms show ?thesis by (simp add: on_file_def)
next
  case (Some f)
  let ?st = "\<lparr>fs_file = f, fs_world = w, fs_drops = 0\<rparr>"
  have h: "healthy ?st" "af_identity f = identity" "af_path f = auditFileName identity"
    using assms(2) Some by (auto simp: healthy_def files_wf_def)
  obtain st where st: "op ?st = Some st" using answersD [of op ?st] h assms(1) by (auto simp: fine_def)
  from soundD [of op ?st st] h st assms(1) have k: "keeps_file ?st st" by (simp add: fine_def)
  have keys: "insert identity (gm_keys (aw_files a)) = gm_keys (aw_files a)"
    using Some by (auto simp: gm_keys_get)
  have wf: "gm_wf (aw_files a)" using assms(2) by (simp add: files_wf_def)
  have "length (gm_put identity (fs_file st) (aw_files a)) = length (aw_files a)"
    using keys by (simp add: gm_length_keys wf gm_wf_put go_map)
  moreover have "files_wf (add_drops (fs_drops st) (a\<lparr>aw_files := gm_put identity (fs_file st) (aw_files a)\<rparr>))"
    using k h assms(2) by (auto simp: files_wf_def add_drops_def go_map go_wf keeps_file_def healthy_def)
  ultimately show ?thesis
    using st Some keys by (auto simp: on_file_def same_files_def add_drops_def go_map)
qed

lemma lru_same: "lru_ok a \<Longrightarrow> files_wf a' \<Longrightarrow> same_files a a' \<Longrightarrow> lru_ok a'"
  by (simp add: lru_ok_def same_files_def)

lemma each_file_fine:
  "fine op \<Longrightarrow> files_wf a \<Longrightarrow> \<exists>a' w'. each_file op ids (a, w) = Some (a', w') \<and> files_wf a' \<and> same_files a a'"
proof (induction ids arbitrary: a w)
  case (Cons i ids)
  from on_file_fine [OF Cons.prems] obtain b v where b: "on_file i op (a, w) = Some (b, v)" "files_wf b" "same_files a b"
    by blast
  from Cons.IH [OF Cons.prems(1) b(2), of v] b show ?case by (auto intro: same_files_trans)
qed simp

lemma files_wf_delete:
  "files_wf a \<Longrightarrow> files_wf (a\<lparr>aw_files := AList.delete v (aw_files a), aw_order := ord\<rparr>)"
  by (auto simp: files_wf_def gm_wf_def distinct_delete delete_conv' split: if_splits)

lemma evict_ok:
  assumes "lru_ok a" "1 \<le> al_MaxOpenFiles (ac_options (aw_config a))"
  shows "\<exists>a' w'. evict (a, w) = Some (a', w') \<and> lru_ok a' \<and> aw_config a' = aw_config a \<and> aw_closed a' = aw_closed a \<and>
    aw_records a' = aw_records a \<and> aw_dropped a' = aw_dropped a \<and>
    int (length (aw_files a')) < al_MaxOpenFiles (ac_options (aw_config a)) \<and> gm_keys (aw_files a') \<subseteq> gm_keys (aw_files a)"
proof (cases "int (length (aw_files a)) \<ge> al_MaxOpenFiles (ac_options (aw_config a)) \<and> aw_order a \<noteq> []")
  case False
  have "aw_order a = [] \<Longrightarrow> aw_files a = []"
    using assms(1) by (auto simp: lru_ok_def gm_keys_def)
  with False assms(2) have less: "int (length (aw_files a)) < al_MaxOpenFiles (ac_options (aw_config a))" by fastforce
  have "evict (a, w) = Some (a, w)" unfolding evict_def prod.case by (simp only: False if_False)
  with less assms(1) show ?thesis by simp
next
  case True
  then obtain v rest where ord: "aw_order a = v # rest" by (cases "aw_order a") auto
  let ?a = "a\<lparr>aw_order := rest\<rparr>"
  have "files_wf ?a" using assms(1) by (simp add: lru_ok_def files_wf_def)
  from on_file_fine [OF fine_flush this, of v w] obtain b u where
    b: "on_file v (\<lambda>st. Some (flush st)) (?a, w) = Some (b, u)" "files_wf b" "same_files ?a b" by blast
  let ?b = "b\<lparr>aw_files := AList.delete v (aw_files b)\<rparr>"
  have wf: "files_wf ?b" using files_wf_delete [OF b(2), where v = v and ord = "aw_order b"] by simp
  have keys: "gm_keys (aw_files ?b) = gm_keys (aw_files b) - {v}" using delete_keys [of v "aw_files b"]
    by (simp add: gm_keys_def) (metis set_map set_removeAll)
  have "v \<in> gm_keys (aw_files b)" "set rest = gm_keys (aw_files b) - {v}" "distinct rest"
    using assms(1) ord b(3) by (auto simp: lru_ok_def same_files_def)
  note v = this
  have len: "length (aw_files ?b) = length (aw_files b) - 1"
    using wf b(2) keys v by (simp add: gm_length_keys files_wf_def)
  have pos: "length (aw_files b) > 0" using v(1) by (cases "aw_files b") (auto simp: gm_keys_def)
  have same: "aw_config b = aw_config a" "aw_order b = rest" "aw_closed b = aw_closed a" "aw_records b = aw_records a"
      "aw_dropped b = aw_dropped a" "gm_keys (aw_files b) = gm_keys (aw_files a)" "length (aw_files b) = length (aw_files a)"
    using b(3) by (simp_all add: same_files_def)
  have le: "int (length (aw_files a)) \<le> al_MaxOpenFiles (ac_options (aw_config a))" using assms(1) by (simp add: lru_ok_def)
  have "evict (a, w) = Some (?b, u)" using True ord b(1) by (simp add: evict_def Let_def)
  moreover have "lru_ok ?b" using wf v keys same len le by (simp add: lru_ok_def)
  moreover have "int (length (aw_files ?b)) < al_MaxOpenFiles (ac_options (aw_config a))" proof -
    have "Suc (length (aw_files ?b)) = length (aw_files b)" using len pos by simp
    then show ?thesis using same(7) le by linarith
  qed
  moreover have "gm_keys (aw_files ?b) \<subseteq> gm_keys (aw_files a)" using keys same by auto
  ultimately show ?thesis using same by auto
qed


section \<open>The writer keeps its files in order\<close>

definition writer_ok :: "auditWriter \<Rightarrow> bool" where
  "writer_ok a \<longleftrightarrow> lru_ok a \<and> stamp_fits (aw_config a) \<and> 1 \<le> al_MaxOpenFiles (ac_options (aw_config a))"

lemma openAuditFile_file:
  "openAuditFile path identity w = (Some f, w') \<Longrightarrow> af_identity f = identity \<and> af_path f = path \<and> af_writer f = bufio_reset"
  by (auto simp: openAuditFile_def split: prod.splits option.splits bool.splits)

lemma touch_props: "distinct order \<Longrightarrow> distinct (touch i order) \<and> set (touch i order) = insert i (set order)"
  by (auto simp: touch_def)

lemma fileFor_ok:
  assumes "writer_ok a" "2 \<le> fuel"
  shows "\<exists>found a' w'. fileFor fuel i (a, w) = Some (found, a', w') \<and> writer_ok a' \<and> aw_config a' = aw_config a \<and>
    aw_closed a' = aw_closed a \<and> aw_records a' = aw_records a \<and> aw_dropped a' = aw_dropped a"
proof (cases "gm_get (aw_files a) i")
  case (Some f)
  then have "i \<in> gm_keys (aw_files a)" by (auto simp: gm_keys_get)
  then have "lru_ok (a\<lparr>aw_order := touch i (aw_order a)\<rparr>)"
    using assms(1) touch_props [of "aw_order a" i]
    by (auto simp: writer_ok_def lru_ok_def files_wf_def)
  with Some assms(1) show ?thesis by (intro exI [of _ True]) (simp add: fileFor_def writer_ok_def)
next
  case None
  have lru: "lru_ok a" "1 \<le> al_MaxOpenFiles (ac_options (aw_config a))" "stamp_fits (aw_config a)"
    using assms(1) by (simp_all add: writer_ok_def)
  from evict_ok [OF lru(1,2), of w] obtain b u where
    b: "evict (a, w) = Some (b, u)" "lru_ok b" "aw_config b = aw_config a" "aw_closed b = aw_closed a"
      "aw_records b = aw_records a" "aw_dropped b = aw_dropped a"
      "int (length (aw_files b)) < al_MaxOpenFiles (ac_options (aw_config a))" "gm_keys (aw_files b) \<subseteq> gm_keys (aw_files a)"
    by blast
  obtain res v where op: "openAuditFile (auditFileName i) i u = (res, v)" by fastforce
  show ?thesis
  proof (cases res)
    case None
    have "lru_ok (add_drops 1 b)" using b(2) by (simp add: add_drops_def lru_ok_def files_wf_def)
    then show ?thesis using b op None \<open>gm_get (aw_files a) i = None\<close> lru
      by (intro exI [of _ False]) (simp add: fileFor_def writer_ok_def add_drops_def)
  next
    case (Some f)
    have f: "af_identity f = i" "af_path f = auditFileName i" "af_writer f = bufio_reset"
      using openAuditFile_file op Some by auto
    let ?b = "b\<lparr>aw_files := gm_put i f (aw_files b), aw_order := aw_order b @ [i]\<rparr>"
    have new: "i \<notin> gm_keys (aw_files b)"
      using b(8) \<open>gm_get (aw_files a) i = None\<close> by (auto simp: gm_keys_get)
    have fwf: "files_wf b" using b(2) by (simp add: lru_ok_def)
    then have "files_wf ?b" using f by (auto simp: files_wf_def go_map go_wf bufio_reset_def)
    moreover have "length (gm_put i f (aw_files b)) = Suc (length (aw_files b))"
      using new fwf by (simp add: gm_length_keys gm_wf_put go_map files_wf_def)
    ultimately have lrub: "lru_ok ?b"
      using b new by (auto simp: lru_ok_def go_map)
    have "fine (stampFilter (write_line fuel (aw_config a)) (aw_config a))" by (rule fine_stamp [OF lru(3) assms(2)])
    from on_file_fine [OF this \<open>files_wf ?b\<close>, of i v] obtain c x where
      c: "on_file i (stampFilter (write_line fuel (aw_config a)) (aw_config a)) (?b, v) = Some (c, x)" "files_wf c" "same_files ?b c"
      by blast
    have "lru_ok c" using lru_same [OF lrub c(2,3)] .
    moreover have "fileFor fuel i (a, w) = Some (True, c, x)"
      using b(1,3) op Some c(1) \<open>gm_get (aw_files a) i = None\<close> by (simp add: fileFor_def)
    ultimately show ?thesis using b c(3) lru by (intro exI [of _ True]) (simp add: writer_ok_def same_files_def)
  qed
qed

lemma on_file_ok:
  assumes "fine op" "writer_ok a"
  shows "\<exists>a' w'. on_file i op (a, w) = Some (a', w') \<and> writer_ok a' \<and> same_files a a'"
proof -
  have "files_wf a" using assms(2) by (simp add: writer_ok_def lru_ok_def)
  from on_file_fine [OF assms(1) this, of i w] obtain b u where
    b: "on_file i op (a, w) = Some (b, u)" "files_wf b" "same_files a b" by blast
  moreover have "writer_ok b" using lru_same [OF _ b(2,3)] assms(2) b(3) by (simp add: writer_ok_def same_files_def)
  ultimately show ?thesis by blast
qed

lemma each_file_ok:
  assumes "fine op" "writer_ok a"
  shows "\<exists>a' w'. each_file op ids (a, w) = Some (a', w') \<and> writer_ok a' \<and> same_files a a'"
proof -
  have "files_wf a" using assms(2) by (simp add: writer_ok_def lru_ok_def)
  from each_file_fine [OF assms(1) this, of ids w] obtain b u where
    b: "each_file op ids (a, w) = Some (b, u)" "files_wf b" "same_files a b" by blast
  moreover have "writer_ok b" using lru_same [OF _ b(2,3)] assms(2) b(3) by (simp add: writer_ok_def same_files_def)
  ultimately show ?thesis by blast
qed

definition kept :: "auditWriter \<Rightarrow> auditWriter \<Rightarrow> bool" where
  "kept a a' \<longleftrightarrow> writer_ok a' \<and> aw_config a' = aw_config a \<and> aw_closed a' = aw_closed a \<and> aw_records a' = aw_records a"

lemma kept_refl: "writer_ok a \<Longrightarrow> kept a a"
  by (simp add: kept_def)

lemma kept_trans: "kept a b \<Longrightarrow> kept b c \<Longrightarrow> kept a c"
  by (simp add: kept_def)

text \<open>\<open>fileFor\<close> followed by a write to the file it found.\<close>

lemma find_and_write:
  assumes "writer_ok a" "2 \<le> fuel" "\<And>c. stamp_fits c \<Longrightarrow> fine (op c)"
  shows "\<exists>a' w'. do { (found, s) \<leftarrow> fileFor fuel i (a, w);
      if found then on_file i (op (aw_config (fst s))) s else Some s } = Some (a', w') \<and> kept a a' \<and> aw_dropped a' = aw_dropped a"
proof -
  from fileFor_ok [OF assms(1,2), of i w] obtain found b u where
    b: "fileFor fuel i (a, w) = Some (found, b, u)" "writer_ok b" "aw_config b = aw_config a"
      "aw_closed b = aw_closed a" "aw_records b = aw_records a" "aw_dropped b = aw_dropped a" by blast
  have "fine (op (aw_config b))" using assms(3) b(2) by (simp add: writer_ok_def)
  from on_file_ok [OF this b(2), of i u] obtain c v where
    "on_file i (op (aw_config b)) (b, u) = Some (c, v)" "writer_ok c" "same_files b c" by blast
  with b show ?thesis by (cases found) (auto simp: kept_def same_files_def)
qed

lemma writeRecord_ok:
  "writer_ok a \<Longrightarrow> 2 \<le> fuel \<Longrightarrow> \<exists>a' w'. writeRecord ul fuel r (a, w) = Some (a', w') \<and> kept a a' \<and> aw_dropped a' = aw_dropped a"
  unfolding writeRecord_def by (rule find_and_write) (simp_all add: fine_write_entry)

lemma write_gaps_ok:
  "writer_ok a \<Longrightarrow> 2 \<le> fuel \<Longrightarrow> \<exists>a' w'. write_gaps fuel pending (a, w) = Some (a', w') \<and> kept a a' \<and> aw_dropped a' = aw_dropped a"
proof (induction pending arbitrary: a w)
  case Nil
  then show ?case by (simp add: kept_refl)
next
  case (Cons p pending)
  obtain i n where p: "p = (i, n)" by fastforce
  from find_and_write [OF Cons.prems, of "\<lambda>c. write_event fuel c ''gap'' (Some n) ''queue_full''" i w]
  obtain b u where b: "do { (found, s) \<leftarrow> fileFor fuel i (a, w);
      if found then on_file i (write_event fuel (aw_config (fst s)) ''gap'' (Some n) ''queue_full'') s else Some s } = Some (b, u)"
      "kept a b" "aw_dropped b = aw_dropped a"
    using fine_write_event Cons.prems(2) by blast
  have "writer_ok b" using b(2) by (simp add: kept_def)
  from Cons.IH [OF this Cons.prems(2), of u] obtain c v where
    c: "write_gaps fuel pending (b, u) = Some (c, v)" "kept b c" "aw_dropped c = aw_dropped b" by blast
  have "write_gaps fuel (p # pending) (a, w) = do { s \<leftarrow> (do { (found, s) \<leftarrow> fileFor fuel i (a, w);
      if found then on_file i (write_event fuel (aw_config (fst s)) ''gap'' (Some n) ''queue_full'') s else Some s });
      write_gaps fuel pending s }"
    by (cases "fileFor fuel i (a, w)") (auto simp: p)
  with b c show ?case by (auto intro: kept_trans)
qed


lemma flushGaps_ok:
  "writer_ok a \<Longrightarrow> 2 \<le> fuel \<Longrightarrow> \<exists>a' w'. flushGaps fuel (a, w) = Some (a', w') \<and> kept a a' \<and> aw_dropped a' = []"
proof -
  assume "writer_ok a" "2 \<le> fuel"
  then have "writer_ok (a\<lparr>aw_dropped := []\<rparr>)" by (simp add: writer_ok_def lru_ok_def files_wf_def)
  from write_gaps_ok [OF this \<open>2 \<le> fuel\<close>, of "gm_sorted (aw_dropped a)" w] show ?thesis
    by (auto simp: flushGaps_def kept_def)
qed

lemma same_kept: "writer_ok a' \<Longrightarrow> same_files a a' \<Longrightarrow> kept a a' \<and> aw_dropped a' = aw_dropped a"
  by (simp add: kept_def same_files_def)

lemma flushAll_ok: "writer_ok a \<Longrightarrow> \<exists>a' w'. flushAll (a, w) = Some (a', w') \<and> kept a a' \<and> aw_dropped a' = aw_dropped a"
  using each_file_ok [OF fine_flush, of a "map fst (aw_files a)" w] same_kept by (fastforce simp: flushAll_def)

lemma checkRotationAll_ok:
  "writer_ok a \<Longrightarrow> 2 \<le> fuel \<Longrightarrow> \<exists>a' w'. checkRotationAll fuel (a, w) = Some (a', w') \<and> kept a a' \<and> aw_dropped a' = aw_dropped a"
  using each_file_ok [OF fine_check_rotation, of "aw_config a" fuel a "map fst (aw_files a)" w] same_kept
  by (fastforce simp: checkRotationAll_def writer_ok_def)

lemma writer_ok_drops [simp]: "writer_ok (add_drops n a) = writer_ok a"
  by (simp add: writer_ok_def lru_ok_def files_wf_def add_drops_def)

lemma add_drops_rest [simp]:
  "aw_config (add_drops n a) = aw_config a" "aw_closed (add_drops n a) = aw_closed a"
  "aw_records (add_drops n a) = aw_records a"
  by (simp_all add: add_drops_def)

lemma kept_drops [simp]: "kept b (add_drops n a) = kept b a"
  by (simp add: kept_def)

lemma cap_loop_ok:
  "writer_ok a \<Longrightarrow> 2 \<le> fuel \<Longrightarrow> cap_loop rounds fuel (a, w) = Some (a', w') \<Longrightarrow> kept a a'"
proof (induction rounds arbitrary: a w)
  case (Suc rounds)
  obtain res u where size: "auditDirectorySize w = (res, u)" by fastforce
  show ?case
  proof (cases "\<exists>bytes name v. res = Some (bytes, Some name) \<and> bytes > al_MaxTotalBytes (ac_options (aw_config a)) \<and>
      os_remove name u = (True, v)")
    case False
    with Suc.prems size have "kept a a'"
      by (cases res) (auto simp: kept_refl split: option.splits prod.splits bool.splits if_splits)
    then show ?thesis .
  next
    case True
    then obtain bytes name v where res: "res = Some (bytes, Some name)" "bytes > al_MaxTotalBytes (ac_options (aw_config a))"
        "os_remove name u = (True, v)" by blast
    show ?thesis
    proof (cases "auditIdentityFromFileName name")
      case None
      with Suc res size show ?thesis by simp
    next
      case (Some i)
      from find_and_write [OF Suc.prems(1,2), of "\<lambda>c. write_event fuel c ''gap'' None ''total_cap''" i v]
      obtain b x where b: "do { (found, s) \<leftarrow> fileFor fuel i (a, v);
          if found then on_file i (write_event fuel (aw_config (fst s)) ''gap'' None ''total_cap'') s else Some s } = Some (b, x)"
          "kept a b"
        using fine_write_event Suc.prems(2) by blast
      have "cap_loop rounds fuel (b, x) = Some (a', w')"
        using Suc.prems(3) res size Some b(1) by (cases "fileFor fuel i (a, v)") auto
      with Suc.IH [of b x] b(2) Suc.prems(2) show ?thesis by (auto simp: kept_def)
    qed
  qed
qed simp

lemma drain_ok:
  "writer_ok a \<Longrightarrow> 2 \<le> fuel \<Longrightarrow> \<exists>a' w'. drain_records ul fuel rs (a, w) = Some (a', w') \<and> kept a a'"
proof (induction rs arbitrary: a w)
  case (Cons r rs)
  from writeRecord_ok [OF Cons.prems, of ul r w] obtain b u where
    b: "writeRecord ul fuel r (a, w) = Some (b, u)" "kept a b" by blast
  then have "writer_ok b" by (simp add: kept_def)
  from Cons.IH [OF this Cons.prems(2), of u] b show ?case by (auto intro: kept_trans)
qed (simp add: kept_refl)

lemma writer_close_ok:
  assumes "writer_ok a" "2 \<le> fuel"
  shows "\<exists>a' w'. writer_close ul fuel (a, w) = Some (a', w') \<and> writer_ok a' \<and> aw_closed a' \<and>
    aw_config a' = aw_config a \<and> (aw_closed a \<longrightarrow> a' = a) \<and> (\<not> aw_closed a \<longrightarrow> aw_records a' = [] \<and> aw_dropped a' = [] \<and> aw_files a' = [])"
proof (cases "aw_closed a")
  case True
  with assms show ?thesis by (simp add: writer_close_def)
next
  case False
  let ?a = "a\<lparr>aw_closed := True, aw_records := []\<rparr>"
  have "writer_ok ?a" using assms(1) by (simp add: writer_ok_def lru_ok_def files_wf_def)
  from drain_ok [OF this assms(2), of ul "aw_records a" w] obtain b u where
    b: "drain_records ul fuel (aw_records a) (?a, w) = Some (b, u)" "kept ?a b" by blast
  then have "writer_ok b" by (simp add: kept_def)
  from flushGaps_ok [OF this assms(2), of u] obtain c v where
    c: "flushGaps fuel (b, u) = Some (c, v)" "kept b c" "aw_dropped c = []" by blast
  then have okc: "writer_ok c" by (simp add: kept_def)
  then have "fine (stop_file fuel (aw_config c))" using assms(2) by (intro fine_stop) (simp_all add: writer_ok_def)
  from each_file_ok [OF this okc, of "map fst (aw_files c)" v] obtain d x where
    d: "each_file (stop_file fuel (aw_config c)) (map fst (aw_files c)) (c, v) = Some (d, x)" "writer_ok d" "same_files c d" by blast
  have "writer_close ul fuel (a, w) = Some (d\<lparr>aw_files := [], aw_order := []\<rparr>, x)"
    using False b(1) c(1) d(1) by (simp add: writer_close_def)
  moreover have "writer_ok (d\<lparr>aw_files := [], aw_order := []\<rparr>)"
    using d(2) by (auto simp: writer_ok_def lru_ok_def files_wf_def gm_keys_def)
  ultimately show ?thesis using False b(2) c(2,3) d(3) by (simp add: kept_def same_files_def)
qed


section \<open>Steps of the writer\<close>

text \<open>Goroutines of the data plane submit; the writer goroutine receives a record or does its periodic work;
  a reload or the end of the process closes.\<close>

inductive writer_step :: "(nat \<Rightarrow> nat) \<Rightarrow> nat \<Rightarrow> nat \<Rightarrow> wstate \<Rightarrow> wstate \<Rightarrow> bool"
  for ul rounds fuel where
  submits: "writer_step ul rounds fuel (a, w) (submit r a, w)"
| receives: "\<not> aw_closed a \<Longrightarrow> writer_receive ul fuel (a, w) = Some s \<Longrightarrow> writer_step ul rounds fuel (a, w) s"
| ticks: "\<not> aw_closed a \<Longrightarrow> writer_tick rounds fuel (a, w) = Some s \<Longrightarrow> writer_step ul rounds fuel (a, w) s"
| closes: "writer_close ul fuel (a, w) = Some s \<Longrightarrow> writer_step ul rounds fuel (a, w) s"

definition writer_inv :: "auditConfig \<Rightarrow> wstate \<Rightarrow> bool" where
  "writer_inv c s \<longleftrightarrow> writer_ok (fst s) \<and> aw_config (fst s) = c \<and>
    int (length (aw_records (fst s))) \<le> al_QueueSize (ac_options c)"

definition config_ok :: "auditConfig \<Rightarrow> bool" where
  "config_ok c \<longleftrightarrow> stamp_fits c \<and> 1 \<le> al_MaxOpenFiles (ac_options c) \<and> 1 \<le> al_QueueSize (ac_options c)"

lemma writer_ok_submit: "writer_ok a \<Longrightarrow> writer_ok (submit r a)"
  by (simp add: submit_def submit_queue_def writer_ok_def lru_ok_def files_wf_def)

lemma writer_tick_ok:
  assumes "writer_ok a" "2 \<le> fuel" "writer_tick rounds fuel (a, w) = Some (a', w')"
  shows "kept a a'"
proof -
  from flushGaps_ok [OF assms(1,2), of w] obtain b u where b: "flushGaps fuel (a, w) = Some (b, u)" "kept a b" by blast
  then have okb: "writer_ok b" by (simp add: kept_def)
  from flushAll_ok [OF okb, of u] obtain c v where c: "flushAll (b, u) = Some (c, v)" "kept b c" by blast
  then have okc: "writer_ok c" by (simp add: kept_def)
  from checkRotationAll_ok [OF okc assms(2), of v] obtain d x where
    d: "checkRotationAll fuel (c, v) = Some (d, x)" "kept c d" by blast
  then have okd: "writer_ok d" by (simp add: kept_def)
  have "enforceTotalCap rounds fuel (d, x) = Some (a', w')" using assms(3) b c d by (simp add: writer_tick_def)
  then have "kept d a'" using cap_loop_ok [OF okd assms(2)] okd by (auto simp: enforceTotalCap_def kept_refl split: if_splits)
  with b(2) c(2) d(2) show ?thesis using kept_trans by blast
qed

lemma writer_inv_step:
  assumes "2 \<le> fuel" "writer_step ul rounds fuel s s'" "writer_inv c s"
  shows "writer_inv c s'"
  using assms(2,3)
proof (cases rule: writer_step.cases)
  case (submits a w r)
  with assms(3) writer_ok_submit [of a r] show ?thesis
    by (auto simp: writer_inv_def submit_def submit_queue_def)
next
  case (receives a w)
  have ok: "writer_ok (a\<lparr>aw_records := tl (aw_records a)\<rparr>)"
    using assms(3) receives(1) by (auto simp: writer_inv_def writer_ok_def lru_ok_def files_wf_def)
  from receives(3) show ?thesis
  proof (cases "aw_records a")
    case Nil
    with receives assms(3) show ?thesis by (simp add: writer_receive_def)
  next
    case (Cons r rs)
    with writeRecord_ok [OF ok assms(1), of ul r w] receives assms(3) show ?thesis
      by (auto simp: writer_receive_def writer_inv_def kept_def)
  qed
next
  case (ticks a w)
  obtain b u where "s' = (b, u)" by fastforce
  with writer_tick_ok [of a fuel rounds w b u] ticks assms show ?thesis
    by (auto simp: writer_inv_def kept_def)
next
  case (closes a w)
  with writer_close_ok [of a fuel ul w] assms show ?thesis
    by (cases "aw_closed a") (auto simp: writer_inv_def)
qed

interpretation writer: invariant_machine
  "\<lambda>s. config_ok c \<and> (\<exists>w :: world. s = (new_writer c, w))" "writer_step ul rounds (Suc (Suc n))" "writer_inv c"
  for c ul rounds n
proof
  fix s assume "config_ok c \<and> (\<exists>w :: world. s = (new_writer c, w))"
  then show "writer_inv c s"
    by (auto simp: writer_inv_def writer_ok_def lru_ok_def files_wf_def new_writer_def config_ok_def gm_keys_def)
next
  fix s t assume "writer_inv c s" "writer_step ul rounds (Suc (Suc n)) s t"
  then show "writer_inv c t" using writer_inv_step [of "Suc (Suc n)"] by simp
qed

section \<open>Properties\<close>


lemma demo_config_ok: "config_ok demo_config"
  by (simp add: config_ok_def demo_config_def stamp_fits_def empty_filter_def in_i64_def)


text \<open>A submission leaves a trace: a record worth recording (bytes in both directions for TCP, sent bytes
  for UDP, not a carrier address) is queued, or counted as dropped for its own identity, or, after
  shutdown, raises the sticky signal; other records change nothing.\<close>

theorem submit_leaves_trace:
  "(worth_recording r \<and> \<not> aw_closed a \<longrightarrow>
      (if int (length (aw_records a)) < al_QueueSize (ac_options (aw_config a))
       then submit r a = a\<lparr>aw_records := aw_records a @ [r]\<rparr>
       else aw_records (submit r a) = aw_records a \<and>
         (\<forall>u. gm_get (aw_dropped (submit r a)) u =
           (if u = ar_user r then Some ((case gm_get (aw_dropped a) u of None \<Rightarrow> 0 | Some n \<Rightarrow> n) + 1)
            else gm_get (aw_dropped a) u)))) \<and>
   (worth_recording r \<and> aw_closed a \<longrightarrow> aw_notified (submit r a)) \<and>
   (\<not> worth_recording r \<longrightarrow> submit r a = a) \<and>
   (worth_recording r \<longrightarrow> ar_up r > 0 \<and> (ar_network r = ''tcp'' \<longrightarrow> ar_down r > 0))"
  by (auto simp: submit_def submit_queue_def count_dropped_def go_map worth_recording_def split: if_splits)

theorem submit_leaves_trace_witness:
  "aw_records (submit demo_record (new_writer demo_config)) = [demo_record]"
proof -
  have "worth_recording demo_record" by (simp add: worth_recording_def demo_record_def auditSentinelHosts_def)
  then show ?thesis
    using submit_leaves_trace [of demo_record "new_writer demo_config"] by (simp add: new_writer_def demo_config_def)
qed



end
