(* ===== verification/Tracker.thy ===== *)
theory Tracker
  imports Admission Audit_Safety "HOL-Library.Signed_Division"
begin

text \<open>
  \<^verbatim>\<open>sing-box-plus/internal/userstats/tracker.go\<close>: what happens to one connection. \<open>resolve\<close> finds its
  lineage and asks for admission; \<open>connState\<close> is the accounting context; the count callbacks bill each
  chunk and cut the connection off; \<open>finish\<close> settles it. The registry and the audit writers (by address)
  are the shared state. The clock readings are arguments, in the order in which the code takes them.
\<close>

section \<open>State\<close>

record shared =
  sh_registry :: Registry
  sh_writers :: "nat \<Rightarrow> auditWriter"

record connState =
  cs_inbound :: string
  cs_user :: string
  cs_network :: string
  cs_audit :: "nat option"
  cs_connUp :: i64
  cs_connDown :: i64
  cs_startNanos :: i64
  cs_host :: string
  cs_hostSource :: string
  cs_port :: u16
  cs_enforced :: bool
  cs_finished :: bool
  cs_cut :: bool

text \<open>\<open>cs_finished\<close> is the \<open>sync.Once\<close> of \<open>finish\<close>; \<open>cs_cut\<close> says that \<open>enforce\<close> closed the connection below.\<close>

datatype reject_reason = Anonymous | Unregistered string | QuotaDenied admitVerdict

datatype resolved = NotBilled | Rejected reject_reason | Admitted

datatype routed = Passed | ClosedConn | Tracked connState

section \<open>Resolving\<close>

definition on_registry :: "(Registry \<Rightarrow> Registry) \<Rightarrow> shared \<Rightarrow> shared" where
  "on_registry f s = s\<lparr>sh_registry := f (sh_registry s)\<rparr>"

definition count_throttled :: "Registry \<Rightarrow> Registry" where
  "count_throttled r = r\<lparr>reg_quota := (reg_quota r)\<lparr>qs_throttledConnCount := wrap64 (qs_throttledConnCount (reg_quota r) + 1)\<rparr>\<rparr>"

definition resolve :: "InboundContext \<Rightarrow> i64 \<Rightarrow> shared \<Rightarrow> resolved \<times> shared" where
  "resolve md nowNanos s =
    (case lookup (sh_registry s) (md_Inbound md) (md_User md) of
       (None, _) \<Rightarrow> (NotBilled, s)
     | (Some record, user) \<Rightarrow>
        if md_User md = [] then (Rejected Anonymous, s)
        else (case user of
          None \<Rightarrow> (Rejected (Unregistered (md_User md)), s)
        | Some user \<Rightarrow>
            let verdict = admit (sh_registry s) user nowNanos in
            if verdict \<noteq> admitAllow
            then (Rejected (QuotaDenied verdict),
              on_registry (count_throttled \<circ> noteDenied (md_Inbound md) (md_User md) nowNanos) s)
            else (Admitted, s)))"

definition newConnState :: "(nat \<Rightarrow> nat) \<Rightarrow> InboundContext \<Rightarrow> string \<Rightarrow> i64 \<Rightarrow> shared \<Rightarrow> connState" where
  "newConnState ul md network startNanos s =
    (let st = \<lparr>cs_inbound = md_Inbound md, cs_user = md_User md, cs_network = network, cs_audit = None,
           cs_connUp = 0, cs_connDown = 0, cs_startNanos = startNanos, cs_host = [], cs_hostSource = [],
           cs_port = 0, cs_enforced = False, cs_finished = False, cs_cut = False\<rparr>
     in case auditWriterRef (sh_registry s) of
       None \<Rightarrow> st
     | Some audit \<Rightarrow>
         (case auditHost md of (host, hostSource) \<Rightarrow>
            if excluded ul (sh_writers s audit) host hostSource (md_Port md) then st
            else st\<lparr>cs_audit := Some audit, cs_host := host, cs_hostSource := hostSource, cs_port := md_Port md\<rparr>))"

definition add_session :: "string \<Rightarrow> int \<Rightarrow> inboundRecord \<Rightarrow> inboundRecord" where
  "add_session network d record =
    (if network = ''tcp'' then record\<lparr>inb_tcpSessions := wrap64 (inb_tcpSessions record + d)\<rparr>
     else record\<lparr>inb_udpSessions := wrap64 (inb_udpSessions record + d)\<rparr>)"

definition RoutedConnection :: "(nat \<Rightarrow> nat) \<Rightarrow> InboundContext \<Rightarrow> i64 \<Rightarrow> i64 \<Rightarrow> shared \<Rightarrow> routed \<times> shared" where
  "RoutedConnection ul md nowNanos startNanos s =
    (case resolve md nowNanos s of
       (NotBilled, s) \<Rightarrow> (Passed, s)
     | (Rejected _, s) \<Rightarrow> (ClosedConn, s)
     | (Admitted, s) \<Rightarrow>
         let state = newConnState ul md ''tcp'' startNanos s in
         (Tracked state, on_registry (update_inbound (md_Inbound md) (add_session ''tcp'' 1)) s))"

definition RoutedPacketConnection :: "(nat \<Rightarrow> nat) \<Rightarrow> InboundContext \<Rightarrow> i64 \<Rightarrow> i64 \<Rightarrow> shared \<Rightarrow> routed \<times> shared" where
  "RoutedPacketConnection ul md nowNanos startNanos s =
    (case resolve md nowNanos s of
       (NotBilled, s) \<Rightarrow> (Passed, s)
     | (Rejected _, s) \<Rightarrow> (ClosedConn, s)
     | (Admitted, s) \<Rightarrow>
         let state = newConnState ul md ''udp'' startNanos s in
         (Tracked state, on_registry (update_inbound (md_Inbound md) (add_session ''udp'' 1)) s))"

section \<open>Counting\<close>

text \<open>One counter of a user record is reached by its selector and its update.\<close>

definition count_user :: "bool \<Rightarrow> string \<Rightarrow> u64 \<Rightarrow> userRecord \<Rightarrow> bool \<times> userRecord" where
  "count_user up network n user =
    (if up then
       (if network = ''tcp''
        then (case sat_add (usr_tcpUplink user) n of (v, truncated) \<Rightarrow> (truncated, user\<lparr>usr_tcpUplink := v\<rparr>))
        else (case sat_add (usr_udpUplink user) n of (v, truncated) \<Rightarrow> (truncated, user\<lparr>usr_udpUplink := v\<rparr>)))
     else
       (if network = ''tcp''
        then (case sat_add (usr_tcpDownlink user) n of (v, truncated) \<Rightarrow> (truncated, user\<lparr>usr_tcpDownlink := v\<rparr>))
        else (case sat_add (usr_udpDownlink user) n of (v, truncated) \<Rightarrow> (truncated, user\<lparr>usr_udpDownlink := v\<rparr>))))"

definition enforce :: "i64 \<Rightarrow> connState \<times> shared \<Rightarrow> connState \<times> shared" where
  "enforce nowNanos = (\<lambda>(c, s).
    if cs_enforced c then (c, s)
    else (c\<lparr>cs_enforced := True, cs_cut := True\<rparr>, on_registry (noteDenied (cs_inbound c) (cs_user c) nowNanos) s))"

definition count_bytes :: "bool \<Rightarrow> i64 \<Rightarrow> i64 \<Rightarrow> connState \<times> shared \<Rightarrow> connState \<times> shared" where
  "count_bytes up n nowNanos = (\<lambda>(c, s).
    if n \<le> 0 then (c, s)
    else case lineage (sh_registry s) (cs_inbound c) (cs_user c) of
      None \<Rightarrow> (c, s)
    | Some user \<Rightarrow>
       let (truncated, user) = count_user up (cs_network c) (word_of_int n) user;
           s = on_registry (update_user (cs_inbound c) (cs_user c) (\<lambda>_. user)) s;
           s = (if truncated then on_registry markOverflow s else s);
           c = (if cs_audit c = None then c
                else if up then c\<lparr>cs_connUp := wrap64 (cs_connUp c + n)\<rparr>
                else c\<lparr>cs_connDown := wrap64 (cs_connDown c + n)\<rparr>);
           (used_up, cell) = consume (usr_quota user) n;
           s = on_registry (update_user (cs_inbound c) (cs_user c) (\<lambda>u. u\<lparr>usr_quota := cell\<rparr>)) s
       in if used_up then enforce nowNanos (c, s) else (c, s))"

definition countUplink :: "i64 \<Rightarrow> i64 \<Rightarrow> connState \<times> shared \<Rightarrow> connState \<times> shared" where
  "countUplink n nowNanos = count_bytes True n nowNanos"

definition countDownlink :: "i64 \<Rightarrow> i64 \<Rightarrow> connState \<times> shared \<Rightarrow> connState \<times> shared" where
  "countDownlink n nowNanos = count_bytes False n nowNanos"

section \<open>Finishing\<close>

definition conn_record :: "i64 \<Rightarrow> connState \<Rightarrow> auditRecord" where
  "conn_record nowNanos c = \<lparr>ar_user = cs_user c, ar_inboundTag = cs_inbound c, ar_network = cs_network c,
    ar_host = cs_host c, ar_hostSource = cs_hostSource c, ar_port = cs_port c, ar_up = cs_connUp c,
    ar_down = cs_connDown c, ar_durationMs = wrap64 (nowNanos - cs_startNanos c) sdiv 1000000\<rparr>"

text \<open>The writer's \<open>onDropped\<close> is the registry's \<open>noteAuditDropped\<close>: a submission that finds the writer
  closed raises the registry's sticky bit.\<close>

definition deliver :: "nat \<Rightarrow> auditRecord \<Rightarrow> shared \<Rightarrow> shared" where
  "deliver audit r s =
    (let a = submit r (sh_writers s audit); s = s\<lparr>sh_writers := (sh_writers s)(audit := a)\<rparr>
     in if aw_notified a then on_registry noteAuditDropped s else s)"

definition finish :: "i64 \<Rightarrow> connState \<times> shared \<Rightarrow> connState \<times> shared" where
  "finish nowNanos = (\<lambda>(c, s).
    if cs_finished c then (c, s)
    else let c = c\<lparr>cs_finished := True\<rparr>;
             s = on_registry (update_inbound (cs_inbound c) (add_session (cs_network c) (- 1))) s
      in case cs_audit c of
           None \<Rightarrow> (c, s)
         | Some audit \<Rightarrow> (c, deliver audit (conn_record nowNanos c) s))"

text \<open>The wrappers: closing finishes first and then closes the connection below, whose answer is the result.\<close>

definition trackedConn_Close :: "i64 \<Rightarrow> 'e \<Rightarrow> connState \<times> shared \<Rightarrow> 'e \<times> connState \<times> shared" where
  "trackedConn_Close nowNanos inner_err cs = (inner_err, finish nowNanos cs)"

definition trackedPacketConn_Close :: "i64 \<Rightarrow> 'e \<Rightarrow> connState \<times> shared \<Rightarrow> 'e \<times> connState \<times> shared" where
  "trackedPacketConn_Close nowNanos inner_err cs = (inner_err, finish nowNanos cs)"

text \<open>What a refused connection answers to each call of the copy loop.\<close>

datatype conn_call = CallRead | CallWrite string | CallClose | CallAddr | CallDeadline

datatype conn_answer = Moved nat | ErrClosed | Fine | Addr string

fun closedConn :: "conn_call \<Rightarrow> conn_answer" where
  "closedConn CallRead = ErrClosed"
| "closedConn (CallWrite b) = ErrClosed"
| "closedConn CallClose = Fine"
| "closedConn CallAddr = Addr ''closed''"
| "closedConn CallDeadline = Fine"

fun rejectedPacketConn :: "conn_answer \<Rightarrow> conn_call \<Rightarrow> conn_answer" where
  "rejectedPacketConn err CallRead = err"
| "rejectedPacketConn err (CallWrite b) = err"
| "rejectedPacketConn err CallClose = Fine"
| "rejectedPacketConn err CallAddr = Addr ''closed''"
| "rejectedPacketConn err CallDeadline = Fine"

end
