(* ===== verification/Billing.thy ===== *)
theory Billing
  imports Tracker
begin

text \<open>
  What the tracker promises: resolution fails closed, every byte is billed once to the right counter, the
  session counters are exact in every interleaving (an interpretation of \<open>invariant_machine\<close>), the audit's
  exclusion rules do not reach billing, and one case in which a freed lineage is not admitted.
\<close>

section \<open>What the operations touch\<close>

definition sessions :: "Registry \<Rightarrow> string \<Rightarrow> (i64 \<times> i64) option" where
  "sessions r tag = map_option (\<lambda>rec. (inb_tcpSessions rec, inb_udpSessions rec)) (inbound r tag)"

lemma sessions_update_user [simp]: "sessions (update_user t n f r) = sessions r"
proof
  fix tag
  show "sessions (update_user t n f r) tag = sessions r tag"
  proof (cases "inbound r tag")
    case (Some rec)
    then show ?thesis by (cases "gm_get (inb_users rec) n") (auto simp: sessions_def inbound_update_user)
  qed (auto simp: sessions_def inbound_update_user)
qed

lemma sessions_noteDenied [simp]: "sessions (noteDenied t n now r) = sessions r"
  by (simp add: noteDenied_def Let_def)

lemma inbound_count_throttled [simp]: "inbound (count_throttled r) = inbound r"
  by (simp add: count_throttled_def inbound_def fun_eq_iff)

lemma lineage_count_throttled [simp]: "lineage (count_throttled r) = lineage r"
  by (simp add: lineage_inbound fun_eq_iff)

lemma inbound_markOverflow [simp]: "inbound (markOverflow r) = inbound r"
  by (simp add: markOverflow_def inbound_def fun_eq_iff)

lemma lineage_markOverflow [simp]: "lineage (markOverflow r) = lineage r"
  by (simp add: lineage_inbound fun_eq_iff)

lemma reg_noteDenied [simp]: "reg_quota (noteDenied t n now r) = reg_quota r"
  "reg_draining (noteDenied t n now r) = reg_draining r"
  by (simp_all add: noteDenied_def Let_def)

lemma lineage_noteDenied: "lineage (noteDenied t n now r) tag name =
    (if tag = t \<and> name = n \<and> qp_reconnectThrottle (qs_policy (reg_quota r)) > 0
     then map_option (update_quota (markThrottle (wrap64 (now + qp_reconnectThrottle (qs_policy (reg_quota r)))))) (lineage r tag name)
     else lineage r tag name)"
  by (simp add: noteDenied_def Let_def lineage_update_user)

text \<open>The four traffic counters of a user.\<close>

definition counters :: "userRecord \<Rightarrow> u64 \<times> u64 \<times> u64 \<times> u64" where
  "counters u = (usr_tcpUplink u, usr_tcpDownlink u, usr_udpUplink u, usr_udpDownlink u)"

definition billed :: "bool \<Rightarrow> string \<Rightarrow> userRecord \<Rightarrow> u64" where
  "billed up network u =
    (if network = ''tcp'' then (if up then usr_tcpUplink u else usr_tcpDownlink u)
     else (if up then usr_udpUplink u else usr_udpDownlink u))"

lemma counters_update_quota [simp]: "counters (update_quota f u) = counters u"
  by (simp add: counters_def update_quota_def)

lemma counters_noteDenied: "map_option counters (lineage (noteDenied t n now r) tag name) = map_option counters (lineage r tag name)"
  by (simp add: lineage_noteDenied option.map_comp o_def)

lemma overflow_update_user [simp]: "reg_counterOverflow (update_user t n f r) = reg_counterOverflow r"
  by (simp add: update_user_def update_inbound_def split: option.splits)

lemma overflow_noteDenied [simp]: "reg_counterOverflow (noteDenied t n now r) = reg_counterOverflow r"
  by (simp add: noteDenied_def Let_def)

lemma count_user_effect:
  assumes "count_user up network d u = (truncated, u')"
  shows "unat (billed up network u') = min (2 ^ 64 - 1) (unat (billed up network u) + unat d)"
    "truncated \<longleftrightarrow> unat (billed up network u) + unat d > 2 ^ 64 - 1"
    "\<And>up' network'. (up', network' = ''tcp'') \<noteq> (up, network = ''tcp'') \<Longrightarrow> billed up' network' u' = billed up' network' u"
    "usr_quota u' = usr_quota u"
  using assms sat_add_value sat_add_truncated
  by (auto simp: count_user_def billed_def split: if_splits prod.splits) (metis fst_conv snd_conv)+

lemma billed_quota [simp]: "billed up network (u\<lparr>usr_quota := q\<rparr>) = billed up network u"
  by (simp add: billed_def)

lemma billed_update_quota [simp]: "billed up network (update_quota f u) = billed up network u"
  by (simp add: update_quota_def)

text \<open>The callback without its \<open>let\<close>s.\<close>

definition billed_registry :: "bool \<Rightarrow> userRecord \<Rightarrow> quotaCell \<Rightarrow> string \<Rightarrow> string \<Rightarrow> Registry \<Rightarrow> Registry" where
  "billed_registry truncated u1 cell tag name r =
    update_user tag name (\<lambda>u. u\<lparr>usr_quota := cell\<rparr>)
      ((if truncated then markOverflow else id) (update_user tag name (\<lambda>_. u1) r))"

lemma count_bytes_eq:
  assumes "lineage (sh_registry s) (cs_inbound c) (cs_user c) = Some u" "0 < n"
    "count_user up (cs_network c) (word_of_int n) u = (truncated, u1)"
    "consume (usr_quota u) n = (used_up, cell)"
  shows "\<exists>c1. (c1 = c \<or> (\<exists>x. c1 = c\<lparr>cs_connUp := x\<rparr>) \<or> (\<exists>x. c1 = c\<lparr>cs_connDown := x\<rparr>)) \<and>
    count_bytes up n now (c, s) =
      (let s1 = on_registry (billed_registry truncated u1 cell (cs_inbound c) (cs_user c)) s in
       if used_up then enforce now (c1, s1) else (c1, s1))"
proof -
  have q: "usr_quota u1 = usr_quota u" using count_user_effect(4) [OF assms(3)] .
  let ?c1 = "if cs_audit c = None then c else if up then c\<lparr>cs_connUp := wrap64 (cs_connUp c + n)\<rparr>
    else c\<lparr>cs_connDown := wrap64 (cs_connDown c + n)\<rparr>"
  show ?thesis
    by (intro exI [of _ ?c1]) (use assms q in \<open>auto simp: count_bytes_def billed_registry_def on_registry_def Let_def\<close>)
qed

lemma lineage_billed:
  assumes "lineage r tag name = Some u"
  shows "lineage (billed_registry t u1 cell tag name r) tag' name' =
    (if tag' = tag \<and> name' = name then Some (u1\<lparr>usr_quota := cell\<rparr>) else lineage r tag' name')"
  using assms by (auto simp: billed_registry_def lineage_update_user)

lemma overflow_billed: "reg_counterOverflow (billed_registry t u1 cell tag name r) = (reg_counterOverflow r \<or> t)"
  by (simp add: billed_registry_def markOverflow_def)

section \<open>Properties\<close>

text \<open>Resolution fails closed: a connection is admitted exactly when its inbound is billed, it names a
  user that is registered there, and admission allows it; it is passed through unbilled exactly when the
  inbound is not billed at all. No refusal touches a traffic counter, and only a quota refusal changes
  anything.\<close>

theorem resolve_fails_closed:
  "(case resolve md now s of (res, s') \<Rightarrow>
     (res = Admitted \<longleftrightarrow> md_User md \<noteq> [] \<and> (\<exists>u. lineage (sh_registry s) (md_Inbound md) (md_User md) = Some u \<and>
        admit (sh_registry s) u now = admitAllow)) \<and>
     (res = NotBilled \<longleftrightarrow> inbound (sh_registry s) (md_Inbound md) = None) \<and>
     ((\<forall>v. res \<noteq> Rejected (QuotaDenied v)) \<longrightarrow> s' = s) \<and>
     map_option counters (lineage (sh_registry s') tag name) = map_option counters (lineage (sh_registry s) tag name))"
proof -
  obtain rec user where lk: "lookup (sh_registry s) (md_Inbound md) (md_User md) = (rec, user)" by fastforce
  then have eq: "rec = inbound (sh_registry s) (md_Inbound md)"
    "lineage (sh_registry s) (md_Inbound md) (md_User md) = user" and none: "rec = None \<Longrightarrow> user = None"
    by (auto simp: lookup_def inbound_def lineage_def split: option.splits)
  show ?thesis
    using lk eq none
    by (auto simp: resolve_def Let_def on_registry_def counters_noteDenied split: option.splits)
qed

text \<open>C1. Billing: a callback of \<open>n > 0\<close> bytes adds them, saturating, to the one counter of its direction and
  network in its own lineage and to no other counter of any lineage; the sticky overflow bit rises exactly
  when bytes were cut off by saturation; and the connection is cut by this callback exactly when it used the
  budget up and was not enforced before.\<close>

theorem count_bytes_bills:
  assumes "lineage (sh_registry s) (cs_inbound c) (cs_user c) = Some u" and "0 < n" and "in_i64 n"
    and "count_bytes up n now (c, s) = (c', s')"
  shows "(\<exists>u'. lineage (sh_registry s') (cs_inbound c) (cs_user c) = Some u' \<and>
      unat (billed up (cs_network c) u') = min (2 ^ 64 - 1) (unat (billed up (cs_network c) u) + nat n) \<and>
      (\<forall>up' network. (up', network = ''tcp'') \<noteq> (up, cs_network c = ''tcp'') \<longrightarrow> billed up' network u' = billed up' network u)) \<and>
    (\<forall>tag name. (tag, name) \<noteq> (cs_inbound c, cs_user c) \<longrightarrow>
      lineage (sh_registry s') tag name = lineage (sh_registry s) tag name) \<and>
    (reg_counterOverflow (sh_registry s') \<longleftrightarrow> reg_counterOverflow (sh_registry s) \<or>
      unat (billed up (cs_network c) u) + nat n > 2 ^ 64 - 1) \<and>
    (cs_enforced c' \<longleftrightarrow> cs_enforced c \<or> fst (consume (usr_quota u) n)) \<and>
    (cs_cut c' \<longleftrightarrow> cs_cut c \<or> \<not> cs_enforced c \<and> fst (consume (usr_quota u) n))"
proof -
  obtain truncated u1 where cu: "count_user up (cs_network c) (word_of_int n) u = (truncated, u1)" by fastforce
  obtain used cell where co: "consume (usr_quota u) n = (used, cell)" by fastforce
  have n: "unat (word_of_int n :: u64) = nat n"
    using assms(2,3) by (simp add: unat_eq_nat_uint uint_word_of_int_eq take_bit_int_eq_self in_i64_def)
  note eff = count_user_effect [OF cu, unfolded n]
  from count_bytes_eq [OF assms(1,2) cu co] obtain c1 where
    c1: "c1 = c \<or> (\<exists>x. c1 = c\<lparr>cs_connUp := x\<rparr>) \<or> (\<exists>x. c1 = c\<lparr>cs_connDown := x\<rparr>)"
    "(c', s') = (let s1 = on_registry (billed_registry truncated u1 cell (cs_inbound c) (cs_user c)) s in
       if used then enforce now (c1, s1) else (c1, s1))"
    using assms(4) by metis
  have same: "cs_enforced c1 = cs_enforced c" "cs_cut c1 = cs_cut c" "cs_inbound c1 = cs_inbound c" "cs_user c1 = cs_user c"
    using c1(1) by auto
  note lin = lineage_billed [OF assms(1), of truncated u1 cell]
  define r1 where "r1 = billed_registry truncated u1 cell (cs_inbound c) (cs_user c) (sh_registry s)"
  have r1: "lineage r1 (cs_inbound c) (cs_user c) = Some (u1\<lparr>usr_quota := cell\<rparr>)"
    "\<forall>tag name. (tag, name) \<noteq> (cs_inbound c, cs_user c) \<longrightarrow> lineage r1 tag name = lineage (sh_registry s) tag name"
    "reg_counterOverflow r1 = (reg_counterOverflow (sh_registry s) \<or> truncated)"
    by (auto simp: r1_def lin overflow_billed)
  have res: "sh_registry s' = (if used \<and> \<not> cs_enforced c then noteDenied (cs_inbound c) (cs_user c) now r1 else r1)"
    "cs_enforced c' = (cs_enforced c \<or> used)" "cs_cut c' = (cs_cut c \<or> \<not> cs_enforced c \<and> used)"
    using c1(2) same by (auto simp: enforce_def on_registry_def Let_def r1_def split: if_splits)
  have u': "\<exists>u'. lineage (sh_registry s') (cs_inbound c) (cs_user c) = Some u' \<and> (\<forall>up network. billed up network u' = billed up network u1)"
    using r1(1) by (auto simp: res(1) lineage_noteDenied)
  have others: "\<forall>tag name. (tag, name) \<noteq> (cs_inbound c, cs_user c) \<longrightarrow> lineage (sh_registry s') tag name = lineage (sh_registry s) tag name"
    using r1(2) by (auto simp: res(1) lineage_noteDenied)
  have over: "reg_counterOverflow (sh_registry s') = (reg_counterOverflow (sh_registry s) \<or> truncated)"
    using r1(3) by (simp add: res(1))
  from u' obtain u' where u'1: "lineage (sh_registry s') (cs_inbound c) (cs_user c) = Some u'"
      "\<And>up network. billed up network u' = billed up network u1" by blast
  have "unat (billed up (cs_network c) u') = min (2 ^ 64 - 1) (unat (billed up (cs_network c) u) + nat n) \<and>
      (\<forall>up' network. (up', network = ''tcp'') \<noteq> (up, cs_network c = ''tcp'') \<longrightarrow> billed up' network u' = billed up' network u)"
    using eff(1,3) by (simp add: u'1(2))
  with u'1(1) others over eff(2) res(2,3) co show ?thesis by auto
qed


lemma demo_lineage: "\<exists>u. lineage (sh_registry \<lparr>sh_registry = demo_registry, sh_writers = ws\<rparr>) ''ss-in'' ''alice'' = Some u \<and>
    usr_tcpUplink u = 0"
  using demo_alice by auto

theorem count_bytes_bills_witness:
  "\<exists>c s c' s' u'. count_bytes True 7 0 (c, s) = (c', s') \<and> lineage (sh_registry s') ''ss-in'' ''alice'' = Some u' \<and>
    usr_tcpUplink u' = 7"
proof -
  obtain u where u: "lineage (sh_registry \<lparr>sh_registry = demo_registry, sh_writers = undefined\<rparr>) ''ss-in'' ''alice'' = Some u"
      "usr_tcpUplink u = 0" using demo_lineage by blast
  define s where "s = \<lparr>sh_registry = demo_registry, sh_writers = undefined\<rparr>"
  define c where "c = \<lparr>cs_inbound = ''ss-in'', cs_user = ''alice'', cs_network = ''tcp'', cs_audit = None, cs_connUp = 0,
    cs_connDown = 0, cs_startNanos = 0, cs_host = [], cs_hostSource = [], cs_port = 0, cs_enforced = False,
    cs_finished = False, cs_cut = False\<rparr>"
  have u': "lineage (sh_registry s) (cs_inbound c) (cs_user c) = Some u" using u by (simp add: s_def c_def)
  obtain c' s' where run: "count_bytes True 7 0 (c, s) = (c', s')" by fastforce
  from count_bytes_bills [OF u' _ _ run] u(2) obtain w where
    "lineage (sh_registry s') ''ss-in'' ''alice'' = Some w" "unat (usr_tcpUplink w) = 7"
    by (auto simp: in_i64_def c_def billed_def)
  moreover from this(2) have "usr_tcpUplink w = 7" by (simp add: word_unat_eq_iff)
  ultimately show ?thesis using run by blast
qed

section \<open>Sessions\<close>

text \<open>
  The connections of the process, in the order in which they were accepted, and the shared state. Steps of
  the data plane are the entry points of the tracker; steps of the control plane are a reload, a quota
  table, a snapshot and the coming and going of an audit writer.
\<close>

type_synonym system = "connState list \<times> shared"

inductive session_step :: "(nat \<Rightarrow> nat) \<Rightarrow> system \<Rightarrow> system \<Rightarrow> bool" for ul where
  tcp: "RoutedConnection ul md now start s = (Tracked c, s') \<Longrightarrow> session_step ul (conns, s) (conns @ [c], s')"
| udp: "RoutedPacketConnection ul md now start s = (Tracked c, s') \<Longrightarrow> session_step ul (conns, s) (conns @ [c], s')"
| refused: "resolve md now s = (res, s') \<Longrightarrow> res \<noteq> Admitted \<Longrightarrow> session_step ul (conns, s) (conns, s')"
| bytes: "i < length conns \<Longrightarrow> count_bytes up n now (conns ! i, s) = (c, s') \<Longrightarrow>
    session_step ul (conns, s) (conns[i := c], s')"
| close: "i < length conns \<Longrightarrow> finish now (conns ! i, s) = (c, s') \<Longrightarrow>
    session_step ul (conns, s) (conns[i := c], s')"
| reload: "session_step ul (conns, s) (conns, on_registry (\<lambda>r. snd (Reconcile specs False r)) s)"
| tables: "session_step ul (conns, s) (conns, on_registry (\<lambda>r. snd (ApplyQuotaTable now ms epoch es r)) s)"
| snapshot: "session_step ul (conns, s) (conns, on_registry (\<lambda>r. snd (Snapshot dw r)) s)"
| audit: "session_step ul (conns, s) (conns, on_registry (setAudit w) s\<lparr>sh_writers := ws\<rparr>)"

definition open_on :: "string \<Rightarrow> bool \<Rightarrow> connState \<Rightarrow> bool" where
  "open_on tag tcp c \<longleftrightarrow> cs_inbound c = tag \<and> (cs_network c = ''tcp'') = tcp \<and> \<not> cs_finished c"

definition open_count :: "string \<Rightarrow> bool \<Rightarrow> connState list \<Rightarrow> int" where
  "open_count tag tcp conns = int (length (filter (open_on tag tcp) conns))"

definition balanced :: "system \<Rightarrow> bool" where
  "balanced = (\<lambda>(conns, s).
    wf_registry (sh_registry s) \<and>
    (\<forall>tag t u. sessions (sh_registry s) tag = Some (t, u) \<longrightarrow>
      t = wrap64 (open_count tag True conns) \<and> u = wrap64 (open_count tag False conns)) \<and>
    (\<forall>c\<in>set conns. sessions (sh_registry s) (cs_inbound c) \<noteq> None))"

lemma sessions_inbounds: "reg_inbounds r' = reg_inbounds r \<Longrightarrow> sessions r' = sessions r"
  by (simp add: sessions_def inbound_def fun_eq_iff)

lemma wf_inbounds_only: "reg_inbounds r' = reg_inbounds r \<Longrightarrow> wf_registry r' = wf_registry r"
  by (simp add: wf_registry_def)

text \<open>A step of the registry that keeps well-formedness and the session counters.\<close>

definition calm :: "Registry \<Rightarrow> Registry \<Rightarrow> bool" where
  "calm r r' \<longleftrightarrow> sessions r' = sessions r \<and> (wf_registry r \<longrightarrow> wf_registry r')"

lemma calm_refl [simp]: "calm r r"
  by (simp add: calm_def)

lemma calm_trans: "calm r s \<Longrightarrow> calm s t \<Longrightarrow> calm r t"
  by (simp add: calm_def)

lemma calm_inbounds: "reg_inbounds r' = reg_inbounds r \<Longrightarrow> calm r r'"
  unfolding calm_def using sessions_inbounds wf_inbounds_only by blast

lemma calm_quota: "calm r (update_user t n (update_quota f) r)"
proof -
  have "wf_registry r \<Longrightarrow> wf_registry (update_user t n (update_quota f) r)"
    by (erule wf_update_user) (simp_all add: update_quota_def)
  then show ?thesis unfolding calm_def by (simp only: sessions_update_user) blast
qed

lemma calm_noteDenied: "calm r (noteDenied t n now r)"
  by (simp add: noteDenied_def Let_def calm_quota)

lemma calm_throttled: "calm r (count_throttled (noteDenied t n now r))"
  by (rule calm_trans [OF calm_noteDenied calm_inbounds]) (simp add: count_throttled_def)

lemma resolve_state:
  "resolve md now s = (res, s') \<Longrightarrow> s' = s \<or> s' = on_registry (count_throttled \<circ> noteDenied (md_Inbound md) (md_User md) now) s"
  by (auto simp: resolve_def Let_def split: prod.splits option.splits if_splits)

lemma calm_resolve: "resolve md now s = (res, s') \<Longrightarrow> calm (sh_registry s) (sh_registry s')"
  using resolve_state [of md now s res s'] calm_throttled by (auto simp: on_registry_def)

lemma calm_tables: "calm r (snd (ApplyQuotaTable now ms epoch es r))"
proof -
  have free: "calm r (free_unlisted es r)" for es
    unfolding free_unlisted_def
    by (rule users.changes_kept [where P = "calm r" and Q = "\<lambda>f. \<exists>g. f = update_quota g"])
      (auto intro: calm_trans calm_quota)
  have lim: "calm q (limit_listed es q)" for es q
    unfolding limit_listed_def
    using users.changes_kept [where P = "calm q" and Q = "\<lambda>f. \<exists>g. f = update_quota g" and key = entry_key and s = q and xs = es
        and f = "\<lambda>e. update_quota (\<lambda>c. markThrottle 0 (setLimited (qe_RemainingBytes e) c))"]
    by (auto simp: entry_key_def intro: calm_trans calm_quota)
  obtain res r' where res: "ApplyQuotaTable now ms epoch es r = (res, r')" by fastforce
  show ?thesis
  proof (cases res)
    case (Inr n)
    note eq = ApplyQuotaTable_Inr(4) [OF res [unfolded Inr]]
    have "calm (limit_listed es (free_unlisted es r)) r'" unfolding eq by (rule calm_inbounds) simp
    with free lim show ?thesis unfolding res snd_conv by (blast intro: calm_trans)
  next
    case (Inl e)
    then show ?thesis using res by (auto simp: ApplyQuotaTable_def Let_def calm_inbounds split: if_splits prod.splits)
  qed
qed

lemma calm_snapshot: "calm r (snd (Snapshot dw r))"
  by (rule calm_inbounds) (auto simp: Snapshot_def Let_def auditDropped_def nextSequence_def split: prod.splits option.splits)

lemma wf_update_user_at:
  assumes "wf_registry r" and "\<And>u. lineage r tag name = Some u \<Longrightarrow> usr_name (f u) = usr_name u \<and> usr_generation (f u) = usr_generation u"
  shows "wf_registry (update_user tag name f r)"
proof (cases "gm_get (reg_inbounds r) tag")
  case None
  with assms(1) show ?thesis by (simp add: update_user_def update_inbound_def)
next
  case (Some rec)
  note rec = this
  show ?thesis
  proof (cases "gm_get (inb_users rec) name")
    case None
    with Some have "update_user tag name f r = r\<lparr>reg_inbounds := gm_put tag rec (reg_inbounds r)\<rparr>"
      by (simp add: update_user_def update_inbound_def)
    with assms(1) Some show ?thesis
      by (auto simp: wf_registry_def wf_inbounds_get go_map go_wf)
  next
    case (Some u)
    with rec have "lineage r tag name = Some u" by (simp add: lineage_inbound inbound_def)
    with assms have f: "usr_name (f u) = name" "usr_generation (f u) = generationFixed"
      using rec Some by (auto simp: wf_registry_def wf_inbounds_get wf_users_get)
    from Some rec have "update_user tag name f r =
        r\<lparr>reg_inbounds := gm_put tag (rec\<lparr>inb_users := gm_put name (f u) (inb_users rec)\<rparr>) (reg_inbounds r)\<rparr>"
      by (simp add: update_user_def update_inbound_def)
    with assms(1) rec f show ?thesis
      by (auto simp: wf_registry_def wf_inbounds_get wf_users_get go_map go_wf)
  qed
qed

lemma calm_billed:
  assumes "lineage r t n = Some u" "usr_name u1 = usr_name u" "usr_generation u1 = usr_generation u"
  shows "calm r (billed_registry tr u1 cell t n r)"
proof -
  let ?r1 = "update_user t n (\<lambda>_. u1) r"
  have "calm r ?r1" using wf_update_user_at [of r t n "\<lambda>_. u1"] assms by (auto simp: calm_def)
  moreover have "calm ?r1 ((if tr then markOverflow else id) ?r1)"
    by (rule calm_inbounds) (simp add: markOverflow_def)
  moreover have "calm q (update_user t n (\<lambda>u. u\<lparr>usr_quota := cell\<rparr>) q)" for q
    by (simp add: calm_def wf_update_user)
  ultimately show ?thesis unfolding billed_registry_def by (blast intro: calm_trans)
qed

lemma count_user_names:
  "count_user up network d u = (t, u1) \<Longrightarrow> usr_name u1 = usr_name u \<and> usr_generation u1 = usr_generation u"
  by (auto simp: count_user_def split: if_splits prod.splits)

definition same_conn :: "connState \<Rightarrow> connState \<Rightarrow> bool" where
  "same_conn c c' \<longleftrightarrow> cs_inbound c' = cs_inbound c \<and> cs_network c' = cs_network c \<and> cs_finished c' = cs_finished c"

lemma count_bytes_calm:
  assumes "count_bytes up n now (c, s) = (c', s')"
  shows "same_conn c c' \<and> calm (sh_registry s) (sh_registry s')"
proof (cases "n \<le> 0 \<or> lineage (sh_registry s) (cs_inbound c) (cs_user c) = None")
  case True
  then have "count_bytes up n now (c, s) = (c, s)" by (cases "n \<le> 0") (auto simp: count_bytes_def)
  with assms show ?thesis by (simp add: same_conn_def)
next
  case False
  then obtain u where u: "lineage (sh_registry s) (cs_inbound c) (cs_user c) = Some u" and n: "0 < n" by auto
  obtain t u1 where cu: "count_user up (cs_network c) (word_of_int n) u = (t, u1)" by fastforce
  obtain used cell where co: "consume (usr_quota u) n = (used, cell)" by fastforce
  from count_bytes_eq [OF u n cu co, of now] obtain c1 where
    c1: "c1 = c \<or> (\<exists>x. c1 = c\<lparr>cs_connUp := x\<rparr>) \<or> (\<exists>x. c1 = c\<lparr>cs_connDown := x\<rparr>)"
    "(c', s') = (let s1 = on_registry (billed_registry t u1 cell (cs_inbound c) (cs_user c)) s in
       if used then enforce now (c1, s1) else (c1, s1))"
    using assms by metis
  have b: "calm (sh_registry s) (billed_registry t u1 cell (cs_inbound c) (cs_user c) (sh_registry s))"
    using calm_billed [OF u] count_user_names [OF cu] by blast
  have "same_conn c c1" using c1(1) by (auto simp: same_conn_def)
  then show ?thesis
    using c1(2) b calm_trans [OF b calm_noteDenied]
    by (auto simp: enforce_def on_registry_def Let_def same_conn_def split: if_splits)
qed

definition bump :: "string \<Rightarrow> int \<Rightarrow> i64 \<times> i64 \<Rightarrow> i64 \<times> i64" where
  "bump network d = (\<lambda>(a, b). if network = ''tcp'' then (wrap64 (a + d), b) else (a, wrap64 (b + d)))"

lemma sessions_add: "sessions (update_inbound tag (add_session network d) r) t =
    (if t = tag then map_option (bump network d) (sessions r t)
     else sessions r t)"
  by (cases "inbound r t") (auto simp: sessions_def inbound_update_inbound add_session_def bump_def)

lemma wf_add_session: "wf_registry r \<Longrightarrow> wf_registry (update_inbound tag (add_session network d) r)"
  by (auto simp: update_inbound_def wf_registry_def wf_inbounds_get add_session_def go_map go_wf split: option.splits)

lemma reconcile_fold_new:
  assumes "\<And>rec. gm_get m tag = Some rec \<Longrightarrow> inb_tcpSessions rec = 0 \<and> inb_udpSessions rec = 0"
  shows "gm_get (fold (\<lambda>spec m. gm_put (is_Tag spec) (reconcileInbound spec (gm_get m (is_Tag spec))) m) specs m) tag = Some rec \<Longrightarrow>
    inb_tcpSessions rec = 0 \<and> inb_udpSessions rec = 0"
  using assms
proof (induction specs arbitrary: m)
  case (Cons spec specs)
  let ?m = "gm_put (is_Tag spec) (reconcileInbound spec (gm_get m (is_Tag spec))) m"
  have "inb_tcpSessions rec = 0 \<and> inb_udpSessions rec = 0" if "gm_get ?m tag = Some rec" for rec
    using that Cons.prems(2)
    by (auto simp: go_map reconcileInbound_def newInbound_def Let_def split: if_splits option.splits)
  with Cons.IH [of ?m] Cons.prems(1) show ?case by simp
qed simp

lemma sessions_Reconcile:
  "sessions (snd (Reconcile specs startup r)) tag =
    (case sessions r tag of Some x \<Rightarrow> Some x
     | None \<Rightarrow> (if gm_get (reconcileInbounds specs (reg_inbounds r)) tag = None then None else Some (0, 0)))"
proof (cases "gm_get (reg_inbounds r) tag")
  case (Some rec)
  from reconcileInbounds_keeps [OF this, of specs] Some show ?thesis
    by (auto simp: sessions_def inbound_def keeps_inbound_def)
next
  case None
  then have "inb_tcpSessions rec = 0 \<and> inb_udpSessions rec = 0"
    if "gm_get (reconcileInbounds specs (reg_inbounds r)) tag = Some rec" for rec
    using that reconcile_fold_new [of "reg_inbounds r" tag specs]
    by (auto simp: reconcileInbounds_def Let_def go_map deactivateInbound_def split: if_splits)
  with None show ?thesis by (auto simp: sessions_def inbound_def split: option.splits)
qed


lemma open_count_snoc: "open_count tag tcp (conns @ [c]) = open_count tag tcp conns + of_bool (open_on tag tcp c)"
  by (simp add: open_count_def)

lemma open_count_update:
  assumes "i < length conns"
  shows "open_count tag tcp (conns[i := c]) =
    open_count tag tcp conns - of_bool (open_on tag tcp (conns ! i)) + of_bool (open_on tag tcp c)"
proof -
  from assms have "conns = take i conns @ conns ! i # drop (Suc i) conns" by (rule id_take_nth_drop)
  then have "open_count tag tcp conns = open_count tag tcp (take i conns @ conns ! i # drop (Suc i) conns)" by simp
  moreover have "conns[i := c] = take i conns @ c # drop (Suc i) conns" using assms by (rule upd_conv_take_nth_drop)
  ultimately show ?thesis by (simp add: open_count_def)
qed

lemma balanced_calm:
  assumes "balanced (conns, s)" "calm (sh_registry s) (sh_registry s')"
  shows "balanced (conns, s')"
  using assms by (simp add: balanced_def calm_def)

lemma balanced_same_conn:
  assumes "balanced (conns, s)" "i < length conns" "same_conn (conns ! i) c"
  shows "balanced (conns[i := c], s)"
proof -
  have "open_on tag tcp c = open_on tag tcp (conns ! i)" for tag tcp
    using assms(3) by (simp add: open_on_def same_conn_def)
  then have "open_count tag tcp (conns[i := c]) = open_count tag tcp conns" for tag tcp
    by (simp add: open_count_update [OF assms(2)])
  moreover have "\<forall>d\<in>set (conns[i := c]). cs_inbound d \<in> cs_inbound ` set conns"
    using assms(2,3) set_update_subset_insert [of conns i c] by (auto simp: same_conn_def)
  ultimately show ?thesis
    using assms(1) by (force simp: balanced_def)
qed

text \<open>Opening and closing are one change of a session counter together with one change of the list.\<close>

lemma balanced_change:
  assumes "balanced (conns, s)" "sh_registry s' = update_inbound tag (add_session network d) (sh_registry s)"
    and "\<And>t tcp. open_count t tcp conns' = open_count t tcp conns + (if t = tag \<and> (network = ''tcp'') = tcp then d else 0)"
    and "\<forall>c\<in>set conns'. cs_inbound c \<in> insert tag (cs_inbound ` set conns)" "sessions (sh_registry s) tag \<noteq> None"
  shows "balanced (conns', s')"
proof -
  have "sessions (sh_registry s') t \<noteq> None \<longleftrightarrow> sessions (sh_registry s) t \<noteq> None" for t
    by (cases "sessions (sh_registry s) t") (auto simp: assms(2) sessions_add)
  note iff = this
  have old_ex: "sessions (sh_registry s) (cs_inbound d) \<noteq> None" if "d \<in> set conns" for d
    using assms(1) that by (simp add: balanced_def)
  have ex: "\<forall>c\<in>set conns'. sessions (sh_registry s') (cs_inbound c) \<noteq> None"
  proof
    fix c assume "c \<in> set conns'"
    with assms(4) have "cs_inbound c = tag \<or> (\<exists>d\<in>set conns. cs_inbound c = cs_inbound d)" by blast
    then show "sessions (sh_registry s') (cs_inbound c) \<noteq> None" using iff assms(5) old_ex by metis
  qed
  have "t = wrap64 (open_count k True conns') \<and> u = wrap64 (open_count k False conns')"
    if "sessions (sh_registry s') k = Some (t, u)" for k t u
  proof -
    from that obtain p where "sessions (sh_registry s) k = Some p" "(t, u) = (if k = tag then bump network d p else p)"
      by (cases "sessions (sh_registry s) k") (auto simp: assms(2) sessions_add split: if_splits)
    then obtain t0 u0 where old: "sessions (sh_registry s) k = Some (t0, u0)"
        "(t, u) = (if k = tag then (if network = ''tcp'' then (wrap64 (t0 + d), u0) else (t0, wrap64 (u0 + d))) else (t0, u0))"
      by (cases p) (simp add: bump_def)
    from assms(1) old(1) have "t0 = wrap64 (open_count k True conns)" "u0 = wrap64 (open_count k False conns)"
      by (auto simp: balanced_def)
    with old(2) show ?thesis by (auto simp: assms(3) wrap64_add split: if_splits)
  qed
  with ex assms(1,2) show ?thesis by (auto simp: balanced_def wf_add_session)
qed


lemma newConnState_sel [simp]:
  "cs_inbound (newConnState ul md network start s) = md_Inbound md"
  "cs_user (newConnState ul md network start s) = md_User md"
  "cs_network (newConnState ul md network start s) = network"
  "\<not> cs_finished (newConnState ul md network start s)"
  by (simp_all add: newConnState_def Let_def split: option.splits prod.splits)

lemma resolve_admitted:
  assumes "resolve md now s = (Admitted, s')"
  shows "s' = s" "sessions (sh_registry s) (md_Inbound md) \<noteq> None"
  using assms by (auto simp: resolve_def Let_def lookup_def sessions_def inbound_def split: prod.splits option.splits if_splits)

lemma balanced_open:
  assumes "balanced (conns, s)" "resolve md now s = (Admitted, s1)"
    and "s' = on_registry (update_inbound (md_Inbound md) (add_session network 1)) s1"
  shows "balanced (conns @ [newConnState ul md network start s1], s')"
proof (rule balanced_change [OF assms(1), where network = network and d = 1 and tag = "md_Inbound md"])
  note r = resolve_admitted [OF assms(2)]
  show "sh_registry s' = update_inbound (md_Inbound md) (add_session network 1) (sh_registry s)"
    using assms(3) r(1) by (simp add: on_registry_def)
  show "sessions (sh_registry s) (md_Inbound md) \<noteq> None" by (rule r(2))
qed (auto simp: open_count_snoc open_on_def)

lemma finish_open:
  assumes "finish now (c, s) = (c', s')" "\<not> cs_finished c"
  obtains s1 :: shared where "sh_registry s1 = update_inbound (cs_inbound c) (add_session (cs_network c) (- 1)) (sh_registry s)"
    "calm (sh_registry s1) (sh_registry s')" "c' = c\<lparr>cs_finished := True\<rparr>"
proof -
  let ?s1 = "on_registry (update_inbound (cs_inbound c) (add_session (cs_network c) (- 1))) s"
  have "calm r (noteAuditDropped r)" for r by (rule calm_inbounds) (simp add: noteAuditDropped_def)
  then have "calm (sh_registry ?s1) (sh_registry s')" "c' = c\<lparr>cs_finished := True\<rparr>"
    using assms by (auto simp: finish_def Let_def deliver_def on_registry_def split: option.splits if_splits)
  then show ?thesis by (intro that [of ?s1]) (simp_all add: on_registry_def)
qed

lemma balanced_close:
  assumes "balanced (conns, s)" "i < length conns" "finish now (conns ! i, s) = (c', s')"
  shows "balanced (conns[i := c'], s')"
proof (cases "cs_finished (conns ! i)")
  case True
  with assms(3) have "c' = conns ! i" "s' = s" by (auto simp: finish_def)
  with assms(1,2) show ?thesis by simp
next
  case False
  from finish_open [OF assms(3) False] obtain s1 where
    fin: "sh_registry (s1 :: shared) = update_inbound (cs_inbound (conns ! i)) (add_session (cs_network (conns ! i)) (- 1)) (sh_registry s)"
      "c' = (conns ! i)\<lparr>cs_finished := True\<rparr>" and rest: "calm (sh_registry s1) (sh_registry s')" by blast
  have mem: "conns ! i \<in> set conns" using assms(2) by simp
  have "balanced (conns[i := c'], s1)"
  proof (rule balanced_change [OF assms(1) fin(1)])
    show "open_count t tcp (conns[i := c']) = open_count t tcp conns +
        (if t = cs_inbound (conns ! i) \<and> (cs_network (conns ! i) = ''tcp'') = tcp then - 1 else 0)" for t tcp
      using False by (simp add: open_count_update [OF assms(2)] fin(2) open_on_def)
    show "sessions (sh_registry s) (cs_inbound (conns ! i)) \<noteq> None"
      using assms(1) mem by (simp add: balanced_def)
    show "\<forall>c\<in>set (conns[i := c']). cs_inbound c \<in> insert (cs_inbound (conns ! i)) (cs_inbound ` set conns)"
      using set_update_subset_insert [of conns i c'] mem by (auto simp: fin(2))
  qed
  then show ?thesis using rest by (rule balanced_calm)
qed

lemma sessions_none_count:
  assumes "balanced (conns, s)" "sessions (sh_registry s) tag = None"
  shows "open_count tag tcp conns = 0"
proof -
  have "filter (open_on tag tcp) conns = []"
    using assms by (auto simp: balanced_def filter_empty_conv open_on_def)
  then show ?thesis by (simp add: open_count_def)
qed

lemma balanced_reload:
  assumes "balanced (conns, s)"
  shows "balanced (conns, on_registry (\<lambda>r. snd (Reconcile specs False r)) s)"
proof -
  have "t = wrap64 (open_count k True conns) \<and> u = wrap64 (open_count k False conns)"
    if "sessions (snd (Reconcile specs False (sh_registry s))) k = Some (t, u)" for k t u
  proof (cases "sessions (sh_registry s) k")
    case (Some x)
    with that assms show ?thesis by (simp add: sessions_Reconcile balanced_def)
  next
    case None
    with that sessions_none_count [OF assms None] show ?thesis
      by (auto simp: sessions_Reconcile in_i64_def split: if_splits)
  qed
  moreover have "sessions (snd (Reconcile specs False (sh_registry s))) k \<noteq> None" if "sessions (sh_registry s) k \<noteq> None" for k
    using that by (auto simp: sessions_Reconcile)
  ultimately show ?thesis
    using assms by (auto simp: balanced_def on_registry_def wf_Reconcile)
qed

lemma balanced_step:
  assumes "balanced x" "session_step ul x y"
  shows "balanced y"
  using assms(2,1)
proof (cases rule: session_step.cases)
  case (tcp md now start s c s' conns)
  then obtain s1 where "resolve md now s = (Admitted, s1)" "c = newConnState ul md ''tcp'' start s1"
      "s' = on_registry (update_inbound (md_Inbound md) (add_session ''tcp'' 1)) s1"
    by (auto simp: RoutedConnection_def Let_def split: prod.splits resolved.splits)
  with tcp assms(1) show ?thesis using balanced_open by blast
next
  case (udp md now start s c s' conns)
  then obtain s1 where "resolve md now s = (Admitted, s1)" "c = newConnState ul md ''udp'' start s1"
      "s' = on_registry (update_inbound (md_Inbound md) (add_session ''udp'' 1)) s1"
    by (auto simp: RoutedPacketConnection_def Let_def split: prod.splits resolved.splits)
  with udp assms(1) show ?thesis using balanced_open by blast
next
  case (refused md now s res s' conns)
  with assms(1) show ?thesis using balanced_calm calm_resolve by blast
next
  case (bytes i conns up n now s c s')
  note k = count_bytes_calm [OF bytes(4)]
  show ?thesis unfolding bytes(2)
    using balanced_calm [OF balanced_same_conn [OF assms(1) [unfolded bytes(1)] bytes(3)]] k by blast
next
  case (close i conns now s c s')
  with assms(1) show ?thesis using balanced_close by blast
next
  case (reload conns s specs)
  with assms(1) show ?thesis using balanced_reload by blast
next
  case (tables conns s now ms epoch es)
  with assms(1) show ?thesis using balanced_calm [of conns s] calm_tables by (simp add: on_registry_def)
next
  case (snapshot conns s dw)
  with assms(1) show ?thesis using balanced_calm [of conns s] calm_snapshot by (simp add: on_registry_def)
next
  case (audit conns s ws w)
  have "calm r (setAudit w r)" for r by (rule calm_inbounds) (simp add: setAudit_def)
  with audit assms(1) show ?thesis using balanced_calm [of conns s] by (simp add: on_registry_def)
qed

definition fresh_system :: "system \<Rightarrow> bool" where
  "fresh_system = (\<lambda>(conns, s). conns = [] \<and> wf_registry (sh_registry s) \<and>
    (\<forall>tag. sessions (sh_registry s) tag \<in> {None, Some (0, 0)}))"

interpretation session: invariant_machine fresh_system "session_step ul" balanced for ul
proof
  fix x assume "fresh_system x"
  then obtain s where s: "x = ([], s)" "wf_registry (sh_registry s)" "\<forall>tag. sessions (sh_registry s) tag \<in> {None, Some (0, 0)}"
    by (auto simp: fresh_system_def)
  have "t = 0 \<and> u = 0" if "sessions (sh_registry s) tag = Some (t, u)" for tag t u
    using s(3) [rule_format, of tag] that by simp
  with s show "balanced x" by (auto simp: balanced_def open_count_def in_i64_def)
qed (rule balanced_step)

text \<open>With fewer than \<open>2^63\<close> connections nothing wraps, and the sum that \<open>WaitDrained\<close> polls is the number of
  connections that have not finished.\<close>

lemma ActiveSessions_sum:
  "ActiveSessions r = wrap64 (sum_list (map (\<lambda>rec. inb_tcpSessions rec + inb_udpSessions rec) (sortedInbounds r)))"
proof -
  have "fold (\<lambda>rec total. wrap64 (wrap64 (total + inb_tcpSessions rec) + inb_udpSessions rec)) recs (wrap64 t) =
      wrap64 (t + sum_list (map (\<lambda>rec. inb_tcpSessions rec + inb_udpSessions rec) recs))" for recs t
    by (induction recs arbitrary: t) (simp_all add: wrap64_add add.assoc)
  from this [of "sortedInbounds r" 0] show ?thesis by (simp add: ActiveSessions_def in_i64_def)
qed

definition unfinished :: "connState list \<Rightarrow> int" where
  "unfinished conns = int (length (filter (\<lambda>c. \<not> cs_finished c) conns))"

lemma open_count_le: "0 \<le> open_count tag tcp conns \<and> open_count tag tcp conns \<le> int (length conns)"
  by (simp add: open_count_def)

lemma sum_open_counts:
  assumes "distinct tags" "cs_inbound ` set conns \<subseteq> set tags"
  shows "(\<Sum>tag\<leftarrow>tags. open_count tag True conns + open_count tag False conns) = unfinished conns"
  using assms(2)
proof (induction conns)
  case Nil
  then show ?case by (simp add: open_count_def unfinished_def)
next
  case (Cons c conns)
  have one: "(\<Sum>tag\<leftarrow>tags. of_bool (open_on tag True c) + of_bool (open_on tag False c)) = (of_bool (\<not> cs_finished c) :: int)"
  proof -
    have "of_bool (open_on tag True c) + of_bool (open_on tag False c) =
        (if tag = cs_inbound c then of_bool (\<not> cs_finished c) else (0 :: int))" for tag
      by (auto simp: open_on_def)
    then show ?thesis
      using assms(1) Cons.prems by (simp add: sum_list_distinct_conv_sum_set)
  qed
  have "open_count tag tcp (c # conns) = open_count tag tcp conns + of_bool (open_on tag tcp c)" for tag tcp
    by (simp add: open_count_def)
  then have "(\<Sum>tag\<leftarrow>tags. open_count tag True (c # conns) + open_count tag False (c # conns)) =
      (\<Sum>tag\<leftarrow>tags. open_count tag True conns + open_count tag False conns) +
      (\<Sum>tag\<leftarrow>tags. of_bool (open_on tag True c) + of_bool (open_on tag False c))"
    by (simp add: sum_list_addf algebra_simps)
  with Cons one show ?case by (simp add: unfinished_def)
qed


lemma balanced_ActiveSessions:
  assumes "balanced (conns, s)" "int (length conns) < 2 ^ 63"
  shows "ActiveSessions (sh_registry s) = unfinished conns"
proof -
  let ?r = "sh_registry s"
  let ?recs = "sortedInbounds ?r"
  let ?tags = "map inb_tag ?recs"
  have wf: "wf_registry ?r" using assms(1) by (simp add: balanced_def)
  have small: "wrap64 (open_count t tcp conns) = open_count t tcp conns" for t tcp
    using open_count_le [of t tcp conns] assms(2) by (intro wrap64_id) (simp add: in_i64_def)
  have rec: "inb_tcpSessions rec + inb_udpSessions rec = open_count (inb_tag rec) True conns + open_count (inb_tag rec) False conns"
    if "rec \<in> set ?recs" for rec
  proof -
    have "sessions ?r (inb_tag rec) = Some (inb_tcpSessions rec, inb_udpSessions rec)"
      using that by (simp add: set_sortedInbounds [OF wf] sessions_def inbound_def)
    with assms(1) small show ?thesis by (simp add: balanced_def)
  qed
  have "distinct ?tags"
    using wf by (simp add: tags_sortedInbounds wf_registry_def wf_inbounds_def gm_wf_sorted gm_wf_def [symmetric])
  moreover have "cs_inbound ` set conns \<subseteq> set ?tags"
  proof
    fix tag assume "tag \<in> cs_inbound ` set conns"
    then have "sessions ?r tag \<noteq> None" using assms(1) by (auto simp: balanced_def)
    then obtain rec where "gm_get (reg_inbounds ?r) tag = Some rec" by (auto simp: sessions_def inbound_def)
    moreover from this wf have "inb_tag rec = tag" by (auto simp: wf_registry_def wf_inbounds_get)
    ultimately have "rec \<in> set ?recs" by (simp add: set_sortedInbounds [OF wf])
    with \<open>inb_tag rec = tag\<close> show "tag \<in> set ?tags" by force
  qed
  ultimately have "(\<Sum>rec\<leftarrow>?recs. inb_tcpSessions rec + inb_udpSessions rec) = unfinished conns"
    using sum_open_counts [of ?tags conns] rec by (simp add: comp_def cong: map_cong)
  moreover have "in_i64 (unfinished conns)"
    using le_less_trans [OF length_filter_le, of conns "2 ^ 63" "\<lambda>c. \<not> cs_finished c"] assms(2)
    by (simp add: unfinished_def in_i64_def)
  ultimately show ?thesis by (simp add: ActiveSessions_sum)
qed

text \<open>C4. The session counters are exact: whatever connections are accepted, refused, counted and closed
  (each any number of times), with reloads, quota tables, snapshots and audit writers coming and going in
  between, an inbound's counters are the numbers of its TCP and UDP connections that have not been closed,
  and the number that draining waits on is their total; it is zero exactly when all are closed.\<close>

theorem sessions_exact:
  assumes "fresh_system x" and "(session_step ul)\<^sup>*\<^sup>* x (conns, s)" and "int (length conns) < 2 ^ 63"
  shows "(\<forall>tag t u. sessions (sh_registry s) tag = Some (t, u) \<longrightarrow>
      t = open_count tag True conns \<and> u = open_count tag False conns) \<and>
    ActiveSessions (sh_registry s) = unfinished conns \<and>
    (ActiveSessions (sh_registry s) = 0 \<longleftrightarrow> (\<forall>c\<in>set conns. cs_finished c))"
proof -
  have bal: "balanced (conns, s)" using session.inv_reachable [OF assms(1,2)] .
  have "wrap64 (open_count t tcp conns) = open_count t tcp conns" for t tcp
    using open_count_le [of t tcp conns] assms(3) by (intro wrap64_id) (simp add: in_i64_def)
  moreover have "unfinished conns = 0 \<longleftrightarrow> (\<forall>c\<in>set conns. cs_finished c)"
    by (auto simp: unfinished_def filter_empty_conv)
  ultimately show ?thesis
    using bal balanced_ActiveSessions [OF bal assms(3)] by (simp add: balanced_def)
qed

definition demo_shared :: shared where
  "demo_shared = \<lparr>sh_registry = demo_registry, sh_writers = (\<lambda>_. new_writer demo_config)\<rparr>"

definition demo_md :: InboundContext where
  "demo_md = \<lparr>md_Inbound = ''ss-in'', md_User = ''alice'', md_Domain = ''a.b'', md_Fqdn = [], md_Addr = None, md_Port = 443\<rparr>"

lemma fresh_demo: "fresh_system ([], demo_shared)"
proof -
  have "sessions demo_registry tag \<in> {None, Some (0, 0)}" for tag
    unfolding demo_registry_def sessions_Reconcile
    by (simp add: NewValidationRegistry_def sessions_def inbound_def)
  then show ?thesis using wf_demo by (simp add: fresh_system_def demo_shared_def)
qed

theorem resolve_fails_closed_witness:
  "fst (resolve (demo_md\<lparr>md_Inbound := ''direct''\<rparr>) 5 demo_shared) = NotBilled \<and>
   fst (resolve (demo_md\<lparr>md_User := []\<rparr>) 5 demo_shared) \<noteq> Admitted"
proof -
  have "inbound demo_registry ''direct'' = None"
    by (simp add: inbound_def demo_registry_def Reconcile_def reconcileInbounds_def demo_specs_def
        NewValidationRegistry_def Let_def go_map)
  then show ?thesis
    using resolve_fails_closed [where md = "demo_md\<lparr>md_Inbound := ''direct''\<rparr>" and now = 5 and s = demo_shared]
      resolve_fails_closed [where md = "demo_md\<lparr>md_User := []\<rparr>" and now = 5 and s = demo_shared]
    by (simp add: demo_shared_def demo_md_def case_prod_beta)
qed

lemma demo_admitted: "resolve demo_md 5 demo_shared = (Admitted, demo_shared)"
proof -
  obtain u where u: "lineage demo_registry ''ss-in'' ''alice'' = Some u" using demo_alice by blast
  then obtain rec where "lookup demo_registry ''ss-in'' ''alice'' = (Some rec, Some u)"
    by (auto simp: lineage_def lookup_def split: option.splits)
  then show ?thesis
    by (simp add: resolve_def demo_md_def demo_shared_def Let_def admit_def quotaState_init_def disabled_policy_def)
qed

theorem sessions_exact_witness:
  "\<exists>conns s. (session_step id)\<^sup>*\<^sup>* ([], demo_shared) (conns, s) \<and> ActiveSessions (sh_registry s) = 1"
proof -
  obtain c s where cs: "RoutedConnection id demo_md 5 6 demo_shared = (Tracked c, s)" "\<not> cs_finished c"
    using demo_admitted by (simp add: RoutedConnection_def Let_def)
  then have run: "(session_step id)\<^sup>*\<^sup>* ([], demo_shared) ([c], s)"
    using session_step.tcp [of id demo_md 5 6 demo_shared c s "[]"] by auto
  from sessions_exact [OF fresh_demo run] cs(2) run show ?thesis by (auto simp: unfinished_def)
qed

text \<open>A connection's callbacks, one after the other.\<close>

definition run_callbacks :: "(bool \<times> i64 \<times> i64) list \<Rightarrow> connState \<times> shared \<Rightarrow> connState \<times> shared" where
  "run_callbacks calls = fold (\<lambda>(up, n, now). count_bytes up n now) calls"

definition unaudited :: "connState \<Rightarrow> connState" where
  "unaudited c = c\<lparr>cs_audit := None, cs_host := [], cs_hostSource := [], cs_port := 0, cs_connUp := 0, cs_connDown := 0\<rparr>"

lemma cut_unaudited [simp]: "cs_cut (unaudited c) = cs_cut c"
  by (simp add: unaudited_def)

lemma count_bytes_unaudited:
  "sh_registry (snd (count_bytes up n now (unaudited c, s))) = sh_registry (snd (count_bytes up n now (c, s))) \<and>
   sh_writers (snd (count_bytes up n now (c, s))) = sh_writers s \<and>
   sh_writers (snd (count_bytes up n now (unaudited c, s))) = sh_writers s \<and>
   fst (count_bytes up n now (unaudited c, s)) = unaudited (fst (count_bytes up n now (c, s)))"
proof (cases "n \<le> 0 \<or> lineage (sh_registry s) (cs_inbound c) (cs_user c) = None")
  case True
  then have "count_bytes up n now (c, s) = (c, s)" "count_bytes up n now (unaudited c, s) = (unaudited c, s)"
    by (cases "n \<le> 0"; simp add: count_bytes_def unaudited_def)+
  then show ?thesis by simp
next
  case False
  then obtain u where u: "lineage (sh_registry s) (cs_inbound c) (cs_user c) = Some u" and n: "\<not> n \<le> 0" by auto
  obtain t u1 where cu: "count_user up (cs_network c) (word_of_int n) u = (t, u1)" by fastforce
  obtain used cell where co: "consume (usr_quota u) n = (used, cell)" by fastforce
  have q: "usr_quota u1 = usr_quota u" using count_user_effect(4) [OF cu] .
  let ?s = "on_registry (billed_registry t u1 cell (cs_inbound c) (cs_user c)) s"
  let ?c = "if cs_audit c = None then c else if up then c\<lparr>cs_connUp := wrap64 (cs_connUp c + n)\<rparr>
    else c\<lparr>cs_connDown := wrap64 (cs_connDown c + n)\<rparr>"
  have a: "count_bytes up n now (c, s) = (if used then enforce now (?c, ?s) else (?c, ?s))"
    using n u cu co q by (cases t) (simp_all add: count_bytes_def billed_registry_def on_registry_def Let_def)
  have b: "count_bytes up n now (unaudited c, s) = (if used then enforce now (unaudited c, ?s) else (unaudited c, ?s))"
    using n u cu co q by (cases t) (simp_all add: count_bytes_def billed_registry_def on_registry_def unaudited_def Let_def)
  have c: "unaudited ?c = unaudited c" "cs_enforced ?c = cs_enforced c" "cs_inbound ?c = cs_inbound c" "cs_user ?c = cs_user c"
    by (simp_all add: unaudited_def)
  have d: "cs_enforced (unaudited c) = cs_enforced c" "cs_inbound (unaudited c) = cs_inbound c" "cs_user (unaudited c) = cs_user c"
      "unaudited (x\<lparr>cs_enforced := True, cs_cut := True\<rparr>) = (unaudited x)\<lparr>cs_enforced := True, cs_cut := True\<rparr>" for x
    by (simp_all add: unaudited_def)
  show ?thesis
    unfolding a b by (cases used; cases "cs_enforced c") (simp_all only: enforce_def prod.case c d if_True if_False fst_conv snd_conv, simp_all add: on_registry_def)
qed

text \<open>Exclusion from the audit does not touch billing: the callbacks of a connection that is not audited
  leave the same registry, cut the connection at the same point and touch no audit writer, compared with
  the same connection audited.\<close>

theorem billing_ignores_audit:
  "(case (run_callbacks calls (c, s), run_callbacks calls (unaudited c, s)) of ((c1, s1), (c2, s2)) \<Rightarrow>
     s1 = s2 \<and> c2 = unaudited c1 \<and> cs_cut c2 = cs_cut c1 \<and> sh_writers s1 = sh_writers s)"
proof (induction calls arbitrary: c s)
  case (Cons call calls)
  obtain up n now where call: "call = (up, n, now)" by (cases call)
  obtain c1 s1 where one: "count_bytes up n now (c, s) = (c1, s1)" by fastforce
  have two: "count_bytes up n now (unaudited c, s) = (unaudited c1, s1)" "sh_writers s1 = sh_writers s"
    using count_bytes_unaudited [of up n now c s] one
    by (cases "count_bytes up n now (unaudited c, s)"; simp)+
  show ?case using Cons.IH [where c = c1 and s = s1] one two
    by (auto simp: run_callbacks_def call split_beta)
qed (simp add: run_callbacks_def)


section \<open>Freed, but not admitted\<close>

text \<open>A client that keeps reconnecting: the monotonic times of its attempts.\<close>

fun retries :: "InboundContext \<Rightarrow> i64 list \<Rightarrow> shared \<Rightarrow> resolved list" where
  "retries md [] s = []"
| "retries md (t # ts) s = (case resolve md t s of (res, s') \<Rightarrow> res # retries md ts s')"

text \<open>Each attempt comes before the throttle that the one before it set has ended.\<close>

fun rapid :: "i64 \<Rightarrow> i64 \<Rightarrow> i64 list \<Rightarrow> bool" where
  "rapid throttle until [] = True"
| "rapid throttle until (t # ts) = (0 \<le> t \<and> t < until \<and> in_i64 (t + throttle) \<and> rapid throttle (t + throttle) ts)"

lemma throttled_forever:
  assumes "\<not> reg_draining (sh_registry s)" "qp_enabled (qs_policy (reg_quota (sh_registry s)))"
    and "qp_reconnectThrottle (qs_policy (reg_quota (sh_registry s))) = throttle" "0 < throttle"
    and "lineage (sh_registry s) (md_Inbound md) (md_User md) = Some u" "md_User md \<noteq> []"
    and "qc_state (usr_quota u) = quotaUnlimited" "qc_throttleUntilNanos (usr_quota u) = until"
    and "rapid throttle until ts"
  shows "retries md ts s = replicate (length ts) (Rejected (QuotaDenied admitDenyThrottled))"
  using assms
proof (induction ts arbitrary: s u until)
  case (Cons t ts)
  let ?r = "sh_registry s"
  let ?s = "on_registry (count_throttled \<circ> noteDenied (md_Inbound md) (md_User md) t) s"
  have t: "0 \<le> t" "t < until" "in_i64 (t + throttle)" "rapid throttle (t + throttle) ts"
    using Cons.prems(9) by auto
  have deny: "admit ?r u t = admitDenyThrottled"
    using Cons.prems t by (simp add: admit_def Let_def exhausted_def throttled_def)
  obtain rec where "lookup ?r (md_Inbound md) (md_User md) = (Some rec, Some u)"
    using Cons.prems(5) by (auto simp: lineage_def lookup_def split: option.splits)
  then have res: "resolve md t s = (Rejected (QuotaDenied admitDenyThrottled), ?s)"
    using Cons.prems(6) deny by (simp add: resolve_def Let_def)
  have u: "lineage (sh_registry ?s) (md_Inbound md) (md_User md) = Some (update_quota (markThrottle (t + throttle)) u)"
    using Cons.prems(3,4,5) t(3) by (simp add: on_registry_def lineage_noteDenied)
  have "retries md ts ?s = replicate (length ts) (Rejected (QuotaDenied admitDenyThrottled))"
  proof (rule Cons.IH [OF _ _ _ Cons.prems(4) u Cons.prems(6) _ _ t(4)])
    show "\<not> reg_draining (sh_registry ?s)" "qp_enabled (qs_policy (reg_quota (sh_registry ?s)))"
      "qp_reconnectThrottle (qs_policy (reg_quota (sh_registry ?s))) = throttle"
      using Cons.prems(1-3) by (simp_all add: on_registry_def count_throttled_def)
    show "qc_state (usr_quota (update_quota (markThrottle (t + throttle)) u)) = quotaUnlimited"
      "qc_throttleUntilNanos (usr_quota (update_quota (markThrottle (t + throttle)) u)) = t + throttle"
      using Cons.prems(7) by (simp_all add: update_quota_def markThrottle_def)
  qed
  with res show ?case by simp
qed simp

text \<open>C38. A lineage that a table frees by not listing it is not admitted while its client keeps retrying faster
  than the throttle: only listed lineages have their throttle cleared, and every refused attempt sets it
  anew, so however many attempts are made, none is admitted, although the lineage is unlimited.\<close>

theorem freed_lineage_stays_denied:
  assumes "wf_registry (sh_registry s)" and "\<not> reg_draining (sh_registry s)"
    and "ApplyQuotaTable now ms epoch es (sh_registry s) = (Inr n, r')"
    and "table_entry es (md_Inbound md, md_User md) = None" and "md_User md \<noteq> []"
    and "qp_enabled (qs_policy (reg_quota (sh_registry s)))"
    and "qp_reconnectThrottle (qs_policy (reg_quota (sh_registry s))) = throttle" and "0 < throttle"
    and "lineage (sh_registry s) (md_Inbound md) (md_User md) = Some u"
    and "rapid throttle (qc_throttleUntilNanos (usr_quota u)) ts"
  shows "retries md ts (s\<lparr>sh_registry := r'\<rparr>) = replicate (length ts) (Rejected (QuotaDenied admitDenyThrottled)) \<and>
    (\<exists>u'. lineage r' (md_Inbound md) (md_User md) = Some u' \<and> \<not> exhausted (usr_quota u'))"
proof -
  have u': "lineage r' (md_Inbound md) (md_User md) = Some (update_quota freed_cell u)"
    using lineage_applied [OF assms(1,3), of "md_Inbound md" "md_User md"] assms(4,9) by simp
  note eq = ApplyQuotaTable_Inr(4) [OF assms(3)]
  have "retries md ts (s\<lparr>sh_registry := r'\<rparr>) = replicate (length ts) (Rejected (QuotaDenied admitDenyThrottled))"
  proof (rule throttled_forever [where throttle = throttle and u = "update_quota freed_cell u" and until = "qc_throttleUntilNanos (usr_quota u)"])
    show "\<not> reg_draining (sh_registry (s\<lparr>sh_registry := r'\<rparr>))" using assms(2) by (simp add: eq)
    show "qp_enabled (qs_policy (reg_quota (sh_registry (s\<lparr>sh_registry := r'\<rparr>))))"
      "qp_reconnectThrottle (qs_policy (reg_quota (sh_registry (s\<lparr>sh_registry := r'\<rparr>)))) = throttle"
      using assms(6,7) by (simp_all add: eq)
    show "lineage (sh_registry (s\<lparr>sh_registry := r'\<rparr>)) (md_Inbound md) (md_User md) = Some (update_quota freed_cell u)"
      using u' by simp
  qed (use assms in \<open>simp_all add: update_quota_def freed_cell_def\<close>)
  with u' show ?thesis by (simp add: update_quota_def freed_cell_def exhausted_def)
qed

definition demo_denied :: shared where
  "demo_denied = demo_shared\<lparr>sh_registry := noteDenied ''ss-in'' ''alice'' 10 (configureQuota (Some
    \<lparr>qo_ListenPath = [], qo_StartupAction = ''allow'', qo_StaleAfter = 0, qo_StaleAction = ''allow'',
     qo_ReconnectThrottle = 100, qo_MaxRequestBytes = 256\<rparr>) demo_registry)\<rparr>"

theorem freed_lineage_stays_denied_witness:
  "\<exists>s. retries demo_md [20, 60] s = replicate 2 (Rejected (QuotaDenied admitDenyThrottled))"
proof -
  let ?r = "sh_registry demo_denied"
  have q: "lineage (configureQuota x r) = lineage r" "wf_registry (configureQuota x r) = wf_registry r" for x r
    by (simp_all add: configureQuota_def wf_registry_def)
  obtain u where "lineage demo_registry ''ss-in'' ''alice'' = Some u" using demo_alice by blast
  then have u: "lineage ?r (md_Inbound demo_md) (md_User demo_md) = Some (update_quota (markThrottle 110) u)"
    by (simp add: demo_denied_def lineage_noteDenied q demo_md_def configureQuota_def in_i64_def)
  have wf: "wf_registry ?r" using calm_noteDenied q(2) wf_demo by (auto simp: demo_denied_def calm_def)
  have pol: "qs_policy (reg_quota ?r) = \<lparr>qp_enabled = True, qp_startupAction = ''allow'', qp_staleAction = ''allow'',
      qp_staleAfter = 0, qp_reconnectThrottle = 100\<rparr>" "\<not> qs_accepted (reg_quota ?r)" "\<not> reg_draining ?r"
    by (simp_all add: demo_denied_def configureQuota_def quotaState_init_def)
  obtain r' where r': "ApplyQuotaTable 12 0 1 [] ?r = (Inr 0, r')"
    using pol(2) by (simp add: ApplyQuotaTable_def Let_def)
  have "retries demo_md [20, 60] (demo_denied\<lparr>sh_registry := r'\<rparr>) =
      replicate (length [20, 60 :: i64]) (Rejected (QuotaDenied admitDenyThrottled))"
    by (rule freed_lineage_stays_denied [where throttle = 100, THEN conjunct1, OF wf pol(3) r' _ _ _ _ _ u])
      (simp_all add: pol(1) table_entry_def demo_md_def update_quota_def markThrottle_def in_i64_def)
  then show ?thesis by (auto simp: numeral_2_eq_2)
qed

end
