(* ===== verification/Http_Uds.thy ===== *)
theory Http_Uds
  imports Go_Json Go_Utf8 Go_Strings Counter
begin

text \<open>
  The transport of \<open>httpuds.go\<close>: one HTTP/1.1 request per connection over a Unix socket. A connection is the
  bytes its client sends and what comes after them (end of file, the read deadline, or another error); the
  buffered reader of the standard library is modelled by its buffer size, so in which pieces the bytes
  arrive does not matter.
\<close>

section \<open>Status codes\<close>

definition statusOK :: int where "statusOK = 200"
definition statusBadRequest :: int where "statusBadRequest = 400"
definition statusNotFound :: int where "statusNotFound = 404"
definition statusMethodNotAllowed :: int where "statusMethodNotAllowed = 405"
definition statusRequestTimeout :: int where "statusRequestTimeout = 408"
definition statusPayloadTooLarge :: int where "statusPayloadTooLarge = 413"
definition statusConflict :: int where "statusConflict = 409"
definition statusTooManyRequests :: int where "statusTooManyRequests = 429"
definition statusInternalServerError :: int where "statusInternalServerError = 500"
definition statusServiceUnavailable :: int where "statusServiceUnavailable = 503"
definition statusVersionNotSupported :: int where "statusVersionNotSupported = 505"

lemmas status_defs = statusOK_def statusBadRequest_def statusNotFound_def statusMethodNotAllowed_def
  statusRequestTimeout_def statusPayloadTooLarge_def statusConflict_def statusTooManyRequests_def
  statusInternalServerError_def statusServiceUnavailable_def statusVersionNotSupported_def

definition statusText :: "(int \<times> string) list" where
  "statusText = [(statusOK, ''OK''), (statusBadRequest, ''Bad Request''), (statusNotFound, ''Not Found''),
    (statusMethodNotAllowed, ''Method Not Allowed''), (statusRequestTimeout, ''Request Timeout''),
    (statusConflict, ''Conflict''), (statusPayloadTooLarge, ''Payload Too Large''),
    (statusTooManyRequests, ''Too Many Requests''), (statusInternalServerError, ''Internal Server Error''),
    (statusServiceUnavailable, ''Service Unavailable''),
    (statusVersionNotSupported, ''HTTP Version Not Supported'')]"

definition maxRequestLineBytes :: nat where "maxRequestLineBytes = 8 * 1024"
definition maxHeaderCount :: nat where "maxHeaderCount = 64"
definition maxHeaderLineBytes :: nat where "maxHeaderLineBytes = 8 * 1024"
definition readerSize :: nat where "readerSize = 16 * 1024"

record request =
  rq_method :: string
  rq_path :: string
  rq_body :: string

record serverLimits =
  sl_readTimeout :: i64
  sl_writeTimeout :: i64
  sl_maxConcurrency :: i64
  sl_maxRequestBytes :: i64
  sl_allowBody :: bool

section \<open>Reading a line\<close>

datatype stream_end = EndOfFile | TimedOut | Broken

type_synonym stream = "string \<times> stream_end"

datatype slice_status = SliceOk | SliceFull | SliceErr stream_end

definition ReadSlice :: "stream \<Rightarrow> (string \<times> slice_status) \<times> stream" where
  "ReadSlice = (\<lambda>(s, e).
    let line = takeWhile (\<lambda>c. c \<noteq> CHR 0x0a) s in
    if length line < length s \<and> length line < readerSize
    then ((line @ [CHR 0x0a], SliceOk), (drop (Suc (length line)) s, e))
    else if readerSize \<le> length s then ((take readerSize s, SliceFull), (drop readerSize s, e))
    else ((s, SliceErr e), ([], e)))"

definition isTimeout :: "stream_end \<Rightarrow> bool" where
  "isTimeout e \<longleftrightarrow> e = TimedOut"

lemma ReadSlice_shorter:
  "ReadSlice (s, e) = ((chunk, SliceFull), (s', e')) \<Longrightarrow> length s' < length s"
  by (auto simp: ReadSlice_def Let_def readerSize_def split: if_splits)

function read_line_loop :: "nat \<Rightarrow> string \<Rightarrow> stream \<Rightarrow> int + (string \<times> stream)" where
  "read_line_loop limit builder st =
    (case ReadSlice st of ((chunk, status), st') \<Rightarrow>
      if chunk \<noteq> [] \<and> length builder + length chunk > limit then Inl statusPayloadTooLarge
      else let builder = builder @ chunk in
        (case status of
           SliceOk \<Rightarrow> Inr (TrimSuffix (TrimSuffix builder [CHR 0x0a]) [CHR 0x0d], st')
         | SliceFull \<Rightarrow> read_line_loop limit builder st'
         | SliceErr e \<Rightarrow> if isTimeout e then Inl statusRequestTimeout else Inl statusBadRequest))"
  by pat_completeness auto
termination
  by (relation "measure (\<lambda>(_, _, s, _). length s)") (auto dest: ReadSlice_shorter [OF sym])

declare read_line_loop.simps [simp del]

definition readLimitedLine :: "nat \<Rightarrow> stream \<Rightarrow> int + (string \<times> stream)" where
  "readLimitedLine limit st = read_line_loop limit [] st"

section \<open>Reading a request\<close>

fun split_on :: "char \<Rightarrow> string \<Rightarrow> string list" where
  "split_on d [] = [[]]"
| "split_on d (c # s) =
    (if c = d then [] # split_on d s
     else case split_on d s of [] \<Rightarrow> [[c]] | w # ws \<Rightarrow> (c # w) # ws)"

definition parse_target :: "string \<Rightarrow> int + (string \<times> string)" where
  "parse_target line =
    (case split_on CHR '' '' line of
       [verb, target, version] \<Rightarrow>
         if version \<noteq> ''HTTP/1.1'' then Inl statusVersionNotSupported
         else if list_ex (\<lambda>c. c = CHR ''?'' \<or> c = CHR ''#'') target then Inl statusBadRequest
         else if target = [] \<or> hd target \<noteq> CHR ''/'' then Inl statusBadRequest
         else Inr (verb, target)
     | _ \<Rightarrow> Inl statusBadRequest)"

text \<open>One header line: the content length after it, or the status of a refusal.\<close>

definition parse_header :: "(nat \<Rightarrow> nat) \<Rightarrow> string \<Rightarrow> i64 option \<Rightarrow> int + i64 option" where
  "parse_header ul line content =
    (case Index line '':'' of
       None \<Rightarrow> Inl statusBadRequest
     | Some colon \<Rightarrow>
       if colon = 0 then Inl statusBadRequest
       else let name = ToLower ul (TrimSpace (take colon line)); v = TrimSpace (drop (Suc colon) line) in
       if name = ''content-length'' then
         (case Atoi v of None \<Rightarrow> Inl statusBadRequest
          | Some n \<Rightarrow> if n < 0 then Inl statusBadRequest else Inr (Some n))
       else if name = ''transfer-encoding'' then Inl statusBadRequest
       else Inr content)"

function read_headers :: "(nat \<Rightarrow> nat) \<Rightarrow> serverLimits \<Rightarrow> nat \<Rightarrow> nat \<Rightarrow> i64 option \<Rightarrow> stream \<Rightarrow>
    int + (i64 option \<times> stream)" where
  "read_headers ul limits index consumed content st =
    (if index > maxHeaderCount then Inl statusBadRequest
     else case readLimitedLine maxHeaderLineBytes st of
       Inl status \<Rightarrow> Inl status
     | Inr (line, st) \<Rightarrow>
       let consumed = consumed + length line + 2 in
       if int consumed > sl_maxRequestBytes limits then Inl statusPayloadTooLarge
       else if line = [] then Inr (content, st)
       else case parse_header ul line content of
         Inl status \<Rightarrow> Inl status
       | Inr content \<Rightarrow> read_headers ul limits (Suc index) consumed content st)"
  by pat_completeness auto
termination by (relation "measure (\<lambda>(_, _, index, _). Suc maxHeaderCount - index)") auto

declare read_headers.simps [simp del]

definition ReadFull :: "nat \<Rightarrow> stream \<Rightarrow> stream_end + (string \<times> stream)" where
  "ReadFull n = (\<lambda>(s, e). if n \<le> length s then Inr (take n s, (drop n s, e)) else Inl e)"

definition read_body :: "serverLimits \<Rightarrow> i64 option \<Rightarrow> stream \<Rightarrow> int + (string \<times> stream)" where
  "read_body limits content st =
    (let n = (case content of None \<Rightarrow> 0 | Some n \<Rightarrow> n) in
     if \<not> sl_allowBody limits then (if n > 0 then Inl statusBadRequest else Inr ([], st))
     else if n > sl_maxRequestBytes limits then Inl statusPayloadTooLarge
     else if n > 0 then
       (case ReadFull (nat n) st of
          Inl e \<Rightarrow> if isTimeout e then Inl statusRequestTimeout else Inl statusBadRequest
        | Inr r \<Rightarrow> Inr r)
     else Inr ([], st))"

definition readRequest :: "(nat \<Rightarrow> nat) \<Rightarrow> serverLimits \<Rightarrow> stream \<Rightarrow> int + (request \<times> stream)" where
  "readRequest ul limits st =
    (case readLimitedLine maxRequestLineBytes st of
       Inl status \<Rightarrow> Inl status
     | Inr (line, st) \<Rightarrow>
     if int (length line + 2) > sl_maxRequestBytes limits then Inl statusPayloadTooLarge
     else case parse_target line of
       Inl status \<Rightarrow> Inl status
     | Inr (verb, target) \<Rightarrow>
     (case read_headers ul limits 0 (length line + 2) None st of
       Inl status \<Rightarrow> Inl status
     | Inr (content, st) \<Rightarrow>
     (case read_body limits content st of
       Inl status \<Rightarrow> Inl status
     | Inr (body, st) \<Rightarrow> Inr (\<lparr>rq_method = verb, rq_path = target, rq_body = body\<rparr>, st))))"

section \<open>Answering\<close>

definition crlf :: string where "crlf = [CHR 0x0d, CHR 0x0a]"

definition response_head :: "int \<Rightarrow> string \<Rightarrow> string" where
  "response_head status body =
    ''HTTP/1.1 '' @ Itoa status @ '' '' @
      (case map_of statusText status of None \<Rightarrow> ''Unknown'' | Some text \<Rightarrow> text) @ crlf @
    ''Content-Type: application/json'' @ crlf @
    ''Content-Length: '' @ itoa_nat (length body) @ crlf @
    ''Connection: close'' @ crlf @ crlf"

text \<open>The writes that are attempted; \<open>ok\<close> says whether the first one succeeded.\<close>

definition writeResponse :: "bool \<Rightarrow> int \<Rightarrow> string \<Rightarrow> string list" where
  "writeResponse ok status body = response_head status body # (if ok then [body] else [])"

text \<open>\<open>lingeringDrain\<close> over the sizes of the reads that succeed, each at most the size of the buffer.\<close>

fun lingering_drain :: "nat \<Rightarrow> nat list \<Rightarrow> nat" where
  "lingering_drain got [] = got"
| "lingering_drain got (n # ns) =
    (if got < 256 * 1024 then lingering_drain (got + n) ns else got)"

definition handleConn :: "(nat \<Rightarrow> nat) \<Rightarrow> (int \<Rightarrow> string) \<Rightarrow> serverLimits \<Rightarrow>
    (request \<Rightarrow> 's \<Rightarrow> (int \<times> string) \<times> 's) \<Rightarrow> bool \<Rightarrow> stream \<Rightarrow> 's \<Rightarrow> string list \<times> 's" where
  "handleConn ul error_body limits handler ok st s =
    (case readRequest ul limits st of
       Inl status \<Rightarrow> (writeResponse ok status (error_body status), s)
     | Inr (req, _) \<Rightarrow> (case handler req s of ((status, body), s') \<Rightarrow> (writeResponse ok status body, s')))"

section \<open>Accepting\<close>

text \<open>Durations are nanoseconds. \<open>as_window\<close> is \<open>None\<close> for the zero time.\<close>

definition failureWindow :: i64 where "failureWindow = 30000000000"
definition failuresInWindow :: nat where "failuresInWindow = 20"
definition maxBackoff :: i64 where "maxBackoff = 1000000000"

record accept_state =
  as_failures :: nat
  as_window :: "i64 option"
  as_slots :: nat
  as_rejected :: nat
  as_slept :: i64
  as_closed :: bool
  as_stopped :: bool
  as_fatal :: bool

definition accept_init :: accept_state where
  "accept_init = \<lparr>as_failures = 0, as_window = None, as_slots = 0, as_rejected = 0, as_slept = 0,
    as_closed = False, as_stopped = False, as_fatal = False\<rparr>"

definition accept_failed :: "i64 \<Rightarrow> accept_state \<Rightarrow> accept_state" where
  "accept_failed now s =
    (if as_closed s then s\<lparr>as_stopped := True\<rparr>
     else let s = (case as_window s of
                     None \<Rightarrow> s\<lparr>as_window := Some now, as_failures := 0\<rparr>
                   | Some start \<Rightarrow> if now - start > failureWindow then s\<lparr>as_window := Some now, as_failures := 0\<rparr> else s);
              s = s\<lparr>as_failures := Suc (as_failures s)\<rparr>
       in if as_failures s \<ge> failuresInWindow then s\<lparr>as_fatal := True, as_stopped := True\<rparr>
          else s\<lparr>as_slept := as_slept s + min maxBackoff (int (as_failures s) * 10000000)\<rparr>)"

definition accept_conn :: "serverLimits \<Rightarrow> accept_state \<Rightarrow> accept_state" where
  "accept_conn limits s =
    (let s = s\<lparr>as_window := None, as_failures := 0\<rparr> in
     if int (as_slots s) < sl_maxConcurrency limits then s\<lparr>as_slots := Suc (as_slots s)\<rparr>
     else s\<lparr>as_rejected := Suc (as_rejected s)\<rparr>)"

inductive accept_step :: "serverLimits \<Rightarrow> accept_state \<Rightarrow> accept_state \<Rightarrow> bool" for limits where
  failed: "\<not> as_stopped s \<Longrightarrow> accept_step limits s (accept_failed now s)"
| accepted: "\<not> as_stopped s \<Longrightarrow> accept_step limits s (accept_conn limits s)"
| released: "0 < as_slots s \<Longrightarrow> accept_step limits s (s\<lparr>as_slots := as_slots s - 1\<rparr>)"
| closing: "accept_step limits s (s\<lparr>as_closed := True\<rparr>)"

section \<open>Lines\<close>

definition cut_status :: "stream_end \<Rightarrow> int" where
  "cut_status e = (if e = TimedOut then statusRequestTimeout else statusBadRequest)"

lemma readLimitedLine_alt:
  assumes "limit < readerSize"
  shows "readLimitedLine limit (s, e) =
    (let line = takeWhile (\<lambda>c. c \<noteq> CHR 0x0a) s in
     if length line < length s then
       (if limit < Suc (length line) then Inl statusPayloadTooLarge
        else Inr (TrimSuffix line [CHR 0x0d], (drop (Suc (length line)) s, e)))
     else if limit < length s then Inl statusPayloadTooLarge
     else Inl (cut_status e))"
proof -
  let ?line = "takeWhile (\<lambda>c. c \<noteq> CHR 0x0a) s"
  have le: "length ?line \<le> length s" by (rule length_takeWhile_le)
  consider (found) "length ?line < length s" "length ?line < readerSize"
    | (full) "\<not> (length ?line < length s \<and> length ?line < readerSize)" "readerSize \<le> length s"
    | (ended) "length ?line = length s" "length s < readerSize"
    using le by linarith
  then show ?thesis
  proof cases
    case found
    then show ?thesis by (simp add: readLimitedLine_def read_line_loop.simps ReadSlice_def Let_def)
  next
    case full
    then have "take readerSize s \<noteq> []" "length (take readerSize s) = readerSize" by (auto simp: readerSize_def)
    moreover have "length ?line < length s \<Longrightarrow> limit < Suc (length ?line)" using full assms by auto
    ultimately show ?thesis using full assms by (simp add: readLimitedLine_def read_line_loop.simps ReadSlice_def Let_def)
  next
    case ended
    then show ?thesis
      by (simp add: readLimitedLine_def read_line_loop.simps ReadSlice_def Let_def cut_status_def isTimeout_def)
  qed
qed

lemma limits_small: "maxRequestLineBytes < readerSize" "maxHeaderLineBytes < readerSize"
  by (simp_all add: maxRequestLineBytes_def maxHeaderLineBytes_def readerSize_def)

text \<open>
  A parser is incremental when its success does not depend on what comes after the bytes it read, and when
  cutting off an input it accepts leads either to success as well or to the status of a cut connection.
\<close>

definition incremental :: "(stream \<Rightarrow> int + ('a \<times> stream)) \<Rightarrow> bool" where
  "incremental p \<longleftrightarrow>
    (\<forall>s e a s' e'. p (s, e) = Inr (a, (s', e')) \<longrightarrow> e' = e \<and> (\<forall>t e2. p (s @ t, e2) = Inr (a, (s' @ t, e2)))) \<and>
    (\<forall>s t e e2 r. p (s @ t, e2) = Inr r \<longrightarrow> (\<exists>r'. p (s, e) = Inr r') \<or> p (s, e) = Inl (cut_status e))"

lemma incremental_fail [intro]: "incremental (\<lambda>st. Inl status)"
  and incremental_return [intro]: "incremental (\<lambda>st. Inr (a, st))"
  by (auto simp: incremental_def)

lemma incremental_if: "incremental p \<Longrightarrow> incremental q \<Longrightarrow> incremental (\<lambda>st. if b then p st else q st)"
  by (cases b) simp_all

lemma incremental_sum: "(\<And>a. incremental (p a)) \<Longrightarrow> (\<And>a. incremental (q a)) \<Longrightarrow>
    incremental (\<lambda>st. case x of Inl a \<Rightarrow> p a st | Inr a \<Rightarrow> q a st)"
  by (cases x) simp_all

lemma incremental_prod: "(\<And>a b. incremental (p a b)) \<Longrightarrow> incremental (\<lambda>st. case x of (a, b) \<Rightarrow> p a b st)"
  by (cases x) simp

lemmas incremental_cases = incremental_if incremental_sum incremental_prod incremental_fail incremental_return

lemma incremental_bind:
  assumes p: "incremental p" and q: "\<And>a. incremental (q a)"
  shows "incremental (\<lambda>st. case p st of Inl status \<Rightarrow> Inl status | Inr (a, st') \<Rightarrow> q a st')"
  unfolding incremental_def
proof (intro conjI allI impI)
  fix s e b s' e'
  assume run: "(case p (s, e) of Inl status \<Rightarrow> Inl status | Inr (a, st') \<Rightarrow> q a st') = Inr (b, (s', e'))"
  then obtain a s1 e1 where p1: "p (s, e) = Inr (a, (s1, e1))" and q1: "q a (s1, e1) = Inr (b, (s', e'))"
    by (auto split: sum.splits)
  have "e1 = e" "p (s @ t, e2) = Inr (a, (s1 @ t, e2))" for t e2 using p p1 unfolding incremental_def by blast+
  moreover have "e' = e1" "q a (s1 @ t, e2) = Inr (b, (s' @ t, e2))" for t e2
    using q [of a] q1 unfolding incremental_def by blast+
  ultimately show "e' = e"
    "\<And>t e2. (case p (s @ t, e2) of Inl status \<Rightarrow> Inl status | Inr (a, st') \<Rightarrow> q a st') = Inr (b, (s' @ t, e2))"
    by simp_all
next
  fix s t e e2 r
  assume run: "(case p (s @ t, e2) of Inl status \<Rightarrow> Inl status | Inr (a, st') \<Rightarrow> q a st') = Inr r"
  then obtain a st1 where p1: "p (s @ t, e2) = Inr (a, st1)" and q1: "q a st1 = Inr r"
    by (auto split: sum.splits)
  show "(\<exists>r'. (case p (s, e) of Inl status \<Rightarrow> Inl status | Inr (a, st') \<Rightarrow> q a st') = Inr r') \<or>
      (case p (s, e) of Inl status \<Rightarrow> Inl status | Inr (a, st') \<Rightarrow> q a st') = Inl (cut_status e)"
  proof (cases "\<exists>r'. p (s, e) = Inr r'")
    case True
    then obtain a' s1 e1 where p2: "p (s, e) = Inr (a', (s1, e1))" by auto
    then have "e1 = e" "p (s @ t, e2) = Inr (a', (s1 @ t, e2))" using p unfolding incremental_def by blast+
    with p1 q1 have "q a' (s1 @ t, e2) = Inr r" by simp
    then have "(\<exists>r'. q a' (s1, e) = Inr r') \<or> q a' (s1, e) = Inl (cut_status e)"
      using q [of a'] unfolding incremental_def by blast
    then show ?thesis using p2 \<open>e1 = e\<close> by simp
  next
    case False
    then have "p (s, e) = Inl (cut_status e)" using p p1 unfolding incremental_def by blast
    then show ?thesis by simp
  qed
qed

lemma incremental_readLimitedLine:
  assumes "limit < readerSize"
  shows "incremental (readLimitedLine limit)"
proof -
  have found: "length (takeWhile (\<lambda>c. c \<noteq> CHR 0x0a) s) < length s \<longleftrightarrow> CHR 0x0a \<in> set s" for s
    by (induction s) auto
  have tw: "takeWhile (\<lambda>c. c \<noteq> CHR 0x0a) (s @ t) = takeWhile (\<lambda>c. c \<noteq> CHR 0x0a) s" if "CHR 0x0a \<in> set s" for s t
    using that by (simp add: takeWhile_append1)
  have tw2: "takeWhile (\<lambda>c. c \<noteq> CHR 0x0a) (s @ t) = s @ takeWhile (\<lambda>c. c \<noteq> CHR 0x0a) t" if "CHR 0x0a \<notin> set s" for s t
    using that by (intro takeWhile_append2) auto
  have tws: "takeWhile (\<lambda>c. c \<noteq> CHR 0x0a) s = s" if "CHR 0x0a \<notin> set s" for s
    using that by (auto simp: takeWhile_eq_all_conv)
  show ?thesis
    unfolding incremental_def
  proof (intro conjI allI impI)
    fix s e a s' e'
    assume run: "readLimitedLine limit (s, e) = Inr (a, (s', e'))"
    then have nl: "CHR 0x0a \<in> set s"
      by (auto simp: readLimitedLine_alt [OF assms] Let_def found split: if_splits)
    then have "length (takeWhile (\<lambda>c. c \<noteq> CHR 0x0a) s) < length s" by (simp add: found)
    then have len: "length (takeWhile (\<lambda>c. c \<noteq> CHR 0x0a) s) < length s"
        "Suc (length (takeWhile (\<lambda>c. c \<noteq> CHR 0x0a) s)) - length s = 0" by simp_all
    show "e' = e" "\<And>t e2. readLimitedLine limit (s @ t, e2) = Inr (a, (s' @ t, e2))"
      using run nl len by (auto simp: readLimitedLine_alt [OF assms] Let_def found tw split: if_splits)
  next
    fix s t e e2 r
    assume run: "readLimitedLine limit (s @ t, e2) = Inr r"
    show "(\<exists>r'. readLimitedLine limit (s, e) = Inr r') \<or> readLimitedLine limit (s, e) = Inl (cut_status e)"
    proof (cases "CHR 0x0a \<in> set s")
      case True
      then have "length (takeWhile (\<lambda>c. c \<noteq> CHR 0x0a) s) < length s" by (simp add: found)
      then show ?thesis using run True by (auto simp: readLimitedLine_alt [OF assms] Let_def tw split: if_splits)
    next
      case False
      then have "\<not> limit < length s"
        using run by (auto simp: readLimitedLine_alt [OF assms] Let_def tw2 split: if_splits)
      then show ?thesis using False by (simp add: readLimitedLine_alt [OF assms] Let_def tws)
    qed
  qed
qed

lemma incremental_read_headers: "incremental (read_headers ul limits index consumed content)"
proof (induction "Suc maxHeaderCount - index" arbitrary: index consumed content rule: less_induct)
  case less
  let ?rest = "\<lambda>line st. if int (consumed + length line + 2) > sl_maxRequestBytes limits then Inl statusPayloadTooLarge
    else if line = [] then Inr (content, st)
    else case parse_header ul line content of
      Inl status \<Rightarrow> Inl status
    | Inr content \<Rightarrow> read_headers ul limits (Suc index) (consumed + length line + 2) content st"
  show ?case
  proof (cases "index > maxHeaderCount")
    case True
    then have "read_headers ul limits index consumed content = (\<lambda>st. Inl statusBadRequest)"
      by (intro ext) (simp add: read_headers.simps)
    then show ?thesis by (simp add: incremental_fail)
  next
    case False
    have rest: "incremental (?rest line)" for line
      using less [of "Suc index"] False by (intro incremental_cases) simp
    have "read_headers ul limits index consumed content =
        (\<lambda>st. case readLimitedLine maxHeaderLineBytes st of Inl status \<Rightarrow> Inl status | Inr (line, st') \<Rightarrow> ?rest line st')"
      using False by (intro ext) (subst read_headers.simps, simp add: Let_def split: sum.split prod.split)
    then show ?thesis using incremental_bind [OF incremental_readLimitedLine [OF limits_small(2)] rest] by simp
  qed
qed

lemma incremental_read_body: "incremental (read_body limits content)"
  by (auto simp: incremental_def read_body_def Let_def ReadFull_def cut_status_def isTimeout_def split: if_splits)

lemma incremental_readRequest: "incremental (readRequest ul limits)"
proof -
  let ?body = "\<lambda>verb target (content, st). case read_body limits content st of Inl status \<Rightarrow> Inl status
    | Inr (body, st) \<Rightarrow> Inr (\<lparr>rq_method = verb, rq_path = target, rq_body = body\<rparr>, st)"
  have body: "incremental (\<lambda>st. ?body verb target (content, st))" for verb target content
    using incremental_bind [OF incremental_read_body incremental_return] by simp
  have head: "incremental (\<lambda>st. case read_headers ul limits 0 (length line + 2) None st of Inl status \<Rightarrow> Inl status
      | Inr (content, st) \<Rightarrow> ?body verb target (content, st))" for verb target line
    using incremental_bind [OF incremental_read_headers body] by simp
  let ?rest = "\<lambda>line st. if int (length line + 2) > sl_maxRequestBytes limits then Inl statusPayloadTooLarge
      else case parse_target line of Inl status \<Rightarrow> Inl status
      | Inr (verb, target) \<Rightarrow> (case read_headers ul limits 0 (length line + 2) None st of Inl status \<Rightarrow> Inl status
        | Inr (content, st) \<Rightarrow> ?body verb target (content, st))"
  have rest: "incremental (?rest line)" for line
    by (intro incremental_cases head)
  have "readRequest ul limits =
      (\<lambda>st. case readLimitedLine maxRequestLineBytes st of Inl status \<Rightarrow> Inl status | Inr (line, st') \<Rightarrow> ?rest line st')"
    by (intro ext) (simp add: readRequest_def split: sum.split prod.split)
  then show ?thesis using incremental_bind [OF incremental_readLimitedLine [OF limits_small(1)] rest] by simp
qed

section \<open>What a request may consume\<close>

lemma readLimitedLine_consumes:
  assumes "readLimitedLine limit (s, e) = Inr (line, (s', e'))" and "limit < readerSize"
  obtains taken where "s = taken @ s'" and "length taken \<le> length line + 2"
proof -
  let ?line = "takeWhile (\<lambda>c. c \<noteq> CHR 0x0a) s"
  have l: "line = TrimSuffix ?line [CHR 0x0d]" "s' = drop (Suc (length ?line)) s" "length ?line < length s"
    using assms by (auto simp: readLimitedLine_alt Let_def split: if_splits)
  have "length ?line \<le> length line + 1"
    unfolding l(1) by (auto simp: TrimSuffix_def)
  with l(3) have "length (take (Suc (length ?line)) s) \<le> length line + 2" by simp
  moreover have "s = take (Suc (length ?line)) s @ s'" unfolding l(2) by simp
  ultimately show ?thesis using that by blast
qed

lemma read_headers_consumes:
  assumes "read_headers ul limits index consumed content (s, e) = Inr (content', (s', e'))"
  shows "\<exists>taken. s = taken @ s' \<and> int (consumed + length taken) \<le> sl_maxRequestBytes limits"
  using assms
proof (induction "Suc maxHeaderCount - index" arbitrary: index consumed content s e rule: less_induct)
  case less
  note run = less.prems [unfolded read_headers.simps [of ul limits index consumed content "(s, e)"]]
  from run have index: "\<not> index > maxHeaderCount" by (auto split: if_splits)
  with run obtain line s1 e1 where line: "readLimitedLine maxHeaderLineBytes (s, e) = Inr (line, (s1, e1))"
    by (auto split: sum.splits)
  from line limits_small(2) obtain taken where taken: "s = taken @ s1" "length taken \<le> length line + 2"
    by (rule readLimitedLine_consumes)
  from run index line have fits: "int (consumed + length line + 2) \<le> sl_maxRequestBytes limits"
    by (auto simp: Let_def split: if_splits)
  show ?case
  proof (cases "line = []")
    case True
    with run index line fits have "s' = s1" by (auto simp: Let_def split: if_splits)
    with taken fits show ?thesis by (intro exI [of _ taken]) simp
  next
    case False
    with run index line fits obtain c where
      "read_headers ul limits (Suc index) (consumed + length line + 2) c (s1, e1) = Inr (content', (s', e'))"
      by (auto simp: Let_def split: if_splits sum.splits)
    then have "\<exists>t. s1 = t @ s' \<and> int (consumed + length line + 2 + length t) \<le> sl_maxRequestBytes limits"
      by (rule less.hyps [rotated]) (use index in simp)
    then obtain t where
      "s1 = t @ s'" "int (consumed + length line + 2 + length t) \<le> sl_maxRequestBytes limits" by blast
    with taken show ?thesis by (intro exI [of _ "taken @ t"]) auto
  qed
qed

section \<open>A request as a client writes it\<close>

definition render_request :: "string \<Rightarrow> string \<Rightarrow> string \<Rightarrow> string" where
  "render_request verb target body =
    verb @ '' '' @ target @ '' HTTP/1.1'' @ crlf @
    ''Content-Length: '' @ Itoa (int (length body)) @ crlf @ crlf @ body"

lemma readLimitedLine_crlf:
  assumes "CHR 0x0a \<notin> set line" and "length line + 2 \<le> limit" and "limit < readerSize"
  shows "readLimitedLine limit (line @ crlf @ s, e) = Inr (line, (s, e))"
proof -
  have "takeWhile (\<lambda>c. c \<noteq> CHR 0x0a) (line @ crlf @ s) = line @ [CHR 0x0d]"
    using assms(1) by (subst takeWhile_append2) (auto simp: crlf_def)
  then show ?thesis using assms(2,3) by (simp add: readLimitedLine_alt Let_def crlf_def)
qed

lemma split_on_none: "d \<notin> set s \<Longrightarrow> split_on d s = [s]"
  by (induction s) auto

lemma split_on_some: "d \<notin> set s \<Longrightarrow> split_on d (s @ d # t) = s # split_on d t"
  by (induction s) auto

lemma parse_target_render:
  assumes "CHR '' '' \<notin> set verb" and "CHR '' '' \<notin> set target" and "CHR ''?'' \<notin> set target" and "CHR ''#'' \<notin> set target"
    and "target \<noteq> []" and "hd target = CHR ''/''"
  shows "parse_target (verb @ '' '' @ target @ '' HTTP/1.1'') = Inr (verb, target)"
  using assms by (auto simp: parse_target_def split_on_some split_on_none list_ex_iff)

lemma trim_front_id:
  assumes "s \<noteq> []" and "\<And>q. q \<in> set seqs \<Longrightarrow> q \<noteq> [] \<Longrightarrow> hd q \<noteq> hd s"
  shows "trim_front seqs s = s"
proof -
  have "\<not> (q \<noteq> [] \<and> prefix q s)" if "q \<in> set seqs" for q
  proof
    assume q: "q \<noteq> [] \<and> prefix q s"
    then have "hd q = hd s" by (auto simp: prefix_def)
    then show False using assms(2) that q by blast
  qed
  then have "find (\<lambda>q. q \<noteq> [] \<and> prefix q s) seqs = None" by (simp add: find_None_iff)
  then show ?thesis by (simp add: trim_front.simps [of seqs s])
qed

lemma TrimSpace_digits:
  assumes "list_all is_digit ds" and "ds \<noteq> []"
  shows "TrimSpace (CHR '' '' # ds) = ds"
proof -
  have edge: "\<not> is_digit (hd q) \<and> \<not> is_digit (last q)" if "q \<in> set space_seqs" for q
    using that by (auto simp: space_seqs_def is_digit_def)
  have digits: "is_digit (hd ds)" "is_digit (last ds)" using assms by (auto simp: list_all_iff)
  have sp: "list_all (\<lambda>q. hd q = CHR '' '' \<longrightarrow> q = '' '') space_seqs" "'' '' \<in> set space_seqs" by code_simp+
  have "find (\<lambda>q. q \<noteq> [] \<and> prefix q (CHR '' '' # ds)) space_seqs = Some '' ''"
  proof (cases "find (\<lambda>q. q \<noteq> [] \<and> prefix q (CHR '' '' # ds)) space_seqs")
    case None
    then show ?thesis using sp(2) by (auto simp: find_None_iff)
  next
    case (Some q)
    then have "q \<in> set space_seqs" "q \<noteq> []" "prefix q (CHR '' '' # ds)" by (auto simp: find_Some_iff)
    moreover from this(2,3) have "hd q = CHR '' ''" by (metis hd_append2 list.sel(1) prefix_def)
    ultimately have "q = '' ''" using sp(1) unfolding list_all_iff by blast
    then show ?thesis using Some by simp
  qed
  then have "trim_front space_seqs (CHR '' '' # ds) = trim_front space_seqs ds"
    by (subst trim_front.simps) simp
  also have "\<dots> = ds" using assms(2) edge digits by (intro trim_front_id) metis+
  finally have front: "trim_front space_seqs (CHR '' '' # ds) = ds" .
  have "trim_front (map rev space_seqs) (rev ds) = rev ds"
  proof (rule trim_front_id)
    show "rev ds \<noteq> []" using assms(2) by simp
    fix q assume "q \<in> set (map rev space_seqs)" "q \<noteq> []"
    then obtain r where "r \<in> set space_seqs" "q = rev r" by auto
    then show "hd q \<noteq> hd (rev ds)" using edge [of r] digits(2) by (auto simp: hd_rev)
  qed
  then show ?thesis by (simp add: TrimSpace_def front)
qed

lemma Itoa_digits: "list_all is_digit (Itoa (int n))" "Itoa (int n) \<noteq> []"
  using itoa_nat_correct [of n] by (simp_all add: Itoa_def)

lemma length_itoa_nat: "n < 10 ^ Suc k \<Longrightarrow> length (itoa_nat n) \<le> Suc k"
proof (induction k arbitrary: n)
  case (Suc k)
  have "n div 10 < 10 ^ Suc k" using Suc.prems by (simp add: less_mult_imp_div_less)
  from Suc.IH [OF this] show ?case by (simp add: itoa_nat.simps [of n])
qed (simp add: itoa_nat.simps)

lemma length_Itoa_i64: "in_i64 (int n) \<Longrightarrow> length (Itoa (int n)) \<le> 19"
  using length_itoa_nat [of n 18] by (simp add: Itoa_def in_i64_def)

lemma parse_header_length:
  assumes "in_i64 (int n)"
  shows "parse_header ul (''Content-Length: '' @ Itoa (int n)) content = Inr (Some (int n))"
proof -
  have "ToLower ul (TrimSpace ''Content-Length'') = ''content-length''" by code_simp
  moreover have "TrimSpace (CHR '' '' # Itoa (int n)) = Itoa (int n)"
    using Itoa_digits by (intro TrimSpace_digits)
  ultimately show ?thesis using Atoi_Itoa [OF assms] by (simp add: parse_header_def)
qed


lemma read_headers_line:
  assumes "index \<le> maxHeaderCount" and "readLimitedLine maxHeaderLineBytes st = Inr (line, st')"
    and "int (consumed + length line + 2) \<le> sl_maxRequestBytes limits"
  shows "read_headers ul limits index consumed content st =
    (if line = [] then Inr (content, st')
     else case parse_header ul line content of Inl status \<Rightarrow> Inl status
     | Inr c \<Rightarrow> read_headers ul limits (Suc index) (consumed + length line + 2) c st')"
  using assms by (subst read_headers.simps) (simp add: Let_def split: sum.split)

section \<open>Properties\<close>

lemma readRequest_render:
  assumes "CHR '' '' \<notin> set verb" and "CHR 0x0a \<notin> set verb" and "set target \<inter> {CHR '' '', CHR ''?'', CHR ''#'', CHR 0x0a} = {}"
    and "target \<noteq> []" and "hd target = CHR ''/''" and "length verb + length target + 12 \<le> maxRequestLineBytes"
    and "sl_allowBody limits" and "int (length body) \<le> sl_maxRequestBytes limits" and "in_i64 (int (length body))"
    and "int (length (render_request verb target [])) + int (length (Itoa (int (length body)))) \<le> sl_maxRequestBytes limits"
  shows "readRequest ul limits (render_request verb target body @ rest, e) =
    Inr (\<lparr>rq_method = verb, rq_path = target, rq_body = body\<rparr>, (rest, e))"
proof -
  let ?line = "verb @ '' '' @ target @ '' HTTP/1.1''"
  let ?header = "''Content-Length: '' @ Itoa (int (length body))"
  have nl: "CHR 0x0a \<notin> set ?line" "CHR 0x0a \<notin> set ?header"
    using assms(2,3) Itoa_digits(1) [of "length body"] by (auto simp: list_all_iff is_digit_def)
  have max: "int (length ?line + 2 + (length ?header + 2) + 2) \<le> sl_maxRequestBytes limits"
    using assms(10) by (simp add: render_request_def crlf_def)
  have "length (Itoa (int (length body))) \<le> 19"
    using assms(9) by (rule length_Itoa_i64)
  then have short: "length ?header + 2 \<le> maxHeaderLineBytes" by (simp add: maxHeaderLineBytes_def)
  have line: "readLimitedLine maxRequestLineBytes (?line @ crlf @ s, e) = Inr (?line, (s, e))" for s
    using nl(1) assms(6) limits_small(1) by (intro readLimitedLine_crlf) auto
  have header: "readLimitedLine maxHeaderLineBytes (?header @ crlf @ s, e) = Inr (?header, (s, e))" for s
    using nl(2) short limits_small(2) by (rule readLimitedLine_crlf)
  have blank: "readLimitedLine maxHeaderLineBytes (crlf @ s, e) = Inr ([], (s, e))" for s
    using readLimitedLine_crlf [of "[]" maxHeaderLineBytes s e] limits_small(2) by (simp add: maxHeaderLineBytes_def)
  have target: "parse_target ?line = Inr (verb, target)"
    using assms(1,3,4,5) by (intro parse_target_render) auto
  have h1: "read_headers ul limits 0 (length ?line + 2) None (?header @ crlf @ crlf @ body @ rest, e) =
      (if ?header = [] then Inr (None, (crlf @ body @ rest, e))
       else case parse_header ul ?header None of Inl status \<Rightarrow> Inl status
       | Inr c \<Rightarrow> read_headers ul limits (Suc 0) (length ?line + 2 + length ?header + 2) c (crlf @ body @ rest, e))"
    using max by (intro read_headers_line [OF _ header]) simp_all
  have h2: "read_headers ul limits (Suc 0) (length ?line + 2 + length ?header + 2) (Some n) (crlf @ body @ rest, e) =
      (if [] = ([] :: string) then Inr (Some n, (body @ rest, e))
       else case parse_header ul [] (Some n) of Inl status \<Rightarrow> Inl status
       | Inr c \<Rightarrow> read_headers ul limits (Suc (Suc 0)) (length ?line + 2 + length ?header + 2 + length ([] :: string) + 2) c
          (body @ rest, e))" for n
    using max by (intro read_headers_line [OF _ blank]) (simp_all add: maxHeaderCount_def)
  have "?header \<noteq> []" by simp
  then have "read_headers ul limits 0 (length ?line + 2) None (?header @ crlf @ crlf @ body @ rest, e) =
      Inr (Some (int (length body)), (body @ rest, e))"
    by (simp only: h1 h2 if_False if_True parse_header_length [OF assms(9)] sum.case simp_thms)
  moreover have "read_body limits (Some (int (length body))) (body @ rest, e) = Inr (body, (rest, e))"
    using assms(7,8) by (auto simp: read_body_def ReadFull_def)
  moreover have "render_request verb target body @ rest = ?line @ crlf @ ?header @ crlf @ crlf @ body @ rest"
    by (simp add: render_request_def)
  moreover have "int (length ?line + 2) \<le> sl_maxRequestBytes limits" using max by simp
  ultimately show ?thesis
    using target by (simp only: readRequest_def line sum.case prod.case) simp
qed


definition demo_limits :: serverLimits where
  "demo_limits = \<lparr>sl_readTimeout = 5000000000, sl_writeTimeout = 5000000000, sl_maxConcurrency = 8,
    sl_maxRequestBytes = 4096, sl_allowBody = True\<rparr>"


lemma read_body_Inr: "read_body limits content (s, e) = Inr (body, (rest, e')) \<Longrightarrow> 0 \<le> sl_maxRequestBytes limits \<Longrightarrow>
    s = body @ rest \<and> int (length body) \<le> sl_maxRequestBytes limits \<and> (body = [] \<or> sl_allowBody limits)"
  by (auto simp: read_body_def Let_def ReadFull_def split: if_splits sum.splits)

text \<open>What one connection can make the server read and keep is bounded: the head of an accepted request
  (all its lines with their line ends) and its body each have at most \<open>max_request_bytes\<close> bytes, and a server
  that takes no bodies reads none.\<close>

theorem request_bounded:
  assumes "readRequest ul limits (s, e) = Inr (r, (rest, e'))"
  shows "\<exists>head. s = head @ rq_body r @ rest \<and> int (length head) \<le> sl_maxRequestBytes limits \<and>
    int (length (rq_body r)) \<le> sl_maxRequestBytes limits \<and> (rq_body r = [] \<or> sl_allowBody limits)"
proof -
  from assms obtain line s1 e1 where line: "readLimitedLine maxRequestLineBytes (s, e) = Inr (line, (s1, e1))"
    by (auto simp: readRequest_def split: sum.splits)
  from line limits_small(1) obtain t1 where t1: "s = t1 @ s1" "length t1 \<le> length line + 2"
    by (rule readLimitedLine_consumes)
  from assms line obtain content s2 e2 where
    headers: "read_headers ul limits 0 (length line + 2) None (s1, e1) = Inr (content, (s2, e2))"
    and body: "read_body limits content (s2, e2) = Inr (rq_body r, (rest, e'))"
    by (auto simp: readRequest_def split: sum.splits if_splits)
  from read_headers_consumes [OF headers] obtain t2 where
    t2: "s1 = t2 @ s2" "int (length line + 2 + length t2) \<le> sl_maxRequestBytes limits" by blast
  then have "0 \<le> sl_maxRequestBytes limits" by simp
  then have "s2 = rq_body r @ rest \<and> int (length (rq_body r)) \<le> sl_maxRequestBytes limits \<and>
      (rq_body r = [] \<or> sl_allowBody limits)"
    using read_body_Inr [OF body] by blast
  then show ?thesis using t1 t2 by (intro exI [of _ "t1 @ t2"]) auto
qed

lemma demo_request: "readRequest id demo_limits (render_request ''PUT'' ''/v3/quota'' ''{}'', EndOfFile) =
    Inr (\<lparr>rq_method = ''PUT'', rq_path = ''/v3/quota'', rq_body = ''{}''\<rparr>, ([], EndOfFile))"
  using readRequest_render [of "''PUT''" "''/v3/quota''" demo_limits "''{}''" id "[]" EndOfFile]
  by (simp add: demo_limits_def maxRequestLineBytes_def render_request_def crlf_def Itoa_def itoa_nat.simps in_i64_def)

theorem request_bounded_witness:
  "\<exists>head. render_request ''PUT'' ''/v3/quota'' ''{}'' = head @ ''{}'' \<and> int (length head) \<le> 4096"
  using request_bounded [OF demo_request] by (auto simp: demo_limits_def)

text \<open>C22. Reading is robust against how the bytes arrive: a request that was accepted is accepted in the same
  way whatever follows it, and cutting an acceptable request short never makes it acceptable in another way or
  refused for another reason: what was cut is answered 408 after the read deadline and 400 otherwise.\<close>

theorem request_cut:
  "(\<forall>r rest e'. readRequest ul limits (s, e) = Inr (r, (rest, e')) \<longrightarrow>
      readRequest ul limits (s @ t, e2) = Inr (r, (rest @ t, e2))) \<and>
   ((\<exists>x. readRequest ul limits (s @ t, e2) = Inr x) \<longrightarrow>
      (\<exists>y. readRequest ul limits (s, e) = Inr y) \<or>
      readRequest ul limits (s, e) = Inl (if e = TimedOut then statusRequestTimeout else statusBadRequest))"
  using incremental_readRequest [of ul limits, unfolded incremental_def cut_status_def] by blast

theorem request_cut_witness:
  "readRequest id demo_limits (''PUT /v3/qu'', TimedOut) = Inl statusRequestTimeout"
proof -
  have "''PUT /v3/qu'' @ drop 10 (render_request ''PUT'' ''/v3/quota'' ''{}'') = render_request ''PUT'' ''/v3/quota'' ''{}''"
    by (simp add: render_request_def)
  moreover have "\<not> (\<exists>y. readRequest id demo_limits (''PUT /v3/qu'', TimedOut) = Inr y)"
    by (simp add: readRequest_def readLimitedLine_alt limits_small)
  ultimately show ?thesis
    using request_cut [of id demo_limits "''PUT /v3/qu''" TimedOut "drop 10 (render_request ''PUT'' ''/v3/quota'' ''{}'')" EndOfFile]
      demo_request by auto
qed

section \<open>The accept loop\<close>

definition accept_inv :: "serverLimits \<Rightarrow> accept_state \<Rightarrow> bool" where
  "accept_inv limits s \<longleftrightarrow> int (as_slots s) \<le> max 0 (sl_maxConcurrency limits) \<and>
    (as_fatal s \<longrightarrow> as_stopped s \<and> as_failures s = failuresInWindow) \<and>
    (\<not> as_stopped s \<longrightarrow> as_failures s < failuresInWindow)"

interpretation accepting: invariant_machine "\<lambda>s. s = accept_init" "accept_step limits" "accept_inv limits" for limits
proof
  fix s t
  assume "accept_inv limits s" "accept_step limits s t"
  then show "accept_inv limits t"
    by (elim accept_step.cases)
      (auto simp: accept_inv_def accept_failed_def accept_conn_def Let_def failuresInWindow_def split: option.splits)
qed (simp add: accept_inv_def accept_init_def failuresInWindow_def)



lemma accept_failures:
  assumes "\<forall>t\<in>set ts. t - start \<le> failureWindow" and "as_window s = Some start" and "\<not> as_closed s" and "\<not> as_fatal s"
    and "as_failures s + length ts < failuresInWindow"
  shows "let s' = fold accept_failed ts s in as_window s' = Some start \<and> \<not> as_closed s' \<and> \<not> as_fatal s' \<and>
    as_failures s' = as_failures s + length ts \<and>
    as_slept s' = as_slept s + (\<Sum>i<length ts. 10000000 * int (as_failures s + Suc i))"
  using assms
proof (induction ts arbitrary: s)
  case (Cons t ts)
  let ?s = "accept_failed t s"
  have s: "as_window ?s = Some start" "\<not> as_closed ?s" "\<not> as_fatal ?s" "as_failures ?s = Suc (as_failures s)"
      "as_slept ?s = as_slept s + 10000000 * int (Suc (as_failures s))"
    using Cons.prems by (auto simp: accept_failed_def Let_def failuresInWindow_def maxBackoff_def min_def)
  have "(\<Sum>i<Suc (length ts). 10000000 * int (as_failures s + Suc i)) =
      10000000 * int (Suc (as_failures s)) + (\<Sum>i<length ts. 10000000 * int (Suc (as_failures s) + Suc i))"
    by (subst sum.lessThan_Suc_shift) simp
  with Cons.IH [of ?s] Cons.prems s show ?case by (simp add: Let_def)
qed simp

text \<open>How long the exporter bears a failing listener: as long as the failures fall into one window of thirty
  seconds, nineteen of them only make it wait, and the twentieth stops the process; the waits add up to 1.9
  seconds, so the cap of one second on a single wait is never reached and a fault of two seconds is fatal.\<close>

theorem accept_gives_up:
  assumes "length ts = 20" and "\<forall>u\<in>set ts. u - hd ts \<le> failureWindow"
  shows "\<not> as_fatal (fold accept_failed (butlast ts) accept_init) \<and> as_fatal (fold accept_failed ts accept_init) \<and>
    as_slept (fold accept_failed ts accept_init) = 1900000000"
proof -
  obtain t us v where ts: "ts = t # us @ [v]" "length us = 18"
  proof (cases ts)
    case (Cons t rest)
    then have "rest = butlast rest @ [last rest]" "length (butlast rest) = 18" using assms(1) by (cases rest rule: rev_cases; auto)+
    then show ?thesis using Cons that by metis
  qed (use assms(1) in simp)
  let ?s = "accept_failed t accept_init"
  have first: "as_window ?s = Some t" "\<not> as_closed ?s" "\<not> as_fatal ?s" "as_failures ?s = 1" "as_slept ?s = 10000000"
    by (simp_all add: accept_failed_def accept_init_def failuresInWindow_def maxBackoff_def)
  have "as_failures ?s + length us < failuresInWindow" using first ts by (simp add: failuresInWindow_def)
  moreover have "\<forall>u\<in>set us. u - t \<le> failureWindow" using assms(2) ts by simp
  moreover have "(\<Sum>i<18. 10000000 * int (1 + Suc i)) = 1890000000" by (simp add: eval_nat_numeral)
  ultimately have "let s' = fold accept_failed us ?s in as_window s' = Some t \<and> \<not> as_closed s' \<and> \<not> as_fatal s' \<and>
      as_failures s' = 19 \<and> as_slept s' = 1900000000"
    using accept_failures [OF _ first(1,2,3), of us] first ts by (simp add: Let_def)
  then show ?thesis
    using assms(2) ts by (simp add: accept_failed_def Let_def failuresInWindow_def butlast_append)
qed

theorem accept_gives_up_witness: "as_fatal (fold accept_failed (replicate 20 7) accept_init)"
  using accept_gives_up [of "replicate 20 7"] by (simp add: failureWindow_def)

end
