(* ===== verification/Quota_Endpoint.thy ===== *)
theory Quota_Endpoint
  imports Admission Http_Uds
begin

text \<open>
  The control endpoint of \<open>quota_endpoint.go\<close>, \<open>PUT /v3/quota\<close>. Decoding the body is an argument of the
  model: \<open>decode\<close> gives the request and whether more input follows, or \<open>None\<close> when the strict decoder fails.
  Both clocks that an accepted table is stamped with are arguments too.
\<close>

section \<open>Bodies\<close>

text \<open>Encoding a value of these types cannot fail, so the fall-back text of \<open>mustJSON\<close> is never used.\<close>

definition mustJSON :: "json \<Rightarrow> string" where
  "mustJSON v = json_line False v"

definition errorBody_json :: "errorBody \<Rightarrow> json" where
  "errorBody_json b = JObj [(''schema_version'', JNum (eb_SchemaVersion b)), (''error'', JObj [(''code'', JNum (eb_Code b))])]"

definition error_response :: "int \<Rightarrow> int \<times> string" where
  "error_response status = (status, mustJSON (errorBody_json (newErrorBody status)))"

record quotaRequest =
  qr_SchemaVersion :: int
  qr_NodeID :: string
  qr_RuntimeID :: string
  qr_Epoch :: u64
  qr_Entries :: "QuotaEntry list"

definition quotaResponse_json :: "u64 \<Rightarrow> nat \<Rightarrow> json" where
  "quotaResponse_json epoch applied =
    JObj [(''schema_version'', JNum SchemaVersion), (''epoch'', JNum (uint epoch)), (''applied'', JNum (int applied))]"

definition quotaErrorBody_json :: "int \<Rightarrow> string list \<Rightarrow> json" where
  "quotaErrorBody_json code unknown =
    JObj [(''schema_version'', JNum SchemaVersion),
      (''error'', JObj ((''code'', JNum code) #
        (if unknown = [] then [] else [(''unknown'', JArr (map JStr unknown))])))]"

section \<open>The handler\<close>

definition entry_ok :: "QuotaEntry \<Rightarrow> bool" where
  "entry_ok e \<longleftrightarrow> validateToken ''entries[].inbound_tag'' (qe_InboundTag e) = None \<and>
    validateToken ''entries[].name'' (qe_Name e) = None \<and> \<not> qe_RemainingBytes e < 0"

fun check_entries :: "QuotaEntry list \<Rightarrow> bool" where
  "check_entries [] = True"
| "check_entries (e # es) = (if entry_ok e then check_entries es else False)"

definition handleQuotaRoute :: "(string \<Rightarrow> (quotaRequest \<times> bool) option) \<Rightarrow> i64 \<Rightarrow> i64 \<Rightarrow> request \<Rightarrow> Registry \<Rightarrow>
    (int \<times> string) \<times> Registry" where
  "handleQuotaRoute decode nowNanos nowMs req r =
    (if rq_path req \<noteq> ''/v3/quota'' then (error_response statusNotFound, r)
     else if rq_method req \<noteq> ''PUT'' then (error_response statusMethodNotAllowed, r)
     else case decode (rq_body req) of
       None \<Rightarrow> (error_response statusBadRequest, r)
     | Some (payload, trailing) \<Rightarrow>
     if trailing then (error_response statusBadRequest, r)
     else if qr_SchemaVersion payload \<noteq> SchemaVersion then (error_response statusBadRequest, r)
     else if qr_NodeID payload \<noteq> NodeID r \<or> qr_RuntimeID payload \<noteq> RuntimeID r then
       (error_response statusConflict,
        r\<lparr>reg_quota := (reg_quota r)\<lparr>qs_rejectedByRuntime := wrap64 (qs_rejectedByRuntime (reg_quota r) + 1)\<rparr>\<rparr>)
     else if qr_Epoch payload = 0 then (error_response statusBadRequest, r)
     else if \<not> check_entries (qr_Entries payload) then (error_response statusBadRequest, r)
     else case ApplyQuotaTable nowNanos nowMs (qr_Epoch payload) (qr_Entries payload) r of
       (Inl (errStaleEpoch, _), r) \<Rightarrow> (error_response statusConflict, r)
     | (Inl (errUnknownLineage, unknown), r) \<Rightarrow>
         ((statusBadRequest, mustJSON (quotaErrorBody_json statusBadRequest unknown)), r)
     | (Inr applied, r) \<Rightarrow> ((statusOK, mustJSON (quotaResponse_json (qr_Epoch payload) applied)), r))"

lemma check_entries_all: "check_entries es = list_all entry_ok es"
  by (induction es) auto

lemma entry_ok_tokens: "entry_ok e \<longleftrightarrow> ok_token (qe_InboundTag e) \<and> ok_token (qe_Name e) \<and> 0 \<le> qe_RemainingBytes e"
  by (auto simp: entry_ok_def validateToken_None)

text \<open>The three counters that a refusal may move.\<close>

definition same_but_rejections :: "Registry \<Rightarrow> Registry \<Rightarrow> bool" where
  "same_but_rejections r r' \<longleftrightarrow>
    (\<exists>a b c. r' = r\<lparr>reg_quota := (reg_quota r)\<lparr>qs_rejectedByRuntime := a, qs_rejectedByEpoch := b, qs_rejectedByUnknown := c\<rparr>\<rparr>)"

lemma same_but_rejections_refl [simp]: "same_but_rejections r r"
  unfolding same_but_rejections_def
  by (intro exI [of _ "qs_rejectedByRuntime (reg_quota r)"] exI [of _ "qs_rejectedByEpoch (reg_quota r)"]
      exI [of _ "qs_rejectedByUnknown (reg_quota r)"]) simp

lemma same_but_rejections_one:
  "same_but_rejections r (r\<lparr>reg_quota := (reg_quota r)\<lparr>qs_rejectedByRuntime := a\<rparr>\<rparr>)"
  "same_but_rejections r (r\<lparr>reg_quota := (reg_quota r)\<lparr>qs_rejectedByEpoch := b\<rparr>\<rparr>)"
  "same_but_rejections r (r\<lparr>reg_quota := (reg_quota r)\<lparr>qs_rejectedByUnknown := c\<rparr>\<rparr>)"
  unfolding same_but_rejections_def
  by (rule exI [of _ a], rule exI [of _ "qs_rejectedByEpoch (reg_quota r)"], rule exI [of _ "qs_rejectedByUnknown (reg_quota r)"], simp)
    (rule exI [of _ "qs_rejectedByRuntime (reg_quota r)"], rule exI [of _ b], rule exI [of _ "qs_rejectedByUnknown (reg_quota r)"], simp,
     rule exI [of _ "qs_rejectedByRuntime (reg_quota r)"], rule exI [of _ "qs_rejectedByEpoch (reg_quota r)"], rule exI [of _ c], simp)

lemma ApplyQuotaTable_answer:
  "case ApplyQuotaTable now ms epoch es r of
     (Inl (errStaleEpoch, u), r') \<Rightarrow> same_but_rejections r r' \<and> qs_accepted (reg_quota r) \<and> epoch \<le> qs_epoch (reg_quota r)
   | (Inl (errUnknownLineage, u), r') \<Rightarrow> same_but_rejections r r' \<and> \<not> list_all (known r) es
   | (Inr n, r') \<Rightarrow> \<not> (qs_accepted (reg_quota r) \<and> epoch \<le> qs_epoch (reg_quota r)) \<and> list_all (known r) es"
  by (auto simp: ApplyQuotaTable_def Let_def resolve_all filter_empty_conv list_all_iff same_but_rejections_one)

section \<open>Properties\<close>

text \<open>C24. The endpoint answers 200 exactly to a \<open>PUT\<close> of a well-formed table for this very process (schema, node
  and runtime id) whose epoch is new and whose entries are well formed and all known; then the table is in
  force. Any other answer leaves the registry as it was but for the rejection counters.\<close>

theorem quota_route_iff:
  "case handleQuotaRoute decode now ms req r of ((status, body), r') \<Rightarrow>
    (status = statusOK \<longleftrightarrow> rq_path req = ''/v3/quota'' \<and> rq_method req = ''PUT'' \<and>
      (\<exists>p. decode (rq_body req) = Some (p, False) \<and> qr_SchemaVersion p = SchemaVersion \<and>
        qr_NodeID p = NodeID r \<and> qr_RuntimeID p = RuntimeID r \<and> qr_Epoch p \<noteq> 0 \<and>
        list_all entry_ok (qr_Entries p) \<and> list_all (known r) (qr_Entries p) \<and>
        \<not> (qs_accepted (reg_quota r) \<and> qr_Epoch p \<le> qs_epoch (reg_quota r)) \<and>
        r' = snd (ApplyQuotaTable now ms (qr_Epoch p) (qr_Entries p) r))) \<and>
    (status \<noteq> statusOK \<longrightarrow> same_but_rejections r r')"
proof (cases "rq_path req = ''/v3/quota'' \<and> rq_method req = ''PUT''")
  case False
  then show ?thesis by (auto simp: handleQuotaRoute_def error_response_def status_defs)
next
  case route: True
  show ?thesis
  proof (cases "\<exists>p. decode (rq_body req) = Some (p, False) \<and> qr_SchemaVersion p = SchemaVersion \<and>
      qr_NodeID p = NodeID r \<and> qr_RuntimeID p = RuntimeID r \<and> qr_Epoch p \<noteq> 0 \<and> list_all entry_ok (qr_Entries p)")
    case False
    then show ?thesis using route
      by (auto simp: handleQuotaRoute_def error_response_def status_defs check_entries_all same_but_rejections_one
          split: option.splits)
  next
    case True
    then obtain p where p: "decode (rq_body req) = Some (p, False)" "qr_SchemaVersion p = SchemaVersion"
        "qr_NodeID p = NodeID r" "qr_RuntimeID p = RuntimeID r" "qr_Epoch p \<noteq> 0" "list_all entry_ok (qr_Entries p)"
      by blast
    then show ?thesis using route ApplyQuotaTable_answer [where now = now and ms = ms and epoch = "qr_Epoch p" and es = "qr_Entries p" and r = r]
      by (auto simp: handleQuotaRoute_def error_response_def status_defs check_entries_all
          split: sum.splits prod.splits quota_error.splits)
  qed
qed

definition demo_request :: quotaRequest where
  "demo_request = \<lparr>qr_SchemaVersion = 3, qr_NodeID = NodeID demo_registry, qr_RuntimeID = RuntimeID demo_registry,
    qr_Epoch = 7, qr_Entries = demo_table\<rparr>"

theorem quota_route_iff_witness:
  "fst (fst (handleQuotaRoute (\<lambda>_. Some (demo_request, False)) 5 6
      \<lparr>rq_method = ''PUT'', rq_path = ''/v3/quota'', rq_body = ''{}''\<rparr> demo_registry)) = statusOK"
proof -
  have ok: "list_all entry_ok demo_table"
    by (simp add: demo_table_def entry_ok_tokens ok_token_def)
  have kn: "list_all (known demo_registry) demo_table" using demo_alice by (auto simp: demo_table_def known_def)
  let ?req = "\<lparr>rq_method = ''PUT'', rq_path = ''/v3/quota'', rq_body = ''{}''\<rparr>"
  let ?res = "handleQuotaRoute (\<lambda>_. Some (demo_request, False)) 5 6 ?req demo_registry"
  have "snd ?res = snd (ApplyQuotaTable 5 6 7 demo_table demo_registry)"
    using ok by (auto simp: handleQuotaRoute_def demo_request_def SchemaVersion_def check_entries_all
        split: sum.splits prod.splits quota_error.splits)
  then show ?thesis
    using quota_route_iff [where decode = "\<lambda>_. Some (demo_request, False)" and now = 5 and ms = 6 and req = ?req
        and r = demo_registry] ok kn
    by (auto simp: case_prod_beta demo_request_def SchemaVersion_def quotaState_init_def)
qed

text \<open>A restart cannot be unblocked by an old table: a table made for another runtime id is answered 409
  whatever else it says, changes no cell and no epoch, and is counted.\<close>

theorem quota_route_other_runtime:
  assumes "decode (rq_body req) = Some (p, False)" and "qr_SchemaVersion p = SchemaVersion"
    and "qr_RuntimeID p \<noteq> RuntimeID r" and "rq_path req = ''/v3/quota''" and "rq_method req = ''PUT''"
  shows "fst (fst (handleQuotaRoute decode now ms req r)) = statusConflict \<and>
    snd (handleQuotaRoute decode now ms req r) =
      r\<lparr>reg_quota := (reg_quota r)\<lparr>qs_rejectedByRuntime := wrap64 (qs_rejectedByRuntime (reg_quota r) + 1)\<rparr>\<rparr>"
  using assms by (simp add: handleQuotaRoute_def error_response_def)

theorem quota_route_other_runtime_witness:
  "fst (fst (handleQuotaRoute (\<lambda>_. Some (demo_request\<lparr>qr_RuntimeID := ''old''\<rparr>, False)) 5 6
      \<lparr>rq_method = ''PUT'', rq_path = ''/v3/quota'', rq_body = ''{}''\<rparr> NewValidationRegistry)) = statusConflict"
proof -
  have "RuntimeID NewValidationRegistry \<noteq> ''old''"
    by (simp add: RuntimeID_def NewValidationRegistry_def numeral_eq_Suc)
  then show ?thesis
    using quota_route_other_runtime [where decode = "\<lambda>_. Some (demo_request\<lparr>qr_RuntimeID := ''old''\<rparr>, False)" and now = 5
      and ms = 6 and req = "\<lparr>rq_method = ''PUT'', rq_path = ''/v3/quota'', rq_body = ''{}''\<rparr>" and r = NewValidationRegistry]
    by (simp add: demo_request_def SchemaVersion_def)
qed

end
