(* ===== verification/Listen_Unix.thy ===== *)
theory Listen_Unix
  imports Options
begin

text \<open>
  Binding a Unix socket, \<open>listen_unix.go\<close>. The state is what \<open>lstat\<close> sees under each path and the set of
  lock files that some process holds. What the system calls answer is in \<open>listen_env\<close>; \<open>le_swap\<close> is what
  other processes do to the directory between binding and the check afterwards.
\<close>

section \<open>State and environment\<close>

datatype node = NDir | NSymlink | NFile | NSocket nat nat

record unix_fs =
  ux_nodes :: "string \<Rightarrow> node option"
  ux_locks :: "string list"

record listen_env =
  le_parent :: "node option"
  le_open_lock :: bool
  le_lstat :: bool
  le_probe :: bool
  le_remove :: bool
  le_bind :: "(nat \<times> nat) option"
  le_chmod :: bool
  le_group :: "string \<Rightarrow> string option"
  le_chown :: bool
  le_swap :: "(string \<Rightarrow> node option) \<Rightarrow> string \<Rightarrow> node option"
  le_relstat :: bool

datatype listen_error =
  PathTooLong | ParentMissing | ParentSymlink | ParentNotDir | LockOpen | LockHeld
| PathSymlink | PathNotSocket | SocketLive | RemoveFailed | LstatFailed | BindFailed | ChmodFailed
| NoGroup | GidNotNumber | ChownFailed | RelstatFailed | Replaced | WrongGroup

section \<open>Locks and parents\<close>

definition checkParentDirectory :: "node option \<Rightarrow> listen_error option" where
  "checkParentDirectory info =
    (case info of
       None \<Rightarrow> Some ParentMissing
     | Some NSymlink \<Rightarrow> Some ParentSymlink
     | Some NDir \<Rightarrow> None
     | Some _ \<Rightarrow> Some ParentNotDir)"

definition checkFileOwner :: "nat option \<Rightarrow> nat \<Rightarrow> bool" where
  "checkFileOwner uid euid = (case uid of None \<Rightarrow> True | Some u \<Rightarrow> u = euid)"

definition lock_path :: "string \<Rightarrow> string" where
  "lock_path path = path @ ''.lock''"

definition acquireLock :: "bool \<Rightarrow> string \<Rightarrow> unix_fs \<Rightarrow> listen_error option \<times> unix_fs" where
  "acquireLock opened path fs =
    (if length (lock_path path) > maxUnixPathBytes + 16 then (Some PathTooLong, fs)
     else if \<not> opened then (Some LockOpen, fs)
     else if lock_path path \<in> set (ux_locks fs) then (Some LockHeld, fs)
     else (None, fs\<lparr>ux_locks := lock_path path # ux_locks fs\<rparr>))"

definition unlock :: "string \<Rightarrow> unix_fs \<Rightarrow> unix_fs" where
  "unlock path fs = fs\<lparr>ux_locks := remove1 (lock_path path) (ux_locks fs)\<rparr>"

definition set_node :: "string \<Rightarrow> node option \<Rightarrow> unix_fs \<Rightarrow> unix_fs" where
  "set_node path n fs = fs\<lparr>ux_nodes := (ux_nodes fs)(path := n)\<rparr>"

text \<open>Closing a listener that \<open>net.Listen\<close> made removes the name it was bound to.\<close>

definition close_listener :: "string \<Rightarrow> unix_fs \<Rightarrow> unix_fs" where
  "close_listener path fs = set_node path None fs"

section \<open>Binding\<close>

definition clear_path :: "listen_env \<Rightarrow> string \<Rightarrow> unix_fs \<Rightarrow> listen_error option \<times> unix_fs" where
  "clear_path env path fs =
    (if \<not> le_lstat env then (Some LstatFailed, fs)
     else case ux_nodes fs path of
       None \<Rightarrow> (None, fs)
     | Some NSymlink \<Rightarrow> (Some PathSymlink, fs)
     | Some (NSocket _ _) \<Rightarrow>
         if le_probe env then (Some SocketLive, fs)
         else if \<not> le_remove env then (Some RemoveFailed, fs)
         else (None, set_node path None fs)
     | Some _ \<Rightarrow> (Some PathNotSocket, fs))"

definition set_mode :: "nat \<Rightarrow> node option \<Rightarrow> node option" where
  "set_mode mode n = (case n of Some (NSocket _ gid) \<Rightarrow> Some (NSocket mode gid) | _ \<Rightarrow> n)"

definition set_gid :: "nat \<Rightarrow> node option \<Rightarrow> node option" where
  "set_gid gid n = (case n of Some (NSocket mode _) \<Rightarrow> Some (NSocket mode gid) | _ \<Rightarrow> n)"

text \<open>The group: nothing to do, the error, or the id that was set.\<close>

definition set_group :: "listen_env \<Rightarrow> string \<Rightarrow> string \<Rightarrow> unix_fs \<Rightarrow> (listen_error + int option) \<times> unix_fs" where
  "set_group env path grp fs =
    (if grp = [] then (Inr None, fs)
     else case le_group env grp of
       None \<Rightarrow> (Inl NoGroup, close_listener path fs)
     | Some gid \<Rightarrow>
       (case Atoi gid of
          None \<Rightarrow> (Inl GidNotNumber, close_listener path fs)
        | Some parsed \<Rightarrow>
            if \<not> le_chown env then (Inl ChownFailed, close_listener path fs)
            else (Inr (Some parsed), set_node path (if parsed < 0 then ux_nodes fs path else set_gid (nat parsed) (ux_nodes fs path)) fs)))"

definition recheck :: "listen_env \<Rightarrow> string \<Rightarrow> nat \<Rightarrow> int option \<Rightarrow> unix_fs \<Rightarrow> listen_error option" where
  "recheck env path mode wantGid fs =
    (if \<not> le_relstat env then Some RelstatFailed
     else case ux_nodes fs path of
       Some (NSocket m gid) \<Rightarrow>
         if m \<noteq> mode then Some Replaced
         else (case wantGid of
             None \<Rightarrow> None
           | Some g \<Rightarrow> if g \<ge> 0 \<and> int gid \<noteq> g then Some WrongGroup else None)
     | None \<Rightarrow> Some RelstatFailed
     | Some _ \<Rightarrow> Some Replaced)"

definition bind_socket :: "listen_env \<Rightarrow> string \<Rightarrow> nat \<Rightarrow> string \<Rightarrow> unix_fs \<Rightarrow> listen_error option \<times> unix_fs" where
  "bind_socket env path mode grp fs =
    (case clear_path env path fs of
       (Some e, fs) \<Rightarrow> (Some e, fs)
     | (None, fs) \<Rightarrow>
     (case le_bind env of
       None \<Rightarrow> (Some BindFailed, fs)
     | Some (m, gid) \<Rightarrow>
       let fs = set_node path (Some (NSocket m gid)) fs in
       if \<not> le_chmod env then (Some ChmodFailed, close_listener path fs)
       else let fs = set_node path (set_mode mode (ux_nodes fs path)) fs in
       (case set_group env path grp fs of
          (Inl e, fs) \<Rightarrow> (Some e, fs)
        | (Inr wantGid, fs) \<Rightarrow>
          let fs = fs\<lparr>ux_nodes := le_swap env (ux_nodes fs)\<rparr> in
          (case recheck env path mode wantGid fs of
             Some e \<Rightarrow> (Some e, close_listener path fs)
           | None \<Rightarrow> (None, fs)))))"

definition listenUnix :: "listen_env \<Rightarrow> string \<Rightarrow> nat \<Rightarrow> string \<Rightarrow> unix_fs \<Rightarrow> listen_error option \<times> unix_fs" where
  "listenUnix env path mode grp fs =
    (if length path > maxUnixPathBytes then (Some PathTooLong, fs)
     else case checkParentDirectory (le_parent env) of
       Some e \<Rightarrow> (Some e, fs)
     | None \<Rightarrow>
     (case acquireLock (le_open_lock env) path fs of
       (Some e, fs) \<Rightarrow> (Some e, fs)
     | (None, fs) \<Rightarrow>
       (case bind_socket env path mode grp fs of
          (Some e, fs) \<Rightarrow> (Some e, unlock path fs)
        | (None, fs) \<Rightarrow> (None, fs))))"

definition lockedListener_Close :: "string \<Rightarrow> unix_fs \<Rightarrow> unix_fs" where
  "lockedListener_Close path fs = unlock path (close_listener path fs)"

section \<open>Laws\<close>

lemma locks_set_node [simp]: "ux_locks (set_node path n fs) = ux_locks fs"
  by (simp add: set_node_def)

lemma locks_close_listener [simp]: "ux_locks (close_listener path fs) = ux_locks fs"
  by (simp add: close_listener_def)

lemma nodes_set_node [simp]: "ux_nodes (set_node path n fs) = (ux_nodes fs)(path := n)"
  by (simp add: set_node_def)

lemma locks_clear_path: "clear_path env path fs = (e, fs') \<Longrightarrow> ux_locks fs' = ux_locks fs"
  by (auto simp: clear_path_def split: if_splits option.splits node.splits)

lemma locks_set_group: "set_group env path grp fs = (e, fs') \<Longrightarrow> ux_locks fs' = ux_locks fs"
  by (auto simp: set_group_def split: if_splits option.splits)

lemma locks_bind_socket: "bind_socket env path mode grp fs = (e, fs') \<Longrightarrow> ux_locks fs' = ux_locks fs"
  by (auto simp: bind_socket_def Let_def split: if_splits option.splits prod.splits sum.splits
      dest!: locks_clear_path locks_set_group)

lemma unlock_acquired: "acquireLock b path fs = (None, fs') \<Longrightarrow> ux_locks fs'' = ux_locks fs' \<Longrightarrow>
    ux_locks (unlock path fs'') = ux_locks fs"
  by (auto simp: acquireLock_def unlock_def split: if_splits)

lemma clear_path_None:
  "clear_path env path fs = (None, fs') \<Longrightarrow> ux_nodes fs path = None \<or>
    (\<exists>m g. ux_nodes fs path = Some (NSocket m g)) \<and> \<not> le_probe env"
  by (auto simp: clear_path_def split: if_splits option.splits node.splits)

lemma recheck_None:
  "recheck env path mode wantGid fs = None \<Longrightarrow> \<exists>gid. ux_nodes fs path = Some (NSocket mode gid) \<and>
    (case wantGid of None \<Rightarrow> True | Some g \<Rightarrow> g < 0 \<or> int gid = g)"
  by (auto simp: recheck_def split: if_splits option.splits node.splits)

lemma bind_socket_None:
  assumes "bind_socket env path mode grp fs = (None, fs')"
  shows "(ux_nodes fs path = None \<or> (\<exists>m g. ux_nodes fs path = Some (NSocket m g)) \<and> \<not> le_probe env) \<and>
    (\<exists>gid. ux_nodes fs' path = Some (NSocket mode gid) \<and>
      (grp = [] \<or> (\<exists>g parsed. le_group env grp = Some g \<and> Atoi g = Some parsed \<and> (parsed < 0 \<or> int gid = parsed))))"
proof -
  from assms obtain fs1 fs2 fs3 w where c: "clear_path env path fs = (None, fs1)"
    and g: "set_group env path grp fs2 = (Inr w, fs3)" and r: "recheck env path mode w fs' = None"
    by (auto simp: bind_socket_def Let_def split: if_splits option.splits prod.splits sum.splits)
  from g have "grp = [] \<and> w = None \<or> (\<exists>gid parsed. le_group env grp = Some gid \<and> Atoi gid = Some parsed \<and> w = Some parsed)"
    by (auto simp: set_group_def split: if_splits option.splits)
  with clear_path_None [OF c] recheck_None [OF r] show ?thesis by auto
qed

section \<open>Properties\<close>

lemma listenUnix_bound:
  assumes "listenUnix env path mode grp fs = (None, fs')"
  shows "length path \<le> maxUnixPathBytes \<and> le_parent env = Some NDir \<and>
    (ux_nodes fs path = None \<or> (\<exists>m g. ux_nodes fs path = Some (NSocket m g)) \<and> \<not> le_probe env) \<and>
    (\<exists>gid. ux_nodes fs' path = Some (NSocket mode gid) \<and>
      (grp = [] \<or> (\<exists>g parsed. le_group env grp = Some g \<and> Atoi g = Some parsed \<and> (parsed < 0 \<or> int gid = parsed)))) \<and>
    lock_path path \<notin> set (ux_locks fs) \<and> ux_locks fs' = lock_path path # ux_locks fs"
proof -
  from assms obtain fs1 where "length path \<le> maxUnixPathBytes" "checkParentDirectory (le_parent env) = None"
    and lock: "acquireLock (le_open_lock env) path fs = (None, fs1)" and b: "bind_socket env path mode grp fs1 = (None, fs')"
    by (auto simp: listenUnix_def split: if_splits option.splits prod.splits)
  moreover have "ux_nodes fs1 = ux_nodes fs" "lock_path path \<notin> set (ux_locks fs)" "ux_locks fs1 = lock_path path # ux_locks fs"
    using lock by (auto simp: acquireLock_def split: if_splits)
  ultimately show ?thesis
    using bind_socket_None [OF b] locks_bind_socket [OF b]
    by (auto simp: checkParentDirectory_def split: option.splits node.splits)
qed


definition demo_env :: listen_env where
  "demo_env = \<lparr>le_parent = Some NDir, le_open_lock = True, le_lstat = True, le_probe = False, le_remove = True,
    le_bind = Some (493, 0), le_chmod = True, le_group = (\<lambda>g. if g = ''stats'' then Some ''17'' else None),
    le_chown = True, le_swap = id, le_relstat = True\<rparr>"

definition demo_fs :: unix_fs where
  "demo_fs = \<lparr>ux_nodes = [''/s'' \<mapsto> NSocket 0 0], ux_locks = []\<rparr>"

lemma demo_listen: "\<exists>fs'. listenUnix demo_env ''/s'' 432 ''stats'' demo_fs = (None, fs')"
proof -
  have "Atoi ''17'' = Some 17" by code_simp
  then show ?thesis
    by (simp add: listenUnix_def demo_env_def demo_fs_def maxUnixPathBytes_def checkParentDirectory_def acquireLock_def
        lock_path_def bind_socket_def clear_path_def set_group_def set_mode_def set_gid_def recheck_def)
qed


lemma listenUnix_one:
  "(case listenUnix env path mode grp fs of
      (None, fs') \<Rightarrow> fst (listenUnix env2 path mode2 grp2 fs') \<noteq> None \<and> snd (listenUnix env2 path mode2 grp2 fs') = fs' \<and>
        ux_locks (lockedListener_Close path fs') = ux_locks fs
    | (Some e, fs') \<Rightarrow> ux_locks fs' = ux_locks fs)"
proof (cases "listenUnix env path mode grp fs")
  case (Pair e fs')
  show ?thesis
  proof (cases e)
    case None
    then have run: "listenUnix env path mode grp fs = (None, fs')" using Pair by simp
    then obtain fs1 where lock: "acquireLock (le_open_lock env) path fs = (None, fs1)"
      and b: "bind_socket env path mode grp fs1 = (None, fs')"
      by (auto simp: listenUnix_def split: if_splits option.splits prod.splits)
    have "lock_path path \<in> set (ux_locks fs')" "remove1 (lock_path path) (ux_locks fs') = ux_locks fs"
      using lock locks_bind_socket [OF b] by (auto simp: acquireLock_def split: if_splits)
    then show ?thesis
      using run by (auto simp: lockedListener_Close_def unlock_def listenUnix_def acquireLock_def split: option.splits)
  next
    case (Some err)
    have "ux_locks fs' = ux_locks fs"
    proof (cases "acquireLock (le_open_lock env) path fs")
      case (Pair e1 fs1)
      then show ?thesis
      proof (cases e1)
        case None
        with Pair have lock: "acquireLock (le_open_lock env) path fs = (None, fs1)" by simp
        obtain e2 fs2 where b: "bind_socket env path mode grp fs1 = (e2, fs2)" by fastforce
        have "ux_locks (unlock path fs2) = ux_locks fs"
          using unlock_acquired [OF lock] locks_bind_socket [OF b] by simp
        then show ?thesis
          using \<open>listenUnix env path mode grp fs = (e, fs')\<close> Some lock b
          by (auto simp: listenUnix_def split: if_splits option.splits)
      next
        case (Some e1')
        then have "fs1 = fs" using Pair by (auto simp: acquireLock_def split: if_splits)
        then show ?thesis
          using \<open>listenUnix env path mode grp fs = (e, fs')\<close> Pair Some
          by (auto simp: listenUnix_def split: if_splits option.splits)
      qed
    qed
    then show ?thesis using Pair Some by simp
  qed
qed

text \<open>One process per socket: while a listener is open, every other attempt to bind the same path (whatever
  its system calls answer) is refused before it touches anything; a failed attempt gives its lock back; and
  after the listener is closed the lock is free again.\<close>

theorem listenUnix_exclusive:
  "(case listenUnix env path mode grp fs of
      (None, fs') \<Rightarrow> fst (listenUnix env2 path mode2 grp2 fs') \<noteq> None \<and> snd (listenUnix env2 path mode2 grp2 fs') = fs' \<and>
        ux_locks (lockedListener_Close path fs') = ux_locks fs
    | (Some e, fs') \<Rightarrow> ux_locks fs' = ux_locks fs)"
  by (rule listenUnix_one)

end
