(* ===== verification/Service.thy ===== *)
theory Service
  imports Quota_Endpoint Listen_Unix Tracker
begin

text \<open>
  The \<open>user_stats\<close> service of \<open>service.go\<close>: construction, the two phases of starting, shutting down, and the
  read-only routes. An instance is rebuilt on every reload; everything that must survive is in the registry.
\<close>

section \<open>Construction\<close>

record Service =
  srv_tag :: string
  srv_options :: Options
  srv_exporter :: bool
  srv_quota :: bool
  srv_audit :: "nat option"

datatype service_error =
  InvalidOptions option_error
| NoProcessRegistry
| NodeMismatch string string
| AuditFailed audit_error
| ListenFailed listen_error

text \<open>\<open>platformSupported\<close> never refuses on a Unix system.\<close>

definition NewService :: "(nat \<Rightarrow> nat) \<Rightarrow> (string \<Rightarrow> bool) \<Rightarrow> bool \<Rightarrow> Registry option \<Rightarrow> string \<Rightarrow> Options \<Rightarrow>
    service_error + Service" where
  "NewService ul group_known swap from_context tag options =
    (case normalize ul group_known swap options of
       Inl e \<Rightarrow> Inl (InvalidOptions e)
     | Inr options \<Rightarrow>
     (case from_context of
        None \<Rightarrow> Inl NoProcessRegistry
      | Some registry \<Rightarrow>
        if \<not> IsValidationOnly registry \<and> NodeID registry \<noteq> opt_NodeID options
        then Inl (NodeMismatch (opt_NodeID options) (NodeID registry))
        else Inr \<lparr>srv_tag = tag, srv_options = options, srv_exporter = False, srv_quota = False, srv_audit = None\<rparr>))"

section \<open>Starting\<close>

text \<open>\<open>fresh\<close> is the address of the writer that \<open>newAuditWriter\<close> allocates, \<open>info\<close> what it finds of the directory.\<close>

definition attach :: "(nat \<Rightarrow> nat) \<Rightarrow> (bool \<times> bool \<times> bool) option \<Rightarrow> nat \<Rightarrow> Service \<times> shared \<Rightarrow>
    service_error option \<times> Service \<times> shared" where
  "attach ul info fresh = (\<lambda>(srv, s).
    case opt_AccessLog (srv_options srv) of
      None \<Rightarrow> (None, srv, on_registry (configureQuota (opt_QuotaControl (srv_options srv))) s)
    | Some log \<Rightarrow>
      (case newAuditWriter ul info (NodeID (sh_registry s)) (RuntimeID (sh_registry s)) log (Identities (sh_registry s)) of
         Inl e \<Rightarrow> (Some (AuditFailed e), srv, s)
       | Inr audit \<Rightarrow>
           (None, srv\<lparr>srv_audit := Some fresh\<rparr>,
            on_registry (configureQuota (opt_QuotaControl (srv_options srv)) \<circ> setAudit (Some fresh))
              (s\<lparr>sh_writers := (sh_writers s)(fresh := audit)\<rparr>))))"

record system_state =
  ss_service :: Service
  ss_shared :: shared
  ss_files :: world
  ss_unix :: unix_fs

definition closeAudit :: "(nat \<Rightarrow> nat) \<Rightarrow> nat \<Rightarrow> system_state \<Rightarrow> system_state option" where
  "closeAudit ul fuel st =
    (case srv_audit (ss_service st) of
       None \<Rightarrow> Some st
     | Some audit \<Rightarrow>
         let s = on_registry (setAudit None) (ss_shared st) in
         (case writer_close ul fuel (sh_writers s audit, ss_files st) of
            None \<Rightarrow> None
          | Some (a, w) \<Rightarrow> Some (st\<lparr>ss_service := (ss_service st)\<lparr>srv_audit := None\<rparr>,
              ss_shared := s\<lparr>sh_writers := (sh_writers s)(audit := a)\<rparr>, ss_files := w\<rparr>)))"

definition socket_mode :: "Options \<Rightarrow> nat" where
  "socket_mode options = (if opt_SocketMode options = ''0660'' then 432 else 384)"

text \<open>A server closes once: the flags say that it exists and has not been closed.\<close>

definition close_exporter :: "system_state \<Rightarrow> system_state" where
  "close_exporter st =
    (if srv_exporter (ss_service st)
     then st\<lparr>ss_unix := lockedListener_Close (opt_ListenPath (srv_options (ss_service st))) (ss_unix st),
             ss_service := (ss_service st)\<lparr>srv_exporter := False\<rparr>\<rparr> else st)"

definition listen :: "(nat \<Rightarrow> nat) \<Rightarrow> nat \<Rightarrow> listen_env \<Rightarrow> listen_env \<Rightarrow> system_state \<Rightarrow>
    (service_error option \<times> system_state) option" where
  "listen ul fuel env quota_env st =
    (let o1 = srv_options (ss_service st); mode = socket_mode o1 in
     case listenUnix env (opt_ListenPath o1) mode (opt_SocketGroup o1) (ss_unix st) of
       (Some e, fs) \<Rightarrow> map_option (Pair (Some (ListenFailed e))) (closeAudit ul fuel (st\<lparr>ss_unix := fs\<rparr>))
     | (None, fs) \<Rightarrow>
       let st = st\<lparr>ss_unix := fs, ss_service := (ss_service st)\<lparr>srv_exporter := True\<rparr>\<rparr> in
       (case opt_QuotaControl o1 of
          None \<Rightarrow> Some (None, st)
        | Some q \<Rightarrow>
          (case listenUnix quota_env (qo_ListenPath q) mode (opt_SocketGroup o1) (ss_unix st) of
             (Some e, fs) \<Rightarrow>
               map_option (Pair (Some (ListenFailed e))) (closeAudit ul fuel (close_exporter (st\<lparr>ss_unix := fs\<rparr>)))
           | (None, fs) \<Rightarrow>
               Some (None, st\<lparr>ss_unix := fs, ss_service := (ss_service st)\<lparr>srv_quota := True\<rparr>\<rparr>))))"

datatype stage = StageInitialize | StageStart | StageOther

definition Start :: "(nat \<Rightarrow> nat) \<Rightarrow> nat \<Rightarrow> (bool \<times> bool \<times> bool) option \<Rightarrow> nat \<Rightarrow> listen_env \<Rightarrow> listen_env \<Rightarrow> stage \<Rightarrow>
    system_state \<Rightarrow> (service_error option \<times> system_state) option" where
  "Start ul fuel info fresh env quota_env stg st =
    (if IsValidationOnly (sh_registry (ss_shared st)) then Some (None, st)
     else case stg of
       StageInitialize \<Rightarrow>
         (case attach ul info fresh (ss_service st, ss_shared st) of
            (e, srv, s) \<Rightarrow> Some (e, st\<lparr>ss_service := srv, ss_shared := s\<rparr>))
     | StageStart \<Rightarrow> listen ul fuel env quota_env st
     | StageOther \<Rightarrow> Some (None, st))"

definition Service_Close :: "(nat \<Rightarrow> nat) \<Rightarrow> nat \<Rightarrow> system_state \<Rightarrow> system_state option" where
  "Service_Close ul fuel st =
    (let st = (case opt_QuotaControl (srv_options (ss_service st)) of
           Some q \<Rightarrow> if srv_quota (ss_service st)
             then st\<lparr>ss_unix := lockedListener_Close (qo_ListenPath q) (ss_unix st),
                     ss_service := (ss_service st)\<lparr>srv_quota := False\<rparr>\<rparr> else st
         | None \<Rightarrow> st)
     in closeAudit ul fuel (close_exporter st))"

section \<open>The read-only routes\<close>

definition health_json :: "Health \<Rightarrow> json" where
  "health_json h = JObj [(''counter_overflow'', JBool (he_CounterOverflow h)),
    (''sequence_overflow'', JBool (he_SequenceOverflow h)),
    (''identity_limit_reached'', JBool (he_IdentityLimitReached h)), (''audit_dropped'', JBool (he_AuditDropped h))]"

definition user_json :: "SnapshotUser \<Rightarrow> json" where
  "user_json u = JObj [(''name'', JStr (su_Name u)), (''generation'', JNum (uint (su_Generation u))),
    (''active'', JBool (su_Active u)), (''tcp_uplink_bytes'', JNum (uint (su_TCPUplinkBytes u))),
    (''tcp_downlink_bytes'', JNum (uint (su_TCPDownlinkBytes u))),
    (''udp_uplink_bytes'', JNum (uint (su_UDPUplinkBytes u))),
    (''udp_downlink_bytes'', JNum (uint (su_UDPDownlinkBytes u)))]"

definition inbound_json :: "SnapshotInbound \<Rightarrow> json" where
  "inbound_json i = JObj [(''tag'', JStr (si_Tag i)), (''type'', JStr (si_Type i)), (''listen'', JStr (si_Listen i)),
    (''listen_port'', JNum (uint (si_ListenPort i))), (''generation'', JNum (uint (si_Generation i))),
    (''active'', JBool (si_Active i)), (''tcp_sessions'', JNum (si_TCPSessions i)),
    (''udp_sessions'', JNum (si_UDPSessions i)), (''users'', JArr (map user_json (si_Users i)))]"

definition snapshot_json :: "SnapshotBody \<Rightarrow> json" where
  "snapshot_json s = JObj [(''schema_version'', JNum (sn_SchemaVersion s)), (''node_id'', JStr (sn_NodeID s)),
    (''runtime_id'', JStr (sn_RuntimeID s)), (''started_at_unix_ms'', JNum (uint (sn_StartedAtUnixMs s))),
    (''sequence'', JNum (uint (sn_Sequence s))), (''health'', health_json (sn_Health s)),
    (''inbounds'', JArr (map inbound_json (sn_Inbounds s)))]"

definition status_json :: "QuotaStatus \<Rightarrow> json" where
  "status_json q = JObj [(''schema_version'', JNum (st_SchemaVersion q)), (''enabled'', JBool (st_Enabled q)),
    (''accepted'', JBool (st_Accepted q)), (''epoch'', JNum (uint (st_Epoch q))),
    (''last_applied_unix_ms'', JNum (st_LastAppliedUnixMs q)), (''applied_entries'', JNum (st_AppliedEntries q)),
    (''rejected_by_runtime'', JNum (st_RejectedByRuntime q)), (''rejected_by_epoch'', JNum (st_RejectedByEpoch q)),
    (''rejected_by_unknown'', JNum (st_RejectedByUnknown q)), (''throttled_conns'', JNum (st_ThrottledConns q)),
    (''active_lineages'', JNum (st_ActiveLineages q)), (''total_lineages'', JNum (st_TotalLineages q))]"

definition healthBody_json :: "string \<Rightarrow> json" where
  "healthBody_json status = JObj [(''schema_version'', JNum SchemaVersion), (''status'', JStr status)]"

definition handleSnapshotRoute :: "(nat \<Rightarrow> u64) \<Rightarrow> request \<Rightarrow> Registry \<Rightarrow> (int \<times> string) \<times> Registry" where
  "handleSnapshotRoute droppedWrite req r =
    (if rq_path req = ''/v3/snapshot'' then
       (if rq_method req \<noteq> ''GET'' then (error_response statusMethodNotAllowed, r)
        else case Snapshot droppedWrite r of
          (Inl _, r) \<Rightarrow> (error_response statusInternalServerError, r)
        | (Inr snap, r) \<Rightarrow> ((statusOK, json_line False (snapshot_json snap)), r))
     else if rq_path req = ''/v3/quota_status'' then
       (if rq_method req \<noteq> ''GET'' then (error_response statusMethodNotAllowed, r)
        else ((statusOK, json_line False (status_json (get_QuotaStatus r))), r))
     else if rq_path req = ''/healthz'' then
       (if rq_method req \<noteq> ''GET'' then (error_response statusMethodNotAllowed, r)
        else if unhealthy r then ((statusServiceUnavailable, mustJSON (healthBody_json ''unhealthy'')), r)
        else ((statusOK, mustJSON (healthBody_json ''ok'')), r))
     else (error_response statusNotFound, r))"

section \<open>Properties\<close>

text \<open>What a snapshot reads of the writers.\<close>

definition losses :: "shared \<Rightarrow> nat \<Rightarrow> u64" where
  "losses s audit = aw_droppedWrite (sh_writers s audit)"

text \<open>C36. Losses can be forgotten: when the writer has lost records and no snapshot was taken since, shutting the
  service down (as every reload does) takes the writer out of the registry without raising the sticky bit, and
  the \<open>audit_dropped\<close> that a snapshot would have reported just before is false from then on, also after the next
  instance has attached its own writer.\<close>

theorem closeAudit_forgets_losses:
  assumes "srv_audit (ss_service st) = Some a" and "reg_audit (sh_registry (ss_shared st)) = Some a"
    and "\<not> reg_auditDroppedSticky (sh_registry (ss_shared st))" and "0 < losses (ss_shared st) a"
    and "closeAudit ul fuel st = Some st'" and "attach ul info fresh (srv, ss_shared st') = (None, srv', s')"
  shows "fst (auditDropped (losses (ss_shared st)) (sh_registry (ss_shared st))) \<and>
    \<not> fst (auditDropped (losses (ss_shared st')) (sh_registry (ss_shared st'))) \<and>
    \<not> fst (auditDropped (losses s') (sh_registry s'))"
proof -
  have r: "reg_audit (sh_registry (ss_shared st')) = None" "\<not> reg_auditDroppedSticky (sh_registry (ss_shared st'))"
    using assms(1,3,5) by (auto simp: closeAudit_def Let_def on_registry_def setAudit_def split: option.splits)
  have "\<not> reg_auditDroppedSticky (sh_registry s') \<and>
      (case reg_audit (sh_registry s') of None \<Rightarrow> True | Some f \<Rightarrow> losses s' f = 0)"
    using assms(6) r
    by (auto simp: attach_def on_registry_def setAudit_def configureQuota_def losses_def newAuditWriter_def new_writer_def
        Let_def split: option.splits sum.splits)
  then show ?thesis
    using assms(2,3,4) r by (auto simp: auditDropped_def auditWriterRef_def split: option.splits)
qed

definition demo_service :: Service where
  "demo_service = \<lparr>srv_tag = ''stats'', srv_options = demo_normal, srv_exporter = False, srv_quota = False, srv_audit = Some 0\<rparr>"

definition demo_system :: system_state where
  "demo_system = \<lparr>ss_service = demo_service, ss_shared = \<lparr>sh_registry = setAudit (Some 0) NewValidationRegistry,
      sh_writers = (\<lambda>_. (new_writer demo_config)\<lparr>aw_droppedWrite := 3\<rparr>)\<rparr>,
    ss_files = fs_world demo_file, ss_unix = demo_fs\<rparr>"

lemma demo_close: "\<exists>st'. closeAudit id 2 demo_system = Some st'"
proof -
  have ok: "writer_ok ((new_writer demo_config)\<lparr>aw_droppedWrite := 3\<rparr>)"
    using demo_config_ok by (simp add: writer_ok_def lru_ok_def files_wf_def new_writer_def config_ok_def gm_keys_def)
  from writer_close_ok [OF this, of 2 id "fs_world demo_file"] show ?thesis
    by (auto simp: closeAudit_def demo_system_def demo_service_def on_registry_def)
qed

theorem closeAudit_forgets_losses_witness:
  "\<exists>st'. closeAudit id 2 demo_system = Some st' \<and> fst (auditDropped (losses (ss_shared demo_system)) (sh_registry (ss_shared demo_system))) \<and>
    \<not> fst (auditDropped (losses (ss_shared st')) (sh_registry (ss_shared st')))"
proof -
  obtain st' where st': "closeAudit id 2 demo_system = Some st'" using demo_close by blast
  obtain s' where "attach id None 1 (demo_service, ss_shared st') = (None, demo_service, s')"
    by (simp add: attach_def demo_service_def demo_normal_def)
  from closeAudit_forgets_losses [OF _ _ _ _ st' this, of 0] st' show ?thesis
    by (simp add: demo_system_def demo_service_def setAudit_def NewValidationRegistry_def losses_def)
qed

text \<open>\<open>/healthz\<close> and the snapshot agree: right after a snapshot, \<open>/healthz\<close> is 503 exactly when that snapshot
  showed one of the three bits that forbid billing; a lossy audit alone leaves it at 200, and asking changes
  nothing.\<close>

theorem healthz_agrees:
  assumes "handleSnapshotRoute dw req r = ((statusOK, body), r')" and "rq_path req = ''/v3/snapshot''"
    and "rq_path hreq = ''/healthz''" and "rq_method hreq = ''GET''"
  shows "\<exists>snap. body = json_line False (snapshot_json snap) \<and>
    fst (fst (handleSnapshotRoute dw hreq r')) = (if he_CounterOverflow (sn_Health snap) \<or>
      he_SequenceOverflow (sn_Health snap) \<or> he_IdentityLimitReached (sn_Health snap) then statusServiceUnavailable else statusOK) \<and>
    snd (handleSnapshotRoute dw hreq r') = r'"
proof -
  from assms(1,2) obtain snap where s: "Snapshot dw r = (Inr snap, r')" "body = json_line False (snapshot_json snap)"
    by (auto simp: handleSnapshotRoute_def error_response_def status_defs split: if_splits prod.splits sum.splits)
  have "unhealthy r' \<longleftrightarrow> he_CounterOverflow (sn_Health snap) \<or> he_SequenceOverflow (sn_Health snap) \<or>
      he_IdentityLimitReached (sn_Health snap)"
    using s(1) by (auto simp: Snapshot_def Let_def nextSequence_def auditDropped_def unhealthy_def
        split: if_splits prod.splits option.splits)
  then show ?thesis using s(2) assms(3,4) by (intro exI [of _ snap]) (simp add: handleSnapshotRoute_def)
qed

theorem healthz_agrees_witness:
  "fst (fst (handleSnapshotRoute (\<lambda>_. 0) \<lparr>rq_method = ''GET'', rq_path = ''/healthz'', rq_body = []\<rparr>
    (snd (handleSnapshotRoute (\<lambda>_. 0) \<lparr>rq_method = ''GET'', rq_path = ''/v3/snapshot'', rq_body = []\<rparr>
      (NewValidationRegistry\<lparr>reg_validationOnly := False, reg_counterOverflow := True\<rparr>))))) = 503"
proof -
  let ?req = "\<lparr>rq_method = ''GET'', rq_path = ''/v3/snapshot'', rq_body = []\<rparr>"
  let ?hreq = "\<lparr>rq_method = ''GET'', rq_path = ''/healthz'', rq_body = []\<rparr>"
  let ?r = "NewValidationRegistry\<lparr>reg_validationOnly := False, reg_counterOverflow := True\<rparr>"
  obtain body r' where run: "handleSnapshotRoute (\<lambda>_. 0) ?req ?r = ((statusOK, body), r')" and bad: "reg_counterOverflow r'"
    by (simp add: handleSnapshotRoute_def Snapshot_def Let_def nextSequence_def auditDropped_def NewValidationRegistry_def
        max_u64_def auditWriterRef_def)
  from healthz_agrees [OF run, of ?hreq] have "fst (fst (handleSnapshotRoute (\<lambda>_. 0) ?hreq r')) \<in> {statusServiceUnavailable, statusOK}"
    by auto
  moreover have "fst (fst (handleSnapshotRoute (\<lambda>_. 0) ?hreq r')) = statusServiceUnavailable"
    using bad by (simp add: handleSnapshotRoute_def unhealthy_def)
  ultimately show ?thesis using run by (simp add: statusServiceUnavailable_def)
qed

lemma unix_closeAudit: "closeAudit ul fuel st = Some st' \<Longrightarrow> ss_unix st' = ss_unix st \<and>
    srv_audit (ss_service st') = None \<and> (srv_audit (ss_service st) \<noteq> None \<longrightarrow> reg_audit (sh_registry (ss_shared st')) = None)"
  by (auto simp: closeAudit_def Let_def on_registry_def setAudit_def split: option.splits)

lemma locks_close: "ux_locks (lockedListener_Close path fs) = remove1 (lock_path path) (ux_locks fs)"
  by (simp add: lockedListener_Close_def unlock_def)

lemma locks_listenUnix:
  "listenUnix env path mode grp fs = (None, fs') \<Longrightarrow> ux_locks fs' = lock_path path # ux_locks fs"
  "listenUnix env path mode grp fs = (Some e, fs') \<Longrightarrow> ux_locks fs' = ux_locks fs"
  using listenUnix_bound [of env path mode grp fs fs']
    listenUnix_one [where env = env and path = path and mode = mode and grp = grp and fs = fs] by (blast, auto)



end
