(* ===== verification/Validate.thy ===== *)
theory Validate
  imports Reconcile Options Go_Base64
begin

text \<open>
  The checks of \<open>validate.go\<close> on a decoded configuration, before anything is started. The records
  \<open>ListenOptions\<close> to \<open>BoxOptions\<close> hold the fields these checks read of the option types of the upstream
  package; \<open>build\<close> is its \<open>Addr.Build\<close>, which yields the default for an address that was left out.
\<close>

section \<open>The options that are read\<close>

record ListenOptions =
  lo_Listen :: "addr option"
  lo_ListenPort :: u16
  lo_Detour :: string

record VLESSInboundOptions =
  vl_Listen :: ListenOptions
  vl_Users :: "string list"

record ShadowsocksUser =
  ssu_Name :: string
  ssu_Password :: string

record ShadowsocksInboundOptions =
  ss_Listen :: ListenOptions
  ss_Method :: string
  ss_Users :: "ShadowsocksUser list"
  ss_Destinations :: "string list"
  ss_Managed :: bool

datatype inbound_options =
  VLESS VLESSInboundOptions
| Shadowsocks ShadowsocksInboundOptions
| OtherInbound

record Inbound =
  ib_Type :: string
  ib_Tag :: string
  ib_Options :: inbound_options

datatype service_options = UserStats Options | OtherService

record ServiceEntry =
  sv_Type :: string
  sv_Tag :: string
  sv_Options :: service_options

record Rule =
  ru_Type :: string
  ru_DefaultAction :: string
  ru_LogicalAction :: string

record Experimental =
  ex_ClashAPI :: bool
  ex_V2RayListen :: "string option"

record BoxOptions =
  bo_Services :: "ServiceEntry list"
  bo_Inbounds :: "Inbound list"
  bo_Route :: "Rule list option"
  bo_NetworkNamespaces :: "string list"
  bo_Experimental :: "Experimental option"

record Config =
  cfg_NodeID :: string
  cfg_ListenPath :: string
  cfg_QuotaListenPath :: string
  cfg_MaxIdentities :: i64
  cfg_DrainTimeout :: i64
  cfg_Inbounds :: "InboundSpec list"
  cfg_ServiceTag :: string
  cfg_AccessLogEnabled :: bool

datatype validate_error =
  SsmApi nat
| ManyUserStats
| BadServiceOptions nat
| BadOptions option_error
| ApiService nat
| ClashApi
| V2RayApi
| RuleAction nat string
| NetworkNamespaces
| InboundTagEmpty nat
| InboundTagDuplicate string
| NoSuchInbound string
| TypeNotAllowed string
| NoUsers string
| UnknownOptions string
| ListenPortZero string
| DetourSet string
| NameEmpty nat
| NameDuplicate string
| ManagedShadowsocks string
| RelayShadowsocks string
| SingleUserShadowsocks string
| MethodNotAllowed string
| PasswordNotBase64 nat
| KeyLength nat nat
| KeyDuplicate nat nat
| NotRegistered nat

definition TypeUserStats :: string where "TypeUserStats = ''user_stats''"

definition ssMethodAllowlist :: "string list" where
  "ssMethodAllowlist = [''2022-blake3-aes-128-gcm'', ''2022-blake3-aes-256-gcm'']"

definition defaultListenAddr :: addr where
  "defaultListenAddr = V4 (be_word [127, 0, 0, 1])"

definition inboundTypeAllowlist :: "string list" where
  "inboundTypeAllowlist = [''vless'', ''shadowsocks'']"

section \<open>Inbounds\<close>

definition validateListen :: "(addr option \<Rightarrow> addr \<Rightarrow> addr) \<Rightarrow> string \<Rightarrow> ListenOptions \<Rightarrow> InboundSpec \<Rightarrow>
    validate_error + InboundSpec" where
  "validateListen build tag listen spec =
    (if lo_ListenPort listen = 0 then Inl (ListenPortZero tag)
     else if lo_Detour listen \<noteq> [] then Inl (DetourSet tag)
     else Inr (spec\<lparr>is_Listen := addr_String (build (lo_Listen listen) defaultListenAddr),
                  is_ListenPort := lo_ListenPort listen\<rparr>))"

definition validateBillingName :: "nat \<Rightarrow> string \<Rightarrow> string list \<Rightarrow> validate_error option" where
  "validateBillingName index name seen =
    (if name = [] then Some (NameEmpty index)
     else case validateToken ''users[].name'' name of
       Some e \<Rightarrow> Some (BadOptions e)
     | None \<Rightarrow> if name \<in> set seen then Some (NameDuplicate name) else None)"

fun vless_users :: "nat \<Rightarrow> string list \<Rightarrow> string list \<Rightarrow> validate_error + string list" where
  "vless_users index [] seen = Inr (rev seen)"
| "vless_users index (name # names) seen =
    (case validateBillingName index name seen of
       Some e \<Rightarrow> Inl e
     | None \<Rightarrow> vless_users (Suc index) names (name # seen))"

definition keyLength :: "string \<Rightarrow> nat" where
  "keyLength m = (if m = ''2022-blake3-aes-256-gcm'' then 32 else 16)"

text \<open>\<open>seen\<close> holds the names accepted so far, last first, and \<open>keys\<close> the fingerprints with their index.\<close>

fun ss_users :: "nat \<Rightarrow> nat \<Rightarrow> ShadowsocksUser list \<Rightarrow> string list \<Rightarrow> (string \<times> nat) list \<Rightarrow>
    validate_error + string list" where
  "ss_users len index [] seen keys = Inr (rev seen)"
| "ss_users len index (user # users) seen keys =
    (case validateBillingName index (ssu_Name user) seen of
       Some e \<Rightarrow> Inl e
     | None \<Rightarrow>
    (case std_decode std_alphabet (ssu_Password user) of
       None \<Rightarrow> Inl (PasswordNotBase64 index)
     | Some key \<Rightarrow>
       if length key \<noteq> len then Inl (KeyLength index (length key))
       else case map_of keys (hex_EncodeToString key) of
         Some previous \<Rightarrow> Inl (KeyDuplicate index previous)
       | None \<Rightarrow> ss_users len (Suc index) users (ssu_Name user # seen) ((hex_EncodeToString key, index) # keys)))"

definition validateShadowsocks :: "(addr option \<Rightarrow> addr \<Rightarrow> addr) \<Rightarrow> string \<Rightarrow> ShadowsocksInboundOptions \<Rightarrow>
    InboundSpec \<Rightarrow> validate_error + InboundSpec" where
  "validateShadowsocks build tag typed spec =
    (case validateListen build tag (ss_Listen typed) spec of
       Inl e \<Rightarrow> Inl e
     | Inr spec \<Rightarrow>
     if ss_Managed typed then Inl (ManagedShadowsocks tag)
     else if ss_Destinations typed \<noteq> [] then Inl (RelayShadowsocks tag)
     else if ss_Users typed = [] then Inl (SingleUserShadowsocks tag)
     else if ss_Method typed \<notin> set ssMethodAllowlist then Inl (MethodNotAllowed tag)
     else case ss_users (keyLength (ss_Method typed)) 0 (ss_Users typed) [] [] of
       Inl e \<Rightarrow> Inl e
     | Inr users \<Rightarrow> Inr (spec\<lparr>is_Users := users\<rparr>))"

definition validateBilledInbound :: "(addr option \<Rightarrow> addr \<Rightarrow> addr) \<Rightarrow> Inbound \<Rightarrow> validate_error + InboundSpec" where
  "validateBilledInbound build item =
    (if ib_Type item \<notin> set inboundTypeAllowlist then Inl (TypeNotAllowed (ib_Tag item))
     else case validateToken ''inbound tag'' (ib_Tag item) of
       Some e \<Rightarrow> Inl (BadOptions e)
     | None \<Rightarrow>
     let spec = \<lparr>is_Tag = ib_Tag item, is_Type = ib_Type item, is_Listen = [], is_ListenPort = 0, is_Users = []\<rparr> in
     (case ib_Options item of
       VLESS typed \<Rightarrow>
         (case validateListen build (ib_Tag item) (vl_Listen typed) spec of
            Inl e \<Rightarrow> Inl e
          | Inr spec \<Rightarrow>
            if vl_Users typed = [] then Inl (NoUsers (ib_Tag item))
            else case vless_users 0 (vl_Users typed) [] of
              Inl e \<Rightarrow> Inl e
            | Inr users \<Rightarrow> Inr (spec\<lparr>is_Users := users\<rparr>))
     | Shadowsocks typed \<Rightarrow> validateShadowsocks build (ib_Tag item) typed spec
     | OtherInbound \<Rightarrow> Inl (UnknownOptions (ib_Tag item))))"

section \<open>Services, rules and the whole configuration\<close>

fun find_stats :: "nat \<Rightarrow> ServiceEntry list \<Rightarrow> (Options \<times> string) option \<Rightarrow>
    validate_error + (Options \<times> string) option" where
  "find_stats index [] found = Inr found"
| "find_stats index (item # items) found =
    (if sv_Type item = ''ssm-api'' then Inl (SsmApi index)
     else if sv_Type item \<noteq> TypeUserStats then find_stats (Suc index) items found
     else if found \<noteq> None then Inl ManyUserStats
     else case sv_Options item of
       OtherService \<Rightarrow> Inl (BadServiceOptions index)
     | UserStats typed \<Rightarrow> find_stats (Suc index) items (Some (typed, sv_Tag item)))"

definition findStatsService :: "(nat \<Rightarrow> nat) \<Rightarrow> (string \<Rightarrow> bool) \<Rightarrow> bool \<Rightarrow> BoxOptions \<Rightarrow>
    validate_error + (Options \<times> string) option" where
  "findStatsService ul group_known swap options =
    (case find_stats 0 (bo_Services options) None of
       Inl e \<Rightarrow> Inl e
     | Inr None \<Rightarrow> Inr None
     | Inr (Some (found, tag)) \<Rightarrow>
        (case normalize ul group_known swap found of Inl e \<Rightarrow> Inl (BadOptions e) | Inr found \<Rightarrow> Inr (Some (found, tag))))"

fun api_service :: "nat \<Rightarrow> ServiceEntry list \<Rightarrow> validate_error option" where
  "api_service index [] = None"
| "api_service index (item # items) =
    (if sv_Type item = ''api'' then Some (ApiService index) else api_service (Suc index) items)"

definition checkUpstreamLedgerExclusive :: "BoxOptions \<Rightarrow> validate_error option" where
  "checkUpstreamLedgerExclusive options =
    (case api_service 0 (bo_Services options) of
       Some e \<Rightarrow> Some e
     | None \<Rightarrow>
       (case bo_Experimental options of
          None \<Rightarrow> None
        | Some ex \<Rightarrow>
          if ex_ClashAPI ex then Some ClashApi
          else (case ex_V2RayListen ex of
            None \<Rightarrow> None
          | Some listen \<Rightarrow> if listen \<noteq> [] then Some V2RayApi else None)))"

definition rule_action :: "Rule \<Rightarrow> string" where
  "rule_action rule = (if ru_Type rule = ''logical'' then ru_LogicalAction rule else ru_DefaultAction rule)"

fun rule_actions :: "nat \<Rightarrow> Rule list \<Rightarrow> validate_error option" where
  "rule_actions index [] = None"
| "rule_actions index (rule # rules) =
    (if rule_action rule \<in> {''reject'', ''hijack-dns''} then Some (RuleAction index (rule_action rule))
     else rule_actions (Suc index) rules)"

definition checkRouteActions :: "BoxOptions \<Rightarrow> validate_error option" where
  "checkRouteActions options = (case bo_Route options of None \<Rightarrow> None | Some rules \<Rightarrow> rule_actions 0 rules)"

fun inbounds_by_tag :: "nat \<Rightarrow> Inbound list \<Rightarrow> Inbound gomap \<Rightarrow> validate_error + Inbound gomap" where
  "inbounds_by_tag index [] m = Inr m"
| "inbounds_by_tag index (item # items) m =
    (if ib_Tag item = [] then Inl (InboundTagEmpty index)
     else if gm_get m (ib_Tag item) \<noteq> None then Inl (InboundTagDuplicate (ib_Tag item))
     else inbounds_by_tag (Suc index) items (gm_put (ib_Tag item) item m))"

fun billed_specs :: "(addr option \<Rightarrow> addr \<Rightarrow> addr) \<Rightarrow> Inbound gomap \<Rightarrow> string list \<Rightarrow>
    validate_error + InboundSpec list" where
  "billed_specs build m [] = Inr []"
| "billed_specs build m (tag # tags) =
    (case gm_get m tag of
       None \<Rightarrow> Inl (NoSuchInbound tag)
     | Some item \<Rightarrow>
       (case validateBilledInbound build item of
          Inl e \<Rightarrow> Inl e
        | Inr spec \<Rightarrow> map_sum id ((#) spec) (billed_specs build m tags)))"

definition Validate :: "(nat \<Rightarrow> nat) \<Rightarrow> (string \<Rightarrow> bool) \<Rightarrow> bool \<Rightarrow> (addr option \<Rightarrow> addr \<Rightarrow> addr) \<Rightarrow>
    BoxOptions \<Rightarrow> validate_error + Config option" where
  "Validate ul group_known swap build options =
    (case findStatsService ul group_known swap options of
       Inl e \<Rightarrow> Inl e
     | Inr None \<Rightarrow> Inr None
     | Inr (Some (stats, tag)) \<Rightarrow>
     (case checkUpstreamLedgerExclusive options of Some e \<Rightarrow> Inl e | None \<Rightarrow>
     (case checkRouteActions options of Some e \<Rightarrow> Inl e | None \<Rightarrow>
     if bo_NetworkNamespaces options \<noteq> [] then Inl NetworkNamespaces
     else case inbounds_by_tag 0 (bo_Inbounds options) [] of Inl e \<Rightarrow> Inl e
     | Inr m \<Rightarrow>
     (case billed_specs build m (opt_Inbounds stats) of Inl e \<Rightarrow> Inl e
     | Inr specs \<Rightarrow> Inr (Some
        \<lparr>cfg_NodeID = opt_NodeID stats, cfg_ListenPath = opt_ListenPath stats,
         cfg_QuotaListenPath = (case opt_QuotaControl stats of None \<Rightarrow> [] | Some q \<Rightarrow> qo_ListenPath q),
         cfg_MaxIdentities = opt_MaxIdentities stats, cfg_DrainTimeout = opt_DrainTimeout stats,
         cfg_Inbounds = specs, cfg_ServiceTag = tag,
         cfg_AccessLogEnabled = (opt_AccessLog stats \<noteq> None)\<rparr>)))))"

text \<open>The scan of the raw text sees the service types only; \<open>probe\<close> is what decoding them gave.\<close>

fun scan_types :: "nat \<Rightarrow> bool \<Rightarrow> string list \<Rightarrow> validate_error option" where
  "scan_types index registered [] = None"
| "scan_types index registered (ty # tys) =
    (if ty = ''ssm-api'' then Some (SsmApi index)
     else if ty = ''api'' then Some (ApiService index)
     else if ty = TypeUserStats \<and> \<not> registered then Some (NotRegistered index)
     else scan_types (Suc index) registered tys)"

definition ScanRawConfig :: "string list option \<Rightarrow> bool \<Rightarrow> validate_error option" where
  "ScanRawConfig probe registered =
    (case probe of None \<Rightarrow> None | Some tys \<Rightarrow> scan_types 0 registered tys)"

datatype reload_error = NodeIDChanged | ListenPathChanged | QuotaListenPathChanged

definition CheckReloadInvariant :: "Config option \<Rightarrow> Config option \<Rightarrow> reload_error option" where
  "CheckReloadInvariant process next =
    (case (process, next) of
       (Some p, Some q) \<Rightarrow>
         if cfg_NodeID p \<noteq> cfg_NodeID q then Some NodeIDChanged
         else if cfg_ListenPath p \<noteq> cfg_ListenPath q then Some ListenPathChanged
         else if cfg_QuotaListenPath p \<noteq> cfg_QuotaListenPath q then Some QuotaListenPathChanged
         else None
     | _ \<Rightarrow> None)"

section \<open>What an accepted configuration looks like\<close>

lemma validateBillingName_None:
  "validateBillingName index name seen = None \<longleftrightarrow> ok_token name \<and> name \<notin> set seen"
  using validateToken_None [of "''users[].name''" name]
  by (cases "validateToken ''users[].name'' name") (auto simp: validateBillingName_def ok_token_def)

lemma vless_users_Inr:
  "vless_users index names seen = Inr users \<longleftrightarrow> users = rev seen @ names \<and> list_all ok_token names \<and>
    distinct names \<and> set names \<inter> set seen = {}"
proof (induction index names seen rule: vless_users.induct)
  case (2 index name names seen)
  then show ?case
    using validateBillingName_None [of index name seen] by (cases "validateBillingName index name seen") auto
qed auto

lemma ss_users_Inr:
  assumes "ss_users len index users seen keys = Inr names"
  shows "names = rev seen @ map ssu_Name users \<and> list_all ok_token (map ssu_Name users) \<and>
    distinct (map ssu_Name users) \<and> set (map ssu_Name users) \<inter> set seen = {} \<and>
    (\<exists>ks. map (std_decode std_alphabet \<circ> ssu_Password) users = map Some ks \<and> distinct ks \<and>
      list_all (\<lambda>k. length k = len) ks \<and> hex_EncodeToString ` set ks \<inter> fst ` set keys = {})"
  using assms
proof (induction len index users seen keys rule: ss_users.induct)
  case (2 len index user users seen keys)
  from "2.prems" have ok: "ok_token (ssu_Name user)" "ssu_Name user \<notin> set seen"
    using validateBillingName_None [of index "ssu_Name user" seen] by (auto split: option.splits)
  from "2.prems" obtain key where key: "std_decode std_alphabet (ssu_Password user) = Some key" "length key = len"
      "map_of keys (hex_EncodeToString key) = None"
    and rest: "ss_users len (Suc index) users (ssu_Name user # seen) ((hex_EncodeToString key, index) # keys) = Inr names"
    by (auto split: option.splits if_splits)
  have nb: "validateBillingName index (ssu_Name user) seen = None" using ok by (simp add: validateBillingName_None)
  from "2.IH" [OF nb key(1) _ key(3) rest] key(2) obtain ks where
    ih: "names = rev (ssu_Name user # seen) @ map ssu_Name users" "list_all ok_token (map ssu_Name users)"
      "distinct (map ssu_Name users)" "set (map ssu_Name users) \<inter> set (ssu_Name user # seen) = {}"
    and ks: "map (std_decode std_alphabet \<circ> ssu_Password) users = map Some ks" "distinct ks"
      "list_all (\<lambda>k. length k = len) ks"
      "hex_EncodeToString ` set ks \<inter> fst ` set ((hex_EncodeToString key, index) # keys) = {}"
    by blast
  have "key \<notin> set ks" using ks(4) by (auto simp: hex_inject)
  moreover have "hex_EncodeToString key \<notin> fst ` set keys" using key(3) by (simp add: map_of_eq_None_iff)
  ultimately have ex: "\<exists>ks. map (std_decode std_alphabet \<circ> ssu_Password) (user # users) = map Some ks \<and> distinct ks \<and>
      list_all (\<lambda>k. length k = len) ks \<and> hex_EncodeToString ` set ks \<inter> fst ` set keys = {}"
    using ks key by (intro exI [of _ "key # ks"]) (auto simp: hex_inject)
  show ?case using ih ok by (intro conjI ex) auto
qed auto

definition ok_spec :: "InboundSpec \<Rightarrow> bool" where
  "ok_spec spec \<longleftrightarrow> is_Type spec \<in> set inboundTypeAllowlist \<and> ok_token (is_Tag spec) \<and> is_ListenPort spec \<noteq> 0 \<and>
    is_Users spec \<noteq> [] \<and> distinct (is_Users spec) \<and> list_all ok_token (is_Users spec)"

lemma validateListen_Inr:
  "validateListen build tag listen spec = Inr spec' \<Longrightarrow> is_Tag spec' = is_Tag spec \<and> is_Type spec' = is_Type spec \<and>
    is_ListenPort spec' \<noteq> 0"
  by (auto simp: validateListen_def split: if_splits)

lemma validateShadowsocks_Inr:
  assumes "validateShadowsocks build tag typed spec = Inr spec'"
  shows "is_Tag spec' = is_Tag spec \<and> is_Type spec' = is_Type spec \<and> is_ListenPort spec' \<noteq> 0 \<and>
    is_Users spec' = map ssu_Name (ss_Users typed) \<and> is_Users spec' \<noteq> [] \<and>
    ss_users (keyLength (ss_Method typed)) 0 (ss_Users typed) [] [] = Inr (is_Users spec')"
  using assms validateListen_Inr [of build tag "ss_Listen typed" spec]
  by (auto simp: validateShadowsocks_def split: sum.splits if_splits dest: ss_users_Inr)

lemma validateBilledInbound_Inr:
  assumes "validateBilledInbound build item = Inr spec"
  shows "ok_spec spec \<and> is_Tag spec = ib_Tag item"
proof -
  let ?spec = "\<lparr>is_Tag = ib_Tag item, is_Type = ib_Type item, is_Listen = [], is_ListenPort = 0, is_Users = []\<rparr>"
  have ok: "ib_Type item \<in> set inboundTypeAllowlist" "ok_token (ib_Tag item)"
    using assms validateToken_None [of "''inbound tag''" "ib_Tag item"]
    by (auto simp: validateBilledInbound_def split: if_splits option.splits)
  show ?thesis
  proof (cases "ib_Options item")
    case (VLESS typed)
    have eq: "validateBilledInbound build item = (case validateListen build (ib_Tag item) (vl_Listen typed) ?spec of
        Inl e \<Rightarrow> Inl e
      | Inr spec \<Rightarrow> if vl_Users typed = [] then Inl (NoUsers (ib_Tag item))
          else case vless_users 0 (vl_Users typed) [] of
            Inl e \<Rightarrow> Inl e | Inr users \<Rightarrow> Inr (spec\<lparr>is_Users := users\<rparr>))"
      using ok VLESS by (simp add: validateBilledInbound_def validateToken_None [THEN iffD2])
    then obtain s where s: "validateListen build (ib_Tag item) (vl_Listen typed) ?spec = Inr s"
      using assms by (cases "validateListen build (ib_Tag item) (vl_Listen typed) ?spec") auto
    with eq assms obtain users where "vless_users 0 (vl_Users typed) [] = Inr users" "vl_Users typed \<noteq> []"
        "spec = s\<lparr>is_Users := users\<rparr>"
      by (cases "vless_users 0 (vl_Users typed) []") (auto split: if_splits)
    then show ?thesis using ok validateListen_Inr [OF s] by (auto simp: ok_spec_def vless_users_Inr)
  next
    case (Shadowsocks typed)
    with assms ok have "validateShadowsocks build (ib_Tag item) typed ?spec = Inr spec"
      by (simp add: validateBilledInbound_def Let_def validateToken_None [THEN iffD2])
    from validateShadowsocks_Inr [OF this] show ?thesis
      using ok by (auto simp: ok_spec_def dest: ss_users_Inr)
  next
    case OtherInbound
    with assms ok show ?thesis by (simp add: validateBilledInbound_def validateToken_None [THEN iffD2])
  qed
qed

definition tags_ok :: "Inbound gomap \<Rightarrow> bool" where
  "tags_ok m \<longleftrightarrow> (\<forall>t i. gm_get m t = Some i \<longrightarrow> ib_Tag i = t)"

lemma tags_ok_put: "tags_ok m \<Longrightarrow> tags_ok (gm_put (ib_Tag item) item m)"
  by (auto simp: tags_ok_def go_map)

lemma inbounds_by_tag_Inr: "inbounds_by_tag index items m = Inr m' \<Longrightarrow> tags_ok m \<Longrightarrow> tags_ok m'"
  by (induction index items m rule: inbounds_by_tag.induct) (auto simp: tags_ok_put split: if_splits)

lemma billed_specs_Inr:
  assumes "billed_specs build m tags = Inr specs" and "tags_ok m"
  shows "map is_Tag specs = tags \<and> list_all ok_spec specs"
  using assms
proof (induction build m tags arbitrary: specs rule: billed_specs.induct)
  case (2 build m tag tags)
  from "2.prems" obtain item spec rest where i: "gm_get m tag = Some item" "validateBilledInbound build item = Inr spec"
      "billed_specs build m tags = Inr rest" "specs = spec # rest"
    by (auto split: option.splits sum.splits simp: map_sum_def)
  have "ib_Tag item = tag" using i(1) "2.prems"(2) by (simp add: tags_ok_def)
  with "2.IH" [OF i(1,2) i(3) "2.prems"(2)] validateBilledInbound_Inr [OF i(2)] i(4) show ?case by simp
qed auto

lemma find_stats_Inr:
  "find_stats index items found = Inr res \<Longrightarrow> (\<forall>s\<in>set items. sv_Type s \<noteq> ''ssm-api'') \<and>
    length (filter (\<lambda>s. sv_Type s = TypeUserStats) items) + (if found = None then 0 else 1) \<le> 1 \<and>
    (res = None \<longleftrightarrow> found = None \<and> filter (\<lambda>s. sv_Type s = TypeUserStats) items = [])"
  by (induction index items found rule: find_stats.induct)
    (auto split: if_splits service_options.splits simp: TypeUserStats_def)

lemma api_service_None: "api_service index items = None \<longleftrightarrow> (\<forall>s\<in>set items. sv_Type s \<noteq> ''api'')"
  by (induction index items rule: api_service.induct) auto

lemma rule_actions_None:
  "rule_actions index rules = None \<longleftrightarrow> (\<forall>r\<in>set rules. rule_action r \<notin> {''reject'', ''hijack-dns''})"
  by (induction index rules rule: rule_actions.induct) auto

lemma Validate_parts:
  assumes "Validate ul group_known swap build o' = Inr (Some cfg)"
  obtains stats tag where "find_stats 0 (bo_Services o') None = Inr (Some stats)"
    "normalize ul group_known swap (fst stats) = Inr tag"
    "checkUpstreamLedgerExclusive o' = None" "checkRouteActions o' = None" "bo_NetworkNamespaces o' = []"
    "map is_Tag (cfg_Inbounds cfg) = opt_Inbounds tag" "list_all ok_spec (cfg_Inbounds cfg)"
    "cfg_NodeID cfg = opt_NodeID tag" "cfg_ListenPath cfg = opt_ListenPath tag"
    "cfg_MaxIdentities cfg = opt_MaxIdentities tag"
proof -
  from assms obtain s t stats m specs where
    "find_stats 0 (bo_Services o') None = Inr (Some (s, t))" "normalize ul group_known swap s = Inr stats"
    "checkUpstreamLedgerExclusive o' = None" "checkRouteActions o' = None" "bo_NetworkNamespaces o' = []"
    "inbounds_by_tag 0 (bo_Inbounds o') [] = Inr m" "billed_specs build m (opt_Inbounds stats) = Inr specs"
    "cfg_Inbounds cfg = specs" "cfg_NodeID cfg = opt_NodeID stats" "cfg_ListenPath cfg = opt_ListenPath stats"
    "cfg_MaxIdentities cfg = opt_MaxIdentities stats"
    by (auto simp: Validate_def findStatsService_def split: sum.splits option.splits if_splits)
  moreover from this have "map is_Tag specs = opt_Inbounds stats \<and> list_all ok_spec specs"
    using inbounds_by_tag_Inr [of 0 "bo_Inbounds o'" "[]" m] billed_specs_Inr [of build m "opt_Inbounds stats" specs]
    by (simp add: tags_ok_def)
  ultimately show ?thesis using that [of "(s, t)" stats] by auto
qed

section \<open>Properties\<close>

text \<open>C30. What validation lets through can be billed: at most one \<open>user_stats\<close> service and no service or
  route action that would take bytes around the tracker; the billed inbounds are distinct, have a type of the
  allow list, a printable tag, a port, and a non-empty list of distinct printable user names; node id, socket
  path and identity limit are in range.\<close>

theorem Validate_type:
  assumes "Validate ul group_known swap build options = Inr (Some cfg)"
  shows "distinct (map is_Tag (cfg_Inbounds cfg)) \<and> cfg_Inbounds cfg \<noteq> [] \<and> list_all ok_spec (cfg_Inbounds cfg) \<and>
    ok_token (cfg_NodeID cfg) \<and> ok_path (cfg_ListenPath cfg) \<and> cfg_MaxIdentities cfg > 0 \<and>
    list_all (\<lambda>s. sv_Type s \<noteq> ''ssm-api'' \<and> sv_Type s \<noteq> ''api'') (bo_Services options) \<and>
    length (filter (\<lambda>s. sv_Type s = TypeUserStats) (bo_Services options)) = 1 \<and>
    list_all (\<lambda>r. rule_action r \<notin> {''reject'', ''hijack-dns''}) (case bo_Route options of None \<Rightarrow> [] | Some rs \<Rightarrow> rs) \<and>
    bo_NetworkNamespaces options = []"
proof -
  obtain s stats where
    find: "find_stats 0 (bo_Services options) None = Inr (Some s)"
    and norm: "normalize ul group_known swap (fst s) = Inr stats"
    and ledger: "checkUpstreamLedgerExclusive options = None" and routes: "checkRouteActions options = None"
    and netns: "bo_NetworkNamespaces options = []"
    and tags: "map is_Tag (cfg_Inbounds cfg) = opt_Inbounds stats" and specs: "list_all ok_spec (cfg_Inbounds cfg)"
    and cfg: "cfg_NodeID cfg = opt_NodeID stats" "cfg_ListenPath cfg = opt_ListenPath stats"
      "cfg_MaxIdentities cfg = opt_MaxIdentities stats"
    using Validate_parts [OF assms] by metis
  have ok: "ok_options ul group_known stats" using norm by (rule normalized_ok)
  have "length (filter (\<lambda>s. sv_Type s = TypeUserStats) (bo_Services options)) = 1"
      "\<forall>s\<in>set (bo_Services options). sv_Type s \<noteq> ''ssm-api''"
    using find_stats_Inr [OF find] by (auto simp: le_Suc_eq)
  moreover have "\<forall>s\<in>set (bo_Services options). sv_Type s \<noteq> ''api''"
    using ledger by (auto simp: checkUpstreamLedgerExclusive_def api_service_None split: option.splits)
  moreover have "list_all (\<lambda>r. rule_action r \<notin> {''reject'', ''hijack-dns''}) (case bo_Route options of None \<Rightarrow> [] | Some rs \<Rightarrow> rs)"
    using routes by (auto simp: checkRouteActions_def rule_actions_None list_all_iff split: option.splits)
  moreover have "cfg_Inbounds cfg \<noteq> []" using ok tags by (auto simp: ok_options_def)
  ultimately show ?thesis
    using ok tags specs cfg netns by (simp add: ok_options_def list_all_iff)
qed

definition demo_box :: BoxOptions where
  "demo_box = \<lparr>bo_Services = [\<lparr>sv_Type = ''user_stats'', sv_Tag = ''stats'', sv_Options = UserStats demo_options\<rparr>],
    bo_Inbounds = [\<lparr>ib_Type = ''vless'', ib_Tag = ''in'', ib_Options = VLESS
      \<lparr>vl_Listen = \<lparr>lo_Listen = None, lo_ListenPort = 443, lo_Detour = []\<rparr>, vl_Users = [''bob'', ''al'']\<rparr>\<rparr>],
    bo_Route = None, bo_NetworkNamespaces = [], bo_Experimental = None\<rparr>"

definition demo_build :: "addr option \<Rightarrow> addr \<Rightarrow> addr" where
  "demo_build a d = (case a of None \<Rightarrow> d | Some a \<Rightarrow> a)"

definition demo_cfg :: Config where
  "demo_cfg = \<lparr>cfg_NodeID = ''n'', cfg_ListenPath = ''/s'', cfg_QuotaListenPath = ''/q'', cfg_MaxIdentities = 4096,
    cfg_DrainTimeout = 0, cfg_Inbounds = [\<lparr>is_Tag = ''in'', is_Type = ''vless'',
      is_Listen = addr_String defaultListenAddr, is_ListenPort = 443, is_Users = [''bob'', ''al'']\<rparr>],
    cfg_ServiceTag = ''stats'', cfg_AccessLogEnabled = False\<rparr>"

lemma Validate_demo: "Validate ul g False demo_build demo_box = Inr (Some demo_cfg)"
  by (simp add: Validate_def findStatsService_def demo_box_def TypeUserStats_def normalize_demo
      checkUpstreamLedgerExclusive_def checkRouteActions_def demo_normal_def go_map validateBilledInbound_def
      inboundTypeAllowlist_def validateToken_def validateListen_def validateBillingName_def demo_build_def demo_cfg_def)

theorem Validate_type_witness: "list_all ok_spec (cfg_Inbounds demo_cfg) \<and> cfg_MaxIdentities demo_cfg > 0"
  using Validate_type [OF Validate_demo] by blast

text \<open>No two users of a Shadowsocks inbound share a key: the passwords of an accepted inbound decode to
  pairwise different byte strings of exactly the length the method wants, so the upstream table keyed by the
  hash of the key cannot merge two billing identities.\<close>

theorem shadowsocks_keys_distinct:
  assumes "validateShadowsocks build tag typed spec = Inr spec'"
  shows "\<exists>keys. map (std_decode std_alphabet \<circ> ssu_Password) (ss_Users typed) = map Some keys \<and>
    distinct keys \<and> list_all (\<lambda>k. length k = keyLength (ss_Method typed)) keys \<and>
    is_Users spec' = map ssu_Name (ss_Users typed) \<and> distinct (is_Users spec')"
  using validateShadowsocks_Inr [OF assms] by (auto dest: ss_users_Inr)

definition demo_ss :: ShadowsocksInboundOptions where
  "demo_ss = \<lparr>ss_Listen = \<lparr>lo_Listen = None, lo_ListenPort = 8388, lo_Detour = []\<rparr>,
    ss_Method = ''2022-blake3-aes-128-gcm'',
    ss_Users = [\<lparr>ssu_Name = ''bob'', ssu_Password = ''AAAAAAAAAAAAAAAAAAAAAA==''\<rparr>,
      \<lparr>ssu_Name = ''al'', ssu_Password = ''AAAAAAAAAAAAAAAAAAAAAQ==''\<rparr>],
    ss_Destinations = [], ss_Managed = False\<rparr>"

lemma demo_ss_users: "ss_users 16 0 (ss_Users demo_ss) [] [] = Inr [''bob'', ''al'']"
  by code_simp

theorem shadowsocks_keys_distinct_witness:
  "\<exists>spec'. validateShadowsocks demo_build ''ss'' demo_ss \<lparr>is_Tag = ''ss'', is_Type = ''shadowsocks'', is_Listen = [],
      is_ListenPort = 0, is_Users = []\<rparr> = Inr spec' \<and> distinct (is_Users spec')"
proof -
  have "\<exists>spec'. validateShadowsocks demo_build ''ss'' demo_ss \<lparr>is_Tag = ''ss'', is_Type = ''shadowsocks'',
      is_Listen = [], is_ListenPort = 0, is_Users = []\<rparr> = Inr spec'"
    using demo_ss_users
    by (simp add: validateShadowsocks_def validateListen_def demo_ss_def ssMethodAllowlist_def keyLength_def)
  then show ?thesis using shadowsocks_keys_distinct by blast
qed

lemma validated_books:
  assumes "Validate ul group_known swap build options = Inr (Some cfg)"
    and "NewRegistry (cfg_NodeID cfg) (cfg_MaxIdentities cfg) raw nowMs = Inr r"
  shows "lineage (snd (Reconcile (cfg_Inbounds cfg) True r)) tag name =
      (if listed (cfg_Inbounds cfg) tag name then Some ((newUser name)\<lparr>usr_active := True\<rparr>) else None) \<and>
    (fst (Reconcile (cfg_Inbounds cfg) True r) = None \<longleftrightarrow>
      (\<Sum>spec\<leftarrow>cfg_Inbounds cfg. int (length (is_Users spec))) \<le> cfg_MaxIdentities cfg \<and>
      countAllLineages (snd (Reconcile (cfg_Inbounds cfg) True r)) \<le> wrap64 (cfg_MaxIdentities cfg * 4))"
proof -
  obtain stats where tags: "map is_Tag (cfg_Inbounds cfg) = opt_Inbounds stats"
      "ok_options ul group_known stats" and specs: "list_all ok_spec (cfg_Inbounds cfg)"
    using Validate_parts [OF assms(1)] normalized_ok by metis
  then have dist: "distinct (map is_Tag (cfg_Inbounds cfg))" by (simp add: ok_options_def)
  have r: "reg_inbounds r = []" "reg_maxIdentities r = cfg_MaxIdentities cfg"
      "reg_maxTotalLineages r = wrap64 (cfg_MaxIdentities cfg * 4)"
    using assms(2) by (auto simp: NewRegistry_def split: if_splits option.splits)
  have "(\<Sum>spec\<leftarrow>cfg_Inbounds cfg. int (card (set (is_Users spec)))) =
      (\<Sum>spec\<leftarrow>cfg_Inbounds cfg. int (length (is_Users spec)))"
    using specs by (intro arg_cong [of _ _ sum_list] map_cong) (auto simp: list_all_iff ok_spec_def distinct_card)
  then have active: "countActiveLineages (snd (Reconcile (cfg_Inbounds cfg) True r)) =
      (\<Sum>spec\<leftarrow>cfg_Inbounds cfg. int (length (is_Users spec)))"
    using countActive_reconciled [OF _ dist, of "reg_inbounds r"] r
    by (simp add: countActiveLineages_def wf_inbounds_def)
  have "lineage r tag name = None" using r by (simp add: lineage_inbound inbound_def)
  moreover have "fst (Reconcile (cfg_Inbounds cfg) True r) = None \<longleftrightarrow>
      countActiveLineages (snd (Reconcile (cfg_Inbounds cfg) True r)) \<le> cfg_MaxIdentities cfg \<and>
      countAllLineages (snd (Reconcile (cfg_Inbounds cfg) True r)) \<le> wrap64 (cfg_MaxIdentities cfg * 4)"
    using r by (auto simp: Reconcile_def Let_def countActiveLineages_def countAllLineages_def)
  ultimately show ?thesis
    using lineage_Reconciled [OF dist, of True r tag name] active by simp
qed

lemma validated_limit:
  assumes "Validate ul group_known swap build options = Inr (Some cfg)"
    and "NewRegistry (cfg_NodeID cfg) (cfg_MaxIdentities cfg) raw nowMs = Inr r"
    and "fst (Reconcile (cfg_Inbounds cfg) True r) = None"
  shows "(\<Sum>spec\<leftarrow>cfg_Inbounds cfg. int (length (is_Users spec))) \<le> cfg_MaxIdentities cfg"
  using validated_books [OF assms(1,2)] assms(3) by blast



fun reloads :: "Config \<Rightarrow> Config list \<Rightarrow> Config" where
  "reloads cfg [] = cfg"
| "reloads cfg (next # rest) =
    (if CheckReloadInvariant (Some cfg) (Some next) = None then reloads next rest else reloads cfg rest)"

text \<open>The reload check compares with the configuration the process runs with, and what it keeps fixed stays
  fixed for good: along any chain of accepted reloads, node id and both socket paths are those of the first
  configuration.\<close>

theorem reload_invariant:
  "cfg_NodeID (reloads cfg rest) = cfg_NodeID cfg \<and> cfg_ListenPath (reloads cfg rest) = cfg_ListenPath cfg \<and>
   cfg_QuotaListenPath (reloads cfg rest) = cfg_QuotaListenPath cfg"
  by (induction cfg rest rule: reloads.induct) (auto simp: CheckReloadInvariant_def split: if_splits)

end

