(* ===== verification/Run_Loop.thy ===== *)
theory Run_Loop
  imports Service Validate
begin

text \<open>
  The command, \<open>cmd/sing-box-plus/cmd_run.go\<close> and \<open>cmd_check.go\<close>: reading the configuration, the
  process-wide registry, reloads and shutdown. The upstream packages are arguments, collected in \<open>upstream\<close>:
  decoding and merging configurations, \<open>Addr.Build\<close>, and \<open>box.New\<close>, which is given the constructor of
  \<open>user_stats\<close> services and answers whether it built the box.
\<close>

section \<open>Reading the configuration\<close>

record upstream =
  up_probe :: "string \<Rightarrow> string list option"
  up_decode :: "string \<Rightarrow> BoxOptions option"
  up_merge :: "string \<Rightarrow> string option \<Rightarrow> string option"
  up_raw :: "string \<Rightarrow> string"
  up_build :: "addr option \<Rightarrow> addr \<Rightarrow> addr"
  up_new :: "BoxOptions \<Rightarrow> (Options \<Rightarrow> bool) \<Rightarrow> bool"
  up_start :: "BoxOptions \<Rightarrow> bool"

text \<open>What the process finds on disk: files, the input, and directories with names and whether each is one.\<close>

record disk =
  dk_file :: "string \<Rightarrow> string option"
  dk_stdin :: "string option"
  dk_dir :: "string \<Rightarrow> (string \<times> bool) list option"

record arguments =
  ag_configPaths :: "string list"
  ag_configDirectories :: "string list"
  ag_statsRegistered :: bool

record OptionsEntry =
  oe_content :: string
  oe_path :: string
  oe_options :: BoxOptions

datatype run_error =
  ReadFailed string
| ScanFailed string validate_error
| DecodeFailed string
| ReadDirFailed string
| MergeFailed string
| MergedInvalid
| ConfigInvalid validate_error
| RegistryFailed registry_error
| StatsRemoved
| ReloadRefused reload_error
| NewFailed
| StartFailed

definition readConfigAt :: "upstream \<Rightarrow> arguments \<Rightarrow> disk \<Rightarrow> string \<Rightarrow> run_error + OptionsEntry" where
  "readConfigAt up args dk path =
    (case (if path = ''stdin'' then dk_stdin dk else dk_file dk path) of
       None \<Rightarrow> Inl (ReadFailed path)
     | Some content \<Rightarrow>
       (case ScanRawConfig (up_probe up content) (ag_statsRegistered args) of
          Some e \<Rightarrow> Inl (ScanFailed path e)
        | None \<Rightarrow>
          (case up_decode up content of
             None \<Rightarrow> Inl (DecodeFailed path)
           | Some options \<Rightarrow> Inr \<lparr>oe_content = content, oe_path = path, oe_options = options\<rparr>)))"

fun read_all :: "upstream \<Rightarrow> arguments \<Rightarrow> disk \<Rightarrow> string list \<Rightarrow> run_error + OptionsEntry list" where
  "read_all up args dk [] = Inr []"
| "read_all up args dk (path # paths) =
    (case readConfigAt up args dk path of
       Inl e \<Rightarrow> Inl e
     | Inr entry \<Rightarrow> map_sum id ((#) entry) (read_all up args dk paths))"

text \<open>\<open>filepath.Join\<close> of a cleaned directory and a name.\<close>

definition join_path :: "string \<Rightarrow> string \<Rightarrow> string" where
  "join_path directory name = directory @ ''/'' @ name"

fun read_directories :: "upstream \<Rightarrow> arguments \<Rightarrow> disk \<Rightarrow> string list \<Rightarrow> run_error + OptionsEntry list" where
  "read_directories up args dk [] = Inr []"
| "read_directories up args dk (directory # directories) =
    (case dk_dir dk directory of
       None \<Rightarrow> Inl (ReadDirFailed directory)
     | Some entries \<Rightarrow>
       (case read_all up args dk (map (join_path directory \<circ> fst)
           (filter (\<lambda>(name, is_dir). suffix ''.json'' name \<and> \<not> is_dir) entries)) of
          Inl e \<Rightarrow> Inl e
        | Inr xs \<Rightarrow> map_sum id (\<lambda>ys. xs @ ys) (read_directories up args dk directories)))"

definition readConfig :: "upstream \<Rightarrow> arguments \<Rightarrow> disk \<Rightarrow> run_error + OptionsEntry list" where
  "readConfig up args dk =
    (case read_all up args dk (ag_configPaths args) of
       Inl e \<Rightarrow> Inl e
     | Inr xs \<Rightarrow> map_sum id (\<lambda>ys. sort_key oe_path (xs @ ys)) (read_directories up args dk (ag_configDirectories args)))"

fun merge_all :: "upstream \<Rightarrow> OptionsEntry list \<Rightarrow> string option \<Rightarrow> run_error + string option" where
  "merge_all up [] merged = Inr merged"
| "merge_all up (entry # entries) merged =
    (case up_merge up (up_raw up (oe_content entry)) merged of
       None \<Rightarrow> Inl (MergeFailed (oe_path entry))
     | Some m \<Rightarrow> merge_all up entries (Some m))"

definition mergeOptionsList :: "upstream \<Rightarrow> OptionsEntry list \<Rightarrow> run_error + BoxOptions" where
  "mergeOptionsList up entries =
    (if length entries = 1 then Inr (oe_options (hd entries))
     else case merge_all up entries None of
       Inl e \<Rightarrow> Inl e
     | Inr merged \<Rightarrow>
       (case up_decode up (case merged of None \<Rightarrow> [] | Some m \<Rightarrow> m) of
          None \<Rightarrow> Inl MergedInvalid
        | Some options \<Rightarrow> Inr options))"

definition readConfigAndMerge :: "upstream \<Rightarrow> arguments \<Rightarrow> disk \<Rightarrow> run_error + BoxOptions" where
  "readConfigAndMerge up args dk =
    (case readConfig up args dk of Inl e \<Rightarrow> Inl e | Inr entries \<Rightarrow> mergeOptionsList up entries)"

section \<open>The process-wide registry\<close>

text \<open>\<open>host\<close> holds what validation asks of the machine: folding of letters, groups, and map order.\<close>

record host =
  ho_lower :: "nat \<Rightarrow> nat"
  ho_group :: "string \<Rightarrow> bool"
  ho_swap :: bool

definition validate :: "upstream \<Rightarrow> host \<Rightarrow> BoxOptions \<Rightarrow> validate_error + Config option" where
  "validate up ho options = Validate (ho_lower ho) (ho_group ho) (ho_swap ho) (up_build up) options"

definition new_service :: "host \<Rightarrow> Registry option \<Rightarrow> Options \<Rightarrow> bool" where
  "new_service ho from_context options =
    (case NewService (ho_lower ho) (ho_group ho) (ho_swap ho) from_context [] options of Inl _ \<Rightarrow> False | Inr _ \<Rightarrow> True)"

record process =
  pr_registry :: "Registry option"
  pr_config :: "Config option"

definition prepareStats :: "upstream \<Rightarrow> host \<Rightarrow> string option \<Rightarrow> i64 \<Rightarrow> BoxOptions \<Rightarrow> run_error + process" where
  "prepareStats up ho random nowMs options =
    (case validate up ho options of
       Inl e \<Rightarrow> Inl (ConfigInvalid e)
     | Inr None \<Rightarrow> Inr \<lparr>pr_registry = None, pr_config = None\<rparr>
     | Inr (Some config) \<Rightarrow>
       (case NewRegistry (cfg_NodeID config) (cfg_MaxIdentities config) random nowMs of
          Inl e \<Rightarrow> Inl (RegistryFailed e)
        | Inr registry \<Rightarrow>
          (case Reconcile (cfg_Inbounds config) True registry of
             (Some e, _) \<Rightarrow> Inl (RegistryFailed e)
           | (None, registry) \<Rightarrow> Inr \<lparr>pr_registry = Some registry, pr_config = Some config\<rparr>)))"

definition reconcileStats :: "upstream \<Rightarrow> host \<Rightarrow> BoxOptions \<Rightarrow> process \<Rightarrow> run_error option \<times> process" where
  "reconcileStats up ho options p =
    (case pr_registry p of
       None \<Rightarrow> (None, p)
     | Some registry \<Rightarrow>
       (case validate up ho options of
          Inl e \<Rightarrow> (Some (ConfigInvalid e), p)
        | Inr None \<Rightarrow> (Some StatsRemoved, p)
        | Inr (Some config) \<Rightarrow>
          (case CheckReloadInvariant (pr_config p) (Some config) of
             Some e \<Rightarrow> (Some (ReloadRefused e), p)
           | None \<Rightarrow>
             (case Reconcile (cfg_Inbounds config) False registry of
                (Some e, registry) \<Rightarrow> (Some (RegistryFailed e), p\<lparr>pr_registry := Some registry\<rparr>)
              | (None, registry) \<Rightarrow> (None, \<lparr>pr_registry = Some registry, pr_config = Some config\<rparr>)))))"

definition check :: "upstream \<Rightarrow> host \<Rightarrow> arguments \<Rightarrow> disk \<Rightarrow> process \<Rightarrow> run_error option" where
  "check up ho args dk p =
    (case readConfigAndMerge up args dk of
       Inl e \<Rightarrow> Some e
     | Inr options \<Rightarrow>
       (case validate up ho options of
          Inl e \<Rightarrow> Some (ConfigInvalid e)
        | Inr config \<Rightarrow>
          (case CheckReloadInvariant (pr_config p) config of
             Some e \<Rightarrow> Some (ReloadRefused e)
           | None \<Rightarrow>
             if pr_config p \<noteq> None \<and> config = None then Some StatsRemoved
             else let from_context = (if pr_registry p = None \<and> config \<noteq> None then Some NewValidationRegistry else pr_registry p)
               in if up_new up options (new_service ho from_context) then None else Some NewFailed)))"

definition create :: "upstream \<Rightarrow> host \<Rightarrow> BoxOptions \<Rightarrow> process \<Rightarrow> run_error option \<times> process" where
  "create up ho options p =
    (case reconcileStats up ho options p of
       (Some e, p) \<Rightarrow> (Some e, p)
     | (None, p) \<Rightarrow>
       if \<not> up_new up options (new_service ho (pr_registry p)) then (Some NewFailed, p)
       else if \<not> up_start up options then (Some StartFailed, p)
       else (None, p))"

section \<open>Signals\<close>

text \<open>\<open>rs_exit\<close> is \<open>None\<close> while the process runs, then the error it ended with, if any. \<open>rs_box\<close> is the
  configuration of the box that serves.\<close>

record run_state =
  rs_process :: process
  rs_box :: BoxOptions
  rs_exit :: "run_error option option"
  rs_drained :: "bool option"

text \<open>A reload reads the disk twice: in \<open>check\<close>, and again once the old box is closed.\<close>

datatype os_signal = SigHup disk disk | SigTerm "(Registry \<times> i64) list" i64

definition drainBeforeClose :: "(Registry \<times> i64) list \<Rightarrow> i64 \<Rightarrow> process \<Rightarrow> bool option \<times> process" where
  "drainBeforeClose rounds nowNanos p =
    (case (pr_registry p, pr_config p) of
       (Some registry, Some config) \<Rightarrow>
         if cfg_DrainTimeout config \<le> 0 then (None, p)
         else (WaitDrained (nowNanos + cfg_DrainTimeout config) rounds, p\<lparr>pr_registry := Some (BeginDrain registry)\<rparr>)
     | _ \<Rightarrow> (None, p))"

fun on_signal :: "upstream \<Rightarrow> host \<Rightarrow> arguments \<Rightarrow> os_signal \<Rightarrow> run_state \<Rightarrow> run_state" where
  "on_signal up ho args (SigHup dk1 dk2) st =
    (if check up ho args dk1 (rs_process st) \<noteq> None then st
     else case readConfigAndMerge up args dk2 of
       Inl e \<Rightarrow> st\<lparr>rs_exit := Some (Some e)\<rparr>
     | Inr options \<Rightarrow>
       (case create up ho options (rs_process st) of
          (Some e, p) \<Rightarrow> st\<lparr>rs_process := p, rs_exit := Some (Some e)\<rparr>
        | (None, p) \<Rightarrow> st\<lparr>rs_process := p, rs_box := options\<rparr>))"
| "on_signal up ho args (SigTerm rounds now) st =
    (case drainBeforeClose rounds now (rs_process st) of
       (drained, p) \<Rightarrow> st\<lparr>rs_process := p, rs_drained := drained, rs_exit := Some None\<rparr>)"

fun run_signals :: "upstream \<Rightarrow> host \<Rightarrow> arguments \<Rightarrow> os_signal list \<Rightarrow> run_state \<Rightarrow> run_state" where
  "run_signals up ho args [] st = st"
| "run_signals up ho args (sig # sigs) st =
    (if rs_exit st \<noteq> None then st else run_signals up ho args sigs (on_signal up ho args sig st))"

definition run :: "upstream \<Rightarrow> host \<Rightarrow> arguments \<Rightarrow> disk \<Rightarrow> string option \<Rightarrow> i64 \<Rightarrow> os_signal list \<Rightarrow> run_error + run_state" where
  "run up ho args dk random nowMs sigs =
    (case readConfigAndMerge up args dk of
       Inl e \<Rightarrow> Inl e
     | Inr options \<Rightarrow>
       (case prepareStats up ho random nowMs options of
          Inl e \<Rightarrow> Inl e
        | Inr p \<Rightarrow>
          (case create up ho options p of
             (Some e, _) \<Rightarrow> Inl e
           | (None, p) \<Rightarrow> Inr (run_signals up ho args sigs
               \<lparr>rs_process = p, rs_box = options, rs_exit = None, rs_drained = None\<rparr>))))"

section \<open>Laws\<close>

lemma Reconcile_envelope [simp]:
  "reg_nodeID (snd (Reconcile specs startup r)) = reg_nodeID r"
  "reg_runtimeID (snd (Reconcile specs startup r)) = reg_runtimeID r"
  "reg_startedAtUnixMs (snd (Reconcile specs startup r)) = reg_startedAtUnixMs r"
  "reg_sequence (snd (Reconcile specs startup r)) = reg_sequence r"
  "reg_validationOnly (snd (Reconcile specs startup r)) = reg_validationOnly r"
  by (simp_all add: Reconcile_def Let_def)

lemma Reconcile_reload: "fst (Reconcile specs False r) = None"
  by (simp add: Reconcile_def Let_def)

lemma new_service_registry:
  "reg_nodeID r' = reg_nodeID r \<Longrightarrow> reg_validationOnly r' = reg_validationOnly r \<Longrightarrow>
    new_service ho (Some r') = new_service ho (Some r)"
  by (rule ext) (simp add: new_service_def NewService_def NodeID_def IsValidationOnly_def split: sum.split)

lemma new_service_None [simp]: "\<not> new_service ho None options"
  by (simp add: new_service_def NewService_def split: sum.split)

lemma check_None:
  "check up ho args dk p = None \<Longrightarrow> \<exists>options config. readConfigAndMerge up args dk = Inr options \<and>
    validate up ho options = Inr config \<and> CheckReloadInvariant (pr_config p) config = None \<and>
    (pr_config p = None \<or> config \<noteq> None) \<and>
    up_new up options (new_service ho (if pr_registry p = None \<and> config \<noteq> None then Some NewValidationRegistry else pr_registry p))"
  by (auto simp: check_def Let_def split: sum.splits option.splits if_splits)

lemma reconcileStats_ok:
  assumes "pr_registry p = Some r" and "validate up ho options = Inr (Some config)"
    and "CheckReloadInvariant (pr_config p) (Some config) = None"
  shows "reconcileStats up ho options p =
    (None, \<lparr>pr_registry = Some (snd (Reconcile (cfg_Inbounds config) False r)), pr_config = Some config\<rparr>)"
  using assms Reconcile_reload [of "cfg_Inbounds config" r]
  by (cases "Reconcile (cfg_Inbounds config) False r") (auto simp: reconcileStats_def)

lemma reconcileStats_registry:
  assumes "pr_registry p = Some r" and "reconcileStats up ho options p = (e, p')"
  shows "pr_registry p' = Some r \<or> (\<exists>specs. pr_registry p' = Some (snd (Reconcile specs False r)))"
proof (cases "\<exists>config. validate up ho options = Inr (Some config) \<and> CheckReloadInvariant (pr_config p) (Some config) = None")
  case True
  then show ?thesis using assms reconcileStats_ok by fastforce
next
  case False
  then have "p' = p" using assms by (auto simp: reconcileStats_def split: sum.splits option.splits)
  then show ?thesis using assms(1) by simp
qed

lemma create_process: "create up ho options p = (e, p') \<Longrightarrow> \<exists>e'. reconcileStats up ho options p = (e', p')"
  by (auto simp: create_def split: prod.splits option.splits if_splits)

lemma find_stats_entry:
  "find_stats index items found = Inr (Some (typed, tag)) \<Longrightarrow> found = Some (typed, tag) \<or>
    (\<exists>item\<in>set items. sv_Type item = TypeUserStats \<and> sv_Options item = UserStats typed)"
  by (induction index items found rule: find_stats.induct)
    (auto split: if_splits service_options.splits)

section \<open>Properties\<close>

text \<open>C27. A reload is refused or it happens, statistics never kill the process: when the process was started with
  statistics, the disk is the same at both readings and the new box can start, the process serves on after
  \<open>SIGHUP\<close>, whatever the configuration says.\<close>

theorem reload_survives:
  assumes "pr_registry (rs_process st) = Some r" and "pr_config (rs_process st) = Some cfg" and "rs_exit st = None"
    and "\<And>options. readConfigAndMerge up args dk = Inr options \<Longrightarrow> up_start up options"
  shows "rs_exit (on_signal up ho args (SigHup dk dk) st) = None \<and>
    (check up ho args dk (rs_process st) \<noteq> None \<longrightarrow> on_signal up ho args (SigHup dk dk) st = st)"
proof (cases "check up ho args dk (rs_process st)")
  case None
  with assms(1,2) obtain o' config where c: "readConfigAndMerge up args dk = Inr o'" "validate up ho o' = Inr (Some config)"
      "CheckReloadInvariant (pr_config (rs_process st)) (Some config) = None" "up_new up o' (new_service ho (Some r))"
    using check_None [OF None] by auto
  let ?r = "snd (Reconcile (cfg_Inbounds config) False r)"
  have "new_service ho (Some ?r) = new_service ho (Some r)" by (rule new_service_registry) simp_all
  with c assms have "create up ho o' (rs_process st) = (None, \<lparr>pr_registry = Some ?r, pr_config = Some config\<rparr>)"
    using reconcileStats_ok [OF assms(1) c(2,3)] by (simp add: create_def)
  with None c assms(3) show ?thesis by simp
qed (use assms(3) in simp)

definition demo_upstream :: upstream where
  "demo_upstream = \<lparr>up_probe = (\<lambda>_. None), up_decode = (\<lambda>_. Some demo_box), up_merge = (\<lambda>a b. Some a), up_raw = id,
    up_build = demo_build,
    up_new = (\<lambda>options new. list_all (\<lambda>item. case sv_Options item of UserStats typed \<Rightarrow> new typed | OtherService \<Rightarrow> True)
      (bo_Services options)),
    up_start = (\<lambda>_. True)\<rparr>"

definition demo_host :: host where
  "demo_host = \<lparr>ho_lower = id, ho_group = (\<lambda>_. False), ho_swap = False\<rparr>"

definition demo_args :: arguments where
  "demo_args = \<lparr>ag_configPaths = [''config.json''], ag_configDirectories = [], ag_statsRegistered = True\<rparr>"

definition demo_disk :: disk where
  "demo_disk = \<lparr>dk_file = (\<lambda>_. Some ''{}''), dk_stdin = None, dk_dir = (\<lambda>_. None)\<rparr>"

lemma demo_read: "readConfigAndMerge demo_upstream demo_args demo_disk = Inr demo_box"
  by (simp add: readConfigAndMerge_def readConfig_def demo_args_def readConfigAt_def demo_disk_def demo_upstream_def
      ScanRawConfig_def mergeOptionsList_def)

lemma demo_validate: "validate demo_upstream demo_host demo_box = Inr (Some demo_cfg)"
  using Validate_demo by (simp add: validate_def demo_upstream_def demo_host_def)

definition demo_running :: run_state where
  "demo_running = \<lparr>rs_process = \<lparr>pr_registry = Some (demo_registry\<lparr>reg_nodeID := ''n''\<rparr>), pr_config = Some demo_cfg\<rparr>,
    rs_box = demo_box, rs_exit = None, rs_drained = None\<rparr>"

theorem reload_survives_witness:
  "rs_exit (on_signal demo_upstream demo_host demo_args (SigHup demo_disk demo_disk) demo_running) = None"
  using reload_survives [of demo_running _ demo_cfg demo_upstream demo_args demo_disk demo_host]
  by (simp add: demo_running_def demo_upstream_def)

text \<open>C34. A reload that adds statistics kills the process: if the process was started without a \<open>user_stats\<close>
  service and the new configuration is valid and has one, \<open>check\<close> accepts it (it lends the constructor a
  registry made for validation), the old box is closed, and building the new one fails, because the process has
  no registry. What is used of \<open>box.New\<close> is that it fails when the constructor of a service fails.\<close>

theorem reload_adding_stats_kills:
  assumes "pr_registry (rs_process st) = None" and "pr_config (rs_process st) = None"
    and "readConfigAndMerge up args dk = Inr options" and "validate up ho options = Inr (Some cfg)"
    and "up_new up options (new_service ho (Some NewValidationRegistry))"
    and box_New: "\<And>item typed new. up_new up options new \<Longrightarrow> item \<in> set (bo_Services options) \<Longrightarrow>
      sv_Type item = TypeUserStats \<Longrightarrow> sv_Options item = UserStats typed \<Longrightarrow> new typed"
  shows "check up ho args dk (rs_process st) = None \<and>
    rs_exit (on_signal up ho args (SigHup dk dk) st) = Some (Some NewFailed)"
proof -
  have check: "check up ho args dk (rs_process st) = None"
    using assms(1-5) by (simp add: check_def CheckReloadInvariant_def)
  obtain typed tag where "find_stats 0 (bo_Services options) None = Inr (Some (typed, tag))"
    using assms(4) by (auto simp: validate_def Validate_def findStatsService_def split: sum.splits option.splits)
  then obtain item where "item \<in> set (bo_Services options)" "sv_Type item = TypeUserStats" "sv_Options item = UserStats typed"
    using find_stats_entry by blast
  then have "\<not> up_new up options (new_service ho None)" using box_New new_service_None by blast
  then show ?thesis using check assms(1,3) by (simp add: create_def reconcileStats_def)
qed

theorem reload_adding_stats_kills_witness:
  "rs_exit (on_signal demo_upstream demo_host demo_args (SigHup demo_disk demo_disk)
    \<lparr>rs_process = \<lparr>pr_registry = None, pr_config = None\<rparr>, rs_box = demo_box, rs_exit = None, rs_drained = None\<rparr>) = Some (Some NewFailed)"
proof -
  let ?st = "\<lparr>rs_process = \<lparr>pr_registry = None, pr_config = None\<rparr>, rs_box = demo_box, rs_exit = None, rs_drained = None\<rparr>"
  have new: "up_new demo_upstream demo_box (new_service demo_host (Some NewValidationRegistry))"
    by (simp add: demo_upstream_def demo_box_def new_service_def NewService_def demo_host_def normalize_demo
        IsValidationOnly_def NewValidationRegistry_def)
  have "new typed" if "up_new demo_upstream demo_box new" "item \<in> set (bo_Services demo_box)" "sv_Options item = UserStats typed"
    for new item typed
    using that by (auto simp: demo_upstream_def list_all_iff split: service_options.splits)
  then have "check demo_upstream demo_host demo_args demo_disk (rs_process ?st) = None \<and>
      rs_exit (on_signal demo_upstream demo_host demo_args (SigHup demo_disk demo_disk) ?st) = Some (Some NewFailed)"
    by (intro reload_adding_stats_kills [OF _ _ demo_read demo_validate new]) (simp_all only: run_state.simps process.simps)
  then show ?thesis by (rule conjunct2)
qed

text \<open>C12. The books survive every signal: whatever a reload reads, and however it ends, the process keeps its node
  id, runtime id, start time and sequence number, and every lineage keeps its account.\<close>

theorem signals_keep_books:
  assumes "pr_registry (rs_process st) = Some r"
  shows "\<exists>r'. pr_registry (rs_process (on_signal up ho args sig st)) = Some r' \<and> reg_nodeID r' = reg_nodeID r \<and>
    reg_runtimeID r' = reg_runtimeID r \<and> reg_startedAtUnixMs r' = reg_startedAtUnixMs r \<and> reg_sequence r' = reg_sequence r \<and>
    (\<forall>tag name u. lineage r tag name = Some u \<longrightarrow> (\<exists>b. lineage r' tag name = Some (u\<lparr>usr_active := b\<rparr>)))"
proof -
  have same: "\<exists>b. lineage r tag name = Some (u\<lparr>usr_active := b\<rparr>)" if "lineage r tag name = Some u" for tag name u
    using that by (intro exI [of _ "usr_active u"]) simp
  show ?thesis
  proof (cases sig)
    case (SigHup dk1 dk2)
    then have "pr_registry (rs_process (on_signal up ho args sig st)) = Some r \<or>
        (\<exists>specs. pr_registry (rs_process (on_signal up ho args sig st)) = Some (snd (Reconcile specs False r)))"
      using assms reconcileStats_registry [OF assms] create_process
      by (auto split: sum.splits prod.splits option.splits) (metis)+
    then show ?thesis using same lineage_kept [of r] by (metis Reconcile_envelope(1-4))
  next
    case (SigTerm rounds now)
    have "lineage (BeginDrain r) = lineage r" by (intro ext) (simp add: BeginDrain_def lineage_inbound inbound_def)
    then show ?thesis using SigTerm assms same
      by (auto simp: drainBeforeClose_def BeginDrain_def split: option.splits)
  qed
qed

theorem signals_keep_books_witness:
  "\<exists>r'. pr_registry (rs_process (on_signal demo_upstream demo_host demo_args (SigHup demo_disk demo_disk) demo_running)) = Some r' \<and>
    reg_runtimeID r' = reg_runtimeID demo_registry"
  using signals_keep_books [of demo_running _ demo_upstream demo_host demo_args "SigHup demo_disk demo_disk"]
  by (force simp: demo_running_def)

text \<open>The \<open>check\<close> command does not see the identity limit: a valid configuration with more users than
  \<open>max_identities\<close> passes \<open>check\<close>, and \<open>run\<close> refuses to start with it.\<close>

theorem check_misses_limit:
  assumes "readConfigAndMerge up args dk = Inr options" and "validate up ho options = Inr (Some cfg)"
    and "up_new up options (new_service ho (Some NewValidationRegistry))"
    and "cfg_MaxIdentities cfg < (\<Sum>spec\<leftarrow>cfg_Inbounds cfg. int (length (is_Users spec)))"
  shows "check up ho args dk \<lparr>pr_registry = None, pr_config = None\<rparr> = None \<and> (\<exists>e. run up ho args dk random nowMs sigs = Inl e)"
proof -
  have "\<exists>e. prepareStats up ho random nowMs options = Inl e"
  proof (cases "NewRegistry (cfg_NodeID cfg) (cfg_MaxIdentities cfg) random nowMs")
    case (Inr r)
    obtain e r' where "Reconcile (cfg_Inbounds cfg) True r = (e, r')" by force
    moreover from this have "e \<noteq> None"
      using validated_limit [OF assms(2) [unfolded validate_def] Inr] assms(4) by (metis fst_conv not_less)
    ultimately show ?thesis using assms(2) Inr by (auto simp: prepareStats_def)
  qed (simp add: prepareStats_def assms(2))
  then show ?thesis using assms(1-3) by (auto simp: run_def check_def CheckReloadInvariant_def)
qed

definition crowded_options :: Options where
  "crowded_options = demo_options\<lparr>opt_MaxIdentities := 1\<rparr>"

definition crowded_box :: BoxOptions where
  "crowded_box = demo_box\<lparr>bo_Services :=
    [\<lparr>sv_Type = ''user_stats'', sv_Tag = ''stats'', sv_Options = UserStats crowded_options\<rparr>]\<rparr>"

definition crowded_upstream :: upstream where
  "crowded_upstream = demo_upstream\<lparr>up_decode := \<lambda>_. Some crowded_box\<rparr>"

lemma normalize_crowded: "normalize ul g False crowded_options = Inr (demo_normal\<lparr>opt_MaxIdentities := 1\<rparr>)"
  by (simp add: normalize_def crowded_options_def demo_options_def demo_normal_def validateToken_def validateSocketPath_def
      maxUnixPathBytes_def or_default_def option_defaults check_socket_def normalize_parts_def
      QuotaControl_normalize_def QuotaActionAllow_def QuotaActionDeny_def)

lemma Validate_crowded: "Validate ul g False demo_build crowded_box = Inr (Some (demo_cfg\<lparr>cfg_MaxIdentities := 1\<rparr>))"
  by (simp add: Validate_def findStatsService_def crowded_box_def demo_box_def TypeUserStats_def normalize_crowded
      checkUpstreamLedgerExclusive_def checkRouteActions_def demo_normal_def go_map validateBilledInbound_def
      inboundTypeAllowlist_def validateToken_def validateListen_def validateBillingName_def demo_build_def demo_cfg_def)

theorem check_misses_limit_witness:
  "check crowded_upstream demo_host demo_args demo_disk \<lparr>pr_registry = None, pr_config = None\<rparr> = None \<and>
    (\<exists>e. run crowded_upstream demo_host demo_args demo_disk (Some ''abcdefghijklmnop'') 5 [] = Inl e)"
proof (rule check_misses_limit [where options = crowded_box and cfg = "demo_cfg\<lparr>cfg_MaxIdentities := 1\<rparr>"])
  show "readConfigAndMerge crowded_upstream demo_args demo_disk = Inr crowded_box"
    by (simp add: readConfigAndMerge_def readConfig_def demo_args_def readConfigAt_def demo_disk_def demo_upstream_def
        crowded_upstream_def ScanRawConfig_def mergeOptionsList_def)
  show "validate crowded_upstream demo_host crowded_box = Inr (Some (demo_cfg\<lparr>cfg_MaxIdentities := 1\<rparr>))"
    using Validate_crowded by (simp add: validate_def crowded_upstream_def demo_upstream_def demo_host_def)
  show "up_new crowded_upstream crowded_box (new_service demo_host (Some NewValidationRegistry))"
    by (simp add: crowded_upstream_def demo_upstream_def crowded_box_def new_service_def NewService_def demo_host_def
        normalize_crowded IsValidationOnly_def NewValidationRegistry_def)
qed (simp add: demo_cfg_def)

end
