(* ===== verification/Go_Float.thy ===== *)
theory Go_Float
  imports Go_Prelude "HOL-Library.Log_Nat"
begin

text \<open>
  The part of Go's \<open>float64\<close> that byte estimates use: the conversion of a positive integer, the quotient of two
  positive numbers, \<open>math.Ceil\<close> (of a negative number it is the negated floor) and the conversion back. A positive \<open>float64\<close> is a mantissa and a binary
  exponent; every operation rounds the exact result to 53 bits, half to even. Numbers are below \<open>2 ^ 64\<close> here, so
  that neither overflow nor denormal numbers occur.
\<close>

section \<open>Operations\<close>

type_synonym f64 = "nat \<times> int"

definition round_half_even :: "nat \<Rightarrow> nat \<Rightarrow> nat" where
  "round_half_even a b =
    (let q = a div b; r = a mod b in if 2 * r < b \<or> 2 * r = b \<and> even q then q else Suc q)"

text \<open>The \<open>float64\<close> nearest to a quotient of integers: the exponent is chosen so that the mantissa has 53 bits.\<close>

definition f64_quot :: "nat \<Rightarrow> nat \<Rightarrow> f64" where
  "f64_quot n d =
    (if n = 0 then (0, 0)
     else let k = int (floorlog 2 n) - int (floorlog 2 d);
              k = (if n * 2 ^ nat (- k) < d * 2 ^ nat k then k - 1 else k);
              e = k - 52
       in (round_half_even (n * 2 ^ nat (- e)) (d * 2 ^ nat e), e))"

definition f64_of :: "nat \<Rightarrow> f64" where
  "f64_of n = f64_quot n 1"

definition f64_div :: "f64 \<Rightarrow> f64 \<Rightarrow> f64" where
  "f64_div x y = (let e = snd x - snd y in f64_quot (fst x * 2 ^ nat e) (fst y * 2 ^ nat (- e)))"

definition f64_ceil :: "f64 \<Rightarrow> nat" where
  "f64_ceil x =
    (if snd x \<ge> 0 then fst x * 2 ^ nat (snd x) else (fst x + 2 ^ nat (- snd x) - 1) div 2 ^ nat (- snd x))"

definition f64_floor :: "f64 \<Rightarrow> nat" where
  "f64_floor x = (if snd x \<ge> 0 then fst x * 2 ^ nat (snd x) else fst x div 2 ^ nat (- snd x))"

text \<open>\<open>int64\<close> of a number that does not fit is left to the machine by the language; this is amd64's answer.\<close>

definition f64_to_i64 :: "nat \<Rightarrow> i64" where
  "f64_to_i64 n = (if n < 2 ^ 63 then int n else - (2 ^ 63))"

section \<open>Rounding\<close>

lemma round_half_even_le: "a \<le> i * b \<Longrightarrow> 0 < b \<Longrightarrow> round_half_even a b \<le> i"
proof (cases "a div b = i")
  case True
  assume "a \<le> i * b" "0 < b"
  then have "a mod b = 0"
    using True div_mult_mod_eq [of a b] by (metis add_le_same_cancel1 le_zero_eq mult.commute)
  then show ?thesis using True \<open>0 < b\<close> by (simp add: round_half_even_def)
next
  case False
  assume "a \<le> i * b" "0 < b"
  then have "a div b < i" using False by (metis div_le_mono le_neq_implies_less nonzero_mult_div_cancel_right nat_less_le)
  then show ?thesis by (simp add: round_half_even_def Let_def)
qed

lemma div_ge: "i * b \<le> a \<Longrightarrow> 0 < b \<Longrightarrow> i \<le> a div b" for a b i :: nat
  by (metis div_le_mono nonzero_mult_div_cancel_right not_gr_zero)

lemma round_half_even_ge: "i * b \<le> a \<Longrightarrow> 0 < b \<Longrightarrow> i \<le> round_half_even a b"
  using div_ge [of i b a] by (auto simp: round_half_even_def Let_def)

lemma round_half_even_gt: "(2 * i + 1) * b < 2 * a \<Longrightarrow> 0 < b \<Longrightarrow> i < round_half_even a b"
proof -
  assume less: "(2 * i + 1) * b < 2 * a" and pos: "0 < b"
  then have "i * b \<le> a" by (simp add: algebra_simps)
  then have ge: "i \<le> a div b" using pos by (rule div_ge)
  show ?thesis
  proof (cases "i = a div b")
    case True
    have "2 * a = 2 * i * b + 2 * (a mod b)" using True by (metis div_mult_mod_eq add_mult_distrib2 mult.assoc)
    with less have "b < 2 * (a mod b)" by (simp add: algebra_simps)
    then show ?thesis using True by (simp add: round_half_even_def Let_def)
  qed (use ge in \<open>auto simp: round_half_even_def Let_def\<close>)
qed

lemma round_half_even_exact: "0 < b \<Longrightarrow> round_half_even (i * b) b = i"
  by (simp add: round_half_even_def)

text \<open>The exponent puts the mantissa between \<open>2 ^ 52\<close> and \<open>2 ^ 53\<close>.\<close>

lemma shift_le: "c * (d * 2 ^ nat e) \<le> n * 2 ^ nat (- e) \<longleftrightarrow> real c * real d * 2 powi e \<le> real n"
proof (cases "e \<ge> 0")
  case True
  then have "real (c * (d * 2 ^ nat e)) = real c * real d * 2 powi e" by (simp add: power_int_def)
  then show ?thesis using True by (simp only: of_nat_le_iff [symmetric, where ?'a = real]) simp
next
  case False
  then have "2 powi e = inverse ((2::real) ^ nat (- e))" by (simp add: power_int_def power_one_over inverse_eq_divide)
  then have inv: "2 powi e * (2::real) ^ nat (- e) = 1" by simp
  have "real c * real d * 2 powi e \<le> real n \<longleftrightarrow>
      real c * real d * 2 powi e * 2 ^ nat (- e) \<le> real n * 2 ^ nat (- e)"
    by (simp add: mult_le_cancel_right)
  also have "real c * real d * 2 powi e * 2 ^ nat (- e) = real (c * d)" using inv by (simp add: mult.assoc)
  also have "real n * 2 ^ nat (- e) = real (n * 2 ^ nat (- e))" by simp
  finally show ?thesis using False by (simp only: of_nat_le_iff) simp
qed

lemma powi_nat: "0 < a \<Longrightarrow> 2 powi (int a - 1) \<le> real n \<longleftrightarrow> 2 ^ (a - 1) \<le> n"
    "real n < 2 powi int a \<longleftrightarrow> n < 2 ^ a"
proof -
  assume "0 < a"
  then have "2 powi (int a - 1) = real (2 ^ (a - 1))" by (simp add: power_int_def nat_diff_distrib')
  then show "2 powi (int a - 1) \<le> real n \<longleftrightarrow> 2 ^ (a - 1) \<le> n" by (simp only: of_nat_le_iff)
next
  have "2 powi int a = real (2 ^ a)" by (simp add: power_int_def)
  then show "real n < 2 powi int a \<longleftrightarrow> n < 2 ^ a" by (simp only: of_nat_less_iff)
qed

lemma f64_quot_scaled:
  assumes "0 < n" and "0 < d"
  obtains e where "f64_quot n d = (round_half_even (n * 2 ^ nat (- e)) (d * 2 ^ nat e), e)"
    and "2 ^ 52 * (d * 2 ^ nat e) \<le> n * 2 ^ nat (- e)" and "n * 2 ^ nat (- e) < 2 ^ 53 * (d * 2 ^ nat e)"
proof -
  let ?a = "floorlog 2 n" and ?b = "floorlog 2 d"
  define j where "j = int ?a - int ?b"
  define k where "k = (if n * 2 ^ nat (- j) < d * 2 ^ nat j then j - 1 else j)"
  have ab: "?a \<noteq> 0" "?b \<noteq> 0" using assms by (simp_all add: floorlog_eq_zero_iff)
  have bounds: "2 ^ (?a - 1) \<le> n" "n < 2 ^ ?a" "2 ^ (?b - 1) \<le> d" "d < 2 ^ ?b"
    using floorlog_bounds [of n 2] floorlog_bounds [of d 2] assms by auto
  have n: "2 powi (int ?a - 1) \<le> real n" "real n < 2 powi int ?a"
    and d: "2 powi (int ?b - 1) \<le> real d" "real d < 2 powi int ?b"
    using bounds ab by (simp_all add: powi_nat)
  have low: "real d * 2 powi (j - 1) \<le> real n"
  proof -
    have "real d * 2 powi (j - 1) \<le> 2 powi int ?b * 2 powi (j - 1)" using d(2) by simp
    also have "\<dots> = 2 powi (int ?b + (j - 1))" by (rule power_int_add [symmetric]) simp
    also have "\<dots> = 2 powi (int ?a - 1)" by (simp add: j_def)
    finally show ?thesis using n(1) by simp
  qed
  have high: "real n < real d * 2 powi (j + 1)"
  proof -
    have "real n < 2 powi int ?a" by (rule n)
    also have "2 powi int ?a = 2 powi (int ?b - 1) * (2::real) powi (j + 1)" by (simp add: j_def flip: power_int_add)
    also have "\<dots> \<le> real d * 2 powi (j + 1)" using d(1) by simp
    finally show ?thesis .
  qed
  have pick: "n * 2 ^ nat (- j) < d * 2 ^ nat j \<longleftrightarrow> real n < real d * 2 powi j"
    using shift_le [of 1 d j n] by auto
  have k: "real d * 2 powi k \<le> real n" "real n < real d * 2 powi (k + 1)"
    using low high pick by (auto simp: k_def not_less)
  have "2 ^ 52 * (2::real) powi (k - 52) = 2 powi k" "2 ^ 53 * (2::real) powi (k - 52) = 2 powi (k + 1)"
    using power_int_add [of "2::real" 52 "k - 52"] power_int_add [of "2::real" 53 "k - 52"] by (simp_all add: add.commute)
  then have "2 ^ 52 * (d * 2 ^ nat (k - 52)) \<le> n * 2 ^ nat (- (k - 52))"
      "\<not> 2 ^ 53 * (d * 2 ^ nat (k - 52)) \<le> n * 2 ^ nat (- (k - 52))"
    unfolding shift_le using k by (simp_all add: mult.assoc mult.left_commute [of _ "real d"])
  moreover have "f64_quot n d = (round_half_even (n * 2 ^ nat (- (k - 52))) (d * 2 ^ nat (k - 52)), k - 52)"
    using assms by (simp add: f64_quot_def Let_def k_def j_def)
  ultimately show ?thesis using that not_less by blast
qed

section \<open>Exactness\<close>

lemma ratio_le: "a * d = n * b \<Longrightarrow> 0 < b \<Longrightarrow> 0 < d \<Longrightarrow> x * b \<le> y * a \<longleftrightarrow> x * d \<le> y * n" for a b d n x y :: nat
proof -
  assume ratio: "a * d = n * b" and pos: "0 < b" "0 < d"
  have "x * b \<le> y * a \<longleftrightarrow> x * b * d \<le> y * a * d" using pos by simp
  also have "y * a * d = y * n * b" using ratio by (simp add: ac_simps)
  also have "x * b * d \<le> y * n * b \<longleftrightarrow> x * d \<le> y * n" using pos by (metis mult.assoc mult.commute mult_le_cancel2)
  finally show ?thesis .
qed

text \<open>A number of at most 53 bits is converted without loss.\<close>

lemma f64_of_exact:
  assumes "0 < n" and "n \<le> 2 ^ 53"
  obtains m e where "f64_of n = (m, e)" and "0 < m" and "m * 2 ^ nat e = n * 2 ^ nat (- e)"
proof -
  obtain e where e: "f64_of n = (round_half_even (n * 2 ^ nat (- e)) (1 * 2 ^ nat e), e)"
      "2 ^ 52 * (1 * 2 ^ nat e) \<le> n * 2 ^ nat (- e)" "n * 2 ^ nat (- e) < 2 ^ 53 * (1 * 2 ^ nat e)"
    using f64_quot_scaled [of n 1] assms(1) unfolding f64_of_def by (metis zero_less_one)
  show ?thesis
  proof (cases "e \<le> 0")
    case True
    then have "f64_of n = (n * 2 ^ nat (- e), e)" using e(1) round_half_even_exact [of 1] by simp
    then show ?thesis using that assms(1) True by simp
  next
    case False
    then have "2 ^ 52 * 2 ^ nat e \<le> n" "n < 2 ^ 53 * 2 ^ nat e" using e by simp_all
    moreover have "nat e = 1"
    proof (rule ccontr)
      assume "nat e \<noteq> 1"
      then have "(2::nat) ^ 2 \<le> 2 ^ nat e" using False by (intro power_increasing) auto
      then show False using \<open>2 ^ 52 * 2 ^ nat e \<le> n\<close> assms(2) by simp
    qed
    ultimately have "n = 2 ^ 52 * 2" "e = 1" using assms(2) by auto
    then have "f64_of n = (2 ^ 52, 1)" using e(1) round_half_even_exact [of 2 "2 ^ 52"] by simp
    then show ?thesis using that \<open>n = 2 ^ 52 * 2\<close> by simp
  qed
qed

lemma ceil_bounds:
  fixes n d :: nat
  assumes "0 < n" and "0 < d"
  shows "n \<le> (n + d - 1) div d * d" and "((n + d - 1) div d - 1) * d < n" and "0 < (n + d - 1) div d"
proof -
  have split: "(n + d - 1) div d * d + (n + d - 1) mod d = n + d - 1" by simp
  have less: "(n + d - 1) mod d < d" using assms(2) by simp
  show le: "n \<le> (n + d - 1) div d * d" using split less assms by linarith
  then show pos: "0 < (n + d - 1) div d" using assms(1) by (metis gr0I mult_is_0 not_le)
  have "((n + d - 1) div d - 1) * d = (n + d - 1) div d * d - d" by (simp add: diff_mult_distrib)
  then show "((n + d - 1) div d - 1) * d < n" using split assms by linarith
qed

lemma ceil_unique: "c * p < m + p \<Longrightarrow> m \<le> c * p \<Longrightarrow> 0 < p \<Longrightarrow> (m + p - 1) div p = c" for c m p :: nat
  by (intro div_nat_eqI; simp add: mult.commute [of p]; linarith)

text \<open>So the rounded quotient of two such numbers has the ceiling of the exact one.\<close>

lemma f64_ceil_quot:
  assumes "a * d = n * b" and "0 < a" and "0 < b" and "0 < d" and "n < 2 ^ 53"
  shows "f64_ceil (f64_quot a b) = (n + d - 1) div d"
proof -
  obtain e where e: "f64_quot a b = (round_half_even (a * 2 ^ nat (- e)) (b * 2 ^ nat e), e)"
      "2 ^ 52 * (b * 2 ^ nat e) \<le> a * 2 ^ nat (- e)"
    using f64_quot_scaled [OF assms(2,3)] by metis
  have n: "0 < n" using assms(1,2,4) by (metis mult_eq_0_iff neq0_conv)
  have "b * n = d * a" using assms(1) by (simp add: ac_simps)
  note le = ratio_le [OF assms(1,3,4)] and ge = ratio_le [OF this assms(2) n]
  define c where "c = (n + d - 1) div d"
  note c = ceil_bounds [OF n assms(4), folded c_def]
  have small: "2 ^ 52 * 2 ^ nat e * d \<le> 2 ^ nat (- e) * n"
    using e(2) le [of "2 ^ 52 * 2 ^ nat e" "2 ^ nat (- e)"] by (simp add: ac_simps)
  show ?thesis
  proof (cases "e < 0")
    case True
    define p :: nat where "p = 2 ^ nat (- e)"
    let ?m = "round_half_even (a * p) b"
    have m: "f64_quot a b = (?m, e)" and p: "0 < p" "2 ^ 52 * d \<le> p * n"
      using e(1) True small by (simp_all add: p_def)
    have "p * n \<le> c * p * d" using c(1) by (metis mult.assoc mult.commute mult_le_mono2)
    then have "?m \<le> c * p" using assms(3) ge [of p "c * p"] by (intro round_half_even_le) (simp_all add: ac_simps)
    have "d < 2 * p"
    proof -
      have "p * n < p * 2 ^ 53" using p(1) assms(5) by simp
      with p(2) have "2 ^ 52 * d < p * 2 ^ 53" by (rule le_less_trans)
      also have "p * 2 ^ 53 = 2 ^ 52 * (2 * p)" by simp
      finally show ?thesis by (simp only: mult_less_cancel1)
    qed
    have "((c - 1) * d + 1) * (2 * p) \<le> n * (2 * p)" using c(2) by (intro mult_le_mono1) simp
    with \<open>d < 2 * p\<close> have "(2 * ((c - 1) * p) + 1) * d < 2 * p * n" by (simp add: algebra_simps)
    then have "(2 * ((c - 1) * p) + 1) * b < 2 * (a * p)"
      using ge [of "2 * p" "2 * ((c - 1) * p) + 1"] by (simp add: ac_simps flip: not_le)
    then have "(c - 1) * p < ?m" using assms(3) by (rule round_half_even_gt)
    then have "c * p < ?m + p" using c(3) by (cases c) simp_all
    then have "(?m + p - 1) div p = c" using \<open>?m \<le> c * p\<close> p(1) by (rule ceil_unique)
    then show ?thesis using m True by (simp add: f64_ceil_def c_def p_def)
  next
    case False
    define r :: nat where "r = 2 ^ nat e"
    have "2 ^ 52 * (r * d) < 2 ^ 52 * 2" using small False assms(5) by (simp add: r_def ac_simps)
    then have "r * d < 2" by (simp add: mult.commute)
    then have rd: "r = 1" "d = 1" using assms(4) by (cases r; cases d; auto simp: r_def)+
    then have "nat e = 0" by (simp add: r_def)
    then have "f64_quot a b = (n, e)" using e(1) False assms(1,3) rd round_half_even_exact [of b n] by simp
    then show ?thesis using rd \<open>nat e = 0\<close> False by (simp add: f64_ceil_def)
  qed
qed

lemma f64_ceil_div:
  assumes "0 < n" and "n < 2 ^ 53" and "0 < d" and "d \<le> 2 ^ 53"
  shows "f64_ceil (f64_div (f64_of n) (f64_of d)) = (n + d - 1) div d"
proof -
  obtain x e where x: "f64_of n = (x, e)" "0 < x" "x * 2 ^ nat e = n * 2 ^ nat (- e)"
    using f64_of_exact [of n] assms by (metis less_imp_le)
  obtain y g where y: "f64_of d = (y, g)" "0 < y" "y * 2 ^ nat g = d * 2 ^ nat (- g)"
    using f64_of_exact [of d] assms by metis
  have pow: "(2::nat) ^ nat (e - g) * 2 ^ (nat g + nat (- e)) = 2 ^ nat (g - e) * 2 ^ (nat e + nat (- g))"
    by (simp flip: power_add)
  have "x * 2 ^ nat (e - g) * d * (2 ^ nat e * 2 ^ nat (- g)) =
      (x * 2 ^ nat e) * (d * 2 ^ nat (- g)) * 2 ^ nat (e - g)" by (simp add: ac_simps)
  also have "\<dots> = n * y * (2 ^ nat (e - g) * 2 ^ (nat g + nat (- e)))"
    unfolding x(3) y(3) [symmetric] by (simp add: ac_simps power_add)
  also have "\<dots> = n * (y * 2 ^ nat (g - e)) * (2 ^ nat e * 2 ^ nat (- g))"
    unfolding pow by (simp add: ac_simps power_add)
  finally have "x * 2 ^ nat (e - g) * d * (2 ^ nat e * 2 ^ nat (- g)) = n * (y * 2 ^ nat (g - e)) * (2 ^ nat e * 2 ^ nat (- g))" .
  then have "x * 2 ^ nat (e - g) * d = n * (y * 2 ^ nat (g - e))" by simp
  then have "f64_ceil (f64_quot (x * 2 ^ nat (e - g)) (y * 2 ^ nat (g - e))) = (n + d - 1) div d"
    using x(2) y(2) assms by (intro f64_ceil_quot) simp_all
  then show ?thesis using x(1) y(1) by (simp add: f64_div_def Let_def)
qed

end
