(* ===== verification/Traffic.thy ===== *)
theory Traffic
  imports Go_Float Go_Strings Go_Utf8
begin

text \<open>
  The traffic estimate of the sub2api gateway (\<open>src/sub2api-plus/overlay/backend\<close>): the counter of one request in
  \<open>internal/pkg/trafficstats/trafficstats.go\<close>, and the estimate of what its bytes take on the wire. Of
  \<open>net/http\<close> it uses the parts of a request, of a response and of a header map, and the table of status texts.
  Lengths of data in memory do not overflow; everything that is accumulated wraps.
\<close>

section \<open>Requests and responses\<close>

type_synonym header = "string list gomap"

definition header_Get :: "header \<Rightarrow> string \<Rightarrow> string" where
  "header_Get h key = (case gm_get h key of Some (v # _) \<Rightarrow> v | _ \<Rightarrow> [])"

record url =
  url_Scheme :: string
  url_Host :: string
  url_RequestURI :: string

text \<open>Where a reader that counts reports to, and a body with the readers put around it, the outermost first.\<close>

datatype add_target = AddRequest | AddUpstreamRequest | AddUpstreamResponse

datatype body = RawBody | CountingReadCloser body add_target

record http_request =
  hr_Method :: string
  hr_Proto :: string
  hr_TLS :: bool
  hr_URL :: "url option"
  hr_Host :: string
  hr_Header :: header
  hr_ContentLength :: i64
  hr_TransferEncoding :: "string list"
  hr_Body :: "body option"

record http_response =
  hp_StatusCode :: int
  hp_Proto :: string
  hp_Header :: header
  hp_ContentLength :: i64
  hp_Body :: "body option"

text \<open>\<open>http.StatusText\<close>.\<close>

definition http_status_texts :: "(int \<times> string) list" where
  "http_status_texts =
    [(100, ''Continue''), (101, ''Switching Protocols''), (102, ''Processing''), (103, ''Early Hints''),
     (200, ''OK''), (201, ''Created''), (202, ''Accepted''), (203, ''Non-Authoritative Information''),
     (204, ''No Content''), (205, ''Reset Content''), (206, ''Partial Content''), (207, ''Multi-Status''),
     (208, ''Already Reported''), (226, ''IM Used''),
     (300, ''Multiple Choices''), (301, ''Moved Permanently''), (302, ''Found''), (303, ''See Other''),
     (304, ''Not Modified''), (305, ''Use Proxy''), (307, ''Temporary Redirect''), (308, ''Permanent Redirect''),
     (400, ''Bad Request''), (401, ''Unauthorized''), (402, ''Payment Required''), (403, ''Forbidden''),
     (404, ''Not Found''), (405, ''Method Not Allowed''), (406, ''Not Acceptable''),
     (407, ''Proxy Authentication Required''), (408, ''Request Timeout''), (409, ''Conflict''), (410, ''Gone''),
     (411, ''Length Required''), (412, ''Precondition Failed''), (413, ''Request Entity Too Large''),
     (414, ''Request URI Too Long''), (415, ''Unsupported Media Type''), (416, ''Requested Range Not Satisfiable''),
     (417, ''Expectation Failed''), (418, ''I'' @ CHR 0x27 # ''m a teapot''), (421, ''Misdirected Request''),
     (422, ''Unprocessable Entity''), (423, ''Locked''), (424, ''Failed Dependency''), (425, ''Too Early''),
     (426, ''Upgrade Required''), (428, ''Precondition Required''), (429, ''Too Many Requests''),
     (431, ''Request Header Fields Too Large''), (451, ''Unavailable For Legal Reasons''),
     (500, ''Internal Server Error''), (501, ''Not Implemented''), (502, ''Bad Gateway''),
     (503, ''Service Unavailable''), (504, ''Gateway Timeout''), (505, ''HTTP Version Not Supported''),
     (506, ''Variant Also Negotiates''), (507, ''Insufficient Storage''), (508, ''Loop Detected''),
     (510, ''Not Extended''), (511, ''Network Authentication Required'')]"

definition StatusText :: "int \<Rightarrow> string" where
  "StatusText code = (case map_of http_status_texts code of None \<Rightarrow> [] | Some t \<Rightarrow> t)"

text \<open>\<open>strings.EqualFold\<close> with a word of lower case ASCII letters: the runes that fold to one of them are its upper
  case, the long s and the Kelvin sign.\<close>

definition fold_rune :: "nat \<Rightarrow> nat" where
  "fold_rune r = (if 65 \<le> r \<and> r \<le> 90 then r + 32 else if r = 383 then 115 else if r = 8490 then 107 else r)"

definition equal_fold_word :: "string \<Rightarrow> string \<Rightarrow> bool" where
  "equal_fold_word s word \<longleftrightarrow> map fold_rune (runes s) = map of_char word"

section \<open>Configuration\<close>

definition defaultSource :: string where "defaultSource = ''app_estimate''"
definition defaultTLSRecordPayloadBytes :: i64 where "defaultTLSRecordPayloadBytes = 16 * 1024"
definition defaultTLSRecordOverhead :: i64 where "defaultTLSRecordOverhead = 21"
definition defaultTCPIPHeaderBytes :: i64 where "defaultTCPIPHeaderBytes = 40"
definition defaultTCPPayloadBytes :: i64 where "defaultTCPPayloadBytes = 1460"

record TrafficConfig =
  tc_Enabled :: bool
  tc_Source :: string
  tc_TLSRecordPayloadBytes :: i64
  tc_TLSRecordOverhead :: i64
  tc_TCPIPHeaderBytes :: i64
  tc_TCPPayloadBytes :: i64

definition NormalizeConfig :: "TrafficConfig \<Rightarrow> TrafficConfig" where
  "NormalizeConfig cfg =
    (let cfg = (if TrimSpace (tc_Source cfg) = [] then cfg\<lparr>tc_Source := defaultSource\<rparr> else cfg);
         cfg = (if tc_TLSRecordPayloadBytes cfg \<le> 0 then cfg\<lparr>tc_TLSRecordPayloadBytes := defaultTLSRecordPayloadBytes\<rparr> else cfg);
         cfg = (if tc_TLSRecordOverhead cfg < 0 then cfg\<lparr>tc_TLSRecordOverhead := 0\<rparr> else cfg);
         cfg = (if tc_TCPIPHeaderBytes cfg < 0 then cfg\<lparr>tc_TCPIPHeaderBytes := 0\<rparr> else cfg)
     in if tc_TCPPayloadBytes cfg \<le> 0 then cfg\<lparr>tc_TCPPayloadBytes := defaultTCPPayloadBytes\<rparr> else cfg)"

section \<open>Estimates\<close>

definition requestUsesTLS :: "http_request option \<Rightarrow> bool" where
  "requestUsesTLS r =
    (case r of
       None \<Rightarrow> False
     | Some r \<Rightarrow>
       hr_TLS r \<or> equal_fold_word (TrimSpace (header_Get (hr_Header r) ''X-Forwarded-Proto'')) ''https'' \<or>
       equal_fold_word (TrimSpace (header_Get (hr_Header r) ''X-Forwarded-Ssl'')) ''on'')"

definition requestURLUsesTLS :: "http_request option \<Rightarrow> bool" where
  "requestURLUsesTLS r =
    (case r of
       None \<Rightarrow> False
     | Some r \<Rightarrow> (case hr_URL r of None \<Rightarrow> False | Some u \<Rightarrow> equal_fold_word (TrimSpace (url_Scheme u)) ''https''))"

definition headerLineBytes :: "string \<Rightarrow> string \<Rightarrow> i64" where
  "headerLineBytes name v = int (length name + length '': '' + length v + 2)"

definition headerBytes :: "header \<Rightarrow> i64" where
  "headerBytes h = (\<Sum>(name, vs)\<leftarrow>h. \<Sum>v\<leftarrow>vs. headerLineBytes name v)"

fun Join :: "string list \<Rightarrow> string \<Rightarrow> string" where
  "Join [] sep = []"
| "Join [s] sep = s"
| "Join (s # t # ts) sep = s @ sep @ Join (t # ts) sep"

definition proto_or_default :: "string \<Rightarrow> string" where
  "proto_or_default p = (let p = TrimSpace p in if p = [] then ''HTTP/1.1'' else p)"

definition estimateRequestHeadBytes :: "http_request option \<Rightarrow> i64" where
  "estimateRequestHeadBytes r =
    (case r of
       None \<Rightarrow> 0
     | Some r \<Rightarrow>
       let proto = proto_or_default (hr_Proto r);
           requestURI = (case hr_URL r of None \<Rightarrow> ''/'' | Some u \<Rightarrow> url_RequestURI u);
           total = int (length (hr_Method r) + 1 + length requestURI + 1 + length proto + 2);
           ho = TrimSpace (hr_Host r);
           ho = (case hr_URL r of Some u \<Rightarrow> if ho = [] then TrimSpace (url_Host u) else ho | None \<Rightarrow> ho);
           total = (if ho \<noteq> [] then total + headerLineBytes ''Host'' ho else total);
           total = total + headerBytes (hr_Header r);
           total = (if hr_ContentLength r \<ge> 0 \<and> header_Get (hr_Header r) ''Content-Length'' = []
             then total + headerLineBytes ''Content-Length'' (Itoa (hr_ContentLength r)) else total);
           total = (if hr_TransferEncoding r \<noteq> [] \<and> header_Get (hr_Header r) ''Transfer-Encoding'' = []
             then total + headerLineBytes ''Transfer-Encoding'' (Join (hr_TransferEncoding r) '', '') else total)
       in total + 2)"

definition estimateResponseHeadBytes :: "int \<Rightarrow> header \<Rightarrow> string \<Rightarrow> i64" where
  "estimateResponseHeadBytes status h proto =
    (let proto = proto_or_default proto;
         text = (if StatusText status = [] then ''status'' else StatusText status);
         total = int (length proto + 1 + length (Itoa status) + 1 + length text + 2);
         total = total + headerBytes h;
         total = (if header_Get h ''Date'' = [] then total + int (length ''Date: Mon, 02 Jan 2006 15:04:05 GMT'' + 2) else total)
     in total + 2)"

text \<open>\<open>int64(math.Ceil(float64(a) / float64(b)))\<close> for a positive \<open>b\<close>; \<open>a\<close> is negative when a sum wrapped.\<close>

definition ceil_quot :: "i64 \<Rightarrow> i64 \<Rightarrow> i64" where
  "ceil_quot a b =
    (let q = f64_div (f64_of (nat \<bar>a\<bar>)) (f64_of (nat b)) in
     if a < 0 then - int (f64_floor q) else f64_to_i64 (f64_ceil q))"

definition estimateWireBytes :: "i64 \<Rightarrow> TrafficConfig \<Rightarrow> bool \<Rightarrow> i64" where
  "estimateWireBytes base cfg tls =
    (if base \<le> 0 then 0
     else let wire = base;
              wire = (if tls \<and> tc_TLSRecordPayloadBytes cfg > 0 \<and> tc_TLSRecordOverhead cfg > 0
                then wrap64 (wire + wrap64 (ceil_quot base (tc_TLSRecordPayloadBytes cfg) * tc_TLSRecordOverhead cfg))
                else wire)
       in if tc_TCPIPHeaderBytes cfg > 0 \<and> tc_TCPPayloadBytes cfg > 0
          then wrap64 (wire + wrap64 (ceil_quot wire (tc_TCPPayloadBytes cfg) * tc_TCPIPHeaderBytes cfg))
          else wire)"

section \<open>The counter of a request\<close>

record TrafficCounter =
  tk_cfg :: TrafficConfig
  tk_tls :: bool
  tk_requestHeaderBytes :: i64
  tk_requestBodyDeclaredBytes :: i64
  tk_requestBodyBytes :: i64
  tk_responseHeaderBytes :: i64
  tk_responseBodyBytes :: i64
  tk_responseFinalized :: bool
  tk_upstreamTLS :: bool
  tk_upstreamRequestHeaderBytes :: i64
  tk_upstreamRequestBodyDeclaredBytes :: i64
  tk_upstreamRequestBodyBytes :: i64
  tk_upstreamResponseHeaderBytes :: i64
  tk_upstreamResponseBodyDeclaredBytes :: i64
  tk_upstreamResponseBodyBytes :: i64

definition emptyCounter :: "TrafficConfig \<Rightarrow> TrafficCounter" where
  "emptyCounter cfg = \<lparr>tk_cfg = cfg, tk_tls = False, tk_requestHeaderBytes = 0, tk_requestBodyDeclaredBytes = 0,
    tk_requestBodyBytes = 0, tk_responseHeaderBytes = 0, tk_responseBodyBytes = 0, tk_responseFinalized = False,
    tk_upstreamTLS = False, tk_upstreamRequestHeaderBytes = 0, tk_upstreamRequestBodyDeclaredBytes = 0,
    tk_upstreamRequestBodyBytes = 0, tk_upstreamResponseHeaderBytes = 0, tk_upstreamResponseBodyDeclaredBytes = 0,
    tk_upstreamResponseBodyBytes = 0\<rparr>"

definition NewCounter :: "TrafficConfig \<Rightarrow> http_request option \<Rightarrow> TrafficCounter" where
  "NewCounter cfg r =
    (let c = emptyCounter (NormalizeConfig cfg) in
     case r of
       None \<Rightarrow> c
     | Some req \<Rightarrow>
       let c = c\<lparr>tk_tls := requestUsesTLS r, tk_requestHeaderBytes := estimateRequestHeadBytes r\<rparr>
       in if hr_ContentLength req > 0 then c\<lparr>tk_requestBodyDeclaredBytes := hr_ContentLength req\<rparr> else c)"

definition AddRequestBody :: "i64 \<Rightarrow> TrafficCounter \<Rightarrow> TrafficCounter" where
  "AddRequestBody n c = (if n \<le> 0 then c else c\<lparr>tk_requestBodyBytes := wrap64 (tk_requestBodyBytes c + n)\<rparr>)"

definition AddResponseBody :: "i64 \<Rightarrow> TrafficCounter \<Rightarrow> TrafficCounter" where
  "AddResponseBody n c = (if n \<le> 0 then c else c\<lparr>tk_responseBodyBytes := wrap64 (tk_responseBodyBytes c + n)\<rparr>)"

definition RecordUpstreamRequest :: "http_request option \<Rightarrow> TrafficCounter \<Rightarrow> TrafficCounter" where
  "RecordUpstreamRequest req c =
    (case req of
       None \<Rightarrow> c
     | Some r \<Rightarrow>
       let c = (if requestURLUsesTLS req then c\<lparr>tk_upstreamTLS := True\<rparr> else c);
           c = c\<lparr>tk_upstreamRequestHeaderBytes := wrap64 (tk_upstreamRequestHeaderBytes c + estimateRequestHeadBytes req)\<rparr>
       in if hr_ContentLength r > 0
          then c\<lparr>tk_upstreamRequestBodyDeclaredBytes := wrap64 (tk_upstreamRequestBodyDeclaredBytes c + hr_ContentLength r)\<rparr>
          else c)"

definition AddUpstreamRequestBody :: "i64 \<Rightarrow> TrafficCounter \<Rightarrow> TrafficCounter" where
  "AddUpstreamRequestBody n c =
    (if n \<le> 0 then c else c\<lparr>tk_upstreamRequestBodyBytes := wrap64 (tk_upstreamRequestBodyBytes c + n)\<rparr>)"

definition RecordUpstreamResponse :: "http_response option \<Rightarrow> TrafficCounter \<Rightarrow> TrafficCounter" where
  "RecordUpstreamResponse resp c =
    (case resp of
       None \<Rightarrow> c
     | Some r \<Rightarrow>
       let c = c\<lparr>tk_upstreamResponseHeaderBytes := wrap64 (tk_upstreamResponseHeaderBytes c +
             estimateResponseHeadBytes (hp_StatusCode r) (hp_Header r) (hp_Proto r))\<rparr>
       in if hp_ContentLength r > 0
          then c\<lparr>tk_upstreamResponseBodyDeclaredBytes := wrap64 (tk_upstreamResponseBodyDeclaredBytes c + hp_ContentLength r)\<rparr>
          else c)"

definition AddUpstreamResponseBody :: "i64 \<Rightarrow> TrafficCounter \<Rightarrow> TrafficCounter" where
  "AddUpstreamResponseBody n c =
    (if n \<le> 0 then c else c\<lparr>tk_upstreamResponseBodyBytes := wrap64 (tk_upstreamResponseBodyBytes c + n)\<rparr>)"

fun add_to :: "add_target \<Rightarrow> i64 \<Rightarrow> TrafficCounter \<Rightarrow> TrafficCounter" where
  "add_to AddRequest n c = AddRequestBody n c"
| "add_to AddUpstreamRequest n c = AddUpstreamRequestBody n c"
| "add_to AddUpstreamResponse n c = AddUpstreamResponseBody n c"

text \<open>A read from a body that returned \<open>n\<close> bytes.\<close>

fun body_Read :: "body \<Rightarrow> i64 \<Rightarrow> TrafficCounter \<Rightarrow> TrafficCounter" where
  "body_Read RawBody n c = c"
| "body_Read (CountingReadCloser b target) n c =
    (let c = body_Read b n c in if n > 0 then add_to target n c else c)"

definition FinalizeResponse :: "int \<Rightarrow> header \<Rightarrow> string \<Rightarrow> TrafficCounter \<Rightarrow> TrafficCounter" where
  "FinalizeResponse status h proto c =
    (if tk_responseFinalized c then c
     else let status = (if status \<le> 0 then 200 else status) in
       c\<lparr>tk_responseFinalized := True, tk_responseHeaderBytes := estimateResponseHeadBytes status h proto\<rparr>)"

record TrafficSnapshot =
  ts_RequestBytes :: i64
  ts_ResponseBytes :: i64
  ts_UpstreamRequestBytes :: i64
  ts_UpstreamResponseBytes :: i64
  ts_Source :: string
  ts_Estimated :: bool
  ts_RequestBase :: i64
  ts_ResponseBase :: i64
  ts_UpstreamRequestBase :: i64
  ts_UpstreamResponseBase :: i64
  ts_TLSEstimated :: bool
  ts_UpstreamTLSEstimated :: bool
  ts_PacketOverhead :: bool

definition traffic_Snapshot :: "TrafficCounter \<Rightarrow> TrafficSnapshot" where
  "traffic_Snapshot c =
    (let requestBase = wrap64 (tk_requestHeaderBytes c + max (tk_requestBodyDeclaredBytes c) (tk_requestBodyBytes c));
         responseBase = wrap64 (tk_responseHeaderBytes c + tk_responseBodyBytes c);
         upstreamRequestBase = wrap64 (tk_upstreamRequestHeaderBytes c +
           max (tk_upstreamRequestBodyDeclaredBytes c) (tk_upstreamRequestBodyBytes c));
         upstreamResponseBase = wrap64 (tk_upstreamResponseHeaderBytes c +
           max (tk_upstreamResponseBodyDeclaredBytes c) (tk_upstreamResponseBodyBytes c));
         cfg = tk_cfg c; records = tc_TLSRecordPayloadBytes cfg > 0 \<and> tc_TLSRecordOverhead cfg > 0
     in \<lparr>ts_RequestBytes = estimateWireBytes requestBase cfg (tk_tls c),
         ts_ResponseBytes = estimateWireBytes responseBase cfg (tk_tls c),
         ts_UpstreamRequestBytes = estimateWireBytes upstreamRequestBase cfg (tk_upstreamTLS c),
         ts_UpstreamResponseBytes = estimateWireBytes upstreamResponseBase cfg (tk_upstreamTLS c),
         ts_Source = tc_Source cfg, ts_Estimated = True,
         ts_RequestBase = requestBase, ts_ResponseBase = responseBase,
         ts_UpstreamRequestBase = upstreamRequestBase, ts_UpstreamResponseBase = upstreamResponseBase,
         ts_TLSEstimated = (tk_tls c \<and> records), ts_UpstreamTLSEstimated = (tk_upstreamTLS c \<and> records),
         ts_PacketOverhead = (tc_TCPIPHeaderBytes cfg > 0 \<and> tc_TCPPayloadBytes cfg > 0)\<rparr>)"

definition SnapshotFromContext :: "TrafficCounter option \<Rightarrow> TrafficSnapshot option \<times> bool" where
  "SnapshotFromContext counter =
    (case counter of
       None \<Rightarrow> (None, False)
     | Some c \<Rightarrow> let s = traffic_Snapshot c in (Some s, ts_RequestBytes s > 0 \<or> ts_ResponseBytes s > 0 \<or>
         ts_UpstreamRequestBytes s > 0 \<or> ts_UpstreamResponseBytes s > 0))"

section \<open>The transport to the upstream\<close>

text \<open>\<open>base\<close> is the transport below; \<open>Inl\<close> is its error. The answer is the request as \<open>base\<close> saw it, the result
  and the counter of the request's context.\<close>

definition RoundTrip :: "(http_request \<Rightarrow> 'e + http_response option) \<Rightarrow> http_request \<Rightarrow> TrafficCounter option \<Rightarrow>
    http_request \<times> ('e + http_response option) \<times> TrafficCounter option" where
  "RoundTrip base req counter =
    (case counter of
       None \<Rightarrow> (req, base req, None)
     | Some c \<Rightarrow>
       let c = RecordUpstreamRequest (Some req) c;
           req = (case hr_Body req of None \<Rightarrow> req | Some b \<Rightarrow> req\<lparr>hr_Body := Some (CountingReadCloser b AddUpstreamRequest)\<rparr>)
       in case base req of
         Inl e \<Rightarrow> (req, Inl e, Some c)
       | Inr None \<Rightarrow> (req, Inr None, Some c)
       | Inr (Some resp) \<Rightarrow>
         let c = RecordUpstreamResponse (Some resp) c;
             resp = (case hp_Body resp of None \<Rightarrow> resp
               | Some b \<Rightarrow> resp\<lparr>hp_Body := Some (CountingReadCloser b AddUpstreamResponse)\<rparr>)
         in (req, Inr (Some resp), Some c))"

end
