(* ===== verification/Traffic_Gateway.thy ===== *)
theory Traffic_Gateway
  imports Traffic
begin

text \<open>
  The middleware that counts a gateway request, \<open>internal/server/middleware/traffic_stats.go\<close>, and the entry of
  the usage log that the estimate ends in. A request is a sequence of the calls that reach the counter: reads of
  the request body, calls of the response writer (with the status and header the writer below reports), round
  trips to the upstream and reads of their bodies.
\<close>

section \<open>Model\<close>

definition gatewayTrafficExactPaths :: "string list" where
  "gatewayTrafficExactPaths = [''/responses'', ''/alpha/search'', ''/chat/completions'', ''/embeddings'']"

definition gatewayTrafficPathPrefixes :: "string list" where
  "gatewayTrafficPathPrefixes =
    [''/v1/'', ''/v1beta/'', ''/backend-api/codex/'', ''/antigravity/v1/'', ''/antigravity/v1beta/'', ''/responses/'',
     ''/images/'', ''/videos/'']"

definition IsGatewayTrafficPath :: "string \<Rightarrow> bool" where
  "IsGatewayTrafficPath path \<longleftrightarrow>
    path \<in> set gatewayTrafficExactPaths \<or> list_ex (\<lambda>p. prefix p path) gatewayTrafficPathPrefixes"

text \<open>The calls. The numbers are what the call below returned; \<open>Inl\<close> is the error of a round trip.\<close>

datatype gateway_call =
  ReadRequest i64
| WriteHeader int header
| WriteHeaderNow int header
| WriteData int header i64
| WriteString int header i64
| UpstreamTrip http_request "unit + http_response option"
| ReadUpstreamRequest i64
| ReadUpstreamResponse i64

definition or_ok :: "int \<Rightarrow> int" where
  "or_ok status = (if status \<le> 0 then 200 else status)"

definition writer_Write :: "string \<Rightarrow> int \<Rightarrow> header \<Rightarrow> i64 \<Rightarrow> TrafficCounter \<Rightarrow> TrafficCounter" where
  "writer_Write proto status h n c =
    (let c = FinalizeResponse (or_ok status) h proto c in if n > 0 then AddResponseBody n c else c)"

text \<open>\<open>request\<close> is the body as the middleware left it.\<close>

fun gateway_step :: "body option \<Rightarrow> string \<Rightarrow> gateway_call \<Rightarrow> TrafficCounter \<Rightarrow> TrafficCounter" where
  "gateway_step request proto (ReadRequest n) c = (case request of None \<Rightarrow> c | Some b \<Rightarrow> body_Read b n c)"
| "gateway_step request proto (WriteHeader status h) c = FinalizeResponse status h proto c"
| "gateway_step request proto (WriteHeaderNow status h) c = FinalizeResponse (or_ok status) h proto c"
| "gateway_step request proto (WriteData status h n) c = writer_Write proto status h n c"
| "gateway_step request proto (WriteString status h n) c = writer_Write proto status h n c"
| "gateway_step request proto (UpstreamTrip req result) c =
    (case snd (snd (RoundTrip (\<lambda>_. result) req (Some c))) of None \<Rightarrow> c | Some c \<Rightarrow> c)"
| "gateway_step request proto (ReadUpstreamRequest n) c = body_Read (CountingReadCloser RawBody AddUpstreamRequest) n c"
| "gateway_step request proto (ReadUpstreamResponse n) c = body_Read (CountingReadCloser RawBody AddUpstreamResponse) n c"

definition TrafficStats :: "TrafficConfig \<Rightarrow> http_request option \<Rightarrow> gateway_call list \<Rightarrow> int \<Rightarrow> header \<Rightarrow> TrafficCounter option" where
  "TrafficStats cfg request calls status h =
    (let statsCfg = NormalizeConfig cfg in
     if \<not> tc_Enabled statsCfg then None
     else case request of
       None \<Rightarrow> None
     | Some r \<Rightarrow>
       let b = map_option (\<lambda>b. CountingReadCloser b AddRequest) (hr_Body r);
           c = fold (gateway_step b (hr_Proto r)) calls (NewCounter statsCfg (Some r))
       in Some (FinalizeResponse status h (hr_Proto r) c))"

definition TrafficStatsGateway :: "TrafficConfig \<Rightarrow> string \<Rightarrow> http_request option \<Rightarrow> gateway_call list \<Rightarrow> int \<Rightarrow> header \<Rightarrow>
    TrafficCounter option" where
  "TrafficStatsGateway cfg path request calls status h =
    (if request = None \<or> \<not> IsGatewayTrafficPath path then None else TrafficStats cfg request calls status h)"

record UsageLog =
  ul_RequestBytes :: i64
  ul_ResponseBytes :: i64
  ul_UpstreamRequestBytes :: i64
  ul_UpstreamResponseBytes :: i64
  ul_TrafficEstimated :: bool
  ul_TrafficSource :: "string option"

definition applyUsageLogTrafficStats :: "TrafficCounter option \<Rightarrow> UsageLog \<Rightarrow> UsageLog" where
  "applyUsageLogTrafficStats counter usage =
    (case SnapshotFromContext counter of
       (Some s, True) \<Rightarrow>
         let usage = usage\<lparr>ul_RequestBytes := ts_RequestBytes s, ul_ResponseBytes := ts_ResponseBytes s,
           ul_UpstreamRequestBytes := ts_UpstreamRequestBytes s, ul_UpstreamResponseBytes := ts_UpstreamResponseBytes s,
           ul_TrafficEstimated := ts_Estimated s\<rparr>
         in if TrimSpace (ts_Source s) \<noteq> [] then usage\<lparr>ul_TrafficSource := Some (TrimSpace (ts_Source s))\<rparr> else usage
     | _ \<Rightarrow> usage)"

section \<open>The estimate on the wire\<close>

text \<open>The estimate in exact arithmetic: every started record and packet is paid in full.\<close>

definition wire_exactly :: "int \<Rightarrow> TrafficConfig \<Rightarrow> bool \<Rightarrow> int" where
  "wire_exactly base cfg tls =
    (if base \<le> 0 then 0
     else let wire = (if tls \<and> tc_TLSRecordPayloadBytes cfg > 0 \<and> tc_TLSRecordOverhead cfg > 0
                then base + (base + tc_TLSRecordPayloadBytes cfg - 1) div tc_TLSRecordPayloadBytes cfg * tc_TLSRecordOverhead cfg
                else base)
       in if tc_TCPIPHeaderBytes cfg > 0 \<and> tc_TCPPayloadBytes cfg > 0
          then wire + (wire + tc_TCPPayloadBytes cfg - 1) div tc_TCPPayloadBytes cfg * tc_TCPIPHeaderBytes cfg
          else wire)"

lemma ceil_quot_exact:
  assumes "0 < a" and "a < 2 ^ 53" and "0 < b" and "b \<le> 2 ^ 53"
  shows "ceil_quot a b = (a + b - 1) div b"
proof -
  have "nat a < 2 ^ 53" "nat b \<le> 2 ^ 53" using assms by (simp_all add: nat_less_iff nat_le_iff)
  then have ceil: "f64_ceil (f64_div (f64_of (nat a)) (f64_of (nat b))) = (nat a + nat b - 1) div nat b"
    using assms by (intro f64_ceil_div) simp_all
  have int: "int ((nat a + nat b - 1) div nat b) = (a + b - 1) div b"
    using assms by (simp add: zdiv_int of_nat_diff)
  have "0 \<le> (a - 1) * (b - 1)" using assms by simp
  then have "a + b - 1 \<le> a * b" by (simp add: algebra_simps)
  then have "(a + b - 1) div b \<le> a" using assms(3) zdiv_mono1 [of "a + b - 1" "a * b" b] by simp
  then have "(nat a + nat b - 1) div nat b < 2 ^ 63" using int assms(2) by (simp flip: of_nat_less_iff [where ?'a = int])
  then show ?thesis using assms int ceil by (simp add: ceil_quot_def f64_to_i64_def)
qed

lemma wire_exactly_ge: "base \<le> wire_exactly base cfg tls"
proof -
  have paid: "0 \<le> (x + p - 1) div p * q" if "0 < x" "0 < p" "0 < q" for x p q :: int
    using that by (simp add: pos_imp_zdiv_nonneg_iff)
  show ?thesis by (auto simp: wire_exactly_def Let_def intro!: paid add_increasing2 add_pos_nonneg)
qed

lemma add_exact: "0 < x \<Longrightarrow> 0 \<le> y \<Longrightarrow> x + y < 2 ^ 53 \<Longrightarrow> wrap64 (x + wrap64 y) = x + y"
  by (simp add: in_i64_def)

lemma estimateWireBytes_exact:
  assumes "wire_exactly base cfg tls < 2 ^ 53" and "tc_TLSRecordPayloadBytes cfg \<le> 2 ^ 53" and "tc_TCPPayloadBytes cfg \<le> 2 ^ 53"
  shows "estimateWireBytes base cfg tls = wire_exactly base cfg tls"
proof (cases "base \<le> 0")
  case False
  let ?P = "tc_TLSRecordPayloadBytes cfg" and ?Q = "tc_TCPPayloadBytes cfg"
  define tls_on where "tls_on \<longleftrightarrow> tls \<and> ?P > 0 \<and> tc_TLSRecordOverhead cfg > 0"
  define ip_on where "ip_on \<longleftrightarrow> tc_TCPIPHeaderBytes cfg > 0 \<and> ?Q > 0"
  define recs where "recs = (base + ?P - 1) div ?P * tc_TLSRecordOverhead cfg"
  define wire where "wire = (if tls_on then base + recs else base)"
  define pkts where "pkts = (wire + ?Q - 1) div ?Q * tc_TCPIPHeaderBytes cfg"
  have paid: "tls_on \<Longrightarrow> 0 \<le> recs" "0 < wire \<Longrightarrow> ip_on \<Longrightarrow> 0 \<le> pkts"
    using False by (simp_all add: tls_on_def ip_on_def recs_def pkts_def pos_imp_zdiv_nonneg_iff)
  then have pos: "0 < wire" "base \<le> wire" using False by (auto simp: wire_def)
  have sum: "wire_exactly base cfg tls = (if ip_on then wire + pkts else wire)"
    using False by (simp add: wire_exactly_def Let_def wire_def pkts_def recs_def tls_on_def ip_on_def)
  then have less: "wire < 2 ^ 53" using assms(1) paid(2) [OF pos(1)] by (auto split: if_splits)
  have "(if tls_on then wrap64 (base + wrap64 (ceil_quot base ?P * tc_TLSRecordOverhead cfg)) else base) = wire"
  proof (cases tls_on)
    case True
    then have "ceil_quot base ?P = (base + ?P - 1) div ?P"
      using False pos less assms(2) by (intro ceil_quot_exact) (auto simp: tls_on_def)
    then show ?thesis using True False paid(1) less add_exact [of base recs] by (simp add: wire_def recs_def)
  qed (simp add: wire_def)
  moreover have "wrap64 (wire + wrap64 (ceil_quot wire ?Q * tc_TCPIPHeaderBytes cfg)) = wire + pkts" if ip_on
  proof -
    have "ceil_quot wire ?Q = (wire + ?Q - 1) div ?Q"
      using that pos less assms(3) by (intro ceil_quot_exact) (auto simp: ip_on_def)
    then show ?thesis using that paid(2) [OF pos(1)] pos(1) sum assms(1) add_exact [of wire pkts] by (simp add: pkts_def)
  qed
  ultimately show ?thesis using False sum by (simp add: estimateWireBytes_def Let_def tls_on_def ip_on_def)
qed (simp add: estimateWireBytes_def wire_exactly_def)

section \<open>A request from end to end\<close>

text \<open>What each call contributes, in exact arithmetic.\<close>

fun read_bytes :: "gateway_call \<Rightarrow> i64" where
  "read_bytes (ReadRequest n) = max n 0"
| "read_bytes _ = 0"

fun written_bytes :: "gateway_call \<Rightarrow> i64" where
  "written_bytes (WriteData _ _ n) = max n 0"
| "written_bytes (WriteString _ _ n) = max n 0"
| "written_bytes _ = 0"

fun hop_head :: "gateway_call \<Rightarrow> i64" where
  "hop_head (UpstreamTrip r _) = estimateRequestHeadBytes (Some r)"
| "hop_head _ = 0"

fun hop_declared :: "gateway_call \<Rightarrow> i64" where
  "hop_declared (UpstreamTrip r _) = max (hr_ContentLength r) 0"
| "hop_declared _ = 0"

fun hop_sent :: "gateway_call \<Rightarrow> i64" where
  "hop_sent (ReadUpstreamRequest n) = max n 0"
| "hop_sent _ = 0"

fun reply_head :: "gateway_call \<Rightarrow> i64" where
  "reply_head (UpstreamTrip _ (Inr (Some p))) = estimateResponseHeadBytes (hp_StatusCode p) (hp_Header p) (hp_Proto p)"
| "reply_head _ = 0"

fun reply_declared :: "gateway_call \<Rightarrow> i64" where
  "reply_declared (UpstreamTrip _ (Inr (Some p))) = max (hp_ContentLength p) 0"
| "reply_declared _ = 0"

fun reply_read :: "gateway_call \<Rightarrow> i64" where
  "reply_read (ReadUpstreamResponse n) = max n 0"
| "reply_read _ = 0"

fun hop_tls :: "gateway_call \<Rightarrow> bool" where
  "hop_tls (UpstreamTrip r _) = requestURLUsesTLS (Some r)"
| "hop_tls _ = False"

text \<open>The calls that fix the head of the response; only the first of them counts.\<close>

fun answered :: "gateway_call \<Rightarrow> (int \<times> header) option" where
  "answered (WriteHeader status h) = Some (status, h)"
| "answered (WriteHeaderNow status h) = Some (status, h)"
| "answered (WriteData status h _) = Some (status, h)"
| "answered (WriteString status h _) = Some (status, h)"
| "answered _ = None"

fun first_answer :: "gateway_call list \<Rightarrow> int \<times> header \<Rightarrow> int \<times> header" where
  "first_answer [] otherwise = otherwise"
| "first_answer (x # xs) otherwise = (case answered x of None \<Rightarrow> first_answer xs otherwise | Some a \<Rightarrow> a)"

definition exact_request :: "http_request \<Rightarrow> gateway_call list \<Rightarrow> int" where
  "exact_request r xs = estimateRequestHeadBytes (Some r) + max (max (hr_ContentLength r) 0) (\<Sum>x\<leftarrow>xs. read_bytes x)"

definition exact_response :: "http_request \<Rightarrow> gateway_call list \<Rightarrow> int \<Rightarrow> header \<Rightarrow> int" where
  "exact_response r xs status h =
    (case first_answer xs (status, h) of (st, hdr) \<Rightarrow>
       estimateResponseHeadBytes (or_ok st) hdr (hr_Proto r) + (\<Sum>x\<leftarrow>xs. written_bytes x))"

definition exact_upstream_request :: "gateway_call list \<Rightarrow> int" where
  "exact_upstream_request xs = (\<Sum>x\<leftarrow>xs. hop_head x) + max (\<Sum>x\<leftarrow>xs. hop_declared x) (\<Sum>x\<leftarrow>xs. hop_sent x)"

definition exact_upstream_response :: "gateway_call list \<Rightarrow> int" where
  "exact_upstream_response xs = (\<Sum>x\<leftarrow>xs. reply_head x) + max (\<Sum>x\<leftarrow>xs. reply_declared x) (\<Sum>x\<leftarrow>xs. reply_read x)"

lemma headerBytes_nonneg: "0 \<le> headerBytes h"
  by (auto simp: headerBytes_def headerLineBytes_def intro!: sum_list_nonneg)

lemma heads_nonneg [simp]: "0 \<le> estimateRequestHeadBytes r" "0 \<le> estimateResponseHeadBytes status h proto"
  using headerBytes_nonneg
  by (auto simp: estimateRequestHeadBytes_def estimateResponseHeadBytes_def Let_def headerLineBytes_def split: option.splits)

lemma head_pos: "0 < estimateRequestHeadBytes (Some r)"
  using headerBytes_nonneg [of "hr_Header r"]
  by (auto simp: estimateRequestHeadBytes_def Let_def headerLineBytes_def split: option.splits)

lemma contributions_nonneg:
  "0 \<le> read_bytes x" "0 \<le> written_bytes x" "0 \<le> hop_head x" "0 \<le> hop_declared x" "0 \<le> hop_sent x"
  "0 \<le> reply_head x" "0 \<le> reply_declared x" "0 \<le> reply_read x"
  by (cases x rule: reply_head.cases; simp)+

lemmas counter_ops = AddRequestBody_def AddResponseBody_def AddUpstreamRequestBody_def AddUpstreamResponseBody_def
  FinalizeResponse_def RecordUpstreamRequest_def RecordUpstreamResponse_def RoundTrip_def writer_Write_def Let_def

text \<open>A counter that every call raises by its contribution ends at the sum, wrapped.\<close>

lemma fold_counts:
  assumes "\<And>x c. in_i64 (F c) \<Longrightarrow> F (step x c) = wrap64 (F c + f x)" and "in_i64 (F c)"
  shows "F (fold step xs c) = wrap64 (F c + (\<Sum>x\<leftarrow>xs. f x))"
  using assms(2)
proof (induction xs arbitrary: c)
  case (Cons x xs)
  have "F (fold step (x # xs) c) = wrap64 (F (step x c) + (\<Sum>x\<leftarrow>xs. f x))"
    using Cons assms(1) by simp
  then show ?case using assms(1) [OF Cons.prems] by (simp add: wrap64_add add.assoc)
qed simp

lemma step_counts:
  fixes proto :: string
  defines "step \<equiv> gateway_step (Some (CountingReadCloser RawBody AddRequest)) proto"
  shows "in_i64 (tk_requestBodyBytes c) \<Longrightarrow> tk_requestBodyBytes (step x c) = wrap64 (tk_requestBodyBytes c + read_bytes x)"
    "in_i64 (tk_responseBodyBytes c) \<Longrightarrow> tk_responseBodyBytes (step x c) = wrap64 (tk_responseBodyBytes c + written_bytes x)"
    "in_i64 (tk_upstreamRequestHeaderBytes c) \<Longrightarrow>
      tk_upstreamRequestHeaderBytes (step x c) = wrap64 (tk_upstreamRequestHeaderBytes c + hop_head x)"
    "in_i64 (tk_upstreamRequestBodyDeclaredBytes c) \<Longrightarrow>
      tk_upstreamRequestBodyDeclaredBytes (step x c) = wrap64 (tk_upstreamRequestBodyDeclaredBytes c + hop_declared x)"
    "in_i64 (tk_upstreamRequestBodyBytes c) \<Longrightarrow>
      tk_upstreamRequestBodyBytes (step x c) = wrap64 (tk_upstreamRequestBodyBytes c + hop_sent x)"
    "in_i64 (tk_upstreamResponseHeaderBytes c) \<Longrightarrow>
      tk_upstreamResponseHeaderBytes (step x c) = wrap64 (tk_upstreamResponseHeaderBytes c + reply_head x)"
    "in_i64 (tk_upstreamResponseBodyDeclaredBytes c) \<Longrightarrow>
      tk_upstreamResponseBodyDeclaredBytes (step x c) = wrap64 (tk_upstreamResponseBodyDeclaredBytes c + reply_declared x)"
    "in_i64 (tk_upstreamResponseBodyBytes c) \<Longrightarrow>
      tk_upstreamResponseBodyBytes (step x c) = wrap64 (tk_upstreamResponseBodyBytes c + reply_read x)"
    "tk_upstreamTLS (step x c) \<longleftrightarrow> tk_upstreamTLS c \<or> hop_tls x"
    "tk_cfg (step x c) = tk_cfg c" "tk_tls (step x c) = tk_tls c" "tk_requestHeaderBytes (step x c) = tk_requestHeaderBytes c"
    "tk_requestBodyDeclaredBytes (step x c) = tk_requestBodyDeclaredBytes c"
  by (cases x rule: reply_head.cases;
      auto simp: step_def counter_ops split: option.splits)+

lemma step_answer:
  "tk_responseFinalized c \<Longrightarrow> tk_responseFinalized (gateway_step b proto x c) \<and>
    tk_responseHeaderBytes (gateway_step b proto x c) = tk_responseHeaderBytes c"
  if "b = Some (CountingReadCloser RawBody AddRequest)" for b
  using that by (cases x rule: reply_head.cases; auto simp: counter_ops split: option.splits)

lemma step_answered:
  "\<not> tk_responseFinalized c \<Longrightarrow> case answered x of
     None \<Rightarrow> \<not> tk_responseFinalized (gateway_step b proto x c)
   | Some (st, hdr) \<Rightarrow> tk_responseFinalized (gateway_step b proto x c) \<and>
       tk_responseHeaderBytes (gateway_step b proto x c) = estimateResponseHeadBytes (or_ok st) hdr proto"
  if "b = Some (CountingReadCloser RawBody AddRequest)" for b
  using that by (cases x rule: reply_head.cases; auto simp: counter_ops or_ok_def split: option.splits)

lemma fold_answered:
  assumes "b = Some (CountingReadCloser RawBody AddRequest)" and "tk_responseFinalized c"
  shows "tk_responseFinalized (fold (gateway_step b proto) xs c) \<and>
    tk_responseHeaderBytes (fold (gateway_step b proto) xs c) = tk_responseHeaderBytes c"
  using assms(2) by (induction xs arbitrary: c) (simp_all add: step_answer [OF assms(1)])

lemma fold_first_answer:
  assumes "b = Some (CountingReadCloser RawBody AddRequest)" and "\<not> tk_responseFinalized c"
    and "first_answer xs (status, h) = (st, hdr)"
  shows "tk_responseHeaderBytes (FinalizeResponse status h proto (fold (gateway_step b proto) xs c)) =
    estimateResponseHeadBytes (or_ok st) hdr proto"
  using assms(2,3)
proof (induction xs arbitrary: c)
  case Nil
  then show ?case by (simp add: FinalizeResponse_def or_ok_def)
next
  case (Cons x xs)
  show ?case
  proof (cases "answered x")
    case None
    then show ?thesis using Cons step_answered [OF assms(1) Cons.prems(1), where x = x and proto = proto] by simp
  next
    case (Some a)
    then show ?thesis using Cons.prems step_answered [OF assms(1) Cons.prems(1), where x = x and proto = proto]
        fold_answered [OF assms(1), where c = "gateway_step b proto x c" and proto = proto and xs = xs]
      by (simp add: FinalizeResponse_def)
  qed
qed

lemma fold_kept:
  assumes "\<And>x c. F (step x c) = F c"
  shows "F (fold step xs c) = F c"
  by (induction xs arbitrary: c) (simp_all add: assms)

lemma FinalizeResponse_keeps [simp]:
  "tk_requestBodyBytes (FinalizeResponse s h p c) = tk_requestBodyBytes c"
  "tk_responseBodyBytes (FinalizeResponse s h p c) = tk_responseBodyBytes c"
  "tk_upstreamRequestHeaderBytes (FinalizeResponse s h p c) = tk_upstreamRequestHeaderBytes c"
  "tk_upstreamRequestBodyDeclaredBytes (FinalizeResponse s h p c) = tk_upstreamRequestBodyDeclaredBytes c"
  "tk_upstreamRequestBodyBytes (FinalizeResponse s h p c) = tk_upstreamRequestBodyBytes c"
  "tk_upstreamResponseHeaderBytes (FinalizeResponse s h p c) = tk_upstreamResponseHeaderBytes c"
  "tk_upstreamResponseBodyDeclaredBytes (FinalizeResponse s h p c) = tk_upstreamResponseBodyDeclaredBytes c"
  "tk_upstreamResponseBodyBytes (FinalizeResponse s h p c) = tk_upstreamResponseBodyBytes c"
  "tk_upstreamTLS (FinalizeResponse s h p c) = tk_upstreamTLS c" "tk_cfg (FinalizeResponse s h p c) = tk_cfg c"
  "tk_tls (FinalizeResponse s h p c) = tk_tls c" "tk_requestHeaderBytes (FinalizeResponse s h p c) = tk_requestHeaderBytes c"
  "tk_requestBodyDeclaredBytes (FinalizeResponse s h p c) = tk_requestBodyDeclaredBytes c"
  by (simp_all add: FinalizeResponse_def Let_def)

lemma NewCounter_init:
  "tk_requestBodyBytes (NewCounter cfg (Some r)) = 0" "tk_responseBodyBytes (NewCounter cfg (Some r)) = 0"
  "tk_upstreamRequestHeaderBytes (NewCounter cfg (Some r)) = 0" "tk_upstreamRequestBodyDeclaredBytes (NewCounter cfg (Some r)) = 0"
  "tk_upstreamRequestBodyBytes (NewCounter cfg (Some r)) = 0" "tk_upstreamResponseHeaderBytes (NewCounter cfg (Some r)) = 0"
  "tk_upstreamResponseBodyDeclaredBytes (NewCounter cfg (Some r)) = 0" "tk_upstreamResponseBodyBytes (NewCounter cfg (Some r)) = 0"
  "\<not> tk_upstreamTLS (NewCounter cfg (Some r))" "\<not> tk_responseFinalized (NewCounter cfg (Some r))"
  "tk_cfg (NewCounter cfg (Some r)) = NormalizeConfig cfg" "tk_tls (NewCounter cfg (Some r)) = requestUsesTLS (Some r)"
  "tk_requestHeaderBytes (NewCounter cfg (Some r)) = estimateRequestHeadBytes (Some r)"
  "tk_requestBodyDeclaredBytes (NewCounter cfg (Some r)) = max (hr_ContentLength r) 0"
  by (simp_all add: NewCounter_def emptyCounter_def Let_def)

lemma fold_sums:
  fixes proto :: string
  defines "run \<equiv> fold (gateway_step (Some (CountingReadCloser RawBody AddRequest)) proto)"
  shows "tk_requestBodyBytes (run xs (NewCounter cfg (Some r))) = wrap64 (\<Sum>x\<leftarrow>xs. read_bytes x)"
    "tk_responseBodyBytes (run xs (NewCounter cfg (Some r))) = wrap64 (\<Sum>x\<leftarrow>xs. written_bytes x)"
    "tk_upstreamRequestHeaderBytes (run xs (NewCounter cfg (Some r))) = wrap64 (\<Sum>x\<leftarrow>xs. hop_head x)"
    "tk_upstreamRequestBodyDeclaredBytes (run xs (NewCounter cfg (Some r))) = wrap64 (\<Sum>x\<leftarrow>xs. hop_declared x)"
    "tk_upstreamRequestBodyBytes (run xs (NewCounter cfg (Some r))) = wrap64 (\<Sum>x\<leftarrow>xs. hop_sent x)"
    "tk_upstreamResponseHeaderBytes (run xs (NewCounter cfg (Some r))) = wrap64 (\<Sum>x\<leftarrow>xs. reply_head x)"
    "tk_upstreamResponseBodyDeclaredBytes (run xs (NewCounter cfg (Some r))) = wrap64 (\<Sum>x\<leftarrow>xs. reply_declared x)"
    "tk_upstreamResponseBodyBytes (run xs (NewCounter cfg (Some r))) = wrap64 (\<Sum>x\<leftarrow>xs. reply_read x)"
proof -
  have zero: "in_i64 0" by (simp add: in_i64_def)
  show "tk_requestBodyBytes (run xs (NewCounter cfg (Some r))) = wrap64 (\<Sum>x\<leftarrow>xs. read_bytes x)"
    unfolding run_def by (subst fold_counts [where F = tk_requestBodyBytes and f = read_bytes, OF step_counts(1)]) (simp_all add: NewCounter_init zero)
  show "tk_responseBodyBytes (run xs (NewCounter cfg (Some r))) = wrap64 (\<Sum>x\<leftarrow>xs. written_bytes x)"
    unfolding run_def by (subst fold_counts [where F = tk_responseBodyBytes and f = written_bytes, OF step_counts(2)]) (simp_all add: NewCounter_init zero)
  show "tk_upstreamRequestHeaderBytes (run xs (NewCounter cfg (Some r))) = wrap64 (\<Sum>x\<leftarrow>xs. hop_head x)"
    unfolding run_def by (subst fold_counts [where F = tk_upstreamRequestHeaderBytes and f = hop_head, OF step_counts(3)]) (simp_all add: NewCounter_init zero)
  show "tk_upstreamRequestBodyDeclaredBytes (run xs (NewCounter cfg (Some r))) = wrap64 (\<Sum>x\<leftarrow>xs. hop_declared x)"
    unfolding run_def by (subst fold_counts [where F = tk_upstreamRequestBodyDeclaredBytes and f = hop_declared, OF step_counts(4)]) (simp_all add: NewCounter_init zero)
  show "tk_upstreamRequestBodyBytes (run xs (NewCounter cfg (Some r))) = wrap64 (\<Sum>x\<leftarrow>xs. hop_sent x)"
    unfolding run_def by (subst fold_counts [where F = tk_upstreamRequestBodyBytes and f = hop_sent, OF step_counts(5)]) (simp_all add: NewCounter_init zero)
  show "tk_upstreamResponseHeaderBytes (run xs (NewCounter cfg (Some r))) = wrap64 (\<Sum>x\<leftarrow>xs. reply_head x)"
    unfolding run_def by (subst fold_counts [where F = tk_upstreamResponseHeaderBytes and f = reply_head, OF step_counts(6)]) (simp_all add: NewCounter_init zero)
  show "tk_upstreamResponseBodyDeclaredBytes (run xs (NewCounter cfg (Some r))) = wrap64 (\<Sum>x\<leftarrow>xs. reply_declared x)"
    unfolding run_def by (subst fold_counts [where F = tk_upstreamResponseBodyDeclaredBytes and f = reply_declared, OF step_counts(7)]) (simp_all add: NewCounter_init zero)
  show "tk_upstreamResponseBodyBytes (run xs (NewCounter cfg (Some r))) = wrap64 (\<Sum>x\<leftarrow>xs. reply_read x)"
    unfolding run_def by (subst fold_counts [where F = tk_upstreamResponseBodyBytes and f = reply_read, OF step_counts(8)]) (simp_all add: NewCounter_init zero)
qed

lemma NormalizeConfig_fields:
  "tc_Enabled (NormalizeConfig cfg) = tc_Enabled cfg"
  "tc_Source (NormalizeConfig cfg) = (if TrimSpace (tc_Source cfg) = [] then defaultSource else tc_Source cfg)"
  "tc_TLSRecordPayloadBytes (NormalizeConfig cfg) =
    (if tc_TLSRecordPayloadBytes cfg \<le> 0 then defaultTLSRecordPayloadBytes else tc_TLSRecordPayloadBytes cfg)"
  "tc_TLSRecordOverhead (NormalizeConfig cfg) = max (tc_TLSRecordOverhead cfg) 0"
  "tc_TCPIPHeaderBytes (NormalizeConfig cfg) = max (tc_TCPIPHeaderBytes cfg) 0"
  "tc_TCPPayloadBytes (NormalizeConfig cfg) =
    (if tc_TCPPayloadBytes cfg \<le> 0 then defaultTCPPayloadBytes else tc_TCPPayloadBytes cfg)"
  by (simp_all add: NormalizeConfig_def Let_def)

lemma NormalizeConfig_idem: "NormalizeConfig (NormalizeConfig cfg) = NormalizeConfig cfg"
proof -
  have "TrimSpace defaultSource \<noteq> []" by code_simp
  then show ?thesis
    by (intro TrafficConfig.equality)
      (simp_all add: NormalizeConfig_fields defaultTLSRecordPayloadBytes_def defaultTCPPayloadBytes_def)
qed

lemma fold_tls: "tk_upstreamTLS (fold (gateway_step (Some (CountingReadCloser RawBody AddRequest)) proto) xs c) \<longleftrightarrow>
    tk_upstreamTLS c \<or> list_ex hop_tls xs"
  by (induction xs arbitrary: c) (auto simp: step_counts)

lemma base_exact:
  "0 \<le> h \<Longrightarrow> 0 \<le> d \<Longrightarrow> 0 \<le> b \<Longrightarrow> h + max d b < 2 ^ 53 \<Longrightarrow> wrap64 (h + max d (wrap64 b)) = h + max d b"
  "0 \<le> h \<Longrightarrow> 0 \<le> b \<Longrightarrow> h + b < 2 ^ 53 \<Longrightarrow> wrap64 (h + wrap64 b) = h + b"
  "0 \<le> h \<Longrightarrow> 0 \<le> d \<Longrightarrow> 0 \<le> b \<Longrightarrow> h + max d b < 2 ^ 53 \<Longrightarrow>
    wrap64 (wrap64 h + max (wrap64 d) (wrap64 b)) = h + max d b"
proof -
  have id: "0 \<le> x \<Longrightarrow> x < 2 ^ 53 \<Longrightarrow> wrap64 x = x" for x by (simp add: in_i64_def)
  show "wrap64 (h + max d (wrap64 b)) = h + max d b" if "0 \<le> h" "0 \<le> d" "0 \<le> b" "h + max d b < 2 ^ 53"
    using that by (subst id [of b], simp, linarith, intro id) linarith+
  show "wrap64 (h + wrap64 b) = h + b" if "0 \<le> h" "0 \<le> b" "h + b < 2 ^ 53"
    using that by (subst id [of b], simp, linarith, intro id) linarith+
  show "wrap64 (wrap64 h + max (wrap64 d) (wrap64 b)) = h + max d b"
    if "0 \<le> h" "0 \<le> d" "0 \<le> b" "h + max d b < 2 ^ 53"
  proof -
    have "wrap64 h = h" "wrap64 d = d" "wrap64 b = b" using that by (intro id; linarith)+
    then show ?thesis using that by (simp only:) (intro id; linarith)
  qed
qed

text \<open>The four bases of the snapshot are the exact totals, as long as these fit.\<close>

lemma gateway_bases:
  assumes run: "TrafficStats cfg (Some r) xs status h = Some c" and body: "hr_Body r = Some RawBody"
    and fit: "exact_request r xs < 2 ^ 53" "exact_response r xs status h < 2 ^ 53"
      "exact_upstream_request xs < 2 ^ 53" "exact_upstream_response xs < 2 ^ 53"
  shows "ts_RequestBase (traffic_Snapshot c) = exact_request r xs" "ts_ResponseBase (traffic_Snapshot c) = exact_response r xs status h"
    "ts_UpstreamRequestBase (traffic_Snapshot c) = exact_upstream_request xs"
    "ts_UpstreamResponseBase (traffic_Snapshot c) = exact_upstream_response xs"
    "tk_cfg c = NormalizeConfig cfg" "tk_tls c = requestUsesTLS (Some r)" "tk_upstreamTLS c \<longleftrightarrow> list_ex hop_tls xs"
proof -
  let ?step = "gateway_step (Some (CountingReadCloser RawBody AddRequest)) (hr_Proto r)"
  let ?c0 = "NewCounter (NormalizeConfig cfg) (Some r)"
  have c: "c = FinalizeResponse status h (hr_Proto r) (fold ?step xs ?c0)"
    using run body by (simp add: TrafficStats_def Let_def split: if_splits)
  note kept = fold_kept [where step = ?step, OF step_counts(10)] fold_kept [where step = ?step, OF step_counts(11)]
    fold_kept [where step = ?step, OF step_counts(12)] fold_kept [where step = ?step, OF step_counts(13)]
  have nonneg: "0 \<le> (\<Sum>x\<leftarrow>xs. read_bytes x)" "0 \<le> (\<Sum>x\<leftarrow>xs. written_bytes x)" "0 \<le> (\<Sum>x\<leftarrow>xs. hop_head x)"
    "0 \<le> (\<Sum>x\<leftarrow>xs. hop_declared x)" "0 \<le> (\<Sum>x\<leftarrow>xs. hop_sent x)" "0 \<le> (\<Sum>x\<leftarrow>xs. reply_head x)"
    "0 \<le> (\<Sum>x\<leftarrow>xs. reply_declared x)" "0 \<le> (\<Sum>x\<leftarrow>xs. reply_read x)"
    by (auto intro!: sum_list_nonneg simp: contributions_nonneg)
  obtain st hdr where first: "first_answer xs (status, h) = (st, hdr)" by force
  show "tk_cfg c = NormalizeConfig cfg" "tk_tls c = requestUsesTLS (Some r)" "tk_upstreamTLS c \<longleftrightarrow> list_ex hop_tls xs"
    by (simp_all add: c kept NewCounter_init NormalizeConfig_idem fold_tls)
  show "ts_RequestBase (traffic_Snapshot c) = exact_request r xs"
    using base_exact(1) [of "estimateRequestHeadBytes (Some r)" "max (hr_ContentLength r) 0"] fit(1) nonneg(1)
    by (simp add: c traffic_Snapshot_def Let_def fold_sums(1) kept NewCounter_init exact_request_def)
  show "ts_ResponseBase (traffic_Snapshot c) = exact_response r xs status h"
    using base_exact(2) [of "estimateResponseHeadBytes (or_ok st) hdr (hr_Proto r)"] fit(2) nonneg(2) first
      fold_first_answer [OF refl _ first, of ?c0 "hr_Proto r"]
    by (simp add: c traffic_Snapshot_def Let_def fold_sums(2) NewCounter_init exact_response_def)
  show "ts_UpstreamRequestBase (traffic_Snapshot c) = exact_upstream_request xs"
    using base_exact(3) fit(3) nonneg(3-5)
    by (simp add: c traffic_Snapshot_def Let_def fold_sums(3-5) NewCounter_init exact_upstream_request_def)
  show "ts_UpstreamResponseBase (traffic_Snapshot c) = exact_upstream_response xs"
    using base_exact(3) fit(4) nonneg(6-8)
    by (simp add: c traffic_Snapshot_def Let_def fold_sums(6-8) NewCounter_init exact_upstream_response_def)
qed


text \<open>C18. The floating-point estimate is exact: below \<open>2 ^ 53\<close> bytes, the estimate that the code makes with
  \<open>float64\<close> quotients and \<open>math.Ceil\<close> is the one of integer arithmetic, in which every started TLS record and
  every started packet is paid in full; and it never is less than the bytes it estimates.\<close>

theorem wire_estimate_exact:
  assumes "wire_exactly base cfg tls < 2 ^ 53" and "tc_TLSRecordPayloadBytes cfg \<le> 2 ^ 53" and "tc_TCPPayloadBytes cfg \<le> 2 ^ 53"
  shows "estimateWireBytes base cfg tls = wire_exactly base cfg tls \<and> base \<le> estimateWireBytes base cfg tls"
  using estimateWireBytes_exact [OF assms] wire_exactly_ge by simp

definition demo_traffic :: TrafficConfig where
  "demo_traffic = \<lparr>tc_Enabled = True, tc_Source = ''edge'', tc_TLSRecordPayloadBytes = 16384, tc_TLSRecordOverhead = 21,
    tc_TCPIPHeaderBytes = 40, tc_TCPPayloadBytes = 1460\<rparr>"

theorem wire_estimate_exact_witness: "estimateWireBytes 16385 demo_traffic True = 16385 + 2 * 21 + 12 * 40"
  using wire_estimate_exact [of 16385 demo_traffic True] by (simp add: wire_exactly_def demo_traffic_def)


definition demo_gateway_request :: http_request where
  "demo_gateway_request = \<lparr>hr_Method = ''POST'', hr_Proto = ''HTTP/1.1'', hr_TLS = True, hr_URL = Some \<lparr>url_Scheme = [],
    url_Host = [], url_RequestURI = ''/v1/messages''\<rparr>, hr_Host = ''gw'', hr_Header = [(''Content-Length'', [''100''])],
    hr_ContentLength = 100, hr_TransferEncoding = [], hr_Body = Some RawBody\<rparr>"

definition demo_hop :: http_request where
  "demo_hop = demo_gateway_request\<lparr>hr_URL := Some \<lparr>url_Scheme = ''https'', url_Host = ''up'', url_RequestURI = ''/v1''\<rparr>\<rparr>"

definition demo_calls :: "gateway_call list" where
  "demo_calls = [ReadRequest 100, UpstreamTrip demo_hop (Inr (Some \<lparr>hp_StatusCode = 200, hp_Proto = ''HTTP/1.1'', hp_Header = [],
      hp_ContentLength = -1, hp_Body = Some RawBody\<rparr>)), ReadUpstreamRequest 100, ReadUpstreamResponse 300,
    WriteHeader 200 [], WriteData 200 [] 300, WriteData 500 [] 0]"

definition demo_usage :: UsageLog where
  "demo_usage = \<lparr>ul_RequestBytes = 0, ul_ResponseBytes = 0, ul_UpstreamRequestBytes = 0, ul_UpstreamResponseBytes = 0,
    ul_TrafficEstimated = False, ul_TrafficSource = None\<rparr>"

lemma demo_config: "NormalizeConfig demo_traffic = demo_traffic"
proof -
  have "TrimSpace ''edge'' \<noteq> []" by code_simp
  then show ?thesis by (simp add: NormalizeConfig_def Let_def demo_traffic_def)
qed


lemma trim_proto: "TrimSpace ''HTTP/1.1'' = ''HTTP/1.1''" by code_simp

lemma trim_host: "TrimSpace ''gw'' = ''gw''" by code_simp

lemma trim_scheme: "TrimSpace ''https'' = ''https''" by code_simp

lemma itoa_200: "Itoa 200 = ''200''" by code_simp

lemmas demo_trims = trim_proto trim_host trim_scheme itoa_200

lemma demo_heads:
  "estimateRequestHeadBytes (Some demo_gateway_request) = 61"
  "estimateRequestHeadBytes (Some demo_hop) = 52"
  "estimateResponseHeadBytes 200 [] ''HTTP/1.1'' = 56"
  by (simp_all add: estimateRequestHeadBytes_def estimateResponseHeadBytes_def Let_def demo_gateway_request_def demo_hop_def
      proto_or_default_def demo_trims headerBytes_def headerLineBytes_def header_Get_def StatusText_def http_status_texts_def)

lemma demo_totals: "exact_request demo_gateway_request demo_calls = 161"
  "exact_response demo_gateway_request demo_calls 200 [] = 356"
  "exact_upstream_request demo_calls = 152" "exact_upstream_response demo_calls = 356"
  "requestUsesTLS (Some demo_gateway_request)"
  by (simp_all add: exact_request_def exact_response_def exact_upstream_request_def exact_upstream_response_def
      demo_calls_def demo_heads or_ok_def requestUsesTLS_def)
    (simp_all add: demo_gateway_request_def demo_hop_def demo_heads)

lemma demo_hop_tls: "list_ex hop_tls demo_calls"
proof -
  have "equal_fold_word ''https'' ''https''" by code_simp
  then show ?thesis by (simp add: demo_calls_def requestURLUsesTLS_def demo_hop_def demo_trims)
qed


end
