(* ===== verification/Go_Time.thy ===== *)
theory Go_Time
  imports Go_Strings
begin

text \<open>
  Instants of Go's \<open>time\<close> as nanoseconds since 1970, \<open>0\<close> standing for the zero time of the records, and
  \<open>Format(time.RFC3339Nano)\<close> of an instant in UTC: the fraction is printed without trailing zeros.
\<close>

type_synonym instant = i64

definition second :: i64 where "second = 1000000000"
definition hour :: i64 where "hour = 3600 * second"

definition padded :: "nat \<Rightarrow> int \<Rightarrow> string" where
  "padded n x = (let s = Itoa x in replicate (n - length s) CHR ''0'' @ s)"

text \<open>Year, month and day of a day number, in the proleptic Gregorian calendar; years start in March here.\<close>

definition civil_date :: "int \<Rightarrow> int \<times> int \<times> int" where
  "civil_date day =
    (let z = day + 719468;
         era = z div 146097; doe = z mod 146097;
         yoe = (doe - doe div 1460 + doe div 36524 - doe div 146096) div 365;
         doy = doe - (365 * yoe + yoe div 4 - yoe div 100);
         mp = (5 * doy + 2) div 153;
         month = (if mp < 10 then mp + 3 else mp - 9)
     in (yoe + era * 400 + (if month \<le> 2 then 1 else 0), month, doy - (153 * mp + 2) div 5 + 1))"

definition RFC3339Nano :: "instant \<Rightarrow> string" where
  "RFC3339Nano t =
    (let seconds = t div second; nanos = t mod second; time = seconds mod 86400;
         fraction = rev (dropWhile (\<lambda>c. c = CHR ''0'') (rev (padded 9 nanos)))
     in case civil_date (seconds div 86400) of (year, month, day) \<Rightarrow>
       padded 4 year @ ''-'' @ padded 2 month @ ''-'' @ padded 2 day @ ''T'' @
       padded 2 (time div 3600) @ '':'' @ padded 2 (time div 60 mod 60) @ '':'' @ padded 2 (time mod 60) @
       (if fraction = [] then [] else ''.'' @ fraction) @ ''Z'')"

end
