(* ===== verification/Managed_Store.thy ===== *)
theory Managed_Store
  imports Go_Sha256 Go_Time Go_Utf8
begin

text \<open>
  The data of frp-plus's managed configuration store (\<open>src/frp-plus/agent/managed\<close>: \<open>types.go\<close>,
  \<open>record_retention.go\<close>, \<open>files_unix.go\<close>): operations and their durable records, the digest of a store, and a private
  directory. A directory is what it shows now and the earlier contents that a stop of the machine may still bring back:
  a replacement is a rename, which shows at once, and a sync of the directory, which makes all renames before it durable.
  Directory entries reach the disk in the order of the calls; the two directories are independent of each other. Any call
  may fail at each of its stages.
\<close>

section \<open>Operations\<close>

datatype op_state =
  Prepared | Applying | Verifying | Confirmed | OutcomeUnknown | RollingBack | RolledBack | RollbackFailed | Conflict | Cancelled

datatype managed_error =
  ErrInvalid | ErrUnsafePath | ErrLocked | ErrConflict | ErrBusy | ErrNotFound | ErrExpired | ErrStorage | ErrRecovery
| ErrRuntime | ErrOutcomeUnknown | ErrCapacity | ErrClosed | ErrContextChanged | ErrContextDone

fun terminal :: "op_state \<Rightarrow> bool" where
  "terminal Confirmed = True"
| "terminal RolledBack = True"
| "terminal Conflict = True"
| "terminal Cancelled = True"
| "terminal _ = False"

record Verification =
  vf_RuntimeLoaded :: bool
  vf_ResourcesReady :: bool
  vf_BusinessChecked :: bool

definition noVerification :: Verification where
  "noVerification = \<lparr>vf_RuntimeLoaded = False, vf_ResourcesReady = False, vf_BusinessChecked = False\<rparr>"

record Operation =
  op_MaterialsState :: string
  op_MaterialsExpiredAt :: "instant option"
  op_MaterialsExpiryReason :: string
  op_ID :: string
  op_BaseRevision :: string
  op_ContextRevision :: string
  op_RequestDigest :: string
  op_OldDigest :: string
  op_NewDigest :: string
  op_State :: op_state
  op_ErrorCode :: string
  op_CreatedAt :: instant
  op_UpdatedAt :: instant
  op_Deadline :: instant
  op_StorePersisted :: bool
  op_RuntimeApplied :: bool
  op_Verification :: Verification

text \<open>A record embeds its operation.\<close>

record managed_record = Operation +
  mr_Version :: int
  mr_contextChanged :: bool
  mr_KeyDigest :: string
  mr_Fingerprint :: string
  mr_OldExists :: bool
  mr_NeedsRuntime :: bool
  mr_TerminalAt :: "instant option"

definition operation_of :: "managed_record \<Rightarrow> Operation" where
  "operation_of r = Operation.truncate r"

definition with_operation :: "Operation \<Rightarrow> managed_record \<Rightarrow> managed_record" where
  "with_operation op r = Operation.extend op (managed_record.fields (mr_Version r) (mr_contextChanged r) (mr_KeyDigest r)
    (mr_Fingerprint r) (mr_OldExists r) (mr_NeedsRuntime r) (mr_TerminalAt r))"

definition MaxManagedOperations :: nat where "MaxManagedOperations = 1024"
definition MaterialsRetained :: string where "MaterialsRetained = ''retained''"
definition MaterialsExpired :: string where "MaterialsExpired = ''expired''"
definition MaterialsContextChanged :: string where "MaterialsContextChanged = ''context_changed''"

text \<open>The store: its bytes, or nothing when the file is missing. The digest tells an empty file from a missing one.\<close>

type_synonym store_snapshot = "string option"

definition Digest :: "store_snapshot \<Rightarrow> string" where
  "Digest s = sha256_hex (case s of Some b \<Rightarrow> CHR 0x01 # b | None \<Rightarrow> [CHR 0x00])"

definition idHash :: "string \<Rightarrow> string" where
  "idHash s = sha256_hex s"

definition id_char :: "char \<Rightarrow> bool" where
  "id_char c \<longleftrightarrow> c \<in> set ''ABCDEFGHIJKLMNOPQRSTUVWXYZabcdefghijklmnopqrstuvwxyz0123456789''"

definition safeID :: "string \<Rightarrow> bool" where
  "safeID s \<longleftrightarrow> (case s of [] \<Rightarrow> False
    | c # cs \<Rightarrow> id_char c \<and> length cs \<le> 127 \<and> list_all (\<lambda>d. id_char d \<or> d = CHR ''_'' \<or> d = CHR ''-'') cs)"

definition hex_char :: "char \<Rightarrow> bool" where
  "hex_char c \<longleftrightarrow> c \<in> set ''0123456789abcdefABCDEF''"

definition digestString :: "string \<Rightarrow> bool" where
  "digestString s \<longleftrightarrow> list_all hex_char s \<and> even (length s) \<and> length s div 2 = 32 \<and> map ascii_lower s = s"

section \<open>Records on disk\<close>

text \<open>The directory of operations. A file \<open>.json\<close> is the record that \<open>encoding/json\<close> wrote (without its unexported field), or
  \<open>None\<close> when its bytes are no such record; the snapshots are files of bytes; other files only count. The version-1
  check that no retention key occurs in the text is the check of its fields: a key with an empty value is \<open>None\<close>.\<close>

record op_files =
  of_journals :: "managed_record option gomap"
  of_snapshots :: "string gomap"
  of_others :: nat

definition journal_name :: "string \<Rightarrow> string" where "journal_name ident = idHash ident @ ''.json''"
definition old_name :: "string \<Rightarrow> string" where "old_name ident = idHash ident @ ''.old''"
definition new_name :: "string \<Rightarrow> string" where "new_name ident = idHash ident @ ''.new''"

text \<open>The policy in the answer: \<open>True\<close> when the snapshots are required.\<close>

definition decodeManagedRecord :: "managed_record option \<Rightarrow> string \<Rightarrow> (managed_record \<times> bool) option" where
  "decodeManagedRecord file name =
    (case file of None \<Rightarrow> None
     | Some r \<Rightarrow>
       if \<not> safeID (op_ID r) \<or> name \<noteq> journal_name (op_ID r) \<or> \<not> digestString (op_BaseRevision r) \<or>
         \<not> digestString (op_ContextRevision r) \<or> \<not> digestString (op_RequestDigest r) \<or> \<not> digestString (op_OldDigest r) \<or>
         \<not> digestString (op_NewDigest r) \<or> \<not> digestString (mr_KeyDigest r) \<or> \<not> digestString (mr_Fingerprint r) \<or>
         op_CreatedAt r = 0 \<or> op_UpdatedAt r = 0 \<or> op_Deadline r = 0
       then None
       else if mr_Version r = 1 then
         (if op_MaterialsState r \<noteq> [] \<or> op_MaterialsExpiredAt r \<noteq> None \<or> op_MaterialsExpiryReason r \<noteq> [] \<or> mr_TerminalAt r \<noteq> None
          then None else Some (r, True))
       else if mr_Version r = 2 then
         (if mr_TerminalAt r = Some 0 then None
          else if terminal (op_State r) \<and> mr_TerminalAt r = None then None
          else if op_MaterialsState r = MaterialsRetained then
            (if op_MaterialsExpiredAt r \<noteq> None \<or> op_MaterialsExpiryReason r \<noteq> [] then None else Some (r, True))
          else if op_MaterialsState r = MaterialsExpired then
            (case (mr_TerminalAt r, op_MaterialsExpiredAt r) of
               (Some t, Some x) \<Rightarrow>
                 if \<not> terminal (op_State r) \<or> mr_NeedsRuntime r \<or> x = 0 \<or> x < t \<or> op_MaterialsExpiryReason r \<noteq> ''ttl''
                 then None else Some (r, False)
             | _ \<Rightarrow> None)
          else None)
       else None)"

definition visibleOperation :: "managed_record \<Rightarrow> Operation" where
  "visibleOperation r =
    (let op = operation_of r;
         op = (if mr_contextChanged r \<and> op_MaterialsState op \<noteq> MaterialsExpired
           then op\<lparr>op_MaterialsState := MaterialsContextChanged\<rparr> else op)
     in if op_MaterialsState op = [] then op\<lparr>op_MaterialsState := MaterialsRetained\<rparr> else op)"

definition normalizeRecordRetention :: "instant \<Rightarrow> managed_record \<Rightarrow> managed_record" where
  "normalizeRecordRetention now r =
    (let r = (if mr_Version r = 1 then r\<lparr>mr_Version := 2, op_MaterialsState := MaterialsRetained\<rparr> else r)
     in if terminal (op_State r) \<and> mr_TerminalAt r = None then r\<lparr>mr_TerminalAt := Some now\<rparr> else r)"

section \<open>Private directories\<close>

record 'v dir =
  pd_now :: 'v
  pd_before :: "'v list"

text \<open>What the disk may hold after the machine stopped.\<close>

definition versions :: "'v dir \<Rightarrow> 'v list" where
  "versions d = pd_now d # pd_before d"

definition rename_in :: "('v \<Rightarrow> 'v) \<Rightarrow> 'v dir \<Rightarrow> 'v dir" where
  "rename_in f d = \<lparr>pd_now = f (pd_now d), pd_before = pd_now d # pd_before d\<rparr>"

definition sync_dir :: "'v dir \<Rightarrow> 'v dir" where
  "sync_dir d = \<lparr>pd_now = pd_now d, pd_before = []\<rparr>"

definition durable :: "'v \<Rightarrow> 'v dir" where
  "durable v = \<lparr>pd_now = v, pd_before = []\<rparr>"

text \<open>How a call ends: well, refused before it changed anything (by the directory's check or by an error), with a file that
  changed while it was read, with a rename that is not synced, or with a directory that fails its check after the sync.\<close>

datatype fault = Fine | Refused | Unsafe | Changed | Unsynced | Unchecked

definition fault_error :: "fault \<Rightarrow> managed_error option" where
  "fault_error f = (case f of Refused \<Rightarrow> Some ErrStorage | Unsafe \<Rightarrow> Some ErrUnsafePath | Changed \<Rightarrow> Some ErrConflict | _ \<Rightarrow> None)"

text \<open>\<open>privateDir.read\<close> of a file with the given content, which must not be longer than \<open>limit\<close>.\<close>

definition read_file :: "fault \<Rightarrow> i64 \<Rightarrow> store_snapshot \<Rightarrow> managed_error + store_snapshot" where
  "read_file fault limit content =
    (case fault_error fault of Some e \<Rightarrow> Inl e
     | None \<Rightarrow> case content of
         None \<Rightarrow> Inr None
       | Some b \<Rightarrow> if int (length b) > limit then Inl ErrUnsafePath else Inr (Some b))"

text \<open>What \<open>privateDir.replace\<close> checks before it writes: the arguments, and the present content against the expected digest
  (\<open>[]\<close> expects nothing).\<close>

definition replace_check :: "fault \<Rightarrow> i64 \<Rightarrow> string \<Rightarrow> store_snapshot \<Rightarrow> store_snapshot \<Rightarrow> managed_error option" where
  "replace_check fault limit expected current desired =
    (if (case desired of Some b \<Rightarrow> int (length b) > limit | None \<Rightarrow> False) then Some ErrInvalid
     else case read_file fault limit current of
       Inl e \<Rightarrow> Some e
     | Inr s \<Rightarrow> if expected \<noteq> [] \<and> Digest s \<noteq> expected then Some ErrConflict else None)"

text \<open>The rename and the sync, and the contents of the directory after each of them.\<close>

definition replace_steps :: "fault \<Rightarrow> ('v \<Rightarrow> 'v) \<Rightarrow> 'v dir \<Rightarrow> managed_error option \<times> 'v dir list" where
  "replace_steps fault f d =
    (let renamed = rename_in f d; synced = sync_dir renamed
     in case fault of
       Unsynced \<Rightarrow> (Some ErrStorage, [renamed])
     | Unchecked \<Rightarrow> (Some ErrUnsafePath, [renamed, synced])
     | _ \<Rightarrow> (None, [renamed, synced]))"

end
