(* ===== verification/Managed_Engine.thy ===== *)
theory Managed_Engine
  imports Managed_Store
begin

text \<open>
  The transaction engine of frp-plus's managed configuration store (\<open>engine.go\<close>, \<open>runtime.go\<close>): opening with
  recovery, preparing, applying, rolling back and closing. The engine is the state under its mutex together with the two
  directories it writes. What comes from outside (the clock, the outcome of every file access and of every callback, and what
  the other goroutines do while the mutex is free) is a sequence of answers; each access takes the next one.
  \<open>me_points\<close> keeps the directories after every rename and every sync, newest first: the places where the machine may stop.
\<close>

section \<open>State\<close>

datatype meanwhile = DeadlinePassed | WatcherRuns | RollbackAsked | CloseAsked

record answer =
  an_fault :: fault
  an_probe :: fault
  an_now :: instant
  an_ok :: bool
  an_verify :: Verification
  an_cancelled :: bool
  an_during :: "meanwhile list"
  an_after :: "meanwhile list"

record managed_options =
  mo_StoreName :: string
  mo_MaxBytes :: i64
  mo_SnapshotRetentionDays :: int
  mo_MaxSnapshotBytes :: i64
  mo_MaxOperations :: int
  mo_RollbackTimeout :: i64
  mo_CloseTimeout :: i64
  mo_RecoveryCheck :: bool

record managed_engine =
  me_opts :: managed_options
  me_serviceID :: string
  me_records :: "managed_record gomap"
  me_keys :: "string gomap"
  me_active :: string
  me_attached :: bool
  me_running :: bool
  me_restoring :: bool
  me_abortCode :: string
  me_closing :: bool
  me_released :: bool
  me_recoveryGate :: bool
  me_restoreBlocked :: bool
  me_store :: "store_snapshot dir"
  me_ops :: "op_files dir"
  me_points :: "(store_snapshot dir \<times> op_files dir) list"
  me_env :: "nat \<Rightarrow> answer"
  me_tick :: nat

definition ask :: "managed_engine \<Rightarrow> answer \<times> managed_engine" where
  "ask e = (me_env e (me_tick e), e\<lparr>me_tick := Suc (me_tick e)\<rparr>)"

definition the_record :: "managed_engine \<Rightarrow> string \<Rightarrow> managed_record" where
  "the_record e ident = the (gm_get (me_records e) ident)"

definition update_record :: "string \<Rightarrow> (managed_record \<Rightarrow> managed_record) \<Rightarrow> managed_engine \<Rightarrow> managed_engine" where
  "update_record ident f e = e\<lparr>me_records := gm_put ident (f (the_record e ident)) (me_records e)\<rparr>"

section \<open>File access\<close>

fun store_steps :: "store_snapshot dir list \<Rightarrow> managed_engine \<Rightarrow> managed_engine" where
  "store_steps [] e = e"
| "store_steps (d # ds) e = store_steps ds (e\<lparr>me_store := d, me_points := (d, me_ops e) # me_points e\<rparr>)"

fun ops_steps :: "op_files dir list \<Rightarrow> managed_engine \<Rightarrow> managed_engine" where
  "ops_steps [] e = e"
| "ops_steps (d # ds) e = ops_steps ds (e\<lparr>me_ops := d, me_points := (me_store e, d) # me_points e\<rparr>)"

definition readStore :: "managed_engine \<Rightarrow> (managed_error + store_snapshot) \<times> managed_engine" where
  "readStore e = (let (a, e) = ask e in (read_file (an_fault a) (mo_MaxBytes (me_opts e)) (pd_now (me_store e)), e))"

definition writeStore :: "store_snapshot \<Rightarrow> string \<Rightarrow> managed_engine \<Rightarrow> managed_error option \<times> managed_engine" where
  "writeStore desired expected e =
    (let (a, e) = ask e
     in case replace_check (an_fault a) (mo_MaxBytes (me_opts e)) expected (pd_now (me_store e)) desired of
       Some err \<Rightarrow> (Some err, e)
     | None \<Rightarrow> let (err, ds) = replace_steps (an_fault a) (\<lambda>_. desired) (me_store e) in (err, store_steps ds e))"

definition read_snapshot :: "string \<Rightarrow> managed_engine \<Rightarrow> (managed_error + store_snapshot) \<times> managed_engine" where
  "read_snapshot name e =
    (let (a, e) = ask e
     in (read_file (an_fault a) (mo_MaxBytes (me_opts e)) (gm_get (of_snapshots (pd_now (me_ops e))) name), e))"

definition replace_snapshot :: "string \<Rightarrow> store_snapshot \<Rightarrow> string \<Rightarrow> managed_engine \<Rightarrow> managed_error option \<times> managed_engine" where
  "replace_snapshot name desired expected e =
    (let (a, e) = ask e
     in case replace_check (an_fault a) (mo_MaxBytes (me_opts e)) expected
         (gm_get (of_snapshots (pd_now (me_ops e))) name) desired of
       Some err \<Rightarrow> (Some err, e)
     | None \<Rightarrow>
       let (err, ds) = replace_steps (an_fault a) (\<lambda>fs. fs\<lparr>of_snapshots :=
           (case desired of Some b \<Rightarrow> gm_put name b (of_snapshots fs) | None \<Rightarrow> AList.delete name (of_snapshots fs))\<rparr>) (me_ops e)
       in (err, ops_steps ds e))"

text \<open>Whether there is a journal: \<open>operations.read\<close> of it, of which only \<open>Exists\<close> is used.\<close>

definition probe_journal :: "string \<Rightarrow> managed_engine \<Rightarrow> (managed_error + bool) \<times> managed_engine" where
  "probe_journal ident e =
    (let (a, e) = ask e
     in (case fault_error (an_probe a) of Some err \<Rightarrow> Inl err
         | None \<Rightarrow> Inr (gm_get (of_journals (pd_now (me_ops e))) (journal_name ident) \<noteq> None), e))"

definition replace_journal :: "string \<Rightarrow> managed_engine \<Rightarrow> managed_error option \<times> managed_engine" where
  "replace_journal ident e =
    (let (a, e) = ask e; r = (the_record e ident)\<lparr>mr_contextChanged := False\<rparr>
     in case fault_error (an_fault a) of
       Some err \<Rightarrow> (Some err, e)
     | None \<Rightarrow>
       let (err, ds) = replace_steps (an_fault a)
         (\<lambda>fs. fs\<lparr>of_journals := gm_put (journal_name ident) (Some r) (of_journals fs)\<rparr>) (me_ops e)
       in (err, ops_steps ds e))"

section \<open>Records\<close>

definition persist :: "string \<Rightarrow> managed_engine \<Rightarrow> managed_error option \<times> managed_engine" where
  "persist ident e =
    (let (a, e) = ask e;
         e = update_record ident (normalizeRecordRetention (an_now a)) e;
         (err, e) = replace_journal ident e
     in (map_option (\<lambda>_. ErrStorage) err, e))"

definition save :: "string \<Rightarrow> managed_engine \<Rightarrow> managed_error option \<times> managed_engine" where
  "save ident e = (let (a, e) = ask e in persist ident (update_record ident (\<lambda>r. r\<lparr>op_UpdatedAt := an_now a\<rparr>) e))"

definition state :: "string \<Rightarrow> op_state \<Rightarrow> string \<Rightarrow> managed_engine \<Rightarrow> managed_error option \<times> managed_engine" where
  "state ident st code e =
    (let e = (if terminal st \<and> \<not> terminal (op_State (the_record e ident))
           then let (a, e) = ask e in update_record ident (\<lambda>r. r\<lparr>mr_TerminalAt := Some (an_now a)\<rparr>) e else e);
         (err, e) = save ident (update_record ident (\<lambda>r. r\<lparr>op_State := st, op_ErrorCode := code\<rparr>) e)
     in case err of
       Some x \<Rightarrow> (Some x, (update_record ident (\<lambda>r. r\<lparr>op_State := OutcomeUnknown, op_ErrorCode := ''journal_failed''\<rparr>) e)
           \<lparr>me_active := ident\<rparr>)
     | None \<Rightarrow> (None, if terminal st \<and> \<not> me_running e \<and> me_active e = ident then e\<lparr>me_active := []\<rparr> else e))"

definition settle :: "string \<Rightarrow> op_state \<Rightarrow> string \<Rightarrow> managed_engine \<Rightarrow> managed_engine" where
  "settle ident st code e = snd (state ident st code e)"

definition mark :: "string \<Rightarrow> op_state \<Rightarrow> string \<Rightarrow> managed_engine \<Rightarrow> managed_engine" where
  "mark ident st code = update_record ident (\<lambda>r. r\<lparr>op_State := st, op_ErrorCode := code\<rparr>)"

definition snapshots :: "managed_record \<Rightarrow> managed_engine \<Rightarrow>
    (managed_error + store_snapshot \<times> store_snapshot) \<times> managed_engine" where
  "snapshots r e =
    (if op_MaterialsState r = MaterialsExpired then (Inl ErrNotFound, e)
     else let (old, e) = read_snapshot (old_name (op_ID r)) e
     in case old of
       Inr (Some b) \<Rightarrow>
         let old = (if mr_OldExists r then Some b else None)
         in if \<not> mr_OldExists r \<and> b \<noteq> [] then (Inl ErrRecovery, e)
            else let (new, e) = read_snapshot (new_name (op_ID r)) e
            in (case new of
                 Inr (Some n) \<Rightarrow>
                   if Digest old \<noteq> op_OldDigest r \<or> Digest (Some n) \<noteq> op_NewDigest r then Inl ErrRecovery else Inr (old, Some n)
               | _ \<Rightarrow> Inl ErrRecovery, e)
     | _ \<Rightarrow> (Inl ErrRecovery, e))"

definition checkExpiredResidues :: "managed_record \<Rightarrow> managed_engine \<Rightarrow> managed_error option \<times> managed_engine" where
  "checkExpiredResidues r e =
    (let (old, e) = read_snapshot (old_name (op_ID r)) e
     in case old of Inl err \<Rightarrow> (Some err, e)
     | Inr _ \<Rightarrow> let (new, e) = read_snapshot (new_name (op_ID r)) e
         in case new of Inl err \<Rightarrow> (Some err, e) | Inr _ \<Rightarrow> (None, e))"

section \<open>Opening\<close>

fun load_loop :: "(string \<times> managed_record option) list \<Rightarrow> managed_engine \<Rightarrow> managed_error option \<times> managed_engine" where
  "load_loop [] e = (None, e)"
| "load_loop ((name, file) # rest) e =
    (if length (me_records e) \<ge> MaxManagedOperations then (Some ErrRecovery, e)
     else let (a, e) = ask e
     in if fault_error (an_fault a) \<noteq> None then (Some ErrRecovery, e)
     else case decodeManagedRecord file name of
       None \<Rightarrow> (Some ErrRecovery, e)
     | Some (r, required) \<Rightarrow>
       if gm_get (me_keys e) (mr_KeyDigest r) \<noteq> None then (Some ErrRecovery, e)
       else let (bad, e) = (if required
           then let (s, e) = snapshots r e in (case s of Inl _ \<Rightarrow> True | Inr _ \<Rightarrow> False, e)
           else let (err, e) = checkExpiredResidues r e in (err \<noteq> None, e))
       in if bad then (Some ErrRecovery, e)
       else let e = e\<lparr>me_records := gm_put (op_ID r) r (me_records e), me_keys := gm_put (mr_KeyDigest r) (op_ID r) (me_keys e)\<rparr>
       in if terminal (op_State r) then load_loop rest e
       else if me_active e \<noteq> [] then (Some ErrRecovery, e)
       else load_loop rest (e\<lparr>me_active := op_ID r\<rparr>))"

definition names_count :: "op_files \<Rightarrow> nat" where
  "names_count fs = length (of_journals fs) + length (of_snapshots fs) + of_others fs"

text \<open>The context history of a restored store names operations whose context has changed since (\<open>context_history.go\<close>). A file
  that decodes and whose origins hold gives its entries.\<close>

record contextHistoryEntry =
  he_ID :: string
  he_Fingerprint :: string
  he_ContextRevision :: string
  he_OldDigest :: string
  he_NewDigest :: string

definition historyEntry :: "managed_record \<Rightarrow> contextHistoryEntry" where
  "historyEntry r = \<lparr>he_ID = op_ID r, he_Fingerprint = mr_Fingerprint r, he_ContextRevision = op_ContextRevision r,
    he_OldDigest = op_OldDigest r, he_NewDigest = op_NewDigest r\<rparr>"

fun history_loop :: "managed_record gomap \<Rightarrow> contextHistoryEntry list \<Rightarrow> string list \<Rightarrow> managed_error + string list" where
  "history_loop records [] out = Inr out"
| "history_loop records (entry # entries) out =
    (case gm_get records (he_ID entry) of None \<Rightarrow> Inl ErrRecovery
     | Some r \<Rightarrow>
       if \<not> terminal (op_State r) \<or> mr_NeedsRuntime r \<or> he_ID entry \<in> set out \<or> entry \<noteq> historyEntry r then Inl ErrRecovery
       else history_loop records entries (he_ID entry # out))"

definition decodeContextHistory :: "contextHistoryEntry list \<Rightarrow> managed_record gomap \<Rightarrow> managed_error + string list" where
  "decodeContextHistory entries records =
    (if length entries > MaxManagedOperations then Inl ErrRecovery else history_loop records entries [])"

text \<open>What the other parts of the package contribute when a store is opened: private directories, lock and restore plan (an
  error or none), the service's identity, whether a restored checkpoint is still unverified, and the file of the context history.\<close>

record startup =
  su_prepare :: "managed_error option"
  su_identity :: "managed_error + string"
  su_restore :: "managed_error + bool"
  su_history :: "managed_error + contextHistoryEntry list"

definition context_changed :: "string list \<Rightarrow> managed_engine \<Rightarrow> managed_engine" where
  "context_changed ids e = fold (\<lambda>ident. update_record ident (\<lambda>r. r\<lparr>mr_contextChanged := True\<rparr>)) ids e"

definition loadContextHistory :: "startup \<Rightarrow> managed_engine \<Rightarrow> managed_error option \<times> managed_engine" where
  "loadContextHistory su e =
    (case su_history su of Inl x \<Rightarrow> (Some x, e)
     | Inr entries \<Rightarrow> case decodeContextHistory entries (me_records e) of Inl x \<Rightarrow> (Some x, e)
         | Inr ids \<Rightarrow> (None, context_changed ids e))"

definition load :: "startup \<Rightarrow> managed_engine \<Rightarrow> managed_error option \<times> managed_engine" where
  "load su e =
    (let (a, e) = ask e; files = pd_now (me_ops e)
     in if fault_error (an_fault a) \<noteq> None \<or> names_count files > MaxManagedOperations * 4 + 32 then (Some ErrRecovery, e)
     else let (err, e) = load_loop (of_journals files) e
     in if err \<noteq> None then (err, e) else loadContextHistory su e)"

text \<open>An unfinished operation is undone on disk before anything else uses the store.\<close>

definition recover :: "managed_engine \<Rightarrow> managed_error option \<times> managed_engine" where
  "recover e =
    (let ident = me_active e
     in if \<not> mo_RecoveryCheck (me_opts e) then (Some ErrRecovery, e)
     else let (a, e) = ask e
     in if \<not> an_ok a \<or> an_cancelled a then (Some ErrRecovery, e)
     else let (snaps, e) = snapshots (the_record e ident) e
     in case snaps of Inl _ \<Rightarrow> (Some ErrRecovery, e)
     | Inr (old, _) \<Rightarrow>
       let (current, e) = readStore e
       in case current of Inl _ \<Rightarrow> (Some ErrRecovery, e)
       | Inr c \<Rightarrow>
         if Digest c \<noteq> op_OldDigest (the_record e ident) \<and> Digest c \<noteq> op_NewDigest (the_record e ident) then (Some ErrRecovery, e)
         else let e = update_record ident (\<lambda>r. r\<lparr>op_State := RollingBack, op_ErrorCode := ''startup_recovery'', mr_NeedsRuntime := True,
                  op_RuntimeApplied := False, op_Verification := noVerification\<rparr>) e;
              (err, e) = save ident e
         in if err \<noteq> None then (Some ErrRecovery, e)
         else let (err, e) = writeStore old (Digest c) e
         in if err \<noteq> None then (Some ErrRecovery, e)
         else let (err, e) = save ident (update_record ident (\<lambda>r. r\<lparr>op_StorePersisted := False\<rparr>) e)
         in if err \<noteq> None then (Some ErrRecovery, e) else (None, e))"

definition options_defaults :: "managed_options \<Rightarrow> managed_options" where
  "options_defaults o1 = o1\<lparr>
    mo_SnapshotRetentionDays := (if mo_SnapshotRetentionDays o1 = 0 then 30 else mo_SnapshotRetentionDays o1),
    mo_MaxSnapshotBytes := (if mo_MaxSnapshotBytes o1 = 0 then 32 * 1024 * 1024 else mo_MaxSnapshotBytes o1),
    mo_MaxBytes := (if mo_MaxBytes o1 = 0 then 1024 * 1024 else mo_MaxBytes o1),
    mo_MaxOperations := (if mo_MaxOperations o1 = 0 then 1024 else mo_MaxOperations o1),
    mo_RollbackTimeout := (if mo_RollbackTimeout o1 = 0 then 30 * second else mo_RollbackTimeout o1),
    mo_CloseTimeout := (if mo_CloseTimeout o1 = 0 then second else mo_CloseTimeout o1)\<rparr>"

definition options_valid :: "managed_options \<Rightarrow> bool" where
  "options_valid o1 \<longleftrightarrow>
    1 \<le> mo_SnapshotRetentionDays o1 \<and> mo_SnapshotRetentionDays o1 \<le> 366 \<and>
    1024 * 1024 \<le> mo_MaxSnapshotBytes o1 \<and> mo_MaxSnapshotBytes o1 \<le> 1024 * 1024 * 1024 \<and>
    1 \<le> mo_MaxBytes o1 \<and> mo_MaxBytes o1 \<le> 16 * 1024 * 1024 \<and>
    1 \<le> mo_MaxOperations o1 \<and> mo_MaxOperations o1 \<le> int MaxManagedOperations \<and>
    0 < mo_RollbackTimeout o1 \<and> 0 < mo_CloseTimeout o1"

definition store_name_ok :: "string \<Rightarrow> bool" where
  "store_name_ok name \<longleftrightarrow> safeID (TrimSuffix name ''.json'') \<and> \<not> prefix ''.'' name \<and>
    map ascii_lower name \<notin> {''operations'', ''secrets'', ''identity.json'', ''restore.json'', ''restore-install.json'', ''context-history.json''}"

definition new_engine :: "managed_options \<Rightarrow> store_snapshot \<Rightarrow> op_files \<Rightarrow> (nat \<Rightarrow> answer) \<Rightarrow> managed_engine" where
  "new_engine opts store files env =
    \<lparr>me_opts = opts, me_serviceID = [], me_records = [], me_keys = [], me_active = [], me_attached = False, me_running = False,
     me_restoring = False, me_abortCode = [], me_closing = False, me_released = False, me_recoveryGate = False,
     me_restoreBlocked = False, me_store = durable store, me_ops = durable files, me_points = [(durable store, durable files)],
     me_env = env, me_tick = 0\<rparr>"

definition Open :: "startup \<Rightarrow> managed_options \<Rightarrow> store_snapshot \<Rightarrow> op_files \<Rightarrow> (nat \<Rightarrow> answer) \<Rightarrow>
    managed_error option \<times> managed_engine" where
  "Open su options store files env =
    (let opts = options_defaults options; e = new_engine opts store files env
     in if \<not> options_valid opts then (Some ErrInvalid, e)
     else if \<not> store_name_ok (mo_StoreName opts) then (Some ErrUnsafePath, e)
     else case su_prepare su of Some err \<Rightarrow> (Some err, e)
     | None \<Rightarrow> case su_identity su of Inl err \<Rightarrow> (Some err, e)
     | Inr service \<Rightarrow> case su_restore su of Inl err \<Rightarrow> (Some err, e)
     | Inr blocked \<Rightarrow>
       let (current, e) = readStore (e\<lparr>me_serviceID := service, me_restoreBlocked := blocked\<rparr>)
       in case current of Inl err \<Rightarrow> (Some err, e)
       | Inr _ \<Rightarrow>
         let (err, e) = load su e
         in case err of Some x \<Rightarrow> (Some x, e)
         | None \<Rightarrow> if me_active e \<noteq> [] then recover e else (None, e))"

end
