(* ===== verification/Managed_Ops.thy ===== *)
theory Managed_Ops
  imports Managed_Engine
begin

text \<open>
  The operations of an open engine (\<open>engine.go\<close>, \<open>runtime.go\<close>, \<open>retention.go\<close>). A worker runs to its end inside the call that
  starts it; wherever it leaves the mutex, the next answer says what the other goroutines do there: a deadline passes, the
  watcher of the phase runs, a rollback or a close is asked for. Every other call finds the running operation and changes
  nothing (\<open>running_refuses\<close>).
\<close>

section \<open>Preparing\<close>

record managed_request =
  rq_ID :: string
  rq_IdempotencyKey :: string
  rq_BaseRevision :: string
  rq_ContextRevision :: string
  rq_RequestDigest :: string
  rq_ExpectedDigest :: string
  rq_Candidate :: string
  rq_Deadline :: instant

definition request_valid :: "managed_options \<Rightarrow> managed_request \<Rightarrow> bool" where
  "request_valid opts rq \<longleftrightarrow> safeID (rq_ID rq) \<and> safeID (rq_IdempotencyKey rq) \<and> digestString (rq_BaseRevision rq) \<and>
    digestString (rq_ContextRevision rq) \<and> digestString (rq_RequestDigest rq) \<and> digestString (rq_ExpectedDigest rq) \<and>
    rq_Candidate rq \<noteq> [] \<and> int (length (rq_Candidate rq)) \<le> mo_MaxBytes opts \<and> rq_Deadline rq \<noteq> 0"

definition fingerprint :: "managed_request \<Rightarrow> string" where
  "fingerprint rq = idHash (rq_BaseRevision rq @ [CHR 0x00] @ rq_ContextRevision rq @ [CHR 0x00] @ rq_RequestDigest rq @ [CHR 0x00] @
    rq_ExpectedDigest rq @ [CHR 0x00] @ Digest (Some (rq_Candidate rq)) @ [CHR 0x00] @ RFC3339Nano (rq_Deadline rq))"

fun usage_loop :: "(string \<times> string) list \<Rightarrow> i64 \<Rightarrow> managed_engine \<Rightarrow> (managed_error + i64) \<times> managed_engine" where
  "usage_loop [] used e = (Inr used, e)"
| "usage_loop ((name, b) # rest) used e =
    (let (a, e) = ask e
     in case read_file (an_fault a) (mo_MaxBytes (me_opts e)) (Some b) of
       Inl err \<Rightarrow> (Inl err, e)
     | Inr _ \<Rightarrow>
       let used = used + int (length b)
       in if used > mo_MaxSnapshotBytes (me_opts e) then (Inr used, e) else usage_loop rest used e)"

definition snapshotUsageLocked :: "managed_engine \<Rightarrow> (managed_error + i64) \<times> managed_engine" where
  "snapshotUsageLocked e =
    (let (a, e) = ask e
     in case fault_error (an_fault a) of Some err \<Rightarrow> (Inl err, e)
     | None \<Rightarrow> if names_count (pd_now (me_ops e)) \<ge> 16417 then (Inl ErrStorage, e)
       else usage_loop (of_snapshots (pd_now (me_ops e))) 0 e)"

definition new_record :: "managed_request \<Rightarrow> store_snapshot \<Rightarrow> instant \<Rightarrow> managed_record" where
  "new_record rq old now =
    \<lparr>op_MaterialsState = MaterialsRetained, op_MaterialsExpiredAt = None, op_MaterialsExpiryReason = [], op_ID = rq_ID rq,
     op_BaseRevision = rq_BaseRevision rq, op_ContextRevision = rq_ContextRevision rq, op_RequestDigest = rq_RequestDigest rq,
     op_OldDigest = Digest old, op_NewDigest = Digest (Some (rq_Candidate rq)), op_State = Prepared, op_ErrorCode = [],
     op_CreatedAt = now, op_UpdatedAt = now, op_Deadline = rq_Deadline rq, op_StorePersisted = False,
     op_RuntimeApplied = False, op_Verification = noVerification,
     mr_Version = 2, mr_contextChanged = False, mr_KeyDigest = idHash (rq_IdempotencyKey rq), mr_Fingerprint = fingerprint rq,
     mr_OldExists = (old \<noteq> None), mr_NeedsRuntime = False, mr_TerminalAt = None\<rparr>"

type_synonym op_result = "Operation option \<times> managed_error option"

text \<open>The operation as it can be seen, with an error or none.\<close>

definition seen :: "string \<Rightarrow> managed_error option \<Rightarrow> managed_engine \<Rightarrow> op_result \<times> managed_engine" where
  "seen ident err e = ((Some (visibleOperation (the_record e ident)), err), e)"

definition refused :: "managed_error \<Rightarrow> managed_engine \<Rightarrow> op_result \<times> managed_engine" where
  "refused err e = ((None, Some err), e)"

text \<open>From the reservation of the ID on.\<close>

definition prepare_write :: "managed_request \<Rightarrow> store_snapshot \<Rightarrow> instant \<Rightarrow> managed_engine \<Rightarrow> op_result \<times> managed_engine" where
  "prepare_write rq old now e =
    (let ident = rq_ID rq; r = new_record rq old now;
         e = e\<lparr>me_records := gm_put ident r (me_records e), me_keys := gm_put (mr_KeyDigest r) ident (me_keys e), me_active := ident\<rparr>;
         (err, e) = replace_snapshot (old_name ident) (Some (case old of Some b \<Rightarrow> b | None \<Rightarrow> [])) [] e
     in if err \<noteq> None then seen ident (Some ErrStorage) (mark ident OutcomeUnknown ''snapshot_write_failed'' e)
     else let (err, e) = replace_snapshot (new_name ident) (Some (rq_Candidate rq)) [] e
     in if err \<noteq> None then seen ident (Some ErrStorage) (mark ident OutcomeUnknown ''snapshot_write_failed'' e)
     else let (err, e) = save ident e
     in if err \<noteq> None then seen ident (Some ErrStorage) (mark ident OutcomeUnknown ''journal_failed'' e)
     else seen ident None e)"

definition prepare_checked :: "managed_request \<Rightarrow> managed_engine \<Rightarrow> op_result \<times> managed_engine" where
  "prepare_checked rq e =
    (let (a, e) = ask e; now = an_now a
     in if \<not> now < rq_Deadline rq then refused ErrExpired e
     else if now + 24 * hour < rq_Deadline rq then refused ErrInvalid e
     else let (old, e) = readStore e
     in case old of Inl err \<Rightarrow> refused err e
     | Inr old \<Rightarrow>
       if Digest old \<noteq> rq_ExpectedDigest rq then refused ErrConflict e
       else let (usage, e) = snapshotUsageLocked e
       in case usage of Inl err \<Rightarrow> refused err e
       | Inr used \<Rightarrow>
         if used + int (length (case old of Some b \<Rightarrow> b | None \<Rightarrow> [])) + int (length (rq_Candidate rq)) > mo_MaxSnapshotBytes (me_opts e)
         then refused ErrCapacity e
         else let (journal, e) = probe_journal (rq_ID rq) e
         in if journal \<noteq> Inr False then refused ErrRecovery (e\<lparr>me_recoveryGate := True\<rparr>)
         else prepare_write rq old now e)"

definition Prepare :: "managed_error option \<Rightarrow> managed_request \<Rightarrow> managed_engine \<Rightarrow> op_result \<times> managed_engine" where
  "Prepare ctx rq e =
    (if ctx \<noteq> None then ((None, ctx), e)
     else if \<not> request_valid (me_opts e) rq then refused ErrInvalid e
     else if me_closing e then refused ErrClosed e
     else if me_recoveryGate e \<or> me_restoreBlocked e then refused ErrRecovery e
     else case gm_get (me_records e) (rq_ID rq) of
       Some r \<Rightarrow>
         if mr_KeyDigest r \<noteq> idHash (rq_IdempotencyKey rq) \<or> mr_Fingerprint r \<noteq> fingerprint rq
         then seen (rq_ID rq) (Some ErrConflict) e else seen (rq_ID rq) None e
     | None \<Rightarrow>
       if gm_get (me_keys e) (idHash (rq_IdempotencyKey rq)) \<noteq> None then refused ErrConflict e
       else if me_active e \<noteq> [] \<or> me_running e then refused ErrBusy e
       else if int (length (me_records e)) \<ge> mo_MaxOperations (me_opts e) then refused ErrCapacity e
       else prepare_checked rq e)"

text \<open>The timer of a prepared operation, once it fires.\<close>

definition expirePrepared :: "string \<Rightarrow> managed_engine \<Rightarrow> managed_engine" where
  "expirePrepared ident e =
    (if \<not> me_closing e \<and> op_State (the_record e ident) = Prepared then settle ident Cancelled ''deadline_expired'' e else e)"

definition Query :: "managed_error option \<Rightarrow> string \<Rightarrow> managed_engine \<Rightarrow> op_result" where
  "Query ctx ident e =
    (if ctx \<noteq> None then (None, ctx)
     else if me_closing e then (None, Some ErrClosed)
     else case gm_get (me_records e) ident of None \<Rightarrow> (None, Some ErrNotFound) | Some r \<Rightarrow> (Some (visibleOperation r), None))"

section \<open>Phases of a worker\<close>

text \<open>What makes \<open>Rollback\<close> return before it looks at the state of the operation.\<close>

definition rollback_refusal :: "string \<Rightarrow> managed_engine \<Rightarrow> managed_error option" where
  "rollback_refusal ident e =
    (if me_closing e then Some ErrClosed
     else if me_recoveryGate e \<or> me_restoreBlocked e then Some ErrRecovery
     else case gm_get (me_records e) ident of None \<Rightarrow> Some ErrNotFound
     | Some r \<Rightarrow> if op_MaterialsState r = MaterialsExpired then Some ErrNotFound
         else if mr_contextChanged r then Some ErrContextChanged else None)"

definition request_abort :: "managed_engine \<Rightarrow> managed_engine" where
  "request_abort e = (if \<not> me_restoring e then e\<lparr>me_abortCode := ''rollback_requested''\<rparr> else e)"

text \<open>The first part of \<open>Close\<close>, under the mutex.\<close>

definition begin_close :: "managed_engine \<Rightarrow> managed_engine" where
  "begin_close e =
    (if me_closing e then e
     else let e = e\<lparr>me_closing := True\<rparr>
     in if me_running e then
         let e = e\<lparr>me_abortCode := ''engine_closing''\<rparr>
         in case gm_get (me_records e) (me_active e) of
              Some r \<Rightarrow> if \<not> terminal (op_State r) then settle (me_active e) OutcomeUnknown ''engine_closing'' e else e
            | None \<Rightarrow> e
       else
         let e = (if me_active e \<noteq> [] \<and> op_State (the_record e (me_active e)) = Prepared
             then settle (me_active e) Cancelled ''cancelled_before_apply'' e else e)
         in e\<lparr>me_released := True\<rparr>)"

text \<open>The other goroutines, while the worker of \<open>ident\<close> runs a callback (\<open>live\<close>) or is between two of its sections. The flag is
  whether the context of the callback is done; its watcher reports once it is.\<close>

fun meanwhile_do :: "bool \<Rightarrow> string \<Rightarrow> string \<Rightarrow> meanwhile list \<Rightarrow> bool \<times> managed_engine \<Rightarrow> bool \<times> managed_engine" where
  "meanwhile_do live ident code [] c = c"
| "meanwhile_do live ident code (DeadlinePassed # acts) (done, e) = meanwhile_do live ident code acts (True, e)"
| "meanwhile_do live ident code (WatcherRuns # acts) (done, e) =
    meanwhile_do live ident code acts (done,
      if live \<and> done \<and> me_running e \<and> me_active e = ident
      then settle ident OutcomeUnknown (if me_abortCode e \<noteq> [] then me_abortCode e else code) e else e)"
| "meanwhile_do live ident code (RollbackAsked # acts) (done, e) =
    (if rollback_refusal ident e \<noteq> None then meanwhile_do live ident code acts (done, e)
     else meanwhile_do live ident code acts (done \<or> \<not> me_restoring e, request_abort e))"
| "meanwhile_do live ident code (CloseAsked # acts) (done, e) =
    meanwhile_do live ident code acts (done \<or> \<not> me_closing e, begin_close e)"

text \<open>One callback with its context, from \<open>phaseContext\<close> to the next \<open>Lock\<close>: the callback's answer, whether the context was done
  when it returned, and the engine.\<close>

definition run_phase :: "string \<Rightarrow> string \<Rightarrow> managed_engine \<Rightarrow> answer \<times> bool \<times> managed_engine" where
  "run_phase ident code e =
    (let (a, e) = ask e;
         start = (me_abortCode e \<noteq> [] \<and> code = ''deadline_expired'');
         (cancelled, e) = meanwhile_do True ident code (an_during a) (start, e);
         (_, e) = meanwhile_do False ident code (an_after a) (False, e)
     in (a, cancelled, e))"

text \<open>A place where the worker gives the mutex away without a callback.\<close>

definition yield_lock :: "string \<Rightarrow> managed_engine \<Rightarrow> managed_engine" where
  "yield_lock ident e = (let (a, e) = ask e in snd (meanwhile_do False ident [] (an_during a) (False, e)))"

section \<open>Rolling back\<close>

definition rollback_verify :: "string \<Rightarrow> string \<Rightarrow> managed_engine \<Rightarrow> managed_engine" where
  "rollback_verify ident code e =
    (let (a, cancelled, e) = run_phase ident ''rollback_timeout'' e
     in if cancelled then settle ident RollbackFailed ''rollback_timeout'' e
     else if \<not> an_ok a \<or> \<not> vf_RuntimeLoaded (an_verify a) \<or> \<not> vf_ResourcesReady (an_verify a)
     then settle ident RollbackFailed ''rollback_verification_failed'' e
     else let (current, e) = readStore e
     in if (case current of Inl _ \<Rightarrow> True | Inr c \<Rightarrow> Digest c \<noteq> op_OldDigest (the_record e ident))
     then settle ident RollbackFailed ''store_drift'' e
     else settle ident RolledBack code (update_record ident (\<lambda>r. r\<lparr>op_RuntimeApplied := False, mr_NeedsRuntime := False,
       op_Verification := an_verify a\<rparr>) e))"

definition rollback_runtime :: "string \<Rightarrow> bool \<Rightarrow> string \<Rightarrow> managed_engine \<Rightarrow> managed_engine" where
  "rollback_runtime ident startup code e =
    (if startup then rollback_verify ident code e
     else let (a, _, e) = run_phase ident ''rollback_timeout'' e
     in if \<not> an_ok a then settle ident RollbackFailed ''rollback_apply_failed'' e
     else rollback_verify ident code e)"

text \<open>The store has been read as \<open>current\<close>; the old snapshot is written over it.\<close>

definition rollback_restore :: "string \<Rightarrow> bool \<Rightarrow> Operation option \<Rightarrow> store_snapshot \<Rightarrow> store_snapshot \<Rightarrow> managed_engine \<Rightarrow>
    managed_error option \<times> managed_engine" where
  "rollback_restore ident startup confirmed old current e =
    (let code = (if confirmed \<noteq> None then ''rollback_requested'' else op_ErrorCode (the_record e ident));
         (err, e) = state ident RollingBack code (update_record ident (\<lambda>r. r\<lparr>op_Verification := noVerification\<rparr>) e)
     in if err \<noteq> None \<and> confirmed \<noteq> None then (Some ErrStorage, e)
     else let (err, e) = writeStore old (Digest current) e
     in case (err, confirmed) of
       (Some ErrConflict, Some op) \<Rightarrow>
         let (err, e) = persist ident (update_record ident (with_operation op) e)
         in if err \<noteq> None then (Some ErrStorage, update_record ident (\<lambda>r. r\<lparr>op_State := OutcomeUnknown,
              op_ErrorCode := ''journal_failed'', op_Verification := noVerification\<rparr>) e)
            else (Some ErrConflict, e)
     | (Some _, _) \<Rightarrow> (None, settle ident RollbackFailed ''rollback_store_failed'' e)
     | (None, _) \<Rightarrow>
       let (err, e) = save ident (update_record ident (\<lambda>r. r\<lparr>op_StorePersisted := False\<rparr>) e);
           e = (if err \<noteq> None then update_record ident (\<lambda>r. r\<lparr>op_ErrorCode := ''journal_failed''\<rparr>) e else e)
       in (None, rollback_runtime ident startup code (yield_lock ident e)))"

definition rollbackAfterCheck :: "string \<Rightarrow> bool \<Rightarrow> Operation option \<Rightarrow> managed_engine \<Rightarrow>
    managed_error option \<times> managed_engine" where
  "rollbackAfterCheck ident startup confirmed e =
    (if confirmed \<noteq> None \<and> me_closing e then (Some ErrClosed, e)
     else let (snaps, e) = snapshots (the_record e ident) e
     in case snaps of
       Inl _ \<Rightarrow>
         if confirmed \<noteq> None then (Some ErrStorage, e)
         else let (journal, e) = probe_journal ident e
         in if journal = Inr False then (None, mark ident RollbackFailed ''snapshot_invalid'' e)
            else (None, settle ident RollbackFailed ''snapshot_invalid'' e)
     | Inr (old, _) \<Rightarrow>
       let (current, e) = readStore e; r = the_record e ident
       in if (case current of Inl _ \<Rightarrow> True
           | Inr c \<Rightarrow> (Digest c \<noteq> op_OldDigest r \<and> Digest c \<noteq> op_NewDigest r) \<or>
               (case confirmed of Some op \<Rightarrow> Digest c \<noteq> op_NewDigest op | None \<Rightarrow> False))
         then if confirmed \<noteq> None then (Some ErrConflict, e) else (None, settle ident RollbackFailed ''store_drift'' e)
         else rollback_restore ident startup confirmed old (projr current) e)"

definition rollbackWorker :: "string \<Rightarrow> bool \<Rightarrow> managed_engine \<Rightarrow> managed_engine" where
  "rollbackWorker ident startup e =
    (let e = (yield_lock ident e)\<lparr>me_restoring := True\<rparr>;
         (a, cancelled, e) = run_phase ident ''rollback_timeout'' (yield_lock ident e)
     in if \<not> an_ok a \<or> cancelled
        then settle ident RollbackFailed (if cancelled then ''rollback_timeout'' else ''source_drift'') e
        else snd (rollbackAfterCheck ident startup None (yield_lock ident e)))"

text \<open>The preflight of a rollback of a confirmed operation has a context of its own, without a watcher.\<close>

definition rollbackConfirmed :: "Operation \<Rightarrow> managed_engine \<Rightarrow> managed_error option \<times> managed_engine" where
  "rollbackConfirmed original e =
    (let e = yield_lock (op_ID original) e;
         (a, e) = ask e;
         (cancelled, e) = meanwhile_do False (op_ID original) [] (an_during a) (me_closing e, e)
     in if me_closing e then (Some ErrClosed, e)
     else if cancelled then (Some ErrContextDone, e)
     else if \<not> an_ok a then (Some ErrConflict, e)
     else rollbackAfterCheck (op_ID original) False (Some original) (yield_lock (op_ID original) e))"

section \<open>Applying\<close>

definition abort_or :: "string \<Rightarrow> managed_engine \<Rightarrow> string" where
  "abort_or code e = (if me_abortCode e \<noteq> [] then me_abortCode e else code)"

definition apply_verify :: "string \<Rightarrow> managed_engine \<Rightarrow> managed_engine" where
  "apply_verify ident e =
    (let (a, cancelled, e) = run_phase ident ''deadline_expired'' (yield_lock ident e)
     in if \<not> an_ok a \<or> \<not> vf_RuntimeLoaded (an_verify a) \<or> \<not> vf_ResourcesReady (an_verify a) \<or> cancelled \<or> me_abortCode e \<noteq> []
     then rollbackWorker ident False (settle ident OutcomeUnknown
       (abort_or (if cancelled then ''deadline_expired'' else ''verification_failed'') e) e)
     else let (current, e) = readStore e
     in if (case current of Inl _ \<Rightarrow> True | Inr c \<Rightarrow> Digest c \<noteq> op_NewDigest (the_record e ident))
     then rollbackWorker ident False (settle ident OutcomeUnknown ''store_drift'' e)
     else let (err, e) = state ident Confirmed [] (update_record ident (\<lambda>r. r\<lparr>op_Verification := an_verify a\<rparr>) e)
     in if err \<noteq> None then rollbackWorker ident False e else e)"

definition apply_runtime :: "string \<Rightarrow> managed_engine \<Rightarrow> managed_engine" where
  "apply_runtime ident e =
    (let (a, cancelled, e) = run_phase ident ''deadline_expired'' (yield_lock ident e)
     in if \<not> an_ok a \<or> cancelled \<or> me_abortCode e \<noteq> []
     then rollbackWorker ident False (settle ident OutcomeUnknown
       (abort_or (if cancelled then ''deadline_expired'' else ''runtime_apply_failed'') e) e)
     else let (err, e) = state ident Verifying [] (update_record ident (\<lambda>r. r\<lparr>op_RuntimeApplied := True\<rparr>) e)
     in if err \<noteq> None then rollbackWorker ident False e else apply_verify ident e)"

definition apply_store :: "string \<Rightarrow> store_snapshot \<Rightarrow> managed_engine \<Rightarrow> managed_engine" where
  "apply_store ident desired e =
    (let (err, e) = writeStore desired (op_OldDigest (the_record e ident)) e
     in if err = Some ErrConflict then settle ident Conflict ''store_drift'' e
     else if err \<noteq> None then rollbackWorker ident False (settle ident OutcomeUnknown ''store_write_failed'' e)
     else let (err, e) = save ident (update_record ident (\<lambda>r. r\<lparr>op_StorePersisted := True\<rparr>) e)
     in if err \<noteq> None then rollbackWorker ident False (settle ident OutcomeUnknown ''journal_failed'' e)
     else let (a, e) = ask e
     in if \<not> an_now a < op_Deadline (the_record e ident) \<or> me_abortCode e \<noteq> []
     then rollbackWorker ident False (settle ident OutcomeUnknown ''deadline_expired'' e)
     else apply_runtime ident e)"

definition applyWorker :: "string \<Rightarrow> managed_engine \<Rightarrow> managed_engine" where
  "applyWorker ident e =
    (let e = yield_lock ident e;
         (a, cancelled, e) = run_phase ident ''deadline_expired'' (yield_lock ident e)
     in if \<not> an_ok a \<or> cancelled
     then if cancelled then settle ident Cancelled ''deadline_expired'' e else settle ident Conflict ''source_drift'' e
     else let (snaps, e) = snapshots (the_record e ident) e
     in case snaps of
       Inl _ \<Rightarrow> settle ident OutcomeUnknown ''snapshot_invalid'' e
     | Inr (_, desired) \<Rightarrow>
       let (a, e) = ask e
       in if \<not> an_now a < op_Deadline (the_record e ident) \<or> me_abortCode e \<noteq> []
       then settle ident Cancelled (abort_or ''deadline_expired'' e) e
       else apply_store ident desired e)"

section \<open>The calls\<close>

definition launch :: "string \<Rightarrow> managed_engine \<Rightarrow> managed_engine" where
  "launch ident e = e\<lparr>me_running := True, me_active := ident, me_abortCode := [], me_restoring := False\<rparr>"

text \<open>The end of the worker's goroutine.\<close>

definition work_done :: "string \<Rightarrow> managed_engine \<Rightarrow> managed_engine" where
  "work_done ident e =
    (let e = (yield_lock ident e)\<lparr>me_running := False\<rparr>;
         e = (if terminal (op_State (the_record e ident)) then e\<lparr>me_active := []\<rparr> else e)
     in if me_closing e then e\<lparr>me_released := True\<rparr> else e)"

text \<open>What a caller gets that waits for the worker's end.\<close>

definition wait_done :: "string \<Rightarrow> managed_error option \<Rightarrow> managed_engine \<Rightarrow> op_result \<times> managed_engine" where
  "wait_done ident err e =
    seen ident
      (if err \<noteq> None then err
       else case op_State (the_record e ident) of
         OutcomeUnknown \<Rightarrow> Some ErrOutcomeUnknown
       | RollbackFailed \<Rightarrow> Some ErrOutcomeUnknown
       | Conflict \<Rightarrow> Some ErrConflict
       | _ \<Rightarrow> None) e"

definition AttachRuntime :: "bool \<Rightarrow> managed_engine \<Rightarrow> managed_error option \<times> managed_engine" where
  "AttachRuntime complete e =
    (if \<not> complete then (Some ErrInvalid, e)
     else if me_closing e then (Some ErrClosed, e)
     else if me_attached e then (Some ErrConflict, e)
     else let e = e\<lparr>me_attached := True\<rparr>
     in if me_active e \<noteq> [] \<and> mr_NeedsRuntime (the_record e (me_active e))
        then let ident = me_active e in (None, work_done ident (rollbackWorker ident True (launch ident e)))
        else (None, e))"

definition Apply :: "managed_error option \<Rightarrow> string \<Rightarrow> managed_engine \<Rightarrow> op_result \<times> managed_engine" where
  "Apply ctx ident e =
    (if ctx \<noteq> None then ((None, ctx), e)
     else if me_closing e then refused ErrClosed e
     else if me_recoveryGate e \<or> me_restoreBlocked e then refused ErrRecovery e
     else case gm_get (me_records e) ident of None \<Rightarrow> refused ErrNotFound e
     | Some r \<Rightarrow>
       if op_MaterialsState r = MaterialsExpired then seen ident (Some ErrNotFound) e
       else if me_running e \<and> me_active e = ident then wait_done ident None e
       else if op_State r \<noteq> Prepared then seen ident None e
       else if \<not> me_attached e then seen ident (Some ErrRuntime) e
       else let (a, e) = ask e
       in if \<not> an_now a < op_Deadline r then
            let (err, e) = state ident Cancelled ''deadline_expired'' e
            in seen ident (if err \<noteq> None then err else Some ErrExpired) e
       else let (current, e) = readStore e
       in if (case current of Inl _ \<Rightarrow> True | Inr c \<Rightarrow> Digest c \<noteq> op_OldDigest r) then
            seen ident (Some ErrConflict) (settle ident Conflict ''store_drift'' e)
       else let (err, e) = state ident Applying [] e
       in if err \<noteq> None then seen ident err e
       else wait_done ident None (work_done ident (applyWorker ident (launch ident e))))"

definition rollback_unfinished :: "string \<Rightarrow> managed_engine \<Rightarrow> op_result \<times> managed_engine" where
  "rollback_unfinished ident e =
    (if \<not> me_attached e then seen ident (Some ErrRuntime) e
     else let (err, e) = state ident RollingBack ''rollback_requested'' e
     in if err \<noteq> None then seen ident err e
     else wait_done ident None (work_done ident (rollbackWorker ident False (launch ident e))))"

definition rollback_confirmed :: "string \<Rightarrow> managed_engine \<Rightarrow> op_result \<times> managed_engine" where
  "rollback_confirmed ident e =
    (if \<not> me_attached e then seen ident (Some ErrRuntime) e
     else let (current, e) = readStore e; r = the_record e ident
     in if (case current of Inl _ \<Rightarrow> True | Inr c \<Rightarrow> Digest c \<noteq> op_NewDigest r) then seen ident (Some ErrConflict) e
     else let (snaps, e) = snapshots r e
     in case snaps of Inl _ \<Rightarrow> seen ident (Some ErrStorage) e
     | Inr _ \<Rightarrow>
       let (err, e) = rollbackConfirmed (operation_of r) ((launch ident e)\<lparr>me_restoring := True\<rparr>)
       in wait_done ident err (work_done ident e))"

text \<open>The rollback of an operation that is neither only prepared nor already undone.\<close>

definition rollback_started :: "string \<Rightarrow> managed_engine \<Rightarrow> op_result \<times> managed_engine" where
  "rollback_started ident e =
    (if me_active e \<noteq> [] \<and> me_active e \<noteq> ident then seen ident (Some ErrBusy) e
     else if op_State (the_record e ident) = Confirmed then rollback_confirmed ident e
     else let (snaps, e) = snapshots (the_record e ident) e
     in case snaps of
       Inr _ \<Rightarrow> rollback_unfinished ident e
     | Inl _ \<Rightarrow>
       let (journal, e) = probe_journal ident e
       in if journal = Inr False then seen ident (Some ErrOutcomeUnknown) (mark ident RollbackFailed ''snapshot_invalid'' e)
          else rollback_unfinished ident e)"

definition Rollback :: "managed_error option \<Rightarrow> string \<Rightarrow> managed_engine \<Rightarrow> op_result \<times> managed_engine" where
  "Rollback ctx ident e =
    (if ctx \<noteq> None then ((None, ctx), e)
     else case rollback_refusal ident e of
       Some err \<Rightarrow> (if err \<in> {ErrClosed, ErrRecovery} \<or> gm_get (me_records e) ident = None then refused err e else seen ident (Some err) e)
     | None \<Rightarrow>
       if me_running e then
         (if me_active e \<noteq> ident then seen ident (Some ErrBusy) e else wait_done ident None (request_abort e))
       else if op_State (the_record e ident) = Prepared then
         let (err, e) = state ident Cancelled ''cancelled_before_apply'' e in seen ident err e
       else if op_State (the_record e ident) \<in> {RolledBack, Cancelled, Conflict} then seen ident None e
       else rollback_started ident e)"

text \<open>A close ends in time when no worker is left.\<close>

definition Close :: "managed_engine \<Rightarrow> managed_error option \<times> managed_engine" where
  "Close e = (let e = begin_close e in (if me_released e then None else Some ErrOutcomeUnknown, e))"

section \<open>Retention\<close>

record gc_result =
  gc_Expired :: nat
  gc_RemovedBytes :: i64

definition remove_snapshot :: "string \<Rightarrow> gc_result \<Rightarrow> managed_engine \<Rightarrow> managed_error option \<times> bool \<times> gc_result \<times> managed_engine" where
  "remove_snapshot name out e =
    (let (content, e) = read_snapshot name e
     in case content of Inl err \<Rightarrow> (Some err, False, out, e)
     | Inr None \<Rightarrow> (None, False, out, e)
     | Inr (Some b) \<Rightarrow>
       let (err, e) = replace_snapshot name None (Digest (Some b)) e
       in case err of Some x \<Rightarrow> (Some x, False, out, e)
       | None \<Rightarrow> (None, True, out\<lparr>gc_RemovedBytes := gc_RemovedBytes out + int (length b)\<rparr>, e))"

text \<open>One record that is terminal and no longer needs the runtime: an error ends the run; the flag tells whether it counts.\<close>

definition prune_record :: "string \<Rightarrow> instant \<Rightarrow> gc_result \<Rightarrow> managed_engine \<Rightarrow>
    managed_error option \<times> bool \<times> gc_result \<times> managed_engine" where
  "prune_record ident now out e =
    (let r = the_record e ident
     in if mr_Version r = 1 then
       let (err, e) = persist ident (update_record ident (normalizeRecordRetention now) e)
       in if err \<noteq> None then (err, False, out, e\<lparr>me_recoveryGate := True\<rparr>) else (None, True, out, e)
     else let expired = (op_MaterialsState r = MaterialsExpired)
     in if \<not> expired \<and> (case mr_TerminalAt r of None \<Rightarrow> True
         | Some t \<Rightarrow> \<not> t < now - mo_SnapshotRetentionDays (me_opts e) * 24 * hour) then (None, False, out, e)
     else let (err, e) = (if expired then (None, e)
         else persist ident (update_record ident (\<lambda>r. r\<lparr>op_MaterialsState := MaterialsExpired, op_MaterialsExpiryReason := ''ttl'',
           op_MaterialsExpiredAt := Some now\<rparr>) e))
     in if err \<noteq> None then (err, False, out, e\<lparr>me_recoveryGate := True\<rparr>)
     else let out = (if expired then out else out\<lparr>gc_Expired := Suc (gc_Expired out)\<rparr>);
              (err, c1, out, e) = remove_snapshot (old_name ident) out e
     in if err \<noteq> None then (err, False, out, e)
     else let (err, c2, out, e) = remove_snapshot (new_name ident) out e
     in if err \<noteq> None then (err, False, out, e)
     else (None, \<not> expired \<or> c1 \<or> c2, out, e))"

fun prune_loop :: "string list \<Rightarrow> instant \<Rightarrow> nat \<Rightarrow> gc_result \<Rightarrow> managed_engine \<Rightarrow>
    gc_result \<times> managed_error option \<times> managed_engine" where
  "prune_loop [] now touched out e = (out, None, e)"
| "prune_loop (ident # ids) now touched out e =
    (let (a, e) = ask e
     in if an_cancelled a then (out, Some ErrContextDone, e)
     else if touched \<ge> 8 then (out, None, e)
     else if \<not> terminal (op_State (the_record e ident)) \<or> mr_NeedsRuntime (the_record e ident) then prune_loop ids now touched out e
     else case prune_record ident now out e of (err, changed, out, e) \<Rightarrow>
       if err \<noteq> None then (out, err, e) else prune_loop ids now (if changed then Suc touched else touched) out e)"

definition PruneSnapshots :: "managed_error option \<Rightarrow> managed_engine \<Rightarrow> gc_result \<times> managed_error option \<times> managed_engine" where
  "PruneSnapshots ctx e =
    (let out = \<lparr>gc_Expired = 0, gc_RemovedBytes = 0\<rparr>
     in if ctx \<noteq> None then (out, ctx, e)
     else if me_closing e then (out, Some ErrClosed, e)
     else if me_active e \<noteq> [] \<or> me_running e \<or> me_recoveryGate e \<or> me_restoreBlocked e then (out, Some ErrBusy, e)
     else let (a, e) = ask e in prune_loop (map fst (gm_sorted (me_records e))) (an_now a) 0 out e)"

end
