(* ===== verification/Managed_Invariant.thy ===== *)
theory Managed_Invariant
  imports Managed_Ops
begin

text \<open>
  What keeps the managed store recoverable: \<open>recoverable_disk\<close> says of a store and a directory of operations that opening
  them can succeed; \<open>Inv\<close> links an engine's memory to its directories so that this holds of every content the disk may have
  after a stop at any point of its history.
\<close>

definition expired :: "managed_record \<Rightarrow> bool" where
  "expired r \<longleftrightarrow> op_MaterialsState r = MaterialsExpired"

definition same_operation :: "managed_record \<Rightarrow> managed_record \<Rightarrow> bool" where
  "same_operation r r' \<longleftrightarrow> op_ID r = op_ID r' \<and> mr_KeyDigest r = mr_KeyDigest r' \<and> op_OldDigest r = op_OldDigest r' \<and>
    op_NewDigest r = op_NewDigest r' \<and> mr_OldExists r = mr_OldExists r'"

definition snaps_ok :: "string gomap \<Rightarrow> managed_record \<Rightarrow> bool" where
  "snaps_ok sn r \<longleftrightarrow> (\<exists>b n. gm_get sn (old_name (op_ID r)) = Some b \<and> gm_get sn (new_name (op_ID r)) = Some n \<and>
    (mr_OldExists r \<or> b = []) \<and> Digest (if mr_OldExists r then Some b else None) = op_OldDigest r \<and>
    Digest (Some n) = op_NewDigest r)"

text \<open>A record of version 2 that can be written once its retention fields are normalized.\<close>

definition sound :: "managed_record \<Rightarrow> bool" where
  "sound r \<longleftrightarrow> safeID (op_ID r) \<and> digestString (op_BaseRevision r) \<and> digestString (op_ContextRevision r) \<and>
    digestString (op_RequestDigest r) \<and> digestString (op_OldDigest r) \<and> digestString (op_NewDigest r) \<and>
    digestString (mr_KeyDigest r) \<and> digestString (mr_Fingerprint r) \<and> op_CreatedAt r \<noteq> 0 \<and> op_UpdatedAt r \<noteq> 0 \<and>
    op_Deadline r \<noteq> 0 \<and> mr_TerminalAt r \<noteq> Some 0 \<and>
    (if expired r
     then mr_Version r = 2 \<and> terminal (op_State r) \<and> \<not> mr_NeedsRuntime r \<and> op_MaterialsExpiryReason r = ''ttl'' \<and>
       (\<exists>t x. mr_TerminalAt r = Some t \<and> op_MaterialsExpiredAt r = Some x \<and> x \<noteq> 0 \<and> t \<le> x)
     else mr_Version r = 2 \<and> op_MaterialsState r = MaterialsRetained \<and>
       op_MaterialsExpiredAt r = None \<and> op_MaterialsExpiryReason r = [])"

lemma materials_distinct [simp]:
  "MaterialsExpired \<noteq> []" "[] \<noteq> MaterialsExpired" "[] \<noteq> MaterialsRetained" "MaterialsRetained \<noteq> []" "MaterialsRetained \<noteq> MaterialsExpired" "MaterialsExpired \<noteq> MaterialsRetained"
  by (simp_all add: MaterialsExpired_def MaterialsRetained_def)

lemma sound_version: "sound r \<Longrightarrow> mr_Version r = 2"
  by (auto simp: sound_def split: if_splits)

lemma decode_sound:
  assumes "decodeManagedRecord f n = Some (r, required)" "mr_Version r = 2"
  shows "f = Some r \<and> n = journal_name (op_ID r) \<and> sound r \<and> required = (\<not> expired r)"
  using assms unfolding decodeManagedRecord_def sound_def expired_def
  by (auto split: option.splits if_splits)

lemma normalize_fields [simp]:
  "op_ID (normalizeRecordRetention now r) = op_ID r"
  "op_State (normalizeRecordRetention now r) = op_State r"
  "same_operation (normalizeRecordRetention now r) r' = same_operation r r'"
  "same_operation r' (normalizeRecordRetention now r) = same_operation r' r"
  by (simp_all add: normalizeRecordRetention_def same_operation_def Let_def)

lemma normalize_expired [simp]: "sound r \<Longrightarrow> expired (normalizeRecordRetention now r) = expired r"
  by (auto simp: normalizeRecordRetention_def expired_def sound_def Let_def)

lemma normalize_sound: "sound r \<Longrightarrow> now \<noteq> 0 \<Longrightarrow> sound (normalizeRecordRetention now r)"
  by (auto simp: normalizeRecordRetention_def expired_def sound_def Let_def split: if_splits)

lemma decode_normalized:
  assumes "sound r" "now \<noteq> 0" and "w = (normalizeRecordRetention now r)\<lparr>mr_contextChanged := False\<rparr>"
  shows "decodeManagedRecord (Some w) (journal_name (op_ID r)) = Some (w, \<not> expired r)"
proof (cases "expired r")
  case True
  then show ?thesis
    using assms by (auto simp: decodeManagedRecord_def normalizeRecordRetention_def sound_def expired_def Let_def)
next
  case False
  then show ?thesis
    using assms by (auto simp: decodeManagedRecord_def normalizeRecordRetention_def sound_def expired_def Let_def split: if_splits)
qed

lemma same_operation_refl [simp]: "same_operation r r"
  by (simp add: same_operation_def)

lemma same_operation_sym: "same_operation r r' \<Longrightarrow> same_operation r' r"
  by (simp add: same_operation_def)

lemma same_operation_trans: "same_operation r r' \<Longrightarrow> same_operation r' r'' \<Longrightarrow> same_operation r r''"
  by (simp add: same_operation_def)

lemma snaps_ok_same: "same_operation r r' \<Longrightarrow> snaps_ok sn r = snaps_ok sn r'"
  by (simp add: same_operation_def snaps_ok_def)

section \<open>Disks that can be opened\<close>

definition journal :: "op_files \<Rightarrow> string \<Rightarrow> managed_record option option" where
  "journal fs ident = gm_get (of_journals fs) (journal_name ident)"

definition readable :: "i64 \<Rightarrow> store_snapshot \<Rightarrow> bool" where
  "readable limit s \<longleftrightarrow> (case s of Some b \<Rightarrow> int (length b) \<le> limit | None \<Rightarrow> True)"

definition recoverable_disk :: "i64 \<Rightarrow> store_snapshot \<Rightarrow> op_files \<Rightarrow> bool" where
  "recoverable_disk limit s fs \<longleftrightarrow>
    readable limit s \<and> gm_wf (of_journals fs) \<and> length (of_journals fs) \<le> MaxManagedOperations \<and>
    (\<forall>n b. gm_get (of_snapshots fs) n = Some b \<longrightarrow> int (length b) \<le> limit) \<and>
    (\<forall>n f. gm_get (of_journals fs) n = Some f \<longrightarrow>
      (\<exists>r required. decodeManagedRecord f n = Some (r, required) \<and> mr_Version r = 2 \<and> (required \<longrightarrow> snaps_ok (of_snapshots fs) r) \<and>
        (\<not> terminal (op_State r) \<longrightarrow> Digest s \<in> {op_OldDigest r, op_NewDigest r}))) \<and>
    (\<forall>n n' r r'. gm_get (of_journals fs) n = Some (Some r) \<longrightarrow> gm_get (of_journals fs) n' = Some (Some r') \<longrightarrow>
      mr_KeyDigest r = mr_KeyDigest r' \<or> \<not> terminal (op_State r) \<and> \<not> terminal (op_State r') \<longrightarrow> n = n')"

definition recoverable_point :: "i64 \<Rightarrow> store_snapshot dir \<times> op_files dir \<Rightarrow> bool" where
  "recoverable_point limit p \<longleftrightarrow> (\<forall>s\<in>set (versions (fst p)). \<forall>fs\<in>set (versions (snd p)). recoverable_disk limit s fs)"

section \<open>The invariant of an engine\<close>

text \<open>The clock is set, and the presence of a journal can be read.\<close>

definition fair :: "(nat \<Rightarrow> answer) \<Rightarrow> bool" where
  "fair env \<longleftrightarrow> (\<forall>k. an_now (env k) \<noteq> 0 \<and> fault_error (an_probe (env k)) = None)"

definition memory_ok :: "managed_engine \<Rightarrow> bool" where
  "memory_ok e \<longleftrightarrow> fair (me_env e) \<and> options_valid (me_opts e) \<and>
    gm_wf (me_records e) \<and> length (me_records e) \<le> MaxManagedOperations \<and> inj_on idHash (gm_keys (me_records e)) \<and>
    (\<forall>ident r. gm_get (me_records e) ident = Some r \<longrightarrow>
      op_ID r = ident \<and> sound r \<and> gm_get (me_keys e) (mr_KeyDigest r) = Some ident \<and>
      (ident \<noteq> me_active e \<longrightarrow> terminal (op_State r))) \<and>
    (me_active e \<noteq> [] \<longrightarrow> (\<exists>r. gm_get (me_records e) (me_active e) = Some r \<and> \<not> expired r))"

text \<open>One content of the directory of operations.\<close>

definition fits :: "managed_engine \<Rightarrow> op_files \<Rightarrow> bool" where
  "fits e fs \<longleftrightarrow> gm_wf (of_journals fs) \<and>
    (\<forall>n b. gm_get (of_snapshots fs) n = Some b \<longrightarrow> int (length b) \<le> mo_MaxBytes (me_opts e)) \<and>
    (\<forall>n f. gm_get (of_journals fs) n = Some f \<longrightarrow>
      (\<exists>r required. decodeManagedRecord f n = Some (r, required) \<and> mr_Version r = 2 \<and> (required \<longrightarrow> snaps_ok (of_snapshots fs) r) \<and>
        (\<not> terminal (op_State r) \<longrightarrow> op_ID r = me_active e) \<and>
        (\<exists>r'. gm_get (me_records e) (op_ID r) = Some r' \<and> same_operation r r')))"

text \<open>What a record in memory says about its journal, for every record but those in \<open>X\<close>.\<close>

definition recorded :: "string set \<Rightarrow> managed_engine \<Rightarrow> op_files \<Rightarrow> bool" where
  "recorded X e fs \<longleftrightarrow> (\<forall>ident r. gm_get (me_records e) ident = Some r \<longrightarrow> ident \<notin> X \<longrightarrow> terminal (op_State r) \<longrightarrow>
    (\<exists>r'. journal fs ident = Some (Some r') \<and> op_State r' = op_State r \<and> (expired r \<longrightarrow> me_recoveryGate e \<or> expired r')))"

definition materials :: "managed_engine \<Rightarrow> bool" where
  "materials e \<longleftrightarrow> (\<forall>ident r. gm_get (me_records e) ident = Some r \<longrightarrow> \<not> expired r \<longrightarrow>
    snaps_ok (of_snapshots (pd_now (me_ops e))) r \<or>
    op_State r \<in> {OutcomeUnknown, RollbackFailed} \<and> \<not> mr_NeedsRuntime r \<and> (\<forall>fs\<in>set (versions (me_ops e)). journal fs ident = None))"

definition store_ok :: "managed_engine \<Rightarrow> bool" where
  "store_ok e \<longleftrightarrow> (\<forall>s\<in>set (versions (me_store e)). readable (mo_MaxBytes (me_opts e)) s \<and>
    (me_active e \<noteq> [] \<longrightarrow> Digest s \<in> {op_OldDigest (the_record e (me_active e)), op_NewDigest (the_record e (me_active e))}))"

definition Inv :: "string set \<Rightarrow> managed_engine \<Rightarrow> bool" where
  "Inv X e \<longleftrightarrow> memory_ok e \<and> store_ok e \<and> materials e \<and>
    (\<forall>fs\<in>set (versions (me_ops e)). fits e fs \<and> recorded X e fs \<and> gm_keys (of_journals fs) \<subseteq> gm_keys (of_journals (pd_now (me_ops e)))) \<and>
    (\<forall>p\<in>set (me_points e). recoverable_point (mo_MaxBytes (me_opts e)) p)"

section \<open>Fields that the invariant does not mention\<close>

lemma the_record_frame [simp]:
  "the_record (e\<lparr>me_tick := v0\<rparr>) ident = the_record e ident"
  "the_record (e\<lparr>me_attached := v1\<rparr>) ident = the_record e ident"
  "the_record (e\<lparr>me_running := v2\<rparr>) ident = the_record e ident"
  "the_record (e\<lparr>me_restoring := v3\<rparr>) ident = the_record e ident"
  "the_record (e\<lparr>me_abortCode := v4\<rparr>) ident = the_record e ident"
  "the_record (e\<lparr>me_closing := v5\<rparr>) ident = the_record e ident"
  "the_record (e\<lparr>me_released := v6\<rparr>) ident = the_record e ident"
  "the_record (e\<lparr>me_serviceID := v7\<rparr>) ident = the_record e ident"
  "the_record (e\<lparr>me_restoreBlocked := v8\<rparr>) ident = the_record e ident"
  "the_record (e\<lparr>me_points := v9\<rparr>) ident = the_record e ident"
  "the_record (e\<lparr>me_store := v10\<rparr>) ident = the_record e ident"
  "the_record (e\<lparr>me_ops := v11\<rparr>) ident = the_record e ident"
  "the_record (e\<lparr>me_active := v12\<rparr>) ident = the_record e ident"
  "the_record (e\<lparr>me_keys := v13\<rparr>) ident = the_record e ident"
  "the_record (e\<lparr>me_recoveryGate := v14\<rparr>) ident = the_record e ident"
  by (simp_all add: the_record_def)

lemma memory_ok_frame [simp]:
  "memory_ok (e\<lparr>me_tick := v0\<rparr>) = memory_ok e"
  "memory_ok (e\<lparr>me_attached := v1\<rparr>) = memory_ok e"
  "memory_ok (e\<lparr>me_running := v2\<rparr>) = memory_ok e"
  "memory_ok (e\<lparr>me_restoring := v3\<rparr>) = memory_ok e"
  "memory_ok (e\<lparr>me_abortCode := v4\<rparr>) = memory_ok e"
  "memory_ok (e\<lparr>me_closing := v5\<rparr>) = memory_ok e"
  "memory_ok (e\<lparr>me_released := v6\<rparr>) = memory_ok e"
  "memory_ok (e\<lparr>me_serviceID := v7\<rparr>) = memory_ok e"
  "memory_ok (e\<lparr>me_restoreBlocked := v8\<rparr>) = memory_ok e"
  "memory_ok (e\<lparr>me_points := v9\<rparr>) = memory_ok e"
  "memory_ok (e\<lparr>me_store := v10\<rparr>) = memory_ok e"
  "memory_ok (e\<lparr>me_ops := v11\<rparr>) = memory_ok e"
  "memory_ok (e\<lparr>me_recoveryGate := v14\<rparr>) = memory_ok e"
  by (simp_all add: memory_ok_def)

lemma fits_frame [simp]:
  "fits (e\<lparr>me_tick := v0\<rparr>) fs = fits e fs"
  "fits (e\<lparr>me_attached := v1\<rparr>) fs = fits e fs"
  "fits (e\<lparr>me_running := v2\<rparr>) fs = fits e fs"
  "fits (e\<lparr>me_restoring := v3\<rparr>) fs = fits e fs"
  "fits (e\<lparr>me_abortCode := v4\<rparr>) fs = fits e fs"
  "fits (e\<lparr>me_closing := v5\<rparr>) fs = fits e fs"
  "fits (e\<lparr>me_released := v6\<rparr>) fs = fits e fs"
  "fits (e\<lparr>me_serviceID := v7\<rparr>) fs = fits e fs"
  "fits (e\<lparr>me_restoreBlocked := v8\<rparr>) fs = fits e fs"
  "fits (e\<lparr>me_points := v9\<rparr>) fs = fits e fs"
  "fits (e\<lparr>me_store := v10\<rparr>) fs = fits e fs"
  "fits (e\<lparr>me_ops := v11\<rparr>) fs = fits e fs"
  "fits (e\<lparr>me_recoveryGate := v14\<rparr>) fs = fits e fs"
  by (simp_all add: fits_def)

lemma recorded_frame [simp]:
  "recorded X (e\<lparr>me_tick := v0\<rparr>) fs = recorded X e fs"
  "recorded X (e\<lparr>me_attached := v1\<rparr>) fs = recorded X e fs"
  "recorded X (e\<lparr>me_running := v2\<rparr>) fs = recorded X e fs"
  "recorded X (e\<lparr>me_restoring := v3\<rparr>) fs = recorded X e fs"
  "recorded X (e\<lparr>me_abortCode := v4\<rparr>) fs = recorded X e fs"
  "recorded X (e\<lparr>me_closing := v5\<rparr>) fs = recorded X e fs"
  "recorded X (e\<lparr>me_released := v6\<rparr>) fs = recorded X e fs"
  "recorded X (e\<lparr>me_serviceID := v7\<rparr>) fs = recorded X e fs"
  "recorded X (e\<lparr>me_restoreBlocked := v8\<rparr>) fs = recorded X e fs"
  "recorded X (e\<lparr>me_points := v9\<rparr>) fs = recorded X e fs"
  "recorded X (e\<lparr>me_store := v10\<rparr>) fs = recorded X e fs"
  "recorded X (e\<lparr>me_ops := v11\<rparr>) fs = recorded X e fs"
  "recorded X (e\<lparr>me_active := v12\<rparr>) fs = recorded X e fs"
  by (simp_all add: recorded_def)

lemma materials_frame [simp]:
  "materials (e\<lparr>me_tick := v0\<rparr>) = materials e"
  "materials (e\<lparr>me_attached := v1\<rparr>) = materials e"
  "materials (e\<lparr>me_running := v2\<rparr>) = materials e"
  "materials (e\<lparr>me_restoring := v3\<rparr>) = materials e"
  "materials (e\<lparr>me_abortCode := v4\<rparr>) = materials e"
  "materials (e\<lparr>me_closing := v5\<rparr>) = materials e"
  "materials (e\<lparr>me_released := v6\<rparr>) = materials e"
  "materials (e\<lparr>me_serviceID := v7\<rparr>) = materials e"
  "materials (e\<lparr>me_restoreBlocked := v8\<rparr>) = materials e"
  "materials (e\<lparr>me_points := v9\<rparr>) = materials e"
  "materials (e\<lparr>me_store := v10\<rparr>) = materials e"
  "materials (e\<lparr>me_recoveryGate := v14\<rparr>) = materials e"
  "materials (e\<lparr>me_active := v12\<rparr>) = materials e"
  by (simp_all add: materials_def)

lemma store_ok_frame [simp]:
  "store_ok (e\<lparr>me_tick := v0\<rparr>) = store_ok e"
  "store_ok (e\<lparr>me_attached := v1\<rparr>) = store_ok e"
  "store_ok (e\<lparr>me_running := v2\<rparr>) = store_ok e"
  "store_ok (e\<lparr>me_restoring := v3\<rparr>) = store_ok e"
  "store_ok (e\<lparr>me_abortCode := v4\<rparr>) = store_ok e"
  "store_ok (e\<lparr>me_closing := v5\<rparr>) = store_ok e"
  "store_ok (e\<lparr>me_released := v6\<rparr>) = store_ok e"
  "store_ok (e\<lparr>me_serviceID := v7\<rparr>) = store_ok e"
  "store_ok (e\<lparr>me_restoreBlocked := v8\<rparr>) = store_ok e"
  "store_ok (e\<lparr>me_points := v9\<rparr>) = store_ok e"
  "store_ok (e\<lparr>me_ops := v11\<rparr>) = store_ok e"
  "store_ok (e\<lparr>me_recoveryGate := v14\<rparr>) = store_ok e"
  by (simp_all add: store_ok_def)

lemma Inv_frame [simp]:
  "Inv X (e\<lparr>me_tick := v0\<rparr>) = Inv X e"
  "Inv X (e\<lparr>me_attached := v1\<rparr>) = Inv X e"
  "Inv X (e\<lparr>me_running := v2\<rparr>) = Inv X e"
  "Inv X (e\<lparr>me_restoring := v3\<rparr>) = Inv X e"
  "Inv X (e\<lparr>me_abortCode := v4\<rparr>) = Inv X e"
  "Inv X (e\<lparr>me_closing := v5\<rparr>) = Inv X e"
  "Inv X (e\<lparr>me_released := v6\<rparr>) = Inv X e"
  "Inv X (e\<lparr>me_serviceID := v7\<rparr>) = Inv X e"
  "Inv X (e\<lparr>me_restoreBlocked := v8\<rparr>) = Inv X e"
  by (simp_all add: Inv_def)

section \<open>Steps of the directories\<close>

lemma versions_simps [simp]:
  "versions (rename_in f d) = f (pd_now d) # versions d" "versions (sync_dir d) = [pd_now d]" "versions (durable v) = [v]"
  "pd_now (rename_in f d) = f (pd_now d)" "pd_now (sync_dir d) = pd_now d" "pd_now (durable v) = v"
  "pd_now d \<in> set (versions d)" "pd_before (sync_dir d) = []"
  by (simp_all add: versions_def rename_in_def sync_dir_def durable_def)

lemma journal_name_inj: "journal_name a = journal_name b \<longleftrightarrow> idHash a = idHash b"
  by (simp add: journal_name_def)

lemma safeID_nonempty: "safeID s \<Longrightarrow> s \<noteq> []"
  by (auto simp: safeID_def)

lemma memory_record:
  assumes "memory_ok e" "gm_get (me_records e) ident = Some r"
  shows "op_ID r = ident" "sound r" "gm_get (me_keys e) (mr_KeyDigest r) = Some ident" "ident \<noteq> []"
    "ident \<noteq> me_active e \<Longrightarrow> terminal (op_State r)" "the_record e ident = r" "ident \<in> gm_keys (me_records e)"
proof -
  have "op_ID r = ident \<and> sound r \<and> gm_get (me_keys e) (mr_KeyDigest r) = Some ident \<and> (ident \<noteq> me_active e \<longrightarrow> terminal (op_State r))"
    using assms unfolding memory_ok_def by blast
  moreover from this have "ident \<noteq> []"
    using safeID_nonempty [of ident] by (auto simp: sound_def)
  ultimately show "op_ID r = ident" "sound r" "gm_get (me_keys e) (mr_KeyDigest r) = Some ident" "ident \<noteq> []"
    "ident \<noteq> me_active e \<Longrightarrow> terminal (op_State r)" "the_record e ident = r" "ident \<in> gm_keys (me_records e)"
    using assms(2) by (simp_all add: the_record_def gm_keys_get)
qed

lemma fits_journal:
  assumes "fits e fs" "gm_get (of_journals fs) n = Some f"
  shows "\<exists>r r'. f = Some r \<and> n = journal_name (op_ID r) \<and> sound r \<and> decodeManagedRecord f n = Some (r, \<not> expired r) \<and>
    (\<not> expired r \<longrightarrow> snaps_ok (of_snapshots fs) r) \<and> (\<not> terminal (op_State r) \<longrightarrow> op_ID r = me_active e) \<and>
    gm_get (me_records e) (op_ID r) = Some r' \<and> same_operation r r'"
proof -
  obtain r required where d: "decodeManagedRecord f n = Some (r, required)" "mr_Version r = 2" and "required \<longrightarrow> snaps_ok (of_snapshots fs) r"
    "\<not> terminal (op_State r) \<longrightarrow> op_ID r = me_active e" "\<exists>r'. gm_get (me_records e) (op_ID r) = Some r' \<and> same_operation r r'"
    using assms unfolding fits_def by blast
  with decode_sound [OF d] d show ?thesis
    by auto
qed

lemma fits_Some:
  assumes "fits e fs" "gm_get (of_journals fs) n = Some (Some r)"
  shows "n = journal_name (op_ID r) \<and> sound r \<and> decodeManagedRecord (Some r) n = Some (r, \<not> expired r) \<and>
    (\<not> expired r \<longrightarrow> snaps_ok (of_snapshots fs) r) \<and> (\<not> terminal (op_State r) \<longrightarrow> op_ID r = me_active e) \<and>
    (\<exists>r'. gm_get (me_records e) (op_ID r) = Some r' \<and> same_operation r r')"
  using fits_journal [OF assms] by auto

lemma fits_ID:
  assumes "fits e fs" "gm_get (of_journals fs) n = Some f"
  shows "n \<in> journal_name ` gm_keys (me_records e)"
proof -
  obtain r r' :: managed_record where "n = journal_name (op_ID r)" "gm_get (me_records e) (op_ID r) = Some r'"
    using fits_journal [OF assms] by blast
  then show ?thesis
    by (simp add: gm_keys_get)
qed

lemma fits_count:
  assumes "memory_ok e" "fits e fs"
  shows "length (of_journals fs) \<le> MaxManagedOperations"
proof -
  have "gm_keys (of_journals fs) \<subseteq> journal_name ` gm_keys (me_records e)"
    using fits_ID [OF assms(2)] by (auto simp: gm_keys_get [of _ "of_journals fs"])
  then have "card (gm_keys (of_journals fs)) \<le> card (gm_keys (me_records e))"
    by (meson card_image_le card_mono finite_imageI gm_keys_finite le_trans)
  then show ?thesis
    using assms gm_length_keys [of "me_records e"] gm_length_keys [of "of_journals fs"]
    unfolding fits_def memory_ok_def by linarith
qed

lemma fits_recoverable:
  assumes m: "memory_ok e" and s: "store_ok e" "s \<in> set (versions (me_store e))" and f: "fits e fs"
  shows "recoverable_disk (mo_MaxBytes (me_opts e)) s fs"
  unfolding recoverable_disk_def
proof (intro conjI allI impI)
  show "readable (mo_MaxBytes (me_opts e)) s"
    using s by (auto simp: store_ok_def)
  show "gm_wf (of_journals fs)"
    using f by (simp add: fits_def)
  show "int (length b) \<le> mo_MaxBytes (me_opts e)" if "gm_get (of_snapshots fs) n = Some b" for n b
    using f that by (simp add: fits_def)
  show "length (of_journals fs) \<le> MaxManagedOperations"
    using m f by (rule fits_count)
next
  fix n g assume g: "gm_get (of_journals fs) n = Some g"
  obtain r r' :: managed_record where r: "g = Some r" "decodeManagedRecord g n = Some (r, \<not> expired r)"
    "\<not> expired r \<longrightarrow> snaps_ok (of_snapshots fs) r" "\<not> terminal (op_State r) \<longrightarrow> op_ID r = me_active e"
    "gm_get (me_records e) (op_ID r) = Some r'" "same_operation r r'"
    using fits_journal [OF f g] by blast
  have "Digest s \<in> {op_OldDigest r, op_NewDigest r}" if "\<not> terminal (op_State r)"
  proof -
    have "op_ID r = me_active e"
      using r(4) that by blast
    then have "me_active e \<noteq> []" and "the_record e (me_active e) = r'"
      using memory_record(4,6) [OF m r(5)] by simp_all
    then have "Digest s \<in> {op_OldDigest r', op_NewDigest r'}"
      using s unfolding store_ok_def by metis
    then show ?thesis
      using r(6) by (simp add: same_operation_def)
  qed
  moreover have "mr_Version r = 2"
    using fits_journal [OF f g] r(1) by (auto simp: sound_def split: if_splits)
  ultimately show "\<exists>r required. decodeManagedRecord g n = Some (r, required) \<and> mr_Version r = 2 \<and> (required \<longrightarrow> snaps_ok (of_snapshots fs) r) \<and>
      (\<not> terminal (op_State r) \<longrightarrow> Digest s \<in> {op_OldDigest r, op_NewDigest r})"
    using r(2,3) by (intro exI [of _ r] exI [of _ "\<not> expired r"]) simp
next
  fix n n' r r'
  assume a: "gm_get (of_journals fs) n = Some (Some r)" "gm_get (of_journals fs) n' = Some (Some r')"
    "mr_KeyDigest r = mr_KeyDigest r' \<or> \<not> terminal (op_State r) \<and> \<not> terminal (op_State r')"
  obtain q :: managed_record where q: "n = journal_name (op_ID r)" "\<not> terminal (op_State r) \<longrightarrow> op_ID r = me_active e"
      "gm_get (me_records e) (op_ID r) = Some q" "same_operation r q"
    using fits_Some [OF f a(1)] by blast
  obtain q' :: managed_record where q': "n' = journal_name (op_ID r')" "\<not> terminal (op_State r') \<longrightarrow> op_ID r' = me_active e"
      "gm_get (me_records e) (op_ID r') = Some q'" "same_operation r' q'"
    using fits_Some [OF f a(2)] by blast
  have "mr_KeyDigest r = mr_KeyDigest q" "mr_KeyDigest r' = mr_KeyDigest q'"
    using q(4) q'(4) by (simp_all add: same_operation_def)
  with a(3) have "op_ID r = op_ID r'"
    using q(2) q'(2) memory_record(3) [OF m q(3)] memory_record(3) [OF m q'(3)] by (metis option.inject)
  then show "n = n'"
    using q(1) q'(1) by simp
qed

lemma Inv_point:
  "Inv X e \<Longrightarrow> recoverable_point (mo_MaxBytes (me_opts e)) (me_store e, me_ops e)"
  by (auto simp: Inv_def recoverable_point_def intro!: fits_recoverable)

text \<open>Enough for the next engine: what a step has to show.\<close>

lemma Inv_ops_step:
  assumes "Inv X e" and "\<And>fs. fs \<in> set (versions d) \<Longrightarrow> fits e fs \<and> recorded X e fs \<and>
      gm_keys (of_journals fs) \<subseteq> gm_keys (of_journals (pd_now d))"
    and "materials (e\<lparr>me_ops := d\<rparr>)"
  shows "Inv X (e\<lparr>me_ops := d, me_points := (me_store e, d) # me_points e\<rparr>)"
  using assms by (auto simp: Inv_def recoverable_point_def intro!: fits_recoverable)

lemma Inv_store_step:
  assumes "Inv X e" and "store_ok (e\<lparr>me_store := d\<rparr>)"
  shows "Inv X (e\<lparr>me_store := d, me_points := (d, me_ops e) # me_points e\<rparr>)"
proof -
  have "recoverable_disk (mo_MaxBytes (me_opts e)) s fs" if "s \<in> set (versions d)" "fs \<in> set (versions (me_ops e))" for s fs
    using assms that fits_recoverable [of "e\<lparr>me_store := d\<rparr>" s fs] by (auto simp: Inv_def)
  then show ?thesis
    using assms by (auto simp: Inv_def recoverable_point_def)
qed

end
