(* ===== verification/Managed_Steps.thy ===== *)
theory Managed_Steps
  imports Managed_Invariant
begin

text \<open>
  The primitives of the managed store keep the invariant: an update of a record in memory, a journal, a snapshot or a
  store written with whatever outcome, a change of state, and what the other goroutines do while the mutex is free.
\<close>

section \<open>Records in memory\<close>

lemma update_record_simps [simp]:
  "me_opts (update_record ident f e) = me_opts e" "me_env (update_record ident f e) = me_env e"
  "me_keys (update_record ident f e) = me_keys e" "me_active (update_record ident f e) = me_active e"
  "me_attached (update_record ident f e) = me_attached e" "me_running (update_record ident f e) = me_running e"
  "me_restoring (update_record ident f e) = me_restoring e" "me_abortCode (update_record ident f e) = me_abortCode e"
  "me_closing (update_record ident f e) = me_closing e" "me_released (update_record ident f e) = me_released e"
  "me_recoveryGate (update_record ident f e) = me_recoveryGate e" "me_restoreBlocked (update_record ident f e) = me_restoreBlocked e"
  "me_store (update_record ident f e) = me_store e" "me_ops (update_record ident f e) = me_ops e"
  "me_points (update_record ident f e) = me_points e" "me_tick (update_record ident f e) = me_tick e"
  "me_serviceID (update_record ident f e) = me_serviceID e"
  by (simp_all add: update_record_def)

lemma update_record_get [simp]:
  "gm_get (me_records (update_record ident f e)) k = (if k = ident then Some (f (the_record e ident)) else gm_get (me_records e) k)"
  "the_record (update_record ident f e) k = (if k = ident then f (the_record e ident) else the_record e k)"
  by (simp_all add: update_record_def the_record_def update_conv')

lemma update_record_again: "update_record ident f (update_record ident g e) = update_record ident (f \<circ> g) e"
  by (simp add: update_record_def the_record_def update_conv' AList.update_last)

lemma ask_simp [simp]: "ask e = (me_env e (me_tick e), e\<lparr>me_tick := Suc (me_tick e)\<rparr>)"
  by (rule ask_def)

lemma fits_records:
  assumes "fits e fs" "me_opts e' = me_opts e" "me_active e' = me_active e"
    and "\<And>k q. \<exists>q'. gm_get (me_records e) k = Some q' \<and> same_operation q q' \<Longrightarrow> \<exists>q'. gm_get (me_records e') k = Some q' \<and> same_operation q q'"
  shows "fits e' fs"
  unfolding fits_def
proof (intro conjI allI impI)
  fix n g assume "gm_get (of_journals fs) n = Some g"
  with assms(1) obtain q required where "decodeManagedRecord g n = Some (q, required)" "mr_Version q = 2" "required \<longrightarrow> snaps_ok (of_snapshots fs) q"
      "\<not> terminal (op_State q) \<longrightarrow> op_ID q = me_active e" "\<exists>q'. gm_get (me_records e) (op_ID q) = Some q' \<and> same_operation q q'"
    unfolding fits_def by blast
  with assms(3,4) show "\<exists>r required. decodeManagedRecord g n = Some (r, required) \<and> mr_Version r = 2 \<and> (required \<longrightarrow> snaps_ok (of_snapshots fs) r) \<and>
      (\<not> terminal (op_State r) \<longrightarrow> op_ID r = me_active e') \<and> (\<exists>r'. gm_get (me_records e') (op_ID r) = Some r' \<and> same_operation r r')"
    by (intro exI [of _ q] exI [of _ required]) simp
qed (use assms in \<open>simp_all add: fits_def\<close>)

text \<open>How a record may be updated: its operation stays what it is, and what it is said to have done is in its journal.\<close>

lemma Inv_update:
  assumes inv: "Inv X e" and r: "gm_get (me_records e) ident = Some r"
    and f: "same_operation r (f r)" "sound (f r)" "ident \<noteq> me_active e \<Longrightarrow> terminal (op_State (f r))"
      "expired (f r) = expired r \<or> expired (f r) \<and> ident \<in> X \<and> ident \<noteq> me_active e"
      "ident \<in> X \<or> \<not> terminal (op_State (f r)) \<or> op_State (f r) = op_State r"
      "snaps_ok (of_snapshots (pd_now (me_ops e))) r \<or> expired r \<or>
        op_State (f r) \<in> {OutcomeUnknown, RollbackFailed} \<and> (mr_NeedsRuntime (f r) \<longrightarrow> mr_NeedsRuntime r)"
  shows "Inv X (update_record ident f e)"
proof -
  let ?e = "update_record ident f e"
  have m: "memory_ok e"
    using inv by (simp add: Inv_def)
  have rec: "the_record e ident = r"
    using r by (simp add: the_record_def)
  have keys: "gm_keys (me_records ?e) = gm_keys (me_records e)"
    using r by (auto simp: gm_keys_get split: if_splits)
  have wf: "gm_wf (me_records ?e)" "gm_wf (me_records e)"
    using m by (simp_all add: update_record_def memory_ok_def gm_wf_put)
  moreover have "length (me_records ?e) = length (me_records e)"
    using wf by (simp only: gm_length_keys keys)
  ultimately have shape: "gm_wf (me_records ?e)" "length (me_records ?e) = length (me_records e)"
    by simp_all
  have same: "op_ID (f r) = ident" "mr_KeyDigest (f r) = mr_KeyDigest r"
    using f(1) memory_record(1) [OF m r] by (simp_all add: same_operation_def)
  have "memory_ok ?e"
    unfolding memory_ok_def
  proof (intro conjI allI impI)
    fix k q assume q: "gm_get (me_records ?e) k = Some q"
    show "op_ID q = k" "sound q" "gm_get (me_keys ?e) (mr_KeyDigest q) = Some k"
      using q r rec same f(2) memory_record(1-3) [OF m] by (auto split: if_splits)
    show "terminal (op_State q)" if "k \<noteq> me_active ?e"
      using q that rec f(3) memory_record(5) [OF m, of k q] by (auto split: if_splits)
  next
    assume "me_active ?e \<noteq> []"
    then obtain q where "gm_get (me_records e) (me_active e) = Some q" "\<not> expired q"
      using m by (auto simp: memory_ok_def)
    then show "\<exists>r. gm_get (me_records ?e) (me_active ?e) = Some r \<and> \<not> expired r"
      using r rec f(4) by auto
  qed (use m shape keys in \<open>simp_all add: memory_ok_def\<close>)
  moreover have "store_ok ?e"
  proof -
    have "op_OldDigest (the_record ?e k) = op_OldDigest (the_record e k)" "op_NewDigest (the_record ?e k) = op_NewDigest (the_record e k)" for k
      using f(1) rec by (auto simp: same_operation_def)
    then show ?thesis
      using inv unfolding Inv_def store_ok_def by (simp del: update_record_get)
  qed
  moreover have "materials ?e"
    unfolding materials_def
  proof (intro allI impI)
    fix k q assume q: "gm_get (me_records ?e) k = Some q" "\<not> expired q"
    show "snaps_ok (of_snapshots (pd_now (me_ops ?e))) q \<or>
      op_State q \<in> {OutcomeUnknown, RollbackFailed} \<and> \<not> mr_NeedsRuntime q \<and> (\<forall>fs\<in>set (versions (me_ops ?e)). journal fs k = None)"
    proof (cases "k = ident")
      case True
      have m: "snaps_ok (of_snapshots (pd_now (me_ops e))) r \<or>
          op_State r \<in> {OutcomeUnknown, RollbackFailed} \<and> \<not> mr_NeedsRuntime r \<and> (\<forall>fs\<in>set (versions (me_ops e)). journal fs ident = None)" if "\<not> expired r"
        using inv r that unfolding Inv_def materials_def by blast
      have "q = f r"
        using q True rec by simp
      then show ?thesis
        using m f(4,6) q(2) True snaps_ok_same [OF f(1)] by auto
    next
      case False
      then show ?thesis
        using inv q unfolding Inv_def materials_def by simp
    qed
  qed
  moreover have "fits ?e fs \<and> recorded X ?e fs" if fs: "fits e fs \<and> recorded X e fs" for fs
  proof
    have *: "\<exists>q'. gm_get (me_records ?e) k = Some q' \<and> same_operation q q'" if "\<exists>q'. gm_get (me_records e) k = Some q' \<and> same_operation q q'" for q k
    proof -
      obtain q' where "gm_get (me_records e) k = Some q'" "same_operation q q'"
        using \<open>\<exists>q'. gm_get (me_records e) k = Some q' \<and> same_operation q q'\<close> by blast
      then show ?thesis
        using r rec same_operation_trans [of q r "f r"] f(1) by (cases "k = ident") simp_all
    qed
    show "fits ?e fs"
      by (rule fits_records [of e]) (use fs * in simp_all)
    show "recorded X ?e fs"
      unfolding recorded_def
    proof (intro allI impI)
      fix k q assume q: "gm_get (me_records ?e) k = Some q" "k \<notin> X" "terminal (op_State q)"
      have "\<exists>r'. journal fs k = Some (Some r') \<and> op_State r' = op_State p \<and> (expired p \<longrightarrow> me_recoveryGate e \<or> expired r')"
        if "gm_get (me_records e) k = Some p" "terminal (op_State p)" for p
        using fs that q(2) unfolding recorded_def by blast
      then show "\<exists>r'. journal fs k = Some (Some r') \<and> op_State r' = op_State q \<and> (expired q \<longrightarrow> me_recoveryGate ?e \<or> expired r')"
        using q r rec f(4,5) by (cases "k = ident") auto
    qed
  qed
  ultimately show ?thesis
    using inv unfolding Inv_def by auto
qed

lemma Inv_weaken: "Inv X e \<Longrightarrow> X \<subseteq> Y \<Longrightarrow> Inv Y e"
  unfolding Inv_def recorded_def by blast

text \<open>An exempt record is exempt no longer once it is not terminal, or once its journal is in every content.\<close>

lemma Inv_include:
  assumes "Inv X e" and "gm_get (me_records e) ident = Some r"
    and "terminal (op_State r) \<Longrightarrow> (\<forall>fs\<in>set (versions (me_ops e)). \<exists>r'. journal fs ident = Some (Some r') \<and> op_State r' = op_State r \<and>
      (expired r \<longrightarrow> me_recoveryGate e \<or> expired r'))"
  shows "Inv (X - {ident}) e"
  using assms unfolding Inv_def recorded_def by auto

lemma Inv_idle:
  assumes inv: "Inv {} e" and "terminal (op_State (the_record e (me_active e)))"
  shows "Inv {} (e\<lparr>me_active := []\<rparr>)"
proof (cases "me_active e = []")
  case False
  have m: "memory_ok e"
    using inv by (simp add: Inv_def)
  with False obtain r where r: "gm_get (me_records e) (me_active e) = Some r"
    by (auto simp: memory_ok_def)
  then have t: "terminal (op_State r)"
    using assms(2) by (simp add: the_record_def)
  have "fits (e\<lparr>me_active := []\<rparr>) fs" if fs: "fs \<in> set (versions (me_ops e))" for fs
  proof -
    have fit: "fits e fs"
      using inv fs by (simp add: Inv_def)
    obtain r' where r': "journal fs (me_active e) = Some (Some r')" "op_State r' = op_State r"
      using inv fs r t unfolding Inv_def recorded_def by blast
    have "terminal (op_State q)" if "gm_get (of_journals fs) n = Some g" "decodeManagedRecord g n = Some (q, required)" for n g q required
    proof (rule ccontr)
      assume n: "\<not> terminal (op_State q)"
      have "g = Some q"
        using that(2) by (auto simp: decodeManagedRecord_def split: option.splits if_splits)
      with fits_Some [OF fit, of n q] that(1) n have "n = journal_name (me_active e)"
        by metis
      then show False
        using r' that(1) \<open>g = Some q\<close> t n by (simp add: journal_def)
    qed
    then show ?thesis
      using fit unfolding fits_def by (simp, blast)
  qed
  moreover have "memory_ok (e\<lparr>me_active := []\<rparr>)"
    using m memory_record(5) [OF m] r t unfolding memory_ok_def by (simp, metis option.inject)
  moreover have "store_ok (e\<lparr>me_active := []\<rparr>)"
    using inv by (simp add: Inv_def store_ok_def)
  ultimately show ?thesis
    using inv by (simp add: Inv_def)
next
  case True
  then have "e\<lparr>me_active := []\<rparr> = e"
    by simp
  with inv show ?thesis
    by simp
qed

section \<open>Writing a journal\<close>

abbreviation put_journal :: "string \<Rightarrow> managed_record \<Rightarrow> op_files \<Rightarrow> op_files" where
  "put_journal ident w fs \<equiv> fs\<lparr>of_journals := gm_put (journal_name ident) (Some w) (of_journals fs)\<rparr>"

lemma journal_put: "journal (put_journal ident w fs) k = (if idHash k = idHash ident then Some (Some w) else journal fs k)"
  by (simp add: journal_def gm_get_put journal_name_inj)

lemma hash_differs:
  assumes "memory_ok e" "gm_get (me_records e) k = Some q" "gm_get (me_records e) ident = Some r"
  shows "idHash k = idHash ident \<longleftrightarrow> k = ident"
  using assms memory_record(7) [OF assms(1)] unfolding memory_ok_def by (auto dest: inj_onD)

lemma fits_put:
  assumes m: "memory_ok e" and fit: "fits e fs" and r: "gm_get (me_records e) ident = Some r" "same_operation w r"
    and w: "decodeManagedRecord (Some w) (journal_name ident) = Some (w, \<not> expired w)" "mr_Version w = 2" "\<not> expired w \<longrightarrow> snaps_ok (of_snapshots fs) w"
      "\<not> terminal (op_State w) \<longrightarrow> ident = me_active e"
  shows "fits e (put_journal ident w fs)"
  unfolding fits_def
proof (intro conjI allI impI)
  fix n g assume g: "gm_get (of_journals (put_journal ident w fs)) n = Some g"
  show "\<exists>q required. decodeManagedRecord g n = Some (q, required) \<and> mr_Version q = 2 \<and> (required \<longrightarrow> snaps_ok (of_snapshots (put_journal ident w fs)) q) \<and>
      (\<not> terminal (op_State q) \<longrightarrow> op_ID q = me_active e) \<and> (\<exists>q'. gm_get (me_records e) (op_ID q) = Some q' \<and> same_operation q q')"
  proof (cases "n = journal_name ident")
    case True
    have "op_ID w = ident"
      using r memory_record(1) [OF m r(1)] by (simp add: same_operation_def)
    then show ?thesis
      using g True w r by (intro exI [of _ w] exI [of _ "\<not> expired w"]) (simp add: gm_get_put)
  next
    case False
    then show ?thesis
      using g fit unfolding fits_def by (simp add: gm_get_put)
  qed
qed (use fit in \<open>simp_all add: fits_def gm_wf_put\<close>)

lemma recorded_put:
  assumes "memory_ok e" "recorded X e fs" "ident \<in> X" "gm_get (me_records e) ident = Some r"
  shows "recorded X e (put_journal ident w fs)"
  unfolding recorded_def
proof (intro allI impI)
  fix k q assume q: "gm_get (me_records e) k = Some q" "k \<notin> X" "terminal (op_State q)"
  then have "idHash k \<noteq> idHash ident"
    using hash_differs [OF assms(1) q(1) assms(4)] assms(3) by auto
  then show "\<exists>r'. journal (put_journal ident w fs) k = Some (Some r') \<and> op_State r' = op_State q \<and> (expired q \<longrightarrow> me_recoveryGate e \<or> expired r')"
    using assms(2) q by (simp add: journal_put recorded_def)
qed

lemma ops_steps_frame [simp]:
  "me_opts (ops_steps ds e) = me_opts e" "me_env (ops_steps ds e) = me_env e" "me_records (ops_steps ds e) = me_records e"
  "me_keys (ops_steps ds e) = me_keys e" "me_active (ops_steps ds e) = me_active e"
  "me_attached (ops_steps ds e) = me_attached e" "me_running (ops_steps ds e) = me_running e"
  "me_restoring (ops_steps ds e) = me_restoring e" "me_abortCode (ops_steps ds e) = me_abortCode e"
  "me_closing (ops_steps ds e) = me_closing e" "me_released (ops_steps ds e) = me_released e"
  "me_recoveryGate (ops_steps ds e) = me_recoveryGate e" "me_restoreBlocked (ops_steps ds e) = me_restoreBlocked e"
  "me_store (ops_steps ds e) = me_store e" "me_ops (ops_steps ds e) = last (me_ops e # ds)"
  by (induction ds arbitrary: e) simp_all

lemma store_steps_frame [simp]:
  "me_opts (store_steps ds e) = me_opts e" "me_env (store_steps ds e) = me_env e" "me_records (store_steps ds e) = me_records e"
  "me_keys (store_steps ds e) = me_keys e" "me_active (store_steps ds e) = me_active e"
  "me_attached (store_steps ds e) = me_attached e" "me_running (store_steps ds e) = me_running e"
  "me_restoring (store_steps ds e) = me_restoring e" "me_abortCode (store_steps ds e) = me_abortCode e"
  "me_closing (store_steps ds e) = me_closing e" "me_released (store_steps ds e) = me_released e"
  "me_recoveryGate (store_steps ds e) = me_recoveryGate e" "me_restoreBlocked (store_steps ds e) = me_restoreBlocked e"
  "me_ops (store_steps ds e) = me_ops e" "me_store (store_steps ds e) = last (me_store e # ds)"
  by (induction ds arbitrary: e) simp_all

text \<open>A change of the directory of operations by \<open>f\<close>, with whatever outcome: it is enough to look at the change of every
  content.\<close>

lemma Inv_ops_replace:
  assumes inv: "Inv X e" and f: "fits e (f (pd_now (me_ops e)))" "recorded X e (f (pd_now (me_ops e)))"
      "gm_keys (of_journals (pd_now (me_ops e))) \<subseteq> gm_keys (of_journals (f (pd_now (me_ops e))))"
      "materials (e\<lparr>me_ops := rename_in f (me_ops e)\<rparr>)"
    and steps: "replace_steps fault f (me_ops e) = (err, ds)"
  shows "Inv X (ops_steps ds e)" "pd_now (me_ops (ops_steps ds e)) = f (pd_now (me_ops e))"
    "set (versions (me_ops (ops_steps ds e))) \<subseteq> insert (f (pd_now (me_ops e))) (set (versions (me_ops e)))"
    "err = None \<Longrightarrow> versions (me_ops (ops_steps ds e)) = [f (pd_now (me_ops e))]"
proof -
  let ?d = "rename_in f (me_ops e)"
  have one: "Inv X (e\<lparr>me_ops := ?d, me_points := (me_store e, ?d) # me_points e\<rparr>)"
  proof (rule Inv_ops_step [OF inv])
    fix fs assume "fs \<in> set (versions ?d)"
    then show "fits e fs \<and> recorded X e fs \<and> gm_keys (of_journals fs) \<subseteq> gm_keys (of_journals (pd_now ?d))"
      using inv f unfolding Inv_def by auto
  qed (rule f(4))
  let ?e = "e\<lparr>me_ops := ?d, me_points := (me_store e, ?d) # me_points e\<rparr>"
  have two: "Inv X (?e\<lparr>me_ops := sync_dir ?d, me_points := (me_store ?e, sync_dir ?d) # me_points ?e\<rparr>)"
  proof (rule Inv_ops_step [OF one])
    show "materials (?e\<lparr>me_ops := sync_dir ?d\<rparr>)"
      using f(4) by (auto simp: materials_def)
  qed (use f in simp)
  show "Inv X (ops_steps ds e)" "pd_now (me_ops (ops_steps ds e)) = f (pd_now (me_ops e))"
    "set (versions (me_ops (ops_steps ds e))) \<subseteq> insert (f (pd_now (me_ops e))) (set (versions (me_ops e)))"
    "err = None \<Longrightarrow> versions (me_ops (ops_steps ds e)) = [f (pd_now (me_ops e))]"
    using one two steps by (auto simp: replace_steps_def Let_def split: fault.splits)
qed

text \<open>What no step of a worker changes, and what a write of a record leaves as it is.\<close>

definition kept :: "managed_engine \<Rightarrow> managed_engine \<Rightarrow> bool" where
  "kept e e' \<longleftrightarrow> me_opts e' = me_opts e \<and> me_env e' = me_env e \<and> me_keys e' = me_keys e \<and> me_attached e' = me_attached e \<and>
    me_recoveryGate e' = me_recoveryGate e \<and> me_restoreBlocked e' = me_restoreBlocked e"

definition still :: "managed_engine \<Rightarrow> managed_engine \<Rightarrow> bool" where
  "still e e' \<longleftrightarrow> kept e e' \<and> me_running e' = me_running e \<and> me_restoring e' = me_restoring e \<and> me_abortCode e' = me_abortCode e \<and>
    me_closing e' = me_closing e \<and> me_released e' = me_released e \<and> me_store e' = me_store e"

lemma engine_kept_trans: "kept e e' \<Longrightarrow> kept e' e'' \<Longrightarrow> kept e e''"
  by (simp add: kept_def)

lemma still_trans: "still e e' \<Longrightarrow> still e' e'' \<Longrightarrow> still e e''"
  by (simp add: still_def kept_def)

lemma still_kept: "still e e' \<Longrightarrow> kept e e'"
  by (simp add: still_def)

lemma still_simps [simp]: "still e e" "still e (update_record ident f e)" "still e (ops_steps ds e)" "still e (e\<lparr>me_tick := t\<rparr>)"
    "still e (e\<lparr>me_active := a\<rparr>)" "kept e e"
  by (simp_all add: still_def kept_def)

definition journaled :: "string \<Rightarrow> managed_record \<Rightarrow> op_files \<Rightarrow> bool" where
  "journaled ident r fs \<longleftrightarrow> (\<exists>w. journal fs ident = Some (Some w) \<and> op_State w = op_State r \<and> expired w = expired r)"

lemma replace_journal_Inv:
  assumes inv: "Inv X e" and X: "ident \<in> X" and r: "gm_get (me_records e) ident = Some r"
    and w: "decodeManagedRecord (Some (r\<lparr>mr_contextChanged := False\<rparr>)) (journal_name ident) = Some (r\<lparr>mr_contextChanged := False\<rparr>, \<not> expired r)"
      "\<not> expired r \<longrightarrow> snaps_ok (of_snapshots (pd_now (me_ops e))) r"
    and run: "replace_journal ident e = (err, e')"
  shows "Inv X e' \<and> still e e' \<and> me_active e' = me_active e \<and> me_records e' = me_records e \<and>
    of_snapshots (pd_now (me_ops e')) = of_snapshots (pd_now (me_ops e)) \<and>
    (\<forall>fs\<in>set (versions (me_ops e')). journaled ident r fs \<or> err \<noteq> None \<and> fs \<in> set (versions (me_ops e)))"
proof -
  let ?w = "r\<lparr>mr_contextChanged := False\<rparr>"
  let ?e = "e\<lparr>me_tick := Suc (me_tick e)\<rparr>"
  let ?now = "pd_now (me_ops e)"
  have rec: "the_record e ident = r"
    using r by (simp add: the_record_def)
  have m: "memory_ok e"
    using inv by (simp add: Inv_def)
  have same: "same_operation ?w r" "expired ?w = expired r" "snaps_ok sn ?w = snaps_ok sn r" for sn
    by (simp_all add: same_operation_def expired_def snaps_ok_def)
  have now: "fits e ?now" "recorded X e ?now"
    using inv by (simp_all add: Inv_def)
  have "\<not> terminal (op_State ?w) \<longrightarrow> ident = me_active e"
    using memory_record(5) [OF m r] by auto
  then have fit: "fits ?e (put_journal ident ?w ?now)"
    using fits_put [OF m now(1) r same(1)] w same(2,3) sound_version [OF memory_record(2) [OF m r]] by simp
  moreover have "recorded X ?e (put_journal ident ?w ?now)"
    using recorded_put [OF m now(2) X r] by simp
  moreover have "gm_keys (of_journals ?now) \<subseteq> gm_keys (of_journals (put_journal ident ?w ?now))"
    by (auto simp: gm_keys_put)
  moreover have "materials (?e\<lparr>me_ops := rename_in (put_journal ident ?w) (me_ops e)\<rparr>)"
    unfolding materials_def
  proof (intro allI impI)
    fix k q assume q: "gm_get (me_records (?e\<lparr>me_ops := rename_in (put_journal ident ?w) (me_ops e)\<rparr>)) k = Some q" "\<not> expired q"
    let ?goal = "\<lambda>e. snaps_ok (of_snapshots (pd_now (me_ops e))) q \<or>
        op_State q \<in> {OutcomeUnknown, RollbackFailed} \<and> \<not> mr_NeedsRuntime q \<and> (\<forall>fs\<in>set (versions (me_ops e)). journal fs k = None)"
    have "?goal e"
      using inv q unfolding Inv_def materials_def by simp
    moreover have "idHash k = idHash ident \<longleftrightarrow> k = ident"
      using hash_differs [OF m _ r] q by simp
    moreover have "q = r" if "k = ident"
      using q r that by simp
    ultimately show "?goal (?e\<lparr>me_ops := rename_in (put_journal ident ?w) (me_ops e)\<rparr>)"
      using w(2) q(2) by (cases "k = ident") (auto simp: journal_put)
  qed
  ultimately have step: "Inv X (ops_steps ds ?e)" "pd_now (me_ops (ops_steps ds ?e)) = put_journal ident ?w ?now"
      "set (versions (me_ops (ops_steps ds ?e))) \<subseteq> insert (put_journal ident ?w ?now) (set (versions (me_ops e)))"
      "x = None \<Longrightarrow> versions (me_ops (ops_steps ds ?e)) = [put_journal ident ?w ?now]"
    if "replace_steps fault (put_journal ident ?w) (me_ops e) = (x, ds)" for fault x ds
    using Inv_ops_replace [of X ?e "put_journal ident ?w" fault x ds] inv that by simp_all
  have new: "journaled ident r (put_journal ident ?w fs)" for fs
    using same(2) by (simp add: journaled_def journal_put)
  show ?thesis
  proof (cases "fault_error (an_fault (me_env e (me_tick e)))")
    case None
    obtain x ds where s: "replace_steps (an_fault (me_env e (me_tick e))) (put_journal ident ?w) (me_ops e) = (x, ds)"
      by fastforce
    with None run have "err = x" "e' = ops_steps ds ?e"
      by (simp_all add: replace_journal_def rec)
    moreover have "journaled ident r fs \<or> x \<noteq> None \<and> fs \<in> set (versions (me_ops e))"
      if fs: "fs \<in> set (versions (me_ops (ops_steps ds ?e)))" for fs
    proof (cases "x = None")
      case True
      then have "fs = put_journal ident ?w ?now"
        using step(4) [OF s] fs by simp
      then show ?thesis
        using new by simp
    next
      case False
      have "fs \<in> insert (put_journal ident ?w ?now) (set (versions (me_ops e)))"
        using step(3) [OF s] fs by blast
      then show ?thesis
        using False new by blast
    qed
    ultimately show ?thesis
      using step(1,2) [OF s] by (simp add: still_def kept_def del: ops_steps_frame(15))
  next
    case (Some x)
    with run have "err = Some x" "e' = ?e"
      by (simp_all add: replace_journal_def rec)
    then show ?thesis
      using inv by simp
  qed
qed

lemma fair_now: "memory_ok e \<Longrightarrow> an_now (me_env e k) \<noteq> 0"
  by (simp add: memory_ok_def fair_def)

lemma persist_Inv:
  assumes inv: "Inv X e" and X: "ident \<in> X" and r: "gm_get (me_records e) ident = Some r"
    and snaps: "\<not> expired r \<longrightarrow> snaps_ok (of_snapshots (pd_now (me_ops e))) r"
    and run: "persist ident e = (err, e')"
  shows "\<exists>now. now \<noteq> 0 \<and> Inv X e' \<and> still e e' \<and> me_active e' = me_active e \<and>
    me_records e' = gm_put ident (normalizeRecordRetention now r) (me_records e) \<and>
    of_snapshots (pd_now (me_ops e')) = of_snapshots (pd_now (me_ops e)) \<and>
    (\<forall>fs\<in>set (versions (me_ops e')). journaled ident r fs \<or> err \<noteq> None \<and> fs \<in> set (versions (me_ops e)))"
proof -
  let ?now = "an_now (me_env e (me_tick e))"
  let ?r = "normalizeRecordRetention ?now r"
  let ?e = "update_record ident (normalizeRecordRetention ?now) (e\<lparr>me_tick := Suc (me_tick e)\<rparr>)"
  have m: "memory_ok e"
    using inv by (simp add: Inv_def)
  have now: "?now \<noteq> 0" and s: "sound r" and ID: "op_ID r = ident"
    using fair_now [OF m] memory_record(1,2) [OF m r] by simp_all
  have rec: "the_record e ident = r"
    using r by (simp add: the_record_def)
  have t: "ident \<noteq> me_active e \<Longrightarrow> terminal (op_State r)"
    using memory_record(5) [OF m r] .
  have inv': "Inv X ?e"
    by (rule Inv_update [where r = r]) (use inv r s t now snaps X in \<open>auto simp: normalize_sound\<close>)
  have r': "gm_get (me_records ?e) ident = Some ?r"
    using rec by simp
  have recs: "me_records ?e = gm_put ident ?r (me_records e)"
    using rec by (simp add: update_record_def)
  obtain x where run': "replace_journal ident ?e = (x, e')" and err: "err = map_option (\<lambda>_. ErrStorage) x"
    using run by (auto simp: persist_def split: prod.splits)
  have j: "journaled ident ?r fs = journaled ident r fs" for fs
    using s by (simp add: journaled_def)
  have sn: "snaps_ok sn ?r = snaps_ok sn r" for sn
    by (rule snaps_ok_same) simp
  have "Inv X e' \<and> still ?e e' \<and> me_active e' = me_active ?e \<and> me_records e' = me_records ?e \<and>
    of_snapshots (pd_now (me_ops e')) = of_snapshots (pd_now (me_ops ?e)) \<and>
    (\<forall>fs\<in>set (versions (me_ops e')). journaled ident ?r fs \<or> x \<noteq> None \<and> fs \<in> set (versions (me_ops ?e)))"
  proof (rule replace_journal_Inv [OF inv' X r' _ _ run'])
    show "decodeManagedRecord (Some (?r\<lparr>mr_contextChanged := False\<rparr>)) (journal_name ident) = Some (?r\<lparr>mr_contextChanged := False\<rparr>, \<not> expired ?r)"
      using decode_normalized [OF s now refl] ID s by simp
    show "\<not> expired ?r \<longrightarrow> snaps_ok (of_snapshots (pd_now (me_ops ?e))) ?r"
      using snaps s sn by simp
  qed
  moreover have "still e e'" if "still ?e e'"
    using that by (auto simp: still_def kept_def)
  ultimately show ?thesis
    using now recs err j by (intro exI [of _ ?now]) auto
qed

section \<open>Changing the state of the active operation\<close>

text \<open>What no change of state touches.\<close>

definition same_facts :: "managed_record \<Rightarrow> managed_record \<Rightarrow> bool" where
  "same_facts r r' \<longleftrightarrow> same_operation r r' \<and> expired r' = expired r \<and> op_StorePersisted r' = op_StorePersisted r \<and>
    op_RuntimeApplied r' = op_RuntimeApplied r \<and> op_Verification r' = op_Verification r \<and> mr_NeedsRuntime r' = mr_NeedsRuntime r \<and>
    op_Deadline r' = op_Deadline r \<and> mr_contextChanged r' = mr_contextChanged r"

text \<open>The records of \<open>e'\<close> are those of \<open>e\<close>, with \<open>r\<close> for \<open>ident\<close>.\<close>

definition only_record :: "string \<Rightarrow> managed_record \<Rightarrow> managed_engine \<Rightarrow> managed_engine \<Rightarrow> bool" where
  "only_record ident r e e' \<longleftrightarrow> (\<forall>k. gm_get (me_records e') k = (if k = ident then Some r else gm_get (me_records e) k))"

lemma same_facts_trans: "same_facts r r' \<Longrightarrow> same_facts r' r'' \<Longrightarrow> same_facts r r''"
  by (simp add: same_facts_def same_operation_def)

lemma same_facts_refl [simp]: "same_facts r r"
  by (simp add: same_facts_def)

lemma only_record_the: "only_record ident r e e' \<Longrightarrow> the_record e' ident = r"
  by (simp add: only_record_def the_record_def)

lemma only_record_trans: "only_record ident r e e' \<Longrightarrow> only_record ident r' e' e'' \<Longrightarrow> only_record ident r' e e''"
  by (simp add: only_record_def)

lemma sound_mr [simp]:
  "now \<noteq> 0 \<Longrightarrow> sound r \<Longrightarrow> sound (r\<lparr>op_UpdatedAt := now\<rparr>)"
  "expired (r\<lparr>op_UpdatedAt := now\<rparr>) = expired r" "expired (r\<lparr>op_State := st, op_ErrorCode := code\<rparr>) = expired r"
  "expired (r\<lparr>mr_TerminalAt := at\<rparr>) = expired r" "expired (r\<lparr>op_StorePersisted := p\<rparr>) = expired r"
  "\<not> expired r \<Longrightarrow> sound r \<Longrightarrow> sound (r\<lparr>op_State := st, op_ErrorCode := code\<rparr>)"
  "now \<noteq> 0 \<Longrightarrow> \<not> expired r \<Longrightarrow> sound r \<Longrightarrow> sound (r\<lparr>mr_TerminalAt := Some now\<rparr>)"
  by (auto simp: sound_def expired_def)

lemma save_Inv:
  assumes inv: "Inv X e" and X: "ident \<in> X" and r: "gm_get (me_records e) ident = Some r"
    and snaps: "\<not> expired r \<longrightarrow> snaps_ok (of_snapshots (pd_now (me_ops e))) r"
    and run: "save ident e = (err, e')"
  shows "\<exists>r'. same_facts r r' \<and> op_State r' = op_State r \<and> op_ErrorCode r' = op_ErrorCode r \<and> only_record ident r' e e' \<and>
    Inv X e' \<and> still e e' \<and> me_active e' = me_active e \<and>
    of_snapshots (pd_now (me_ops e')) = of_snapshots (pd_now (me_ops e)) \<and>
    (\<forall>fs\<in>set (versions (me_ops e')). journaled ident r fs \<or> err \<noteq> None \<and> fs \<in> set (versions (me_ops e)))"
proof -
  let ?now = "an_now (me_env e (me_tick e))"
  let ?r = "r\<lparr>op_UpdatedAt := ?now\<rparr>"
  let ?e = "update_record ident (\<lambda>r. r\<lparr>op_UpdatedAt := ?now\<rparr>) (e\<lparr>me_tick := Suc (me_tick e)\<rparr>)"
  have m: "memory_ok e"
    using inv by (simp add: Inv_def)
  note mr = memory_record [OF m r]
  have inv': "Inv X ?e"
  proof (rule Inv_update [where r = r])
    show "same_operation r ?r"
      by (simp add: same_operation_def)
  qed (use inv r mr fair_now [OF m] snaps X in auto)
  have same: "same_facts r ?r" "op_State ?r = op_State r" "op_ErrorCode ?r = op_ErrorCode r" "snaps_ok sn ?r = snaps_ok sn r"
      "journaled ident ?r fs = journaled ident r fs" for sn fs
    by (simp_all add: same_facts_def same_operation_def snaps_ok_def expired_def journaled_def)
  have run': "persist ident ?e = (err, e')"
    using run by (simp add: save_def)
  have r': "gm_get (me_records ?e) ident = Some ?r"
    using mr(6) by simp
  have "\<not> expired ?r \<longrightarrow> snaps_ok (of_snapshots (pd_now (me_ops ?e))) ?r"
    using snaps same(4) by simp
  from persist_Inv [OF inv' X r' this run'] obtain t where t: "t \<noteq> 0" "Inv X e'" "still ?e e'" "me_active e' = me_active e"
      "me_records e' = gm_put ident (normalizeRecordRetention t ?r) (me_records ?e)"
      "of_snapshots (pd_now (me_ops e')) = of_snapshots (pd_now (me_ops e))"
      "\<forall>fs\<in>set (versions (me_ops e')). journaled ident ?r fs \<or> err \<noteq> None \<and> fs \<in> set (versions (me_ops e))"
    by auto
  have "same_facts r (normalizeRecordRetention t ?r)" "op_State (normalizeRecordRetention t ?r) = op_State r"
      "op_ErrorCode (normalizeRecordRetention t ?r) = op_ErrorCode r"
    using mr(2) by (auto simp: same_facts_def same_operation_def normalizeRecordRetention_def Let_def expired_def sound_def)
  moreover have "only_record ident (normalizeRecordRetention t ?r) e e'"
    using t(5) by (simp add: only_record_def gm_get_put)
  moreover have "still e e'"
    using t(3) by (auto simp: still_def kept_def)
  ultimately show ?thesis
    using t same(5) by blast
qed

lemma state_Inv:
  assumes inv: "Inv {ident} e" and act: "me_active e = ident" and r: "gm_get (me_records e) ident = Some r"
    and snaps: "snaps_ok (of_snapshots (pd_now (me_ops e))) r"
    and run: "state ident st code e = (err, e')"
  shows "\<exists>r'. same_facts r r' \<and> op_State r' = (if err = None then st else OutcomeUnknown) \<and> only_record ident r' e e' \<and>
    Inv {} e' \<and> still e e' \<and> of_snapshots (pd_now (me_ops e')) = of_snapshots (pd_now (me_ops e)) \<and>
    me_active e' = (if err = None \<and> terminal st \<and> \<not> me_running e then [] else ident)"
proof -
  have m: "memory_ok e"
    using inv by (simp add: Inv_def)
  note mr = memory_record [OF m r]
  have live: "\<not> expired r"
    using m act r mr(4) by (auto simp: memory_ok_def)
  let ?now = "an_now (me_env e (me_tick e))"
  let ?setT = "terminal st \<and> \<not> terminal (op_State r)"
  let ?f = "\<lambda>r. (if ?setT then r\<lparr>mr_TerminalAt := Some ?now\<rparr> else r)\<lparr>op_State := st, op_ErrorCode := code\<rparr>"
  let ?start = "if ?setT then e\<lparr>me_tick := Suc (me_tick e)\<rparr> else e"
  let ?e = "update_record ident ?f ?start"
  have "update_record ident (\<lambda>r. r\<lparr>op_State := st, op_ErrorCode := code\<rparr>)
      (update_record ident (\<lambda>r. r\<lparr>mr_TerminalAt := Some ?now\<rparr>) e1) =
      update_record ident (\<lambda>r. r\<lparr>mr_TerminalAt := Some ?now, op_State := st, op_ErrorCode := code\<rparr>) e1" for e1
    by (simp add: update_record_again comp_def)
  then have e: "?e = update_record ident (\<lambda>r. r\<lparr>op_State := st, op_ErrorCode := code\<rparr>)
      (if ?setT then update_record ident (\<lambda>r. r\<lparr>mr_TerminalAt := Some ?now\<rparr>) (e\<lparr>me_tick := Suc (me_tick e)\<rparr>) else e)"
    by (cases ?setT) (simp_all only: if_True if_False simp_thms)
  have f: "same_facts r (?f r)" "op_State (?f r) = st" "snaps_ok sn (?f r) = snaps_ok sn r" "expired (?f r) = expired r" for sn
    by (auto simp: same_facts_def same_operation_def expired_def snaps_ok_def)
  have start: "Inv {ident} ?start" "gm_get (me_records ?start) ident = Some r" "me_active ?start = ident" "me_ops ?start = me_ops e"
    using inv r act by simp_all
  have sf: "sound (?f r)" and so: "same_operation r (?f r)"
    using mr(2) live fair_now [OF m] f(1) by (auto simp: same_facts_def)
  have inv': "Inv {ident} ?e"
    by (rule Inv_update [where f = ?f and r = r, OF start(1,2) so sf]) (use start(3,4) snaps f(4) in simp_all)
  have r': "gm_get (me_records ?e) ident = Some (?f r)"
    using mr(6) by (auto simp: the_record_def)
  obtain x e2 where sv: "save ident ?e = (x, e2)"
    by fastforce
  have "\<not> expired (?f r) \<longrightarrow> snaps_ok (of_snapshots (pd_now (me_ops ?e))) (?f r)"
    using snaps f(3) by simp
  from save_Inv [OF inv' _ r' this sv] obtain r2 where raw: "same_facts (?f r) r2 \<and> op_State r2 = op_State (?f r) \<and>
      op_ErrorCode r2 = op_ErrorCode (?f r) \<and> only_record ident r2 ?e e2 \<and> Inv {ident} e2 \<and> still ?e e2 \<and> me_active e2 = me_active ?e \<and>
      of_snapshots (pd_now (me_ops e2)) = of_snapshots (pd_now (me_ops ?e)) \<and>
      (\<forall>fs\<in>set (versions (me_ops e2)). journaled ident (?f r) fs \<or> x \<noteq> None \<and> fs \<in> set (versions (me_ops ?e)))"
    by blast
  have r2: "same_facts (?f r) r2" "op_State r2 = st" "only_record ident r2 ?e e2"
      "Inv {ident} e2" "still ?e e2" "me_active e2 = ident" "of_snapshots (pd_now (me_ops e2)) = of_snapshots (pd_now (me_ops e))"
      "\<forall>fs\<in>set (versions (me_ops e2)). journaled ident (?f r) fs \<or> x \<noteq> None \<and> fs \<in> set (versions (me_ops e))"
    using raw start(3,4) f(2) by simp_all
  have st2: "still e e2"
    using r2(5) by (auto simp: still_def kept_def)
  have only: "only_record ident r2 e e2"
    using r2(3) mr(6) by (auto simp: only_record_def)
  have facts: "same_facts r r2"
    using same_facts_trans [OF f(1) r2(1)] .
  have g2: "gm_get (me_records e2) ident = Some r2"
    using only by (simp add: only_record_def)
  have snaps2: "snaps_ok (of_snapshots (pd_now (me_ops e2))) r2" and live2: "\<not> expired r2"
    using snaps r2(7) snaps_ok_same [of r r2] facts live by (simp_all add: same_facts_def)
  have run2: "(err, e') = (let (err, e) = save ident ?e
     in case err of
       Some x \<Rightarrow> (Some x, (update_record ident (\<lambda>r. r\<lparr>op_State := OutcomeUnknown, op_ErrorCode := ''journal_failed''\<rparr>) e)
           \<lparr>me_active := ident\<rparr>)
     | None \<Rightarrow> (None, if terminal st \<and> \<not> me_running e \<and> me_active e = ident then e\<lparr>me_active := []\<rparr> else e))"
    by (simp only: e run [symmetric] state_def Let_def mr(6) ask_simp prod.case)
  show ?thesis
  proof (cases x)
    case None
    have "Inv ({ident} - {ident}) e2"
      by (rule Inv_include [OF r2(4) g2]) (use r2(2,8) None f(2,4) live2 in \<open>auto simp: journaled_def\<close>)
    then have inv2: "Inv {} e2"
      by simp
    have run': "err = None" "e' = (if terminal st \<and> \<not> me_running e2 \<and> me_active e2 = ident then e2\<lparr>me_active := []\<rparr> else e2)"
      using run2 sv None by simp_all
    have "Inv {} e'"
      using run'(2) inv2 Inv_idle [OF inv2] r2(2,6) only_record_the [OF only] by auto
    moreover have "still e e'" "only_record ident r2 e e'" "pd_now (me_ops e') = pd_now (me_ops e2)"
        "me_active e' = (if terminal st \<and> \<not> me_running e then [] else ident)"
      using run'(2) st2 only r2(6) by (auto simp: still_def kept_def only_record_def)
    ultimately show ?thesis
      using facts r2(2,7) run'(1) by auto
  next
    case (Some y)
    let ?g = "\<lambda>r. r\<lparr>op_State := OutcomeUnknown, op_ErrorCode := ''journal_failed''\<rparr>"
    have run': "err = Some y" "e' = (update_record ident ?g e2)\<lparr>me_active := ident\<rparr>"
      using run2 sv Some by simp_all
    have sd: "sound r2"
      using memory_record(2) [OF _ g2] r2(4) by (simp add: Inv_def)
    have "Inv {ident} (update_record ident ?g e2)"
    proof (rule Inv_update [where r = r2])
      show "same_operation r2 (?g r2)"
        by (simp add: same_operation_def)
    qed (use r2(4,6) g2 sd live2 snaps2 in auto)
    then have "Inv ({ident} - {ident}) (update_record ident ?g e2)"
      by (rule Inv_include [where r = "?g r2"]) (use only_record_the [OF only] in auto)
    moreover have "e' = update_record ident ?g e2"
      using run'(2) r2(6) by simp
    moreover have "same_facts r (?g r2)"
      using facts by (simp add: same_facts_def same_operation_def expired_def)
    ultimately show ?thesis
      using run'(1) only_record_the [OF only] only r2(6,7) st2
      by (intro exI [of _ "?g r2"]) (auto simp: only_record_def still_def kept_def)
  qed
qed

section \<open>While the mutex is free\<close>

text \<open>A worker of \<open>ident\<close> runs, and its recovery material is complete.\<close>

definition work :: "string \<Rightarrow> managed_engine \<Rightarrow> bool" where
  "work ident e \<longleftrightarrow> Inv {} e \<and> ident \<noteq> [] \<and> me_active e = ident \<and> me_running e \<and>
    snaps_ok (of_snapshots (pd_now (me_ops e))) (the_record e ident)"

text \<open>What others do to the operation of a worker: its state may become uncertain.\<close>

definition drift :: "string \<Rightarrow> managed_engine \<Rightarrow> managed_engine \<Rightarrow> bool" where
  "drift ident e e' \<longleftrightarrow> kept e e' \<and> me_store e' = me_store e \<and> me_restoring e' = me_restoring e \<and>
    (\<exists>r'. only_record ident r' e e' \<and> same_facts (the_record e ident) r' \<and>
      (op_State r' = op_State (the_record e ident) \<or> \<not> terminal (op_State (the_record e ident)) \<and> op_State r' = OutcomeUnknown))"

lemma work_record:
  assumes "work ident e"
  shows "gm_get (me_records e) ident = Some (the_record e ident)" "\<not> expired (the_record e ident)" "memory_ok e"
    "sound (the_record e ident)" "op_ID (the_record e ident) = ident"
proof -
  show m: "memory_ok e"
    using assms by (simp add: work_def Inv_def)
  then obtain r where r: "gm_get (me_records e) ident = Some r" "\<not> expired r"
    using assms by (auto simp: work_def memory_ok_def)
  then show "gm_get (me_records e) ident = Some (the_record e ident)" "\<not> expired (the_record e ident)"
      "sound (the_record e ident)" "op_ID (the_record e ident) = ident"
    using memory_record [OF m r(1)] by simp_all
qed

lemma work_frame [simp]:
  "work ident (e\<lparr>me_tick := t\<rparr>) = work ident e" "work ident (e\<lparr>me_restoring := b\<rparr>) = work ident e"
  "work ident (e\<lparr>me_abortCode := c\<rparr>) = work ident e" "work ident (e\<lparr>me_closing := b\<rparr>) = work ident e"
  by (simp_all add: work_def)

lemma drift_refl [simp]:
  assumes "work ident e"
  shows "drift ident e e" "drift ident e (e\<lparr>me_tick := t\<rparr>)" "drift ident e (e\<lparr>me_abortCode := c\<rparr>)" "drift ident e (e\<lparr>me_closing := b\<rparr>)"
  using work_record(1) [OF assms] by (auto simp: drift_def kept_def only_record_def intro!: exI [of _ "the_record e ident"])

lemma drift_trans:
  assumes "drift ident e e'" "drift ident e' e''"
  shows "drift ident e e''"
proof -
  obtain r' where r': "only_record ident r' e e'" "same_facts (the_record e ident) r'"
      "op_State r' = op_State (the_record e ident) \<or> \<not> terminal (op_State (the_record e ident)) \<and> op_State r' = OutcomeUnknown"
    using assms(1) by (auto simp: drift_def)
  obtain r'' where r'': "only_record ident r'' e' e''" "same_facts r' r''"
      "op_State r'' = op_State r' \<or> \<not> terminal (op_State r') \<and> op_State r'' = OutcomeUnknown"
    using assms(2) only_record_the [OF r'(1)] by (auto simp: drift_def)
  have "only_record ident r'' e e''" "same_facts (the_record e ident) r''"
    using only_record_trans [OF r'(1) r''(1)] same_facts_trans [OF r'(2) r''(2)] by simp_all
  moreover have "op_State r'' = op_State (the_record e ident) \<or> \<not> terminal (op_State (the_record e ident)) \<and> op_State r'' = OutcomeUnknown"
    using r'(3) r''(3) by auto
  moreover have "kept e e'' \<and> me_store e'' = me_store e \<and> me_restoring e'' = me_restoring e"
    using assms engine_kept_trans unfolding drift_def by metis
  ultimately show ?thesis
    unfolding drift_def by blast
qed

lemma state_work:
  assumes "work ident e" "state ident st code e = (err, e')"
  shows "work ident e' \<and> still e e' \<and> (\<exists>r'. only_record ident r' e e' \<and> same_facts (the_record e ident) r' \<and>
    op_State r' = (if err = None then st else OutcomeUnknown))"
proof -
  have "Inv {ident} e"
    using assms(1) Inv_weaken [of "{}" e "{ident}"] by (simp add: work_def)
  from state_Inv [OF this _ work_record(1) [OF assms(1)] _ assms(2)] assms(1)
  obtain r' where r': "same_facts (the_record e ident) r'" "op_State r' = (if err = None then st else OutcomeUnknown)"
    "only_record ident r' e e'" "Inv {} e'" "still e e'" "of_snapshots (pd_now (me_ops e')) = of_snapshots (pd_now (me_ops e))"
    "me_active e' = (if err = None \<and> terminal st \<and> \<not> me_running e then [] else ident)"
    unfolding work_def by blast
  have "work ident e'"
    using assms(1) r' only_record_the [OF r'(3)] snaps_ok_same [of "the_record e ident" r']
    by (auto simp: work_def still_def same_facts_def)
  then show ?thesis
    using r' by blast
qed

lemma settle_work:
  assumes "work ident e"
  shows "work ident (settle ident st code e) \<and> still e (settle ident st code e) \<and>
    (\<exists>r'. only_record ident r' e (settle ident st code e) \<and> same_facts (the_record e ident) r' \<and> op_State r' \<in> {st, OutcomeUnknown})"
proof -
  obtain err e' where s: "state ident st code e = (err, e')"
    by fastforce
  with state_work [OF assms s] show ?thesis
    by (auto simp: settle_def split: if_splits)
qed

lemma settle_drift:
  assumes "work ident e" "\<not> terminal (op_State (the_record e ident))"
  shows "drift ident e (settle ident OutcomeUnknown code e)"
  using settle_work [OF assms(1), of OutcomeUnknown code] assms(2) unfolding drift_def still_def by blast

lemma begin_close_work:
  assumes "work ident e"
  shows "work ident (begin_close e) \<and> drift ident e (begin_close e)"
proof (cases "me_closing e")
  case True
  then show ?thesis
    using assms by (simp add: begin_close_def)
next
  case False
  let ?e = "e\<lparr>me_closing := True, me_abortCode := ''engine_closing''\<rparr>"
  have w: "work ident ?e" and d: "drift ident e ?e"
    using assms drift_trans [OF drift_refl(4) [OF assms] drift_refl(3)] by simp_all
  have rec: "the_record ?e ident = the_record e ident" "me_active e = ident" "me_running e"
    using assms by (simp_all add: work_def)
  have "begin_close e = (if \<not> terminal (op_State (the_record e ident)) then settle ident OutcomeUnknown ''engine_closing'' ?e else ?e)"
    using False rec work_record(1) [OF assms] by (simp add: begin_close_def)
  then show ?thesis
    using w d settle_work [OF w] settle_drift [OF w] rec(1) drift_trans [OF d] by auto
qed

lemma drift_nonterminal:
  assumes "drift ident e e'"
  shows "\<not> terminal (op_State (the_record e ident)) \<Longrightarrow> \<not> terminal (op_State (the_record e' ident))"
    "terminal (op_State (the_record e ident)) \<Longrightarrow> op_State (the_record e' ident) = op_State (the_record e ident)"
proof -
  obtain r' where "only_record ident r' e e'"
      "op_State r' = op_State (the_record e ident) \<or> \<not> terminal (op_State (the_record e ident)) \<and> op_State r' = OutcomeUnknown"
    using assms by (auto simp: drift_def)
  with only_record_the [OF this(1)] show "\<not> terminal (op_State (the_record e ident)) \<Longrightarrow> \<not> terminal (op_State (the_record e' ident))"
    "terminal (op_State (the_record e ident)) \<Longrightarrow> op_State (the_record e' ident) = op_State (the_record e ident)"
    by auto
qed

lemma meanwhile_work:
  assumes "work ident e" "live \<Longrightarrow> \<not> terminal (op_State (the_record e ident))"
    and "meanwhile_do live ident code acts (d, e) = (d', e')"
  shows "work ident e' \<and> drift ident e e'"
  using assms
proof (induction live ident code acts "(d, e)" arbitrary: d e rule: meanwhile_do.induct)
  case (1 live ident code d e)
  then show ?case
    by simp
next
  case (2 live ident code acts d e)
  then show ?case
    by simp
next
  case (3 live ident code acts d e)
  let ?hit = "live \<and> d \<and> me_running e \<and> me_active e = ident"
  let ?e = "if ?hit then settle ident OutcomeUnknown (if me_abortCode e \<noteq> [] then me_abortCode e else code) e else e"
  have w: "work ident ?e" and dr: "drift ident e ?e"
    using 3(2,3) settle_work settle_drift by auto
  have "live \<Longrightarrow> \<not> terminal (op_State (the_record ?e ident))"
    using drift_nonterminal(1) [OF dr] 3(3) by blast
  with 3(1) [OF w] 3(4) have "work ident e' \<and> drift ident ?e e'"
    by simp
  then show ?case
    using drift_trans [OF dr] by blast
next
  case (4 live ident code acts d e)
  show ?case
  proof (cases "rollback_refusal ident e = None")
    case True
    have w: "work ident (request_abort e)" and dr: "drift ident e (request_abort e)"
      using 4(3) by (simp_all add: request_abort_def)
    have "live \<Longrightarrow> \<not> terminal (op_State (the_record (request_abort e) ident))"
      using drift_nonterminal(1) [OF dr] 4(4) by blast
    with 4(2) [OF _ w] 4(5) True have "work ident e' \<and> drift ident (request_abort e) e'"
      by simp
    then show ?thesis
      using drift_trans [OF dr] by blast
  qed (use 4 in simp)
next
  case (5 live ident code acts d e)
  have w: "work ident (begin_close e)" and dr: "drift ident e (begin_close e)"
    using begin_close_work [OF 5(2)] by simp_all
  have "live \<Longrightarrow> \<not> terminal (op_State (the_record (begin_close e) ident))"
    using drift_nonterminal(1) [OF dr] 5(3) by blast
  with 5(1) [OF w] 5(4) have "work ident e' \<and> drift ident (begin_close e) e'"
    by simp
  then show ?case
    using drift_trans [OF dr] by blast
qed

lemma yield_work:
  assumes "work ident e"
  shows "work ident (yield_lock ident e) \<and> drift ident e (yield_lock ident e)"
proof -
  obtain d e' where m: "meanwhile_do False ident [] (an_during (me_env e (me_tick e))) (False, e\<lparr>me_tick := Suc (me_tick e)\<rparr>) = (d, e')"
    by fastforce
  have "work ident e' \<and> drift ident (e\<lparr>me_tick := Suc (me_tick e)\<rparr>) e'"
    using meanwhile_work [OF _ _ m] assms by simp
  then show ?thesis
    using m drift_trans [OF drift_refl(2) [OF assms]] by (auto simp: yield_lock_def)
qed

lemma run_phase_work:
  assumes "work ident e" "\<not> terminal (op_State (the_record e ident))" "run_phase ident code e = (a, c, e')"
  shows "work ident e' \<and> drift ident e e' \<and> \<not> terminal (op_State (the_record e' ident))"
proof -
  let ?e = "e\<lparr>me_tick := Suc (me_tick e)\<rparr>"
  let ?a = "me_env e (me_tick e)"
  obtain c1 e1 where m1: "meanwhile_do True ident code (an_during ?a) (me_abortCode e \<noteq> [] \<and> code = ''deadline_expired'', ?e) = (c1, e1)"
    by fastforce
  obtain c2 e2 where m2: "meanwhile_do False ident code (an_after ?a) (False, e1) = (c2, e2)"
    by fastforce
  have e': "e' = e2"
    using assms(3) m1 m2 by (simp add: run_phase_def)
  have 1: "work ident e1 \<and> drift ident ?e e1"
    using meanwhile_work [OF _ _ m1] assms(1,2) by simp
  then have 2: "work ident e2 \<and> drift ident e1 e2"
    using meanwhile_work [OF _ _ m2] by simp
  have "drift ident e e2"
    using 1 2 drift_trans [OF drift_refl(2) [OF assms(1)]] drift_trans by blast
  then show ?thesis
    using 2 e' drift_nonterminal(1) assms(2) by blast
qed

end
