(* ===== verification/Managed_Workers.thy ===== *)
theory Managed_Workers
  imports Managed_Steps
begin

text \<open>
  The workers of the managed store keep the invariant and leave the store settled: when they end with a terminal operation,
  the store is synced, and it is the candidate when the operation is confirmed and the old store otherwise.
\<close>

section \<open>Reading and writing the store\<close>

lemma read_file_Inr: "read_file fault limit content = Inr s \<Longrightarrow> s = content \<and> readable limit content"
  by (auto simp: read_file_def readable_def split: option.splits if_splits)

lemma readStore_eq:
  "readStore e = (fst (readStore e), e\<lparr>me_tick := Suc (me_tick e)\<rparr>)" "fst (readStore e) = Inr s \<Longrightarrow> s = pd_now (me_store e)"
  using read_file_Inr by (auto simp: readStore_def)

lemma read_snapshot_eq:
  "read_snapshot n e = (fst (read_snapshot n e), e\<lparr>me_tick := Suc (me_tick e)\<rparr>)"
  "fst (read_snapshot n e) = Inr s \<Longrightarrow> s = gm_get (of_snapshots (pd_now (me_ops e))) n \<and> readable (mo_MaxBytes (me_opts e)) s"
  using read_file_Inr by (auto simp: read_snapshot_def)

lemma probe_eq:
  "probe_journal ident e = (fst (probe_journal ident e), e\<lparr>me_tick := Suc (me_tick e)\<rparr>)"
  "fair (me_env e) \<Longrightarrow> fst (probe_journal ident e) = Inr (journal (pd_now (me_ops e)) ident \<noteq> None)"
  by (simp_all add: probe_journal_def fair_def journal_def)

text \<open>The snapshots that are read are those of the operation.\<close>

lemma snapshots_eq:
  assumes "snapshots r e = (res, e')"
  shows "\<exists>t. e' = e\<lparr>me_tick := t\<rparr>"
    "res = Inr (old, new) \<Longrightarrow> snaps_ok (of_snapshots (pd_now (me_ops e))) r \<and> \<not> expired r \<and> Digest old = op_OldDigest r \<and>
      Digest new = op_NewDigest r \<and> readable (mo_MaxBytes (me_opts e)) old \<and> readable (mo_MaxBytes (me_opts e)) new"
proof -
  obtain x e1 where x: "read_snapshot (old_name (op_ID r)) e = (x, e1)"
    by fastforce
  obtain y e2 where y: "read_snapshot (new_name (op_ID r)) e1 = (y, e2)"
    by fastforce
  have e1: "e1 = e\<lparr>me_tick := Suc (me_tick e)\<rparr>" and e2: "e2 = e1\<lparr>me_tick := Suc (me_tick e1)\<rparr>"
    using read_snapshot_eq(1) [of "old_name (op_ID r)" e] read_snapshot_eq(1) [of "new_name (op_ID r)" e1] x y by simp_all
  have "e' \<in> {e, e1, e2}"
    using assms x y by (auto simp: snapshots_def Let_def split: if_splits sum.splits option.splits)
  then show "\<exists>t. e' = e\<lparr>me_tick := t\<rparr>"
    using e1 e2 by (auto intro: exI [of _ "me_tick e"])
  assume res: "res = Inr (old, new)"
  then obtain b n where "x = Inr (Some b)" "y = Inr (Some n)" "\<not> expired r" "mr_OldExists r \<or> b = []"
      "old = (if mr_OldExists r then Some b else None)" "new = Some n" "Digest old = op_OldDigest r" "Digest new = op_NewDigest r"
    using assms x y by (auto simp: snapshots_def expired_def Let_def split: if_splits sum.splits option.splits)
  moreover from this have "gm_get (of_snapshots (pd_now (me_ops e))) (old_name (op_ID r)) = Some b" "readable (mo_MaxBytes (me_opts e)) (Some b)"
      "gm_get (of_snapshots (pd_now (me_ops e))) (new_name (op_ID r)) = Some n" "readable (mo_MaxBytes (me_opts e)) (Some n)"
    using read_snapshot_eq(2) [of "old_name (op_ID r)" e "Some b"] read_snapshot_eq(2) [of "new_name (op_ID r)" e1 "Some n"] x y e1
    by auto
  ultimately show "snaps_ok (of_snapshots (pd_now (me_ops e))) r \<and> \<not> expired r \<and> Digest old = op_OldDigest r \<and>
      Digest new = op_NewDigest r \<and> readable (mo_MaxBytes (me_opts e)) old \<and> readable (mo_MaxBytes (me_opts e)) new"
    by (auto simp: snaps_ok_def readable_def)
qed

text \<open>A write of the old or the new content of the active operation.\<close>

lemma writeStore_Inv:
  assumes inv: "Inv X e" and d: "me_active e \<noteq> [] \<Longrightarrow> Digest desired \<in> {op_OldDigest (the_record e (me_active e)), op_NewDigest (the_record e (me_active e))}"
    "readable (mo_MaxBytes (me_opts e)) desired"
    and run: "writeStore desired expected e = (err, e')"
  shows "Inv X e' \<and> (\<exists>t d ps. e' = e\<lparr>me_tick := t, me_store := d, me_points := ps\<rparr>) \<and>
    (err = None \<longrightarrow> me_store e' = durable desired) \<and> (err = Some ErrConflict \<longrightarrow> me_store e' = me_store e)"
proof -
  let ?a = "me_env e (me_tick e)"
  let ?e = "e\<lparr>me_tick := Suc (me_tick e)\<rparr>"
  let ?d = "rename_in (\<lambda>_. desired) (me_store e)"
  show ?thesis
  proof (cases "replace_check (an_fault ?a) (mo_MaxBytes (me_opts e)) expected (pd_now (me_store e)) desired")
    case (Some x)
    then have e': "e' = ?e"
      using run by (simp add: writeStore_def)
    moreover have "\<exists>t d ps. ?e = e\<lparr>me_tick := t, me_store := d, me_points := ps\<rparr>"
      by (intro exI [of _ "Suc (me_tick e)"] exI [of _ "me_store e"] exI [of _ "me_points e"]) simp
    ultimately show ?thesis
      using run Some inv by (auto simp: writeStore_def)
  next
    case None
    obtain x ds where s: "replace_steps (an_fault ?a) (\<lambda>_. desired) (me_store e) = (x, ds)"
      by fastforce
    then have e': "err = x" "e' = store_steps ds ?e"
      using run None by (simp_all add: writeStore_def)
    have ok: "store_ok (e\<lparr>me_store := ?d\<rparr>)" "store_ok (e\<lparr>me_store := sync_dir ?d\<rparr>)"
      using inv d by (auto simp: Inv_def store_ok_def)
    define one where "one = e\<lparr>me_tick := Suc (me_tick e), me_store := ?d, me_points := (?d, me_ops e) # me_points e\<rparr>"
    define two where "two = e\<lparr>me_tick := Suc (me_tick e), me_store := sync_dir ?d,
      me_points := (sync_dir ?d, me_ops e) # (?d, me_ops e) # me_points e\<rparr>"
    have "Inv X (?e\<lparr>me_store := ?d, me_points := (?d, me_ops ?e) # me_points ?e\<rparr>)"
      by (rule Inv_store_step) (use inv ok in \<open>simp_all add: store_ok_def\<close>)
    then have 1: "Inv X one"
      by (simp add: one_def)
    have "Inv X (one\<lparr>me_store := sync_dir ?d, me_points := (sync_dir ?d, me_ops one) # me_points one\<rparr>)"
      by (rule Inv_store_step [OF 1]) (use ok in \<open>simp add: store_ok_def one_def\<close>)
    then have 2: "Inv X two"
      by (simp add: one_def two_def)
    have c: "e' = one \<and> x \<noteq> None \<and> x \<noteq> Some ErrConflict \<or> e' = two \<and> x \<noteq> Some ErrConflict"
      using s e' by (auto simp: one_def two_def replace_steps_def Let_def split: fault.splits)
    have st: "me_store two = durable desired"
      by (simp add: two_def sync_dir_def durable_def rename_in_def)
    have f: "\<exists>t d ps. one = e\<lparr>me_tick := t, me_store := d, me_points := ps\<rparr>" "\<exists>t d ps. two = e\<lparr>me_tick := t, me_store := d, me_points := ps\<rparr>"
      unfolding one_def two_def by blast+
    from c show ?thesis
    proof
      assume "e' = one \<and> x \<noteq> None \<and> x \<noteq> Some ErrConflict"
      then show ?thesis
        using 1 f(1) e'(1) by auto
    next
      assume "e' = two \<and> x \<noteq> Some ErrConflict"
      then show ?thesis
        using 2 f(2) st e'(1) by simp
    qed
  qed
qed

section \<open>What a worker's section leaves\<close>

definition onward :: "string \<Rightarrow> managed_engine \<Rightarrow> managed_engine \<Rightarrow> bool" where
  "onward ident e e' \<longleftrightarrow> kept e e' \<and> same_operation (the_record e ident) (the_record e' ident) \<and>
    (\<forall>k. k \<noteq> ident \<longrightarrow> gm_get (me_records e') k = gm_get (me_records e) k)"

lemma onward_refl [simp]: "onward ident e e"
  by (simp add: onward_def)

lemma onward_trans: "onward ident e e' \<Longrightarrow> onward ident e' e'' \<Longrightarrow> onward ident e e''"
  unfolding onward_def using engine_kept_trans same_operation_trans by metis

lemma onwardI: "only_record ident r' e e' \<Longrightarrow> kept e e' \<Longrightarrow> same_operation (the_record e ident) r' \<Longrightarrow> onward ident e e'"
  using only_record_the [of ident r' e e'] by (simp add: onward_def only_record_def)

lemma drift_onward: "drift ident e e' \<Longrightarrow> onward ident e e'"
  using onwardI by (auto simp: drift_def same_facts_def)

lemma drift_facts: "drift ident e e' \<Longrightarrow> same_facts (the_record e ident) (the_record e' ident)"
  using only_record_the by (auto simp: drift_def)

text \<open>The store is synced, with the given digest.\<close>

definition store_has :: "string \<Rightarrow> managed_engine \<Rightarrow> bool" where
  "store_has digest e \<longleftrightarrow> (\<exists>s. me_store e = durable s \<and> Digest s = digest)"

definition old_digest :: "string \<Rightarrow> managed_engine \<Rightarrow> string" where
  "old_digest ident e = op_OldDigest (the_record e ident)"

definition new_digest :: "string \<Rightarrow> managed_engine \<Rightarrow> string" where
  "new_digest ident e = op_NewDigest (the_record e ident)"

abbreviation status :: "string \<Rightarrow> managed_engine \<Rightarrow> op_state" where
  "status ident e \<equiv> op_State (the_record e ident)"

lemma onward_digests: "onward ident e e' \<Longrightarrow> old_digest ident e' = old_digest ident e \<and> new_digest ident e' = new_digest ident e"
  by (simp add: onward_def old_digest_def new_digest_def same_operation_def)

definition settled :: "string \<Rightarrow> managed_engine \<Rightarrow> bool" where
  "settled ident e \<longleftrightarrow> status ident e \<noteq> Prepared \<and> (terminal (status ident e) \<longrightarrow>
    store_has (if status ident e = Confirmed then new_digest ident e else old_digest ident e) e)"

text \<open>The end of a worker.\<close>

definition outcome :: "string \<Rightarrow> managed_engine \<Rightarrow> managed_engine \<Rightarrow> bool" where
  "outcome ident e e' \<longleftrightarrow> work ident e' \<and> onward ident e e' \<and> settled ident e'"

lemma outcome_trans: "onward ident e e' \<Longrightarrow> outcome ident e' e'' \<Longrightarrow> outcome ident e e''"
  unfolding outcome_def using onward_trans by blast

lemma settle_onward:
  assumes "work ident e"
  shows "work ident (settle ident st code e)" "onward ident e (settle ident st code e)"
    "me_store (settle ident st code e) = me_store e" "status ident (settle ident st code e) \<in> {st, OutcomeUnknown}"
proof -
  obtain r' where "work ident (settle ident st code e)" "still e (settle ident st code e)"
      "only_record ident r' e (settle ident st code e)" "same_facts (the_record e ident) r'" "op_State r' \<in> {st, OutcomeUnknown}"
    using settle_work [OF assms, of st code] by blast
  with only_record_the [OF this(3)] show "work ident (settle ident st code e)" "onward ident e (settle ident st code e)"
    "me_store (settle ident st code e) = me_store e" "status ident (settle ident st code e) \<in> {st, OutcomeUnknown}"
    using onwardI [of ident r' e] by (auto simp: still_def same_facts_def)
qed

lemma settle_outcome:
  assumes "work ident e" "terminal st \<Longrightarrow> st \<noteq> Confirmed \<and> store_has (old_digest ident e) e" "st \<noteq> Prepared"
  shows "outcome ident e (settle ident st code e) \<and> status ident (settle ident st code e) \<noteq> Confirmed"
proof -
  note s = settle_onward [OF assms(1), of st code]
  show ?thesis
    using s assms(2,3) onward_digests [OF s(2)] by (auto simp: outcome_def settled_def store_has_def)
qed

text \<open>Changes of the record that leave its operation and its state.\<close>

lemma work_update:
  assumes w: "work ident e" and f: "same_operation (the_record e ident) (f (the_record e ident))" "sound (f (the_record e ident))"
    "expired (f (the_record e ident)) = expired (the_record e ident)" "op_State (f (the_record e ident)) = status ident e"
  shows "work ident (update_record ident f e) \<and> onward ident e (update_record ident f e)"
proof -
  note r = work_record [OF w]
  have "Inv {} (update_record ident f e)"
    by (rule Inv_update [where f = f and r = "the_record e ident", OF _ r(1) f(1,2)]) (use w f in \<open>simp_all add: work_def\<close>)
  then show ?thesis
    using w f snaps_ok_same [OF f(1)] by (simp add: work_def onward_def kept_def)
qed

lemma sound_updates [simp]:
  "\<not> expired r \<Longrightarrow> sound (r\<lparr>op_State := st\<rparr>) = sound r" "expired (r\<lparr>op_State := st\<rparr>) = expired r"
  "sound (r\<lparr>op_StorePersisted := b\<rparr>) = sound r" "sound (r\<lparr>op_Verification := v\<rparr>) = sound r" "sound (r\<lparr>op_ErrorCode := c\<rparr>) = sound r"
  "sound (r\<lparr>op_RuntimeApplied := b\<rparr>) = sound r" "\<not> expired r \<Longrightarrow> sound (r\<lparr>mr_NeedsRuntime := b\<rparr>) = sound r"
  "expired (r\<lparr>op_StorePersisted := b\<rparr>) = expired r" "expired (r\<lparr>op_Verification := v\<rparr>) = expired r"
  "expired (r\<lparr>op_ErrorCode := c\<rparr>) = expired r" "expired (r\<lparr>op_RuntimeApplied := b\<rparr>) = expired r"
  "expired (r\<lparr>mr_NeedsRuntime := b\<rparr>) = expired r"
  "same_operation r (r\<lparr>op_StorePersisted := b\<rparr>)" "same_operation r (r\<lparr>op_Verification := v\<rparr>)" "same_operation r (r\<lparr>op_ErrorCode := c\<rparr>)"
  "same_operation r (r\<lparr>op_RuntimeApplied := b\<rparr>)" "same_operation r (r\<lparr>mr_NeedsRuntime := b\<rparr>)"
  by (auto simp: sound_def expired_def same_operation_def)

lemma save_work:
  assumes w: "work ident e" and n: "\<not> terminal (status ident e)" and run: "save ident e = (err, e')"
  shows "work ident e' \<and> still e e' \<and> (\<exists>r'. only_record ident r' e e' \<and> same_facts (the_record e ident) r' \<and> op_State r' = status ident e)"
proof -
  note r = work_record [OF w]
  have inv: "Inv {ident} e"
    using w Inv_weaken [of "{}" e "{ident}"] by (simp add: work_def)
  have "\<not> expired (the_record e ident) \<longrightarrow> snaps_ok (of_snapshots (pd_now (me_ops e))) (the_record e ident)"
    using w by (simp add: work_def)
  from save_Inv [OF inv singletonI r(1) this run] obtain r' where r': "same_facts (the_record e ident) r'" "op_State r' = status ident e"
      "only_record ident r' e e'" "Inv {ident} e'" "still e e'" "me_active e' = me_active e"
      "of_snapshots (pd_now (me_ops e')) = of_snapshots (pd_now (me_ops e))"
    by (elim exE conjE) (rule that)
  have "gm_get (me_records e') ident = Some r'"
    using r'(3) by (simp add: only_record_def)
  then have "Inv ({ident} - {ident}) e'"
    by (rule Inv_include [OF r'(4)]) (use r'(2) n in simp)
  then have "work ident e'"
    using w r' only_record_the [OF r'(3)] snaps_ok_same [of "the_record e ident" r'] by (auto simp: work_def still_def same_facts_def)
  then show ?thesis
    using r' by blast
qed

lemma save_onward:
  assumes "work ident e" "\<not> terminal (status ident e)" "save ident e = (err, e')"
  shows "work ident e'" "onward ident e e'" "me_store e' = me_store e" "status ident e' = status ident e" "still e e'"
    "same_facts (the_record e ident) (the_record e' ident)"
proof -
  obtain r' where "work ident e'" "still e e'" "only_record ident r' e e'" "same_facts (the_record e ident) r'" "op_State r' = status ident e"
    using save_work [OF assms] by blast
  with only_record_the [OF this(3)] show "work ident e'" "onward ident e e'" "me_store e' = me_store e" "status ident e' = status ident e" "still e e'"
    "same_facts (the_record e ident) (the_record e' ident)"
    using onwardI [of ident r' e] by (auto simp: still_def same_facts_def)
qed

lemma run_phase_onward:
  assumes "work ident e" "\<not> terminal (status ident e)" "run_phase ident code e = (a, c, e')"
  shows "work ident e'" "onward ident e e'" "me_store e' = me_store e" "\<not> terminal (status ident e')"
    "same_facts (the_record e ident) (the_record e' ident)"
proof -
  have y: "work ident e'" "drift ident e e'" "\<not> terminal (status ident e')"
    using run_phase_work [OF assms] by simp_all
  then show "work ident e'" "onward ident e e'" "me_store e' = me_store e" "\<not> terminal (status ident e')"
    "same_facts (the_record e ident) (the_record e' ident)"
    using drift_onward drift_facts by (simp_all add: drift_def)
qed

lemma yield_onward:
  assumes "work ident e"
  shows "work ident (yield_lock ident e)" "onward ident e (yield_lock ident e)" "me_store (yield_lock ident e) = me_store e"
    "terminal (status ident (yield_lock ident e)) = terminal (status ident e)"
    "same_facts (the_record e ident) (the_record (yield_lock ident e) ident)"
    "terminal (status ident e) \<Longrightarrow> status ident (yield_lock ident e) = status ident e"
proof -
  have y: "work ident (yield_lock ident e)" "drift ident e (yield_lock ident e)"
    using yield_work [OF assms] by simp_all
  then show "work ident (yield_lock ident e)" "onward ident e (yield_lock ident e)" "me_store (yield_lock ident e) = me_store e"
    using drift_onward by (simp_all add: drift_def)
  show "terminal (status ident (yield_lock ident e)) = terminal (status ident e)"
    using drift_nonterminal [OF y(2)] by metis
  show "same_facts (the_record e ident) (the_record (yield_lock ident e) ident)"
    by (rule drift_facts [OF y(2)])
  show "terminal (status ident e) \<Longrightarrow> status ident (yield_lock ident e) = status ident e"
    by (rule drift_nonterminal(2) [OF y(2)])
qed

section \<open>Rolling back\<close>

lemma tick_onward [simp]: "onward ident e (e\<lparr>me_tick := t\<rparr>)" "store_has d (e\<lparr>me_tick := t\<rparr>) = store_has d e"
    "old_digest ident (e\<lparr>me_tick := t\<rparr>) = old_digest ident e" "new_digest ident (e\<lparr>me_tick := t\<rparr>) = new_digest ident e"
  by (simp_all add: onward_def kept_def store_has_def old_digest_def new_digest_def)

lemma store_has_cong: "me_store e' = me_store e \<Longrightarrow> store_has d e' = store_has d e"
  by (simp add: store_has_def)

lemma rollback_verify_outcome:
  assumes w: "work ident e" "\<not> terminal (status ident e)" and st: "store_has (old_digest ident e) e"
  shows "outcome ident e (rollback_verify ident code e) \<and> status ident (rollback_verify ident code e) \<noteq> Confirmed"
proof -
  obtain a c e1 where ph: "run_phase ident ''rollback_timeout'' e = (a, c, e1)"
    using prod_cases3 by blast
  note p = run_phase_onward [OF w ph]
  have st1: "store_has (old_digest ident e1) e1"
    using st onward_digests [OF p(2)] store_has_cong [OF p(3)] by simp
  have fin: "outcome ident e (settle ident s k e2) \<and> status ident (settle ident s k e2) \<noteq> Confirmed"
    if "s \<in> {RollbackFailed, RolledBack}" "work ident e2" "onward ident e1 e2" "me_store e2 = me_store e1" for s k e2
    using settle_outcome [OF that(2), of s k] that outcome_trans [OF onward_trans [OF p(2) that(3)]] st1
      onward_digests [OF that(3)] store_has_cong [OF that(4)] by auto
  let ?e2 = "e1\<lparr>me_tick := Suc (me_tick e1)\<rparr>"
  let ?f = "\<lambda>r. r\<lparr>op_RuntimeApplied := False, mr_NeedsRuntime := False, op_Verification := an_verify a\<rparr>"
  have w2: "work ident ?e2"
    using p(1) by simp
  note r2 = work_record [OF w2]
  have "same_operation (the_record ?e2 ident) (?f (the_record ?e2 ident))" "sound (?f (the_record ?e2 ident))"
      "expired (?f (the_record ?e2 ident)) = expired (the_record ?e2 ident)"
    using r2(2,4) by (auto simp: same_operation_def sound_def expired_def)
  then have u: "work ident (update_record ident ?f ?e2)" "onward ident ?e2 (update_record ident ?f ?e2)"
    using work_update [OF w2, of ?f] by simp_all
  obtain cur where r: "readStore e1 = (cur, ?e2)"
    using readStore_eq(1) by blast
  have f1: "outcome ident e (settle ident RollbackFailed k e1) \<and> status ident (settle ident RollbackFailed k e1) \<noteq> Confirmed" for k
    using p(1) by (intro fin) simp_all
  have f2: "outcome ident e (settle ident RollbackFailed k ?e2) \<and> status ident (settle ident RollbackFailed k ?e2) \<noteq> Confirmed" for k
    using w2 by (intro fin) simp_all
  have f3: "outcome ident e (settle ident RolledBack k (update_record ident ?f ?e2)) \<and>
      status ident (settle ident RolledBack k (update_record ident ?f ?e2)) \<noteq> Confirmed" for k
    using u onward_trans [OF tick_onward(1) u(2)] by (intro fin) simp_all
  show ?thesis
    unfolding rollback_verify_def ph prod.case Let_def r using f1 f2 f3 by simp
qed

lemma rollback_runtime_outcome:
  assumes w: "work ident e" "\<not> terminal (status ident e)" and st: "store_has (old_digest ident e) e"
  shows "outcome ident e (rollback_runtime ident startup code e) \<and> status ident (rollback_runtime ident startup code e) \<noteq> Confirmed"
proof (cases startup)
  case True
  then show ?thesis
    using rollback_verify_outcome [OF assms] by (simp add: rollback_runtime_def)
next
  case False
  obtain a c e1 where ph: "run_phase ident ''rollback_timeout'' e = (a, c, e1)"
    using prod_cases3 by blast
  note p = run_phase_onward [OF w ph]
  have st1: "store_has (old_digest ident e1) e1"
    using st onward_digests [OF p(2)] store_has_cong [OF p(3)] by simp
  have "outcome ident e1 (settle ident RollbackFailed k e1) \<and> status ident (settle ident RollbackFailed k e1) \<noteq> Confirmed" for k
    by (rule settle_outcome [OF p(1)]) simp_all
  with rollback_verify_outcome [OF p(1,4) st1] show ?thesis
    using False outcome_trans [OF p(2)] by (simp add: rollback_runtime_def ph)
qed

lemma with_operation_simp:
  "with_operation (operation_of q) r = q\<lparr>mr_Version := mr_Version r, mr_contextChanged := mr_contextChanged r,
    mr_KeyDigest := mr_KeyDigest r, mr_Fingerprint := mr_Fingerprint r, mr_OldExists := mr_OldExists r,
    mr_NeedsRuntime := mr_NeedsRuntime r, mr_TerminalAt := mr_TerminalAt r\<rparr>"
  by (cases q) (simp add: with_operation_def operation_of_def Operation.defs managed_record.defs)

text \<open>The write of the old store, and what follows it; the state has already been changed.\<close>

lemma rollback_written_outcome:
  assumes w: "work ident e" "\<not> terminal (status ident e)" and st: "store_has (old_digest ident e) e"
    and sv: "save ident (update_record ident (\<lambda>r. r\<lparr>op_StorePersisted := False\<rparr>) e) = (err, e1)"
  defines "e2 \<equiv> if err \<noteq> None then update_record ident (\<lambda>r. r\<lparr>op_ErrorCode := ''journal_failed''\<rparr>) e1 else e1"
  shows "outcome ident e (rollback_runtime ident startup code (yield_lock ident e2)) \<and>
    status ident (rollback_runtime ident startup code (yield_lock ident e2)) \<noteq> Confirmed"
proof -
  let ?e = "update_record ident (\<lambda>r. r\<lparr>op_StorePersisted := False\<rparr>) e"
  have 0: "work ident ?e" "onward ident e ?e"
    using work_update [OF w(1), of "\<lambda>r. r\<lparr>op_StorePersisted := False\<rparr>"] work_record(4) [OF w(1)] by simp_all
  have "\<not> terminal (status ident ?e)"
    using w(2) by simp
  note s = save_onward [OF 0(1) this sv]
  have 2: "work ident e2" "onward ident e1 e2" "me_store e2 = me_store e1" "status ident e2 = status ident e1"
    using s(1) work_update [OF s(1), of "\<lambda>r. r\<lparr>op_ErrorCode := ''journal_failed''\<rparr>"] work_record(4) [OF s(1)] by (simp_all add: e2_def)
  note y = yield_onward [OF 2(1)]
  have on: "onward ident e (yield_lock ident e2)"
    using 0(2) s(2) 2(2) y(2) onward_trans by blast
  have "store_has (old_digest ident (yield_lock ident e2)) (yield_lock ident e2)"
    using st s(3) 2(3) y(3) onward_digests [OF on] store_has_cong [of "yield_lock ident e2" e] by simp
  moreover have "\<not> terminal (status ident (yield_lock ident e2))"
    using y(4) 2(4) s(4) w(2) by simp
  ultimately show ?thesis
    using rollback_runtime_outcome [OF y(1)] outcome_trans [OF on] by blast
qed

lemma writeStore_work:
  assumes w: "work ident e" and d: "Digest desired \<in> {old_digest ident e, new_digest ident e}" "readable (mo_MaxBytes (me_opts e)) desired"
    and run: "writeStore desired expected e = (err, e')"
  shows "work ident e'" "onward ident e e'" "the_record e' ident = the_record e ident" "me_abortCode e' = me_abortCode e"
    "err = None \<Longrightarrow> store_has (Digest desired) e'" "err = Some ErrConflict \<Longrightarrow> me_store e' = me_store e"
proof -
  have "Inv {} e" "me_active e = ident"
    using w by (simp_all add: work_def)
  then obtain t sd ps where e': "e' = e\<lparr>me_tick := t, me_store := sd, me_points := ps\<rparr>" and i: "Inv {} e'"
      "err = None \<longrightarrow> me_store e' = durable desired" "err = Some ErrConflict \<longrightarrow> me_store e' = me_store e"
    using writeStore_Inv [OF _ _ d(2) run, of "{}"] d(1) unfolding old_digest_def new_digest_def by blast
  show "work ident e'" "onward ident e e'" "the_record e' ident = the_record e ident" "me_abortCode e' = me_abortCode e"
      "err = None \<Longrightarrow> store_has (Digest desired) e'" "err = Some ErrConflict \<Longrightarrow> me_store e' = me_store e"
    using w i by (auto simp: e' work_def onward_def kept_def store_has_def)
qed

text \<open>The first step of a restore: the state, and then the write.\<close>

lemma state_onward:
  assumes "work ident e" "state ident st code e = (err, e')"
  shows "work ident e'" "onward ident e e'" "me_store e' = me_store e" "status ident e' = (if err = None then st else OutcomeUnknown)"
    "same_facts (the_record e ident) (the_record e' ident)" "me_opts e' = me_opts e"
proof -
  obtain r' where "work ident e'" "still e e'" "only_record ident r' e e'" "same_facts (the_record e ident) r'"
      "op_State r' = (if err = None then st else OutcomeUnknown)"
    using state_work [OF assms] by blast
  with only_record_the [OF this(3)] show "work ident e'" "onward ident e e'" "me_store e' = me_store e"
      "status ident e' = (if err = None then st else OutcomeUnknown)" "same_facts (the_record e ident) (the_record e' ident)" "me_opts e' = me_opts e"
    using onwardI [of ident r' e] by (auto simp: still_def kept_def same_facts_def)
qed

lemma rollback_begun:
  assumes w: "work ident e" and old: "Digest old = old_digest ident e" "readable (mo_MaxBytes (me_opts e)) old"
    and s: "state ident RollingBack code (update_record ident (\<lambda>r. r\<lparr>op_Verification := noVerification\<rparr>) e) = (err1, e1)"
    and wr: "writeStore old expected e1 = (err, e2)"
  shows "work ident e1" "onward ident e e1" "me_store e1 = me_store e" "\<not> terminal (status ident e1)" "status ident e1 \<noteq> Prepared"
    "work ident e2" "onward ident e1 e2" "the_record e2 ident = the_record e1 ident"
    "err = None \<Longrightarrow> store_has (old_digest ident e2) e2" "err = Some ErrConflict \<Longrightarrow> me_store e2 = me_store e1"
proof -
  let ?e = "update_record ident (\<lambda>r. r\<lparr>op_Verification := noVerification\<rparr>) e"
  have 0: "work ident ?e" "onward ident e ?e"
    using work_update [OF w, of "\<lambda>r. r\<lparr>op_Verification := noVerification\<rparr>"] work_record(4) [OF w] by simp_all
  note 1 = state_onward [OF 0(1) s]
  show on1: "work ident e1" "onward ident e e1" "me_store e1 = me_store e" "\<not> terminal (status ident e1)" "status ident e1 \<noteq> Prepared"
    using 1 onward_trans [OF 0(2) 1(2)] by simp_all
  have d: "Digest old \<in> {old_digest ident e1, new_digest ident e1}" "readable (mo_MaxBytes (me_opts e1)) old"
    using old onward_digests [OF on1(2)] 1(6) by simp_all
  note 2 = writeStore_work [OF 1(1) d wr]
  show "work ident e2" "onward ident e1 e2" "the_record e2 ident = the_record e1 ident"
      "err = None \<Longrightarrow> store_has (old_digest ident e2) e2" "err = Some ErrConflict \<Longrightarrow> me_store e2 = me_store e1"
    using 2 old(1) onward_digests [OF on1(2)] onward_digests [OF 2(2)] by simp_all
qed

lemma rollback_restore_outcome:
  assumes w: "work ident e" and old: "Digest old = old_digest ident e" "readable (mo_MaxBytes (me_opts e)) old"
    and run: "rollback_restore ident startup None old current e = (err, e')"
  shows "outcome ident e e' \<and> status ident e' \<noteq> Confirmed"
proof -
  obtain err1 e1 where s: "state ident RollingBack (op_ErrorCode (the_record e ident))
      (update_record ident (\<lambda>r. r\<lparr>op_Verification := noVerification\<rparr>) e) = (err1, e1)"
    by fastforce
  obtain err2 e2 where wr: "writeStore old (Digest current) e1 = (err2, e2)"
    by fastforce
  note b = rollback_begun [OF w old s wr]
  have on: "onward ident e e2"
    using onward_trans [OF b(2,7)] .
  show ?thesis
  proof (cases err2)
    case None
    obtain err3 e3 where sv: "save ident (update_record ident (\<lambda>r. r\<lparr>op_StorePersisted := False\<rparr>) e2) = (err3, e3)"
      by fastforce
    have e': "e' = rollback_runtime ident startup (op_ErrorCode (the_record e ident)) (yield_lock ident
        (if err3 \<noteq> None then update_record ident (\<lambda>r. r\<lparr>op_ErrorCode := ''journal_failed''\<rparr>) e3 else e3))"
      using run s wr None sv by (simp add: rollback_restore_def)
    have "\<not> terminal (status ident e2)"
      using b(4,8) by simp
    then show ?thesis
      using rollback_written_outcome [OF b(6) _ b(9) [OF None] sv] outcome_trans [OF on] unfolding e' by blast
  next
    case (Some x)
    then have "e' = settle ident RollbackFailed ''rollback_store_failed'' e2"
      using run s wr by (cases x) (simp_all add: rollback_restore_def)
    then show ?thesis
      using settle_outcome [OF b(6), of RollbackFailed] outcome_trans [OF on] by simp
  qed
qed

lemma mark_work:
  assumes w: "work ident e" and s: "st \<in> {RollbackFailed, OutcomeUnknown}"
  shows "outcome ident e (mark ident st code e) \<and> status ident (mark ident st code e) \<noteq> Confirmed"
proof -
  let ?f = "\<lambda>r. r\<lparr>op_State := st, op_ErrorCode := code\<rparr>"
  note r = work_record [OF w]
  have so: "same_operation (the_record e ident) (?f (the_record e ident))" "sound (?f (the_record e ident))"
    using r(2,4) by (auto simp: same_operation_def)
  have "Inv {} (update_record ident ?f e)"
    by (rule Inv_update [where f = ?f and r = "the_record e ident", OF _ r(1) so]) (use w s in \<open>auto simp: work_def\<close>)
  then have "work ident (update_record ident ?f e) \<and> onward ident e (update_record ident ?f e)"
    using w so(1) snaps_ok_same [OF so(1)] by (simp add: work_def onward_def kept_def)
  then show ?thesis
    using s by (auto simp: mark_def outcome_def settled_def)
qed

lemma rollbackAfterCheck_outcome:
  assumes w: "work ident e" and run: "rollbackAfterCheck ident startup None e = (err, e')"
  shows "outcome ident e e' \<and> status ident e' \<noteq> Confirmed"
proof -
  obtain snaps e1 where s: "snapshots (the_record e ident) e = (snaps, e1)"
    by fastforce
  then obtain t where e1: "e1 = e\<lparr>me_tick := t\<rparr>"
    using snapshots_eq(1) by blast
  have w1: "work ident e1" "onward ident e e1" "the_record e1 ident = the_record e ident"
    using w by (simp_all add: e1)
  show ?thesis
  proof (cases snaps)
    case (Inl x)
    obtain j e2 where p: "probe_journal ident e1 = (j, e2)"
      by fastforce
    then have e2: "e2 = e1\<lparr>me_tick := Suc (me_tick e1)\<rparr>"
      using probe_eq(1) [of ident e1] by simp
    have w2: "work ident e2" "onward ident e e2"
      using w1 onward_trans by (simp_all add: e2 onward_def kept_def)
    have "e' \<in> {mark ident RollbackFailed ''snapshot_invalid'' e2, settle ident RollbackFailed ''snapshot_invalid'' e2}"
      using run s Inl p by (auto simp: rollbackAfterCheck_def split: if_splits)
    then show ?thesis
      using mark_work [OF w2(1)] settle_outcome [OF w2(1), of RollbackFailed] outcome_trans [OF w2(2)] by auto
  next
    case (Inr on)
    obtain old n where on: "on = (old, n)"
      by fastforce
    note sn = snapshots_eq(2) [OF s [unfolded Inr on] refl]
    obtain cur e2 where r: "readStore e1 = (cur, e2)"
      by fastforce
    then have e2: "e2 = e1\<lparr>me_tick := Suc (me_tick e1)\<rparr>"
      using readStore_eq(1) [of e1] by simp
    have w2: "work ident e2" "onward ident e e2" "me_opts e2 = me_opts e" "old_digest ident e2 = old_digest ident e"
      using w1 by (simp_all add: e2 e1 onward_def kept_def old_digest_def)
    have "Digest old = old_digest ident e2" "readable (mo_MaxBytes (me_opts e2)) old"
      using sn w2 by (simp_all add: old_digest_def)
    note ro = rollback_restore_outcome [OF w2(1) this]
    consider "e' = settle ident RollbackFailed ''store_drift'' e2" | "rollback_restore ident startup None old (projr cur) e2 = (err, e')"
      using run s Inr on r by (auto simp: rollbackAfterCheck_def Let_def split: if_splits)
    then show ?thesis
    proof cases
      case 1
      then show ?thesis
        using settle_outcome [OF w2(1), of RollbackFailed] outcome_trans [OF w2(2)] by simp
    next
      case 2
      then show ?thesis
        using ro outcome_trans [OF w2(2)] by blast
    qed
  qed
qed

lemma rollbackWorker_outcome:
  assumes w: "work ident e" "\<not> terminal (status ident e)"
  shows "outcome ident e (rollbackWorker ident startup e) \<and> status ident (rollbackWorker ident startup e) \<noteq> Confirmed"
proof -
  note y = yield_onward [OF w(1)]
  let ?e1 = "(yield_lock ident e)\<lparr>me_restoring := True\<rparr>"
  have 1: "work ident ?e1" "onward ident e ?e1" "\<not> terminal (status ident ?e1)"
    using y w(2) by (simp_all add: onward_def kept_def)
  note y1 = yield_onward [OF 1(1)]
  obtain a c e2 where ph: "run_phase ident ''rollback_timeout'' (yield_lock ident ?e1) = (a, c, e2)"
    using prod_cases3 by blast
  have "\<not> terminal (status ident (yield_lock ident ?e1))"
    using y1(4) 1(3) by simp
  note p = run_phase_onward [OF y1(1) this ph]
  have on: "onward ident e e2"
    using onward_trans [OF onward_trans [OF 1(2) y1(2)] p(2)] .
  note y2 = yield_onward [OF p(1)]
  obtain err e3 where rc: "rollbackAfterCheck ident startup None (yield_lock ident e2) = (err, e3)"
    by fastforce
  have "outcome ident e2 e3 \<and> status ident e3 \<noteq> Confirmed"
    using rollbackAfterCheck_outcome [OF y2(1) rc] outcome_trans [OF y2(2)] by blast
  moreover have "outcome ident e2 (settle ident RollbackFailed k e2) \<and> status ident (settle ident RollbackFailed k e2) \<noteq> Confirmed" for k
    by (rule settle_outcome [OF p(1)]) simp_all
  moreover have "rollbackWorker ident startup e = e3 \<or> (\<exists>k. rollbackWorker ident startup e = settle ident RollbackFailed k e2)"
    unfolding rollbackWorker_def Let_def ph prod.case rc by auto
  ultimately show ?thesis
    using outcome_trans [OF on] by metis
qed

section \<open>Rolling back a confirmed operation\<close>

text \<open>The write lost a race: the record gets its confirmed history back.\<close>

lemma history_restored:
  assumes w: "work ident e" and q: "sound q" "\<not> expired q" "op_State q = Confirmed" "same_operation q (the_record e ident)"
    and st: "store_has (new_digest ident e) e"
    and run: "persist ident (update_record ident (with_operation (operation_of q)) e) = (err, e1)"
  defines "e2 \<equiv> if err \<noteq> None then update_record ident (\<lambda>r. r\<lparr>op_State := OutcomeUnknown, op_ErrorCode := ''journal_failed'',
    op_Verification := noVerification\<rparr>) e1 else e1"
  shows "outcome ident e e2"
proof -
  let ?f = "with_operation (operation_of q)"
  let ?r = "?f (the_record e ident)"
  let ?e = "update_record ident ?f e"
  note r = work_record [OF w]
  have f: "same_operation (the_record e ident) ?r" "sound ?r" "\<not> expired ?r" "op_State ?r = Confirmed"
    using q r(2,4) by (auto simp: with_operation_simp same_operation_def sound_def expired_def)
  have inv: "Inv {ident} e" and act: "me_active e = ident" and sn: "snaps_ok (of_snapshots (pd_now (me_ops e))) (the_record e ident)"
    using w Inv_weaken [of "{}" e "{ident}"] by (simp_all add: work_def)
  have inv1: "Inv {ident} ?e"
    by (rule Inv_update [where f = ?f and r = "the_record e ident", OF inv r(1) f(1,2)]) (use act f r(2) sn in simp_all)
  have g1: "gm_get (me_records ?e) ident = Some ?r"
    by simp
  have sn1: "\<not> expired ?r \<longrightarrow> snaps_ok (of_snapshots (pd_now (me_ops ?e))) ?r"
    using sn snaps_ok_same [OF f(1)] by simp
  from persist_Inv [OF inv1 singletonI g1 sn1 run] obtain t where t: "t \<noteq> 0" "Inv {ident} e1" "still ?e e1" "me_active e1 = me_active ?e"
      "me_records e1 = gm_put ident (normalizeRecordRetention t ?r) (me_records ?e)"
      "of_snapshots (pd_now (me_ops e1)) = of_snapshots (pd_now (me_ops ?e))"
      "\<forall>fs\<in>set (versions (me_ops e1)). journaled ident ?r fs \<or> err \<noteq> None \<and> fs \<in> set (versions (me_ops ?e))"
    by (elim exE conjE) (rule that)
  let ?n = "normalizeRecordRetention t ?r"
  have g: "gm_get (me_records e1) ident = Some ?n" "the_record e1 ident = ?n" and
      others: "\<And>k. k \<noteq> ident \<Longrightarrow> gm_get (me_records e1) k = gm_get (me_records e) k"
    using t(5) by (simp_all add: the_record_def gm_get_put)
  have n: "sound ?n" "\<not> expired ?n" "op_State ?n = Confirmed" "same_operation (the_record e ident) ?n"
    using f t(1) normalize_sound by simp_all
  have k: "kept e e1" "me_store e1 = me_store e" "me_running e1" "me_active e1 = ident"
    using t(3,4) w by (simp_all add: still_def kept_def work_def)
  have sn2: "snaps_ok (of_snapshots (pd_now (me_ops e1))) ?n"
    using sn t(6) snaps_ok_same [OF n(4)] by simp
  have idn: "ident \<noteq> []"
    using w by (simp add: work_def)
  show ?thesis
  proof (cases "err = None")
    case True
    have "Inv ({ident} - {ident}) e1"
      by (rule Inv_include [OF t(2) g(1)]) (use t(7) True n f in \<open>auto simp: journaled_def\<close>)
    then have "work ident e1"
      using k sn2 g(2) idn by (simp add: work_def)
    moreover have "onward ident e e1"
      using k(1) n(4) g(2) others by (simp add: onward_def)
    ultimately show ?thesis
      using True st n(3) g(2) onward_digests [of ident e e1] store_has_cong [OF k(2)] by (simp add: e2_def outcome_def settled_def)
  next
    case False
    let ?h = "\<lambda>r. r\<lparr>op_State := OutcomeUnknown, op_ErrorCode := ''journal_failed'', op_Verification := noVerification\<rparr>"
    have h: "same_operation ?n (?h ?n)" "sound (?h ?n)" "expired (?h ?n) = expired ?n"
      using n(1,2) by (auto simp: same_operation_def sound_def expired_def)
    have "Inv {ident} (update_record ident ?h e1)"
      by (rule Inv_update [where f = ?h and r = ?n, OF t(2) g(1) h(1,2)]) (use k(4) h(3) in simp_all)
    then have "Inv ({ident} - {ident}) (update_record ident ?h e1)"
      by (rule Inv_include [where r = "?h ?n"]) (use g(2) in simp_all)
    then have "work ident (update_record ident ?h e1)"
      using k sn2 g(2) idn snaps_ok_same [OF h(1)] by (simp add: work_def)
    moreover have "onward ident e (update_record ident ?h e1)"
      using k(1) same_operation_trans [OF n(4) h(1)] g(2) others by (simp add: onward_def kept_def)
    ultimately show ?thesis
      using False by (simp add: e2_def outcome_def settled_def)
  qed
qed

lemma rollback_restore_confirmed:
  assumes w: "work ident e" and q: "sound q" "\<not> expired q" "op_State q = Confirmed" "same_operation q (the_record e ident)"
    and st: "store_has (new_digest ident e) e"
    and old: "Digest old = old_digest ident e" "readable (mo_MaxBytes (me_opts e)) old"
    and run: "rollback_restore ident startup (Some (operation_of q)) old current e = (err, e')"
  shows "outcome ident e e'"
proof -
  obtain err1 e1 where s: "state ident RollingBack ''rollback_requested''
      (update_record ident (\<lambda>r. r\<lparr>op_Verification := noVerification\<rparr>) e) = (err1, e1)"
    by fastforce
  obtain err2 e2 where wr: "writeStore old (Digest current) e1 = (err2, e2)"
    by fastforce
  note b = rollback_begun [OF w old s wr]
  have on: "onward ident e e2"
    using onward_trans [OF b(2,7)] .
  show ?thesis
  proof (cases "err1 = None")
    case False
    then have "e' = e1"
      using run s by (simp add: rollback_restore_def split: option.splits)
    then show ?thesis
      using b(1,2,4,5) by (simp add: outcome_def settled_def)
  next
    case True
    consider (ok) "err2 = None" | (lost) "err2 = Some ErrConflict" | (bad) x where "err2 = Some x" "x \<noteq> ErrConflict"
      by (cases err2) blast+
    then show ?thesis
    proof cases
      case ok
      obtain err3 e3 where sv: "save ident (update_record ident (\<lambda>r. r\<lparr>op_StorePersisted := False\<rparr>) e2) = (err3, e3)"
        by fastforce
      have e': "e' = rollback_runtime ident startup ''rollback_requested'' (yield_lock ident
          (if err3 \<noteq> None then update_record ident (\<lambda>r. r\<lparr>op_ErrorCode := ''journal_failed''\<rparr>) e3 else e3))"
        using run s True wr ok sv by (simp add: rollback_restore_def)
      have "\<not> terminal (status ident e2)"
        using b(4,8) by simp
      then show ?thesis
        using rollback_written_outcome [OF b(6) _ b(9) [OF ok] sv] outcome_trans [OF on] unfolding e' by blast
    next
      case lost
      obtain err3 e3 where p: "persist ident (update_record ident (with_operation (operation_of q)) e2) = (err3, e3)"
        by fastforce
      have e': "e' = (if err3 \<noteq> None then update_record ident (\<lambda>r. r\<lparr>op_State := OutcomeUnknown, op_ErrorCode := ''journal_failed'',
          op_Verification := noVerification\<rparr>) e3 else e3)"
        using run s True wr lost p by (auto simp: rollback_restore_def)
      have same: "same_operation q (the_record e2 ident)"
        using on q(4) same_operation_trans by (auto simp: onward_def)
      have "store_has (new_digest ident e2) e2"
        using st b(3) b(10) [OF lost] onward_digests [OF on] store_has_cong [of e2 e] by simp
      from history_restored [OF b(6) q(1-3) same this p] show ?thesis
        using outcome_trans [OF on] unfolding e' by blast
    next
      case bad
      then have "e' = settle ident RollbackFailed ''rollback_store_failed'' e2"
        using run s True wr by (cases x) (simp_all add: rollback_restore_def)
      then show ?thesis
        using settle_outcome [OF b(6), of RollbackFailed] outcome_trans [OF on] by simp
    qed
  qed
qed

lemma stay_outcome:
  assumes "work ident e" "onward ident e0 e" "status ident e = Confirmed" "store_has (new_digest ident e) e"
  shows "outcome ident e0 e"
  using assms by (simp add: outcome_def settled_def)

lemma rollbackAfterCheck_confirmed:
  assumes w: "work ident e" and q: "sound q" "\<not> expired q" "op_State q = Confirmed" "same_operation q (the_record e ident)"
    and c: "status ident e = Confirmed" and st: "store_has (new_digest ident e) e"
    and run: "rollbackAfterCheck ident startup (Some (operation_of q)) e = (err, e')"
  shows "outcome ident e e'"
proof (cases "me_closing e")
  case True
  then have "e' = e"
    using run by (simp add: rollbackAfterCheck_def)
  then show ?thesis
    using stay_outcome [OF w onward_refl c st] by simp
next
  case False
  obtain snaps e1 where s: "snapshots (the_record e ident) e = (snaps, e1)"
    by fastforce
  then obtain t where e1: "e1 = e\<lparr>me_tick := t\<rparr>"
    using snapshots_eq(1) by blast
  have w1: "work ident e1" "onward ident e e1" "the_record e1 ident = the_record e ident" "store_has (new_digest ident e1) e1"
    using w st by (simp_all add: e1)
  show ?thesis
  proof (cases snaps)
    case (Inl x)
    then have "e' = e1"
      using run s False by (simp add: rollbackAfterCheck_def)
    then show ?thesis
      using stay_outcome [OF w1(1,2) _ w1(4)] c w1(3) by simp
  next
    case (Inr on)
    obtain old n where on: "on = (old, n)"
      by fastforce
    note sn = snapshots_eq(2) [OF s [unfolded Inr on] refl]
    obtain cur e2 where r: "readStore e1 = (cur, e2)"
      by fastforce
    then have e2: "e2 = e1\<lparr>me_tick := Suc (me_tick e1)\<rparr>"
      using readStore_eq(1) [of e1] by simp
    have w2: "work ident e2" "onward ident e e2" "me_opts e2 = me_opts e" "the_record e2 ident = the_record e ident"
        "store_has (new_digest ident e2) e2"
      using w1 by (simp_all add: e2 e1 onward_def kept_def)
    have "Digest old = old_digest ident e2" "readable (mo_MaxBytes (me_opts e2)) old" "same_operation q (the_record e2 ident)"
      using sn w2 q(4) by (simp_all add: old_digest_def)
    note ro = rollback_restore_confirmed [OF w2(1) q(1-3) this(3) w2(5) this(1,2)]
    consider "e' = e2" | "rollback_restore ident startup (Some (operation_of q)) old (projr cur) e2 = (err, e')"
      using run s Inr on r False by (auto simp: rollbackAfterCheck_def Let_def split: if_splits)
    then show ?thesis
    proof cases
      case 1
      then show ?thesis
        using stay_outcome [OF w2(1,2) _ w2(5)] c w2(4) by simp
    next
      case 2
      then show ?thesis
        using ro outcome_trans [OF w2(2)] by blast
    qed
  qed
qed

lemma rollbackConfirmed_outcome:
  assumes w: "work ident e" and c: "status ident e = Confirmed" and st: "store_has (new_digest ident e) e"
    and run: "rollbackConfirmed (operation_of (the_record e ident)) e = (err, e')"
  shows "outcome ident e e'"
proof -
  let ?q = "the_record e ident"
  have ID: "op_ID (operation_of ?q) = ident"
    using work_record(5) [OF w] by (simp add: operation_of_def Operation.defs)
  note y = yield_onward [OF w]
  let ?e1 = "(yield_lock ident e)\<lparr>me_tick := Suc (me_tick (yield_lock ident e))\<rparr>"
  let ?a = "me_env (yield_lock ident e) (me_tick (yield_lock ident e))"
  obtain cd e2 where m: "meanwhile_do False ident [] (an_during ?a) (me_closing (yield_lock ident e), ?e1) = (cd, e2)"
    by fastforce
  have w1: "work ident ?e1" "onward ident e ?e1" "status ident ?e1 = Confirmed" "me_store ?e1 = me_store e"
    using y c onward_trans [OF y(2) tick_onward(1)] by simp_all
  have d2: "work ident e2" "drift ident ?e1 e2"
    using meanwhile_work [OF w1(1) _ m] by simp_all
  have w2: "onward ident e e2" "status ident e2 = Confirmed" "me_store e2 = me_store e"
    using onward_trans [OF w1(2) drift_onward [OF d2(2)]] drift_nonterminal(2) [OF d2(2)] w1(3,4) d2(2) by (simp_all add: drift_def)
  note y3 = yield_onward [OF d2(1)]
  let ?e3 = "yield_lock ident e2"
  have w3: "onward ident e ?e3" "status ident ?e3 = Confirmed" "me_store ?e3 = me_store e"
    using onward_trans [OF w2(1) y3(2)] y3(3,6) w2(2,3) by simp_all
  have same: "same_operation ?q (the_record ?e3 ident)"
    using w3(1) by (simp add: onward_def)
  have st3: "store_has (new_digest ident e2) e2" "store_has (new_digest ident ?e3) ?e3"
    using st onward_digests [OF w2(1)] onward_digests [OF w3(1)] store_has_cong [OF w2(3)] store_has_cong [OF w3(3)] by simp_all
  obtain err4 e4 where rc: "rollbackAfterCheck ident False (Some (operation_of ?q)) ?e3 = (err4, e4)"
    by fastforce
  have "outcome ident ?e3 e4"
    by (rule rollbackAfterCheck_confirmed [OF y3(1) work_record(4,2) [OF w] c same w3(2) st3(2) rc])
  then have "outcome ident e e4"
    by (rule outcome_trans [OF w3(1)])
  moreover have "outcome ident e e2"
    using stay_outcome [OF d2(1) w2(1,2) st3(1)] .
  moreover have "e' \<in> {e2, e4}"
    using run m rc unfolding rollbackConfirmed_def ID Let_def by (auto split: if_splits)
  ultimately show ?thesis
    by auto
qed

section \<open>Applying\<close>

text \<open>What a confirmed record says.\<close>

definition evidence :: "string \<Rightarrow> managed_engine \<Rightarrow> bool" where
  "evidence ident e \<longleftrightarrow> (let r = the_record e ident in op_State r = Confirmed \<longrightarrow>
    op_StorePersisted r \<and> op_RuntimeApplied r \<and> vf_RuntimeLoaded (op_Verification r) \<and> vf_ResourcesReady (op_Verification r))"

definition applied :: "string \<Rightarrow> managed_engine \<Rightarrow> managed_engine \<Rightarrow> bool" where
  "applied ident e e' \<longleftrightarrow> outcome ident e e' \<and> evidence ident e'"

lemma applied_trans: "onward ident e e' \<Longrightarrow> applied ident e' e'' \<Longrightarrow> applied ident e e''"
  unfolding applied_def using outcome_trans by blast

lemma applied_other: "outcome ident e e' \<and> status ident e' \<noteq> Confirmed \<Longrightarrow> applied ident e e'"
  by (simp add: applied_def evidence_def Let_def)

lemma give_up:
  assumes "work ident e"
  shows "applied ident e (rollbackWorker ident False (settle ident OutcomeUnknown k e))"
proof -
  note s = settle_onward [OF assms, of OutcomeUnknown k]
  have "\<not> terminal (status ident (settle ident OutcomeUnknown k e))"
    using s(4) by auto
  then show ?thesis
    using rollbackWorker_outcome [OF s(1)] applied_other applied_trans [OF s(2)] by blast
qed

lemma cannot_save:
  assumes "work ident e" "\<not> terminal (status ident e)"
  shows "applied ident e (rollbackWorker ident False e)"
  using rollbackWorker_outcome [OF assms] applied_other by blast

text \<open>The next callback of a worker, after the mutex was free.\<close>

lemma phase_onward:
  assumes "work ident e" "\<not> terminal (status ident e)" "run_phase ident code (yield_lock ident e) = (a, c, e')"
  shows "work ident e'" "onward ident e e'" "me_store e' = me_store e" "\<not> terminal (status ident e')"
    "same_facts (the_record e ident) (the_record e' ident)"
proof -
  note y = yield_onward [OF assms(1)]
  have "\<not> terminal (status ident (yield_lock ident e))"
    using y(4) assms(2) by simp
  note p = run_phase_onward [OF y(1) this assms(3)]
  show "work ident e'" "onward ident e e'" "me_store e' = me_store e" "\<not> terminal (status ident e')"
    "same_facts (the_record e ident) (the_record e' ident)"
    using p onward_trans [OF y(2) p(2)] y(3) same_facts_trans [OF y(5) p(5)] by simp_all
qed

lemma apply_verify_applied:
  assumes w: "work ident e" "\<not> terminal (status ident e)" and st: "store_has (new_digest ident e) e"
    and facts: "op_StorePersisted (the_record e ident)" "op_RuntimeApplied (the_record e ident)"
  shows "applied ident e (apply_verify ident e)"
proof -
  obtain a c e1 where ph: "run_phase ident ''deadline_expired'' (yield_lock ident e) = (a, c, e1)"
    using prod_cases3 by blast
  note p = phase_onward [OF w ph]
  obtain cur where r: "readStore e1 = (cur, e1\<lparr>me_tick := Suc (me_tick e1)\<rparr>)"
    using readStore_eq(1) by blast
  let ?e2 = "e1\<lparr>me_tick := Suc (me_tick e1)\<rparr>"
  let ?f = "\<lambda>r. r\<lparr>op_Verification := an_verify a\<rparr>"
  have 2: "work ident ?e2" "onward ident e ?e2"
    using p(1) onward_trans [OF p(2) tick_onward(1)] by simp_all
  have 3: "work ident (update_record ident ?f ?e2)" "onward ident ?e2 (update_record ident ?f ?e2)"
    using work_update [OF 2(1), of ?f] work_record(4) [OF 2(1)] by simp_all
  obtain err e4 where s: "state ident Confirmed [] (update_record ident ?f ?e2) = (err, e4)"
    by fastforce
  note 4 = state_onward [OF 3(1) s]
  have on4: "onward ident e e4"
    using 2(2) 3(2) 4(2) onward_trans by blast
  have g1: "applied ident e (rollbackWorker ident False (settle ident OutcomeUnknown k e1))" for k
    using applied_trans [OF p(2) give_up [OF p(1)]] .
  have g2: "applied ident e (rollbackWorker ident False (settle ident OutcomeUnknown k ?e2))" for k
    using applied_trans [OF 2(2) give_up [OF 2(1)]] .
  have g4: "applied ident e (rollbackWorker ident False e4)" if "err \<noteq> None"
    using applied_trans [OF on4 cannot_save [OF 4(1)]] 4(4) that by simp
  have ok: "applied ident e e4" if "err = None" "vf_RuntimeLoaded (an_verify a)" "vf_ResourcesReady (an_verify a)"
  proof -
    have "store_has (new_digest ident e4) e4"
      using st 4(3) p(3) onward_digests [OF on4] store_has_cong [of e4 e] by simp
    then show ?thesis
      using 4 on4 that facts p(5) by (simp add: applied_def outcome_def settled_def evidence_def Let_def same_facts_def)
  qed
  show ?thesis
    unfolding apply_verify_def ph prod.case Let_def r s using g1 g2 g4 ok by simp
qed

lemma apply_runtime_applied:
  assumes w: "work ident e" "\<not> terminal (status ident e)" and st: "store_has (new_digest ident e) e"
    and facts: "op_StorePersisted (the_record e ident)"
  shows "applied ident e (apply_runtime ident e)"
proof -
  obtain a c e1 where ph: "run_phase ident ''deadline_expired'' (yield_lock ident e) = (a, c, e1)"
    using prod_cases3 by blast
  note p = phase_onward [OF w ph]
  let ?f = "\<lambda>r. r\<lparr>op_RuntimeApplied := True\<rparr>"
  have 2: "work ident (update_record ident ?f e1)" "onward ident e1 (update_record ident ?f e1)"
    using work_update [OF p(1), of ?f] work_record(4) [OF p(1)] by simp_all
  obtain err e3 where s: "state ident Verifying [] (update_record ident ?f e1) = (err, e3)"
    by fastforce
  note 3 = state_onward [OF 2(1) s]
  have on: "onward ident e e3"
    using p(2) 2(2) 3(2) onward_trans by blast
  have n: "\<not> terminal (status ident e3)"
    using 3(4) by simp
  have "store_has (new_digest ident e3) e3"
    using st 3(3) p(3) onward_digests [OF on] store_has_cong [of e3 e] by simp
  then have ok: "applied ident e (apply_verify ident e3)"
    using applied_trans [OF on apply_verify_applied [OF 3(1) n]] facts p(5) 3(5) by (simp add: same_facts_def)
  have g1: "applied ident e (rollbackWorker ident False (settle ident OutcomeUnknown k e1))" for k
    using applied_trans [OF p(2) give_up [OF p(1)]] .
  have g3: "applied ident e (rollbackWorker ident False e3)"
    using applied_trans [OF on cannot_save [OF 3(1) n]] .
  show ?thesis
    unfolding apply_runtime_def ph prod.case Let_def s using g1 g3 ok by simp
qed

lemma apply_store_applied:
  assumes w: "work ident e" "\<not> terminal (status ident e)" and st: "store_has (old_digest ident e) e"
    and d: "Digest desired = new_digest ident e" "readable (mo_MaxBytes (me_opts e)) desired"
  shows "applied ident e (apply_store ident desired e)"
proof -
  obtain err1 e1 where wr: "writeStore desired (op_OldDigest (the_record e ident)) e = (err1, e1)"
    by fastforce
  have "Digest desired \<in> {old_digest ident e, new_digest ident e}"
    using d(1) by simp
  note 1 = writeStore_work [OF w(1) this d(2) wr]
  have n1: "\<not> terminal (status ident e1)"
    using w(2) 1(3) by simp
  have conflict: "applied ident e (settle ident Conflict k e1)" if "err1 = Some ErrConflict" for k
  proof -
    have "store_has (old_digest ident e1) e1"
      using st onward_digests [OF 1(2)] store_has_cong [OF 1(6) [OF that]] by simp
    then have "outcome ident e1 (settle ident Conflict k e1) \<and> status ident (settle ident Conflict k e1) \<noteq> Confirmed"
      using settle_outcome [OF 1(1), of Conflict k] by simp
    then show ?thesis
      using applied_trans [OF 1(2)] applied_other by blast
  qed
  let ?f = "\<lambda>r. r\<lparr>op_StorePersisted := True\<rparr>"
  have 2: "work ident (update_record ident ?f e1)" "onward ident e1 (update_record ident ?f e1)"
    using work_update [OF 1(1), of ?f] work_record(4) [OF 1(1)] by simp_all
  obtain err3 e3 where sv: "save ident (update_record ident ?f e1) = (err3, e3)"
    by fastforce
  have "\<not> terminal (status ident (update_record ident ?f e1))"
    using n1 by simp
  note 3 = save_onward [OF 2(1) this sv]
  let ?e4 = "e3\<lparr>me_tick := Suc (me_tick e3)\<rparr>"
  have on3: "onward ident e e3"
    using 1(2) 2(2) 3(2) onward_trans by blast
  have w4: "work ident ?e4" "onward ident e ?e4" "\<not> terminal (status ident ?e4)" "op_StorePersisted (the_record ?e4 ident)"
    using 3(1,4,6) onward_trans [OF on3 tick_onward(1)] n1 by (simp_all add: same_facts_def)
  have ok: "applied ident e (apply_runtime ident ?e4)" if "err1 = None"
  proof -
    have "store_has (new_digest ident ?e4) ?e4"
      using 1(5) [OF that] d(1) 3(3) onward_digests [OF w4(2)] store_has_cong [of e3 e1] by simp
    then show ?thesis
      using applied_trans [OF w4(2) apply_runtime_applied [OF w4(1,3) _ w4(4)]] by blast
  qed
  have g: "applied ident e (rollbackWorker ident False (settle ident OutcomeUnknown k e1))"
    "applied ident e (rollbackWorker ident False (settle ident OutcomeUnknown k e3))"
    "applied ident e (rollbackWorker ident False (settle ident OutcomeUnknown k ?e4))" for k
    using applied_trans [OF 1(2) give_up [OF 1(1)]] applied_trans [OF on3 give_up [OF 3(1)]]
      applied_trans [OF w4(2) give_up [OF w4(1)]] by blast+
  show ?thesis
    unfolding apply_store_def wr prod.case Let_def sv ask_simp using conflict ok g by auto
qed

lemma applyWorker_applied:
  assumes w: "work ident e" "\<not> terminal (status ident e)" and st: "store_has (old_digest ident e) e"
  shows "applied ident e (applyWorker ident e)"
proof -
  note y = yield_onward [OF w(1)]
  have ny: "\<not> terminal (status ident (yield_lock ident e))"
    using y(4) w(2) by simp
  obtain a c e1 where ph: "run_phase ident ''deadline_expired'' (yield_lock ident (yield_lock ident e)) = (a, c, e1)"
    using prod_cases3 by blast
  note p = phase_onward [OF y(1) ny ph]
  have on1: "onward ident e e1"
    using onward_trans [OF y(2) p(2)] .
  have st1: "me_store e1 = me_store e"
    using p(3) y(3) by simp
  have quit: "applied ident e (settle ident s k e2)" if "s \<in> {Cancelled, Conflict, OutcomeUnknown}" "work ident e2" "onward ident e e2"
      "me_store e2 = me_store e" for s k e2
  proof -
    have "store_has (old_digest ident e2) e2"
      using st onward_digests [OF that(3)] store_has_cong [OF that(4)] by simp
    then have "outcome ident e2 (settle ident s k e2) \<and> status ident (settle ident s k e2) \<noteq> Confirmed"
      using settle_outcome [OF that(2), of s k] that(1) by auto
    then show ?thesis
      using applied_trans [OF that(3)] applied_other by blast
  qed
  obtain snaps e2 where s: "snapshots (the_record e1 ident) e1 = (snaps, e2)"
    by fastforce
  then obtain t where e2: "e2 = e1\<lparr>me_tick := t\<rparr>"
    using snapshots_eq(1) by blast
  have 2: "work ident e2" "onward ident e e2" "me_store e2 = me_store e" "the_record e2 ident = the_record e1 ident"
    using p(1) onward_trans [OF on1 tick_onward(1)] st1 by (simp_all add: e2)
  let ?e3 = "e2\<lparr>me_tick := Suc (me_tick e2)\<rparr>"
  have 3: "work ident ?e3" "onward ident e ?e3" "me_store ?e3 = me_store e" "\<not> terminal (status ident ?e3)"
    using 2(1,3,4) onward_trans [OF 2(2) tick_onward(1)] p(4) by simp_all
  have ok: "applied ident e (apply_store ident new ?e3)" if "snaps = Inr (old, new)" for old new
  proof -
    note sn = snapshots_eq(2) [OF s that]
    have "store_has (old_digest ident ?e3) ?e3"
      using st onward_digests [OF 3(2)] store_has_cong [OF 3(3)] by simp
    moreover have "Digest new = new_digest ident ?e3" "readable (mo_MaxBytes (me_opts ?e3)) new"
      using sn by (simp_all add: new_digest_def e2)
    ultimately show ?thesis
      using applied_trans [OF 3(2) apply_store_applied [OF 3(1,4)]] by blast
  qed
  have q1: "applied ident e (settle ident Cancelled k e1)" "applied ident e (settle ident Conflict k e1)"
      "applied ident e (settle ident OutcomeUnknown k e2)" "applied ident e (settle ident Cancelled k ?e3)" for k
    using quit p(1) on1 st1 2 3 by simp_all
  show ?thesis
  proof (cases snaps)
    case (Inl x)
    show ?thesis
      unfolding applyWorker_def Let_def ph prod.case s Inl sum.case using q1 by simp
  next
    case (Inr on)
    obtain old new where on: "on = (old, new)"
      by fastforce
    show ?thesis
      unfolding applyWorker_def Let_def ph prod.case s Inr on sum.case ask_simp using q1 ok [OF Inr [unfolded on]] by simp
  qed
qed

end
