(* ===== verification/Managed_Calls.thy ===== *)
theory Managed_Calls
  imports Managed_Workers
begin

text \<open>
  Every call of the managed store keeps the invariant of an engine at rest: no worker runs, an active operation is unfinished,
  and the store is synced while nothing is active, and is the old store of an operation that is only prepared.
\<close>

definition at_rest :: "managed_engine \<Rightarrow> bool" where
  "at_rest e \<longleftrightarrow> Inv {} e \<and> \<not> me_running e \<and> (me_active e \<noteq> [] \<longrightarrow> \<not> terminal (status (me_active e) e)) \<and>
    (me_active e = [] \<longrightarrow> (\<exists>s. me_store e = durable s)) \<and>
    (me_active e \<noteq> [] \<and> status (me_active e) e = Prepared \<longrightarrow> store_has (old_digest (me_active e) e) e)"

lemma at_rest_frame [simp]:
  "at_rest (e\<lparr>me_tick := t\<rparr>) = at_rest e" "at_rest (e\<lparr>me_released := b\<rparr>) = at_rest e" "at_rest (e\<lparr>me_closing := b\<rparr>) = at_rest e"
  "at_rest (e\<lparr>me_attached := b\<rparr>) = at_rest e" "at_rest (e\<lparr>me_abortCode := c\<rparr>) = at_rest e"
  by (simp_all add: at_rest_def store_has_def old_digest_def)

lemma rest_memory: "at_rest e \<Longrightarrow> memory_ok e"
  by (simp add: at_rest_def Inv_def)

lemma rest_nonterminal:
  assumes "at_rest e" "gm_get (me_records e) ident = Some r" "\<not> terminal (op_State r)"
  shows "me_active e = ident" "ident \<noteq> []" "\<not> expired r" "the_record e ident = r"
proof -
  have m: "memory_ok e"
    using assms(1) by (rule rest_memory)
  note r = memory_record [OF m assms(2)]
  show a: "me_active e = ident" "ident \<noteq> []" "the_record e ident = r"
    using r(4,5,6) assms(3) by blast+
  then show "\<not> expired r"
    using m assms(2) unfolding memory_ok_def by auto
qed

lemma materials_snaps:
  assumes "Inv X e" "gm_get (me_records e) ident = Some r" "\<not> expired r"
    "op_State r \<notin> {OutcomeUnknown, RollbackFailed} \<or> mr_NeedsRuntime r \<or> journal (pd_now (me_ops e)) ident \<noteq> None"
  shows "snaps_ok (of_snapshots (pd_now (me_ops e))) r"
proof -
  have "snaps_ok (of_snapshots (pd_now (me_ops e))) r \<or>
    op_State r \<in> {OutcomeUnknown, RollbackFailed} \<and> \<not> mr_NeedsRuntime r \<and> (\<forall>fs\<in>set (versions (me_ops e)). journal fs ident = None)"
    using assms(1-3) unfolding Inv_def materials_def by blast
  moreover have "pd_now (me_ops e) \<in> set (versions (me_ops e))"
    by simp
  ultimately show ?thesis
    using assms(4) by auto
qed

section \<open>A change of state at rest\<close>

lemma rest_state:
  assumes rest: "at_rest e" and act: "me_active e = ident" and r: "gm_get (me_records e) ident = Some r"
    and snaps: "snaps_ok (of_snapshots (pd_now (me_ops e))) r" and st: "st \<noteq> Prepared" "terminal st \<Longrightarrow> \<exists>s. me_store e = durable s"
    and run: "state ident st code e = (err, e')"
  shows "at_rest e' \<and> me_store e' = me_store e \<and> onward ident e e' \<and> status ident e' = (if err = None then st else OutcomeUnknown) \<and>
    me_active e' = (if err = None \<and> terminal st then [] else ident) \<and>
    of_snapshots (pd_now (me_ops e')) = of_snapshots (pd_now (me_ops e)) \<and> still e e'"
proof -
  have inv: "Inv {ident} e" "\<not> me_running e"
    using rest Inv_weaken [of "{}" e "{ident}"] by (simp_all add: at_rest_def)
  from state_Inv [OF inv(1) act r snaps run] obtain r' where r': "same_facts r r'" "op_State r' = (if err = None then st else OutcomeUnknown)"
    "only_record ident r' e e'" "Inv {} e'" "still e e'" "of_snapshots (pd_now (me_ops e')) = of_snapshots (pd_now (me_ops e))"
    "me_active e' = (if err = None \<and> terminal st \<and> \<not> me_running e then [] else ident)"
    by blast
  have rec: "the_record e ident = r"
    using r by (simp add: the_record_def)
  have "ident \<noteq> []"
    using memory_record(4) [OF rest_memory [OF rest] r] .
  then have "at_rest e'"
    using r' inv(2) st only_record_the [OF r'(3)] by (auto simp: at_rest_def still_def)
  moreover have "onward ident e e'"
    using onwardI [OF r'(3) still_kept [OF r'(5)]] rec r'(1) by (simp add: same_facts_def)
  ultimately show ?thesis
    using r' inv(2) only_record_the [OF r'(3)] by (simp add: still_def)
qed

lemma rest_settle:
  assumes "at_rest e" "me_active e = ident" "gm_get (me_records e) ident = Some r"
    "snaps_ok (of_snapshots (pd_now (me_ops e))) r" "st \<noteq> Prepared" "terminal st \<Longrightarrow> \<exists>s. me_store e = durable s"
  shows "at_rest (settle ident st code e) \<and> me_store (settle ident st code e) = me_store e"
proof -
  obtain err e' where "state ident st code e = (err, e')"
    by fastforce
  with rest_state [OF assms this] show ?thesis
    by (simp add: settle_def)
qed

lemma rest_prepared:
  assumes rest: "at_rest e" and r: "gm_get (me_records e) ident = Some r" "op_State r = Prepared"
  shows "me_active e = ident" "snaps_ok (of_snapshots (pd_now (me_ops e))) r" "store_has (op_OldDigest r) e" "ident \<noteq> []"
    "the_record e ident = r"
proof -
  note n = rest_nonterminal [OF rest r(1)]
  show a: "me_active e = ident" "ident \<noteq> []" "the_record e ident = r"
    using n r(2) by simp_all
  show "snaps_ok (of_snapshots (pd_now (me_ops e))) r"
    by (rule materials_snaps [where X = "{}", OF _ r(1)]) (use rest n r(2) in \<open>simp_all add: at_rest_def\<close>)
  show "store_has (op_OldDigest r) e"
    using rest a r(2) by (auto simp: at_rest_def old_digest_def)
qed

lemma expirePrepared_rest:
  assumes "at_rest e" "gm_get (me_records e) ident = Some r"
  shows "at_rest (expirePrepared ident e)"
proof (cases "op_State r = Prepared")
  case True
  note p = rest_prepared [OF assms True]
  show ?thesis
    using rest_settle [OF assms(1) p(1) assms(2) p(2)] p(3) assms(1) by (auto simp: expirePrepared_def store_has_def)
next
  case False
  then show ?thesis
    using assms by (simp add: expirePrepared_def the_record_def)
qed

lemma begin_close_rest:
  assumes "at_rest e"
  shows "at_rest (begin_close e)"
proof -
  let ?e = "e\<lparr>me_closing := True\<rparr>"
  have rest: "at_rest ?e" "\<not> me_running e"
    using assms by (simp, simp add: at_rest_def)
  have "at_rest (settle (me_active e) Cancelled ''cancelled_before_apply'' ?e)"
    if a: "me_active e \<noteq> []" "status (me_active e) e = Prepared"
  proof -
    obtain r where r: "gm_get (me_records ?e) (me_active e) = Some r"
      using rest_memory [OF assms] a(1) by (auto simp: memory_ok_def)
    have s: "op_State r = Prepared"
      using a(2) r by (simp add: the_record_def)
    note p = rest_prepared [OF rest(1) r s]
    show ?thesis
      using rest_settle [OF rest(1) p(1) r p(2)] p(3) by (auto simp: store_has_def)
  qed
  then show ?thesis
    using assms rest by (auto simp: begin_close_def Let_def)
qed

lemma Close_rest: "at_rest e \<Longrightarrow> Close e = (err, e') \<Longrightarrow> at_rest e'"
  using begin_close_rest by (auto simp: Close_def Let_def)

section \<open>Around a worker\<close>

lemma work_done_rest:
  assumes "outcome ident e0 e"
  shows "at_rest (work_done ident e)"
proof -
  have w: "work ident e" and s: "settled ident e"
    using assms by (simp_all add: outcome_def)
  note y = yield_onward [OF w]
  let ?e = "yield_lock ident e"
  have d: "drift ident e ?e"
    using yield_work [OF w] by simp
  have np: "status ident ?e \<noteq> Prepared"
    using s d only_record_the unfolding settled_def drift_def by fastforce
  have sync: "\<exists>s. me_store ?e = durable s" if "terminal (status ident ?e)"
  proof -
    have "terminal (status ident e)"
      using y(4) that by simp
    then show ?thesis
      using s y(3) by (auto simp: settled_def store_has_def split: if_splits)
  qed
  have inv: "Inv {} (?e\<lparr>me_running := False\<rparr>)" "me_active ?e = ident" "ident \<noteq> []"
    using y(1) by (simp_all add: work_def)
  have idle: "Inv {} (?e\<lparr>me_running := False, me_active := []\<rparr>)" if "terminal (status ident ?e)"
    by (rule Inv_idle [OF inv(1)]) (use that inv(2) in simp)
  let ?e2 = "if terminal (status ident ?e) then ?e\<lparr>me_running := False, me_active := []\<rparr> else ?e\<lparr>me_running := False\<rparr>"
  have "at_rest ?e2"
    using inv idle np sync by (simp add: at_rest_def)
  moreover have "work_done ident e = ?e2 \<or> work_done ident e = ?e2\<lparr>me_released := True\<rparr>"
    by (simp add: work_done_def Let_def)
  ultimately show ?thesis
    by auto
qed

lemma launch_work:
  assumes "at_rest e" "me_active e = ident" "gm_get (me_records e) ident = Some r" "ident \<noteq> []"
    "snaps_ok (of_snapshots (pd_now (me_ops e))) r"
  shows "work ident (launch ident e)" "onward ident e (launch ident e)" "me_store (launch ident e) = me_store e"
    "the_record (launch ident e) ident = r" "me_opts (launch ident e) = me_opts e"
proof -
  have "e\<lparr>me_active := ident\<rparr> = e"
    using assms(2) by auto
  then have "launch ident e = e\<lparr>me_running := True, me_abortCode := [], me_restoring := False\<rparr>"
    using assms(2) by (simp add: launch_def)
  then show "work ident (launch ident e)" "onward ident e (launch ident e)" "me_store (launch ident e) = me_store e"
    "the_record (launch ident e) ident = r" "me_opts (launch ident e) = me_opts e"
    using assms by (simp_all add: work_def at_rest_def onward_def kept_def the_record_def)
qed

lemma seen_snd [simp]: "snd (seen ident err e) = e" "snd (refused x e) = e" "snd (wait_done ident err e) = e"
  by (simp_all add: seen_def refused_def wait_done_def)

lemma AttachRuntime_rest:
  assumes rest: "at_rest e" and run: "AttachRuntime complete e = (err, e')"
  shows "at_rest e'"
proof (cases "complete \<and> \<not> me_closing e \<and> \<not> me_attached e \<and> me_active e \<noteq> [] \<and> mr_NeedsRuntime (the_record e (me_active e))")
  case True
  let ?e = "e\<lparr>me_attached := True\<rparr>"
  let ?i = "me_active e"
  obtain r where r: "gm_get (me_records ?e) ?i = Some r" "\<not> expired r"
    using rest_memory [OF rest] True by (auto simp: memory_ok_def)
  have rec: "the_record e ?i = r"
    using r(1) by (simp add: the_record_def)
  have "snaps_ok (of_snapshots (pd_now (me_ops ?e))) r"
    by (rule materials_snaps [where X = "{}", OF _ r(1,2)]) (use rest True rec in \<open>simp_all add: at_rest_def\<close>)
  moreover have "at_rest ?e" "me_active ?e = ?i"
    using rest by simp_all
  ultimately have l: "work ?i (launch ?i ?e)" "the_record (launch ?i ?e) ?i = r"
    using launch_work [of ?e ?i r] r(1) True by simp_all
  have "\<not> terminal (status ?i (launch ?i ?e))"
    using l(2) rec rest True by (simp add: at_rest_def)
  then have "at_rest (work_done ?i (rollbackWorker ?i True (launch ?i ?e)))"
    using rollbackWorker_outcome [OF l(1)] work_done_rest by blast
  then show ?thesis
    using run True by (auto simp: AttachRuntime_def Let_def)
next
  case False
  then show ?thesis
    using run rest by (auto simp: AttachRuntime_def Let_def split: if_splits)
qed

section \<open>Applying\<close>

text \<open>What a prepared operation has become.\<close>

definition concluded :: "string \<Rightarrow> managed_engine \<Rightarrow> managed_engine \<Rightarrow> bool" where
  "concluded ident e e' \<longleftrightarrow> at_rest e' \<and> onward ident e e' \<and> evidence ident e' \<and>
    (terminal (status ident e') \<longrightarrow> store_has (if status ident e' = Confirmed then new_digest ident e' else old_digest ident e') e')"

lemma work_done_store:
  assumes "applied ident e0 e"
  shows "concluded ident e0 (work_done ident e)"
proof -
  have o: "outcome ident e0 e" and ev: "evidence ident e"
    using assms by (simp_all add: applied_def)
  then have w: "work ident e" and s: "settled ident e"
    by (simp_all add: outcome_def)
  note y = yield_onward [OF w]
  let ?e = "yield_lock ident e"
  have same: "the_record (work_done ident e) ident = the_record ?e ident" "me_store (work_done ident e) = me_store ?e"
      "onward ident ?e (work_done ident e)"
    by (simp_all add: work_done_def Let_def onward_def kept_def)
  have on: "onward ident e0 (work_done ident e)"
    using o y(2) same(3) onward_trans unfolding outcome_def by blast
  have t: "terminal (status ident ?e) \<Longrightarrow> status ident ?e = status ident e"
    using y(4,6) by simp
  have "evidence ident (work_done ident e)"
    using ev same(1) t y(5) by (auto simp: evidence_def Let_def same_facts_def)
  moreover have "store_has (if status ident (work_done ident e) = Confirmed then new_digest ident (work_done ident e)
      else old_digest ident (work_done ident e)) (work_done ident e)" if "terminal (status ident (work_done ident e))"
  proof -
    have "onward ident e (work_done ident e)"
      using onward_trans [OF y(2) same(3)] .
    note d = onward_digests [OF this]
    have "status ident (work_done ident e) = status ident e"
      using that same(1) t by simp
    then show ?thesis
      using s that d same(2) y(3) store_has_cong [of "work_done ident e" e] by (simp add: settled_def split: if_splits)
  qed
  ultimately show ?thesis
    using work_done_rest [OF o] on by (simp add: concluded_def)
qed

lemma concluded_same:
  assumes "at_rest e" "me_store e' = me_store e" "at_rest e'" "onward ident e e'"
    "terminal (status ident e') \<Longrightarrow> status ident e' \<noteq> Confirmed \<and> store_has (old_digest ident e) e"
    "status ident e' \<noteq> Confirmed"
  shows "concluded ident e e'"
  using assms onward_digests [OF assms(4)] store_has_cong [OF assms(2)] by (auto simp: concluded_def evidence_def Let_def)

lemma Apply_prepared:
  assumes rest: "at_rest e" and r: "gm_get (me_records e) ident = Some r" "op_State r = Prepared"
    and run: "Apply ctx ident e = (res, e')"
  shows "concluded ident e e'"
proof -
  note p = rest_prepared [OF rest r]
  note n = rest_nonterminal [OF rest r(1)]
  have live: "op_MaterialsState r \<noteq> MaterialsExpired"
    using n(3) r(2) by (simp add: expired_def)
  have run0: "\<not> me_running e" and st: "store_has (old_digest ident e) e" and notc: "\<not> terminal (status ident e)" "status ident e \<noteq> Confirmed"
    using rest p(3,5) r(2) by (simp_all add: at_rest_def old_digest_def)
  let ?e1 = "e\<lparr>me_tick := Suc (me_tick e)\<rparr>"
  let ?e2 = "?e1\<lparr>me_tick := Suc (me_tick ?e1)\<rparr>"
  obtain cur where rd: "readStore ?e1 = (cur, ?e2)"
    using readStore_eq(1) by blast
  have stay: "concluded ident e e"
    using rest notc by (intro concluded_same) simp_all
  have change: "at_rest ex \<and> me_store ex = me_store e \<and> onward ident e ex \<and> status ident ex = (if err = None then st else OutcomeUnknown) \<and>
      (st = Applying \<and> err = None \<longrightarrow> me_active ex = ident \<and> of_snapshots (pd_now (me_ops ex)) = of_snapshots (pd_now (me_ops e)))"
    if "state ident st code (e\<lparr>me_tick := t\<rparr>) = (err, ex)" "st \<in> {Cancelled, Conflict, Applying}" for st code t err ex
  proof -
    have "at_rest (e\<lparr>me_tick := t\<rparr>)"
      using rest by simp
    moreover have "\<exists>s. me_store (e\<lparr>me_tick := t\<rparr>) = durable s"
      using st by (auto simp: store_has_def)
    ultimately have "at_rest ex \<and> me_store ex = me_store (e\<lparr>me_tick := t\<rparr>) \<and> onward ident (e\<lparr>me_tick := t\<rparr>) ex \<and>
        status ident ex = (if err = None then st else OutcomeUnknown) \<and>
        me_active ex = (if err = None \<and> terminal st then [] else ident) \<and>
        of_snapshots (pd_now (me_ops ex)) = of_snapshots (pd_now (me_ops (e\<lparr>me_tick := t\<rparr>))) \<and> still (e\<lparr>me_tick := t\<rparr>) ex"
      by (intro rest_state [OF _ _ _ _ _ _ that(1), where r = r]) (use p r(1) that(2) in auto)
    then show ?thesis
      using onward_trans [OF tick_onward(1) [of ident e t]] by auto
  qed
  have ended: "concluded ident e ex" if "state ident st code (e\<lparr>me_tick := t\<rparr>) = (err, ex)" "st \<in> {Cancelled, Conflict}" for st code t err ex
    using change [OF that(1)] that(2) rest st by (intro concluded_same) (auto split: if_splits)
  obtain erra ea where sa: "state ident Cancelled ''deadline_expired'' ?e1 = (erra, ea)"
    by fastforce
  obtain errb eb where sb: "state ident Conflict ''store_drift'' ?e2 = (errb, eb)"
    by fastforce
  obtain errc ec where sc: "state ident Applying [] ?e2 = (errc, ec)"
    by fastforce
  have eq2: "?e2 = e\<lparr>me_tick := Suc (Suc (me_tick e))\<rparr>"
    by simp
  have a: "concluded ident e ea"
    using ended [OF sa] by simp
  have b: "concluded ident e eb"
    using ended [OF sb [unfolded eq2]] by simp
  note c = change [OF sc [unfolded eq2]]
  have c1: "concluded ident e ec" if "errc \<noteq> None"
    using c that rest by (intro concluded_same) (auto split: if_splits)
  have c2: "concluded ident e (work_done ident (applyWorker ident (launch ident ec)))" if "errc = None"
  proof -
    have ec: "at_rest ec" "me_store ec = me_store e" "onward ident e ec" "status ident ec = Applying" "me_active ec = ident"
        "of_snapshots (pd_now (me_ops ec)) = of_snapshots (pd_now (me_ops e))"
      using c that by simp_all
    obtain rc where rc: "gm_get (me_records ec) ident = Some rc"
      using rest_memory [OF ec(1)] ec(5) p(4) by (auto simp: memory_ok_def)
    have rec: "the_record ec ident = rc"
      using rc by (simp add: the_record_def)
    have "same_operation r rc"
      using ec(3) p(5) rec by (simp add: onward_def)
    then have "snaps_ok (of_snapshots (pd_now (me_ops ec))) rc"
      using p(2) ec(6) snaps_ok_same by simp
    note l = launch_work [OF ec(1,5) rc p(4) this]
    have "\<not> terminal (status ident (launch ident ec))"
      using l(4) rec ec(4) by simp
    moreover have "store_has (old_digest ident (launch ident ec)) (launch ident ec)"
      using st onward_digests [OF ec(3)] onward_digests [OF l(2)] store_has_cong [of "launch ident ec" e] l(3) ec(2) by simp
    ultimately have "applied ident (launch ident ec) (applyWorker ident (launch ident ec))"
      using applyWorker_applied [OF l(1)] by blast
    then have "applied ident e (applyWorker ident (launch ident ec))"
      by (rule applied_trans [OF onward_trans [OF ec(3) l(2)]])
    then show ?thesis
      by (rule work_done_store)
  qed
  have "e' \<in> {e, ea, eb} \<or> errc \<noteq> None \<and> e' = ec \<or> errc = None \<and> e' = work_done ident (applyWorker ident (launch ident ec))"
    using run live run0 r sa sb sc rd
    by (auto simp: Apply_def refused_def seen_def wait_done_def settle_def split: if_splits option.splits)
  then show ?thesis
    using stay a b c1 c2 by auto
qed

lemma Apply_other:
  assumes "\<And>r. gm_get (me_records e) ident = Some r \<Longrightarrow> op_State r \<noteq> Prepared" "Apply ctx ident e = (res, e')"
  shows "e' = e"
  using assms by (auto simp: Apply_def refused_def seen_def wait_done_def split: if_splits option.splits)

lemma Apply_rest:
  assumes "at_rest e" "Apply ctx ident e = (res, e')"
  shows "at_rest e'"
proof (cases "\<exists>r. gm_get (me_records e) ident = Some r \<and> op_State r = Prepared")
  case True
  then show ?thesis
    using Apply_prepared [OF assms(1) _ _ assms(2)] by (auto simp: concluded_def)
next
  case False
  then have "e' = e"
    using Apply_other [OF _ assms(2)] by blast
  then show ?thesis
    using assms(1) by simp
qed

section \<open>Rolling back\<close>

lemma Inv_activate:
  assumes inv: "Inv {} e" and act: "me_active e = []" and r: "gm_get (me_records e) ident = Some r" "\<not> expired r"
    and st: "store_has (op_NewDigest r) e"
  shows "Inv {} (e\<lparr>me_active := ident\<rparr>)"
proof -
  have m: "memory_ok e"
    using inv by (simp add: Inv_def)
  note mr = memory_record [OF m r(1)]
  have "memory_ok (e\<lparr>me_active := ident\<rparr>)"
    using m memory_record(4,5) [OF m] r act unfolding memory_ok_def by auto
  moreover have "store_ok (e\<lparr>me_active := ident\<rparr>)"
    using inv st mr(6) by (auto simp: Inv_def store_ok_def store_has_def)
  moreover have "fits (e\<lparr>me_active := ident\<rparr>) fs" if f: "fits e fs" for fs
    unfolding fits_def
  proof (intro conjI allI impI)
    fix n g assume g: "gm_get (of_journals fs) n = Some g"
    have "\<exists>q required. decodeManagedRecord g n = Some (q, required) \<and> mr_Version q = 2 \<and> (required \<longrightarrow> snaps_ok (of_snapshots fs) q) \<and>
        (\<not> terminal (op_State q) \<longrightarrow> op_ID q = me_active e) \<and> (\<exists>r'. gm_get (me_records e) (op_ID q) = Some r' \<and> same_operation q r')"
      using f g unfolding fits_def by blast
    then obtain q required where q: "decodeManagedRecord g n = Some (q, required)" "mr_Version q = 2" "required \<longrightarrow> snaps_ok (of_snapshots fs) q"
        "\<not> terminal (op_State q) \<longrightarrow> op_ID q = me_active e" "\<exists>r'. gm_get (me_records e) (op_ID q) = Some r' \<and> same_operation q r'"
      by blast
    have "terminal (op_State q)"
      using q(4,5) act memory_record(4) [OF m] by fastforce
    with q show "\<exists>q required. decodeManagedRecord g n = Some (q, required) \<and> mr_Version q = 2 \<and> (required \<longrightarrow> snaps_ok (of_snapshots fs) q) \<and>
        (\<not> terminal (op_State q) \<longrightarrow> op_ID q = me_active (e\<lparr>me_active := ident\<rparr>)) \<and>
        (\<exists>r'. gm_get (me_records (e\<lparr>me_active := ident\<rparr>)) (op_ID q) = Some r' \<and> same_operation q r')"
      by (intro exI [of _ q] exI [of _ required]) simp
  qed (use f in \<open>simp_all add: fits_def\<close>)
  ultimately show ?thesis
    using inv by (simp add: Inv_def)
qed

text \<open>What a rollback has led to.\<close>

definition undone :: "string \<Rightarrow> managed_engine \<Rightarrow> managed_engine \<Rightarrow> bool" where
  "undone ident e e' \<longleftrightarrow> at_rest e' \<and> onward ident e e' \<and>
    (status ident e' \<in> {RolledBack, Cancelled} \<and> status ident e \<notin> {RolledBack, Cancelled, Conflict} \<longrightarrow>
      store_has (old_digest ident e') e')"

lemma undone_refl: "at_rest e \<Longrightarrow> undone ident e e"
  by (auto simp: undone_def)

lemma work_done_undone:
  assumes "outcome ident e0 e" "onward ident e1 e0"
  shows "undone ident e1 (work_done ident e)"
proof -
  have w: "work ident e" and s: "settled ident e"
    using assms by (simp_all add: outcome_def)
  note y = yield_onward [OF w]
  let ?e = "yield_lock ident e"
  have same: "the_record (work_done ident e) ident = the_record ?e ident" "me_store (work_done ident e) = me_store ?e"
      "onward ident ?e (work_done ident e)"
    by (simp_all add: work_done_def Let_def onward_def kept_def)
  have on: "onward ident e (work_done ident e)"
    using onward_trans [OF y(2) same(3)] .
  have "store_has (old_digest ident (work_done ident e)) (work_done ident e)" if "status ident (work_done ident e) \<in> {RolledBack, Cancelled}"
  proof -
    have "terminal (status ident ?e)"
      using that same(1) by auto
    then have "status ident ?e = status ident e" "terminal (status ident e)"
      using y(4,6) by simp_all
    then show ?thesis
      using s that same(1,2) y(3) onward_digests [OF on] store_has_cong [of "work_done ident e" e] by (auto simp: settled_def split: if_splits)
  qed
  moreover have "onward ident e1 (work_done ident e)"
    using assms on onward_trans unfolding outcome_def by blast
  ultimately show ?thesis
    using work_done_rest [OF assms(1)] by (simp add: undone_def)
qed

lemma rollback_unfinished_undone:
  assumes rest: "at_rest e" and r: "gm_get (me_records e) ident = Some r" "\<not> terminal (op_State r)"
    and snaps: "snaps_ok (of_snapshots (pd_now (me_ops e))) r" and run: "rollback_unfinished ident e = (res, e')"
  shows "undone ident e e'"
proof -
  note n = rest_nonterminal [OF rest r]
  obtain err e1 where s: "state ident RollingBack ''rollback_requested'' e = (err, e1)"
    by fastforce
  have 1: "at_rest e1 \<and> me_store e1 = me_store e \<and> onward ident e e1 \<and> status ident e1 = (if err = None then RollingBack else OutcomeUnknown) \<and>
      me_active e1 = (if err = None \<and> terminal RollingBack then [] else ident) \<and>
      of_snapshots (pd_now (me_ops e1)) = of_snapshots (pd_now (me_ops e)) \<and> still e e1"
    by (rule rest_state [OF rest n(1) r(1) snaps _ _ s]) simp_all
  obtain r1 where r1: "gm_get (me_records e1) ident = Some r1"
    using rest_memory [of e1] 1 n(2) by (auto simp: memory_ok_def)
  have rec: "the_record e1 ident = r1"
    using r1 by (simp add: the_record_def)
  have "same_operation r r1"
    using 1 n(4) rec by (simp add: onward_def)
  then have sn1: "snaps_ok (of_snapshots (pd_now (me_ops e1))) r1"
    using snaps 1 snaps_ok_same by simp
  have act1: "at_rest e1" "me_active e1 = ident"
    using 1 by simp_all
  note l = launch_work [OF act1 r1 n(2) sn1]
  have "\<not> terminal (status ident (launch ident e1))"
    using l(4) rec 1 by auto
  from rollbackWorker_outcome [OF l(1) this] have w: "undone ident e (work_done ident (rollbackWorker ident False (launch ident e1)))"
    using 1 onward_trans [OF _ l(2)] by (intro work_done_undone [of ident "launch ident e1"]) simp_all
  have u1: "undone ident e e1"
    using 1 by (auto simp: undone_def)
  have "e' \<in> {e, e1, work_done ident (rollbackWorker ident False (launch ident e1))}"
    using run s by (auto simp: rollback_unfinished_def seen_def wait_done_def split: if_splits)
  then show ?thesis
    using w u1 undone_refl [OF rest] by auto
qed

lemma rollback_confirmed_undone:
  assumes rest: "at_rest e" and r: "gm_get (me_records e) ident = Some r" "op_State r = Confirmed" "\<not> expired r"
    and act: "me_active e = []" and run: "rollback_confirmed ident e = (res, e')"
  shows "undone ident e e'"
proof -
  have m: "memory_ok e"
    using rest by (rule rest_memory)
  note mr = memory_record [OF m r(1)]
  let ?e1 = "e\<lparr>me_tick := Suc (me_tick e)\<rparr>"
  obtain cur where rd: "readStore e = (cur, ?e1)"
    using readStore_eq(1) by blast
  obtain snaps e2 where sn: "snapshots (the_record e ident) ?e1 = (snaps, e2)"
    by fastforce
  then obtain t where e2: "e2 = e\<lparr>me_tick := t\<rparr>"
    using snapshots_eq(1) by fastforce
  let ?l = "(launch ident e2)\<lparr>me_restoring := True\<rparr>"
  obtain err e3 where rb: "rollbackConfirmed (operation_of (the_record e ident)) ?l = (err, e3)"
    by fastforce
  have "undone ident e (work_done ident e3)" if c: "cur = Inr c" "Digest c = op_NewDigest r" and s: "snaps = Inr x" for c x
  proof -
    have "c = pd_now (me_store e)"
      using readStore_eq(2) [of e c] rd c(1) by simp
    moreover obtain s0 where "me_store e = durable s0"
      using rest act by (auto simp: at_rest_def)
    ultimately have st: "store_has (op_NewDigest r) e"
      using c(2) by (auto simp: store_has_def)
    obtain old n where "x = (old, n)"
      by fastforce
    with snapshots_eq(2) [OF sn] s have "snaps_ok (of_snapshots (pd_now (me_ops ?e1))) r"
      using mr(6) by blast
    then have snok: "snaps_ok (of_snapshots (pd_now (me_ops e))) r"
      by simp
    have "Inv {} (e\<lparr>me_active := ident\<rparr>)"
      by (rule Inv_activate [OF _ act r(1,3) st]) (use rest in \<open>simp add: at_rest_def\<close>)
    then have "Inv {} ((e\<lparr>me_active := ident\<rparr>)\<lparr>me_running := True, me_abortCode := [], me_restoring := True, me_tick := t\<rparr>)"
      by simp
    moreover have "?l = (e\<lparr>me_active := ident\<rparr>)\<lparr>me_running := True, me_abortCode := [], me_restoring := True, me_tick := t\<rparr>"
      by (simp add: e2 launch_def)
    ultimately have "Inv {} ?l"
      by simp
    then have w: "work ident ?l"
      using snok mr(4,6) by (simp add: work_def launch_def e2 the_record_def)
    have l: "the_record ?l ident = the_record e ident" "store_has (new_digest ident ?l) ?l" "onward ident e ?l"
      using mr(6) st by (simp_all add: launch_def e2 the_record_def new_digest_def store_has_def onward_def kept_def)
    have "status ident ?l = Confirmed"
      using l(1) mr(6) r(2) by simp
    from rollbackConfirmed_outcome [OF w this l(2)] rb l(1) have "outcome ident ?l e3"
      by simp
    then show ?thesis
      using l(3) by (rule work_done_undone)
  qed
  moreover have "undone ident e e2" "undone ident e ?e1"
    using rest by (auto simp: undone_def e2)
  moreover have "e' \<in> {e, ?e1, e2} \<or> (\<exists>c x. cur = Inr c \<and> Digest c = op_NewDigest r \<and> snaps = Inr x \<and> e' = work_done ident e3)"
    using run rd sn rb mr(6) by (auto simp: rollback_confirmed_def Let_def seen_def wait_done_def split: if_splits sum.splits)
  ultimately show ?thesis
    using undone_refl [OF rest] by auto
qed

lemma mark_rest:
  assumes rest: "at_rest e" and r: "gm_get (me_records e) ident = Some r" "\<not> terminal (op_State r)"
    and s: "st \<in> {RollbackFailed, OutcomeUnknown}"
  shows "at_rest (mark ident st code e) \<and> onward ident e (mark ident st code e) \<and> status ident (mark ident st code e) = st"
proof -
  note n = rest_nonterminal [OF rest r]
  let ?f = "\<lambda>r. r\<lparr>op_State := st, op_ErrorCode := code\<rparr>"
  have sd: "same_operation r (?f r)" "sound (?f r)"
    using memory_record(2) [OF rest_memory [OF rest] r(1)] n(3) by (auto simp: same_operation_def)
  have "Inv {} (update_record ident ?f e)"
    by (rule Inv_update [where f = ?f and r = r, OF _ r(1) sd]) (use rest n s in \<open>auto simp: at_rest_def\<close>)
  then show ?thesis
    using rest n s sd(1) by (auto simp: mark_def at_rest_def onward_def kept_def)
qed

lemma rollback_started_undone:
  assumes rest: "at_rest e" and r: "gm_get (me_records e) ident = Some r" "\<not> expired r"
    and st: "op_State r \<notin> {Prepared, RolledBack, Cancelled, Conflict}" and run: "rollback_started ident e = (res, e')"
  shows "undone ident e e'"
proof -
  have rec: "the_record e ident = r"
    using r(1) by (simp add: the_record_def)
  consider (busy) "me_active e \<noteq> []" "me_active e \<noteq> ident" | (confirmed) "me_active e = [] \<or> me_active e = ident" "op_State r = Confirmed"
    | (unfinished) "me_active e = [] \<or> me_active e = ident" "\<not> terminal (op_State r)"
    using st by (cases "op_State r") auto
  then show ?thesis
  proof cases
    case busy
    then have "e' = e"
      using run by (simp add: rollback_started_def seen_def)
    then show ?thesis
      using undone_refl [OF rest] by simp
  next
    case confirmed
    then have "me_active e = []"
      using rest rec by (auto simp: at_rest_def)
    moreover have "rollback_confirmed ident e = (res, e')"
      using run confirmed rec by (auto simp: rollback_started_def)
    ultimately show ?thesis
      using rollback_confirmed_undone [OF rest r(1) confirmed(2) r(2)] by blast
  next
    case unfinished
    note n = rest_nonterminal [OF rest r(1) unfinished(2)]
    obtain snaps e1 where sn: "snapshots (the_record e ident) e = (snaps, e1)"
      by fastforce
    then obtain t where e1: "e1 = e\<lparr>me_tick := t\<rparr>"
      using snapshots_eq(1) by blast
    let ?e2 = "e1\<lparr>me_tick := Suc (me_tick e1)\<rparr>"
    obtain j where pj: "probe_journal ident e1 = (j, ?e2)"
      using probe_eq(1) by blast
    have "fair (me_env e1)"
      using rest_memory [OF rest] by (simp add: e1 memory_ok_def)
    then have j: "j = Inr (journal (pd_now (me_ops e)) ident \<noteq> None)"
      using probe_eq(2) [of e1 ident] pj by (simp add: e1)
    have r1: "at_rest e1" "at_rest ?e2" "gm_get (me_records e1) ident = Some r" "gm_get (me_records ?e2) ident = Some r"
      using rest r(1) by (simp_all add: e1)
    have on: "onward ident e e1" "onward ident e ?e2"
      by (simp_all add: e1)
    have chain: "undone ident e ex" if "undone ident ea ex" "onward ident e ea" "status ident ea = status ident e" for ea ex
    proof -
      have "onward ident e ex"
        using that(1,2) onward_trans [of ident e ea ex] by (simp add: undone_def)
      then show ?thesis
        using that(1,3) by (simp add: undone_def)
    qed
    have c: "op_State r \<noteq> Confirmed"
      using unfinished(2) by auto
    have run1: "(res, e') = (case snaps of Inr _ \<Rightarrow> rollback_unfinished ident e1
      | Inl _ \<Rightarrow> if j = Inr False then seen ident (Some ErrOutcomeUnknown) (mark ident RollbackFailed ''snapshot_invalid'' ?e2)
          else rollback_unfinished ident ?e2)"
      using run n(1) rec c sn pj by (auto simp: rollback_started_def split: sum.splits if_splits)
    have start: "undone ident ea ex" if "rollback_unfinished ident ea = (res, ex)" "ea \<in> {e1, ?e2}" "snaps_ok (of_snapshots (pd_now (me_ops e))) r" for ea ex
    proof -
      have "at_rest ea" "gm_get (me_records ea) ident = Some r" "snaps_ok (of_snapshots (pd_now (me_ops ea))) r"
        using r1 that(2,3) by (auto simp: e1)
      from rollback_unfinished_undone [OF this(1,2) unfinished(2) this(3) that(1)] show ?thesis .
    qed
    show ?thesis
    proof (cases snaps)
      case (Inr x)
      obtain old new where "x = (old, new)"
        by fastforce
      with snapshots_eq(2) [OF sn] Inr rec have snok: "snaps_ok (of_snapshots (pd_now (me_ops e))) r"
        by blast
      have u: "rollback_unfinished ident e1 = (res, e')"
        using run1 unfolding Inr by simp
      have "undone ident e1 e'"
        by (rule start [OF u _ snok]) simp
      then show ?thesis
        using on(1) by (rule chain) (simp add: e1)
    next
      case (Inl x)
      show ?thesis
      proof (cases "journal (pd_now (me_ops e)) ident = None")
        case True
        then have "e' = mark ident RollbackFailed ''snapshot_invalid'' ?e2"
          using run1 j unfolding Inl by (simp add: seen_def)
        then show ?thesis
          using mark_rest [OF r1(2,4) unfinished(2), of RollbackFailed "''snapshot_invalid''"] onward_trans [OF on(2)] by (auto simp: undone_def)
      next
        case False
        have "Inv {} e"
          using rest by (simp add: at_rest_def)
        from materials_snaps [OF this r(1,2)] False have snok: "snaps_ok (of_snapshots (pd_now (me_ops e))) r"
          by blast
        have u: "rollback_unfinished ident ?e2 = (res, e')"
          using run1 j False unfolding Inl by simp
        have "undone ident ?e2 e'"
          by (rule start [OF u _ snok]) simp
        then show ?thesis
          using on(2) by (rule chain) (simp add: e1)
      qed
    qed
  qed
qed

lemma Rollback_undone:
  assumes rest: "at_rest e" and run: "Rollback ctx ident e = (res, e')"
  shows "undone ident e e'"
proof (cases "ctx = None \<and> rollback_refusal ident e = None")
  case True
  then obtain r where r: "gm_get (me_records e) ident = Some r" "\<not> expired r"
    by (auto simp: rollback_refusal_def expired_def split: if_splits option.splits)
  have rec: "the_record e ident = r"
    using r(1) by (simp add: the_record_def)
  have idle: "\<not> me_running e"
    using rest by (simp add: at_rest_def)
  have body: "(res, e') = (if op_State r = Prepared then
         let (err, e) = state ident Cancelled ''cancelled_before_apply'' e in seen ident err e
       else if op_State r \<in> {RolledBack, Cancelled, Conflict} then seen ident None e
       else rollback_started ident e)"
    using run True idle unfolding Rollback_def rec by (simp del: insert_iff)
  consider (p) "op_State r = Prepared" | (d) "op_State r \<in> {RolledBack, Cancelled, Conflict}" | (s) "op_State r \<notin> {Prepared, RolledBack, Cancelled, Conflict}"
    by blast
  then show ?thesis
  proof cases
    case p
    note pr = rest_prepared [OF rest r(1) p]
    obtain err e1 where s: "state ident Cancelled ''cancelled_before_apply'' e = (err, e1)"
      by fastforce
    have "e' = e1"
      using body p s by (simp add: seen_def)
    moreover have "at_rest e1 \<and> me_store e1 = me_store e \<and> onward ident e e1 \<and> status ident e1 = (if err = None then Cancelled else OutcomeUnknown) \<and>
        me_active e1 = (if err = None \<and> terminal Cancelled then [] else ident) \<and>
        of_snapshots (pd_now (me_ops e1)) = of_snapshots (pd_now (me_ops e)) \<and> still e e1"
      by (rule rest_state [OF rest pr(1) r(1) pr(2) _ _ s]) (use pr(3) in \<open>auto simp: store_has_def\<close>)
    ultimately show ?thesis
      using pr(3,5) onward_digests [of ident e e1] store_has_cong [of e1 e] by (auto simp: undone_def old_digest_def)
  next
    case d
    then have "e' = e"
      using body by (auto simp: seen_def)
    then show ?thesis
      using undone_refl [OF rest] by simp
  next
    case s
    then have "rollback_started ident e = (res, e')"
      using body by auto
    then show ?thesis
      by (rule rollback_started_undone [OF rest r s])
  qed
next
  case False
  then have "e' = e"
    using run by (auto simp: Rollback_def seen_def refused_def split: option.splits if_splits)
  then show ?thesis
    using undone_refl [OF rest] by simp
qed

end
