(* ===== verification/Managed_Materials.thy ===== *)
theory Managed_Materials
  imports Managed_Calls
begin

text \<open>
  The snapshots of the managed store: preparing writes them before the journal, and pruning removes them after the journal
  that gives them up is durable; both keep the invariant.
\<close>

section \<open>Snapshots of one operation\<close>

lemma snapshot_names [simp]:
  "old_name a = old_name b \<longleftrightarrow> idHash a = idHash b" "new_name a = new_name b \<longleftrightarrow> idHash a = idHash b"
  "old_name a \<noteq> new_name b" "new_name a \<noteq> old_name b"
  by (simp_all add: old_name_def new_name_def)

abbreviation put_snapshot :: "string \<Rightarrow> store_snapshot \<Rightarrow> op_files \<Rightarrow> op_files" where
  "put_snapshot name c fs \<equiv> fs\<lparr>of_snapshots := (case c of Some b \<Rightarrow> gm_put name b (of_snapshots fs) | None \<Rightarrow> AList.delete name (of_snapshots fs))\<rparr>"

lemma put_snapshot_get [simp]:
  "gm_get (case c of Some b \<Rightarrow> gm_put name b sn | None \<Rightarrow> AList.delete name sn) n = (if n = name then c else gm_get sn n)"
  by (simp add: gm_get_put delete_conv' split: option.splits)

lemma put_snapshot_other:
  assumes "name \<in> {old_name ident, new_name ident}" "idHash (op_ID q) \<noteq> idHash ident"
  shows "snaps_ok (of_snapshots (put_snapshot name c fs)) q = snaps_ok (of_snapshots fs) q"
  using assms unfolding snaps_ok_def by auto

text \<open>A snapshot may be written while no journal of its operation needs it.\<close>

lemma replace_snapshot_Inv:
  assumes inv: "Inv X e" and r: "gm_get (me_records e) ident = Some r"
    and free: "expired r \<or> op_State r \<in> {OutcomeUnknown, RollbackFailed} \<and> \<not> mr_NeedsRuntime r \<and> (\<forall>fs\<in>set (versions (me_ops e)). journal fs ident = None)"
      "\<forall>fs\<in>set (versions (me_ops e)). \<forall>w. journal fs ident = Some (Some w) \<longrightarrow> expired w"
    and name: "name \<in> {old_name ident, new_name ident}" and c: "\<forall>b. c = Some b \<longrightarrow> int (length b) \<le> mo_MaxBytes (me_opts e)"
    and run: "replace_snapshot name c expected e = (err, e')"
  shows "Inv X e' \<and> (\<exists>t d ps. e' = e\<lparr>me_tick := t, me_ops := d, me_points := ps\<rparr>) \<and>
    (\<forall>fs\<in>set (versions (me_ops e')). \<exists>fs0\<in>set (versions (me_ops e)). of_journals fs = of_journals fs0) \<and>
    (err = None \<longrightarrow> pd_now (me_ops e') = put_snapshot name c (pd_now (me_ops e)))"
proof -
  let ?a = "me_env e (me_tick e)"
  let ?e = "e\<lparr>me_tick := Suc (me_tick e)\<rparr>"
  let ?now = "pd_now (me_ops e)"
  let ?new = "put_snapshot name c ?now"
  have m: "memory_ok e"
    using inv by (simp add: Inv_def)
  have now: "fits e ?now" "recorded X e ?now"
    using inv by (simp_all add: Inv_def)
  have fit: "fits ?e ?new"
    unfolding fits_def
  proof (intro conjI allI impI)
    fix n b assume "gm_get (of_snapshots ?new) n = Some b"
    then show "int (length b) \<le> mo_MaxBytes (me_opts ?e)"
      using now(1) c by (auto simp: fits_def split: if_splits)
  next
    fix n g assume "gm_get (of_journals ?new) n = Some g"
    then have g: "gm_get (of_journals ?now) n = Some g"
      by simp
    then obtain q required where q: "decodeManagedRecord g n = Some (q, required)" "mr_Version q = 2" "required \<longrightarrow> snaps_ok (of_snapshots ?now) q"
        "\<not> terminal (op_State q) \<longrightarrow> op_ID q = me_active e" "\<exists>r'. gm_get (me_records e) (op_ID q) = Some r' \<and> same_operation q r'"
      using now(1) unfolding fits_def by blast
    have d: "g = Some q" "n = journal_name (op_ID q)" "required = (\<not> expired q)"
      using decode_sound [OF q(1,2)] by simp_all
    have "required \<longrightarrow> snaps_ok (of_snapshots ?new) q"
    proof (cases "idHash (op_ID q) = idHash ident")
      case True
      then have "journal ?now ident = Some (Some q)"
        using g d(1,2) by (simp add: journal_def journal_name_inj [symmetric])
      then have "expired q"
        using bspec [OF free(2), of ?now] by simp
      then show ?thesis
        using d(3) by simp
    next
      case False
      then show ?thesis
        using q(3) put_snapshot_other [OF name False] by blast
    qed
    with q show "\<exists>q required. decodeManagedRecord g n = Some (q, required) \<and> mr_Version q = 2 \<and> (required \<longrightarrow> snaps_ok (of_snapshots ?new) q) \<and>
        (\<not> terminal (op_State q) \<longrightarrow> op_ID q = me_active ?e) \<and> (\<exists>r'. gm_get (me_records ?e) (op_ID q) = Some r' \<and> same_operation q r')"
      by (intro exI [of _ q] exI [of _ required]) simp
  qed (use now(1) in \<open>simp add: fits_def\<close>)
  have rec: "recorded X ?e ?new"
    using now(2) by (simp add: recorded_def journal_def)
  have mat: "materials (?e\<lparr>me_ops := rename_in (put_snapshot name c) (me_ops e)\<rparr>)"
    unfolding materials_def
  proof (intro allI impI)
    fix k q assume q: "gm_get (me_records (?e\<lparr>me_ops := rename_in (put_snapshot name c) (me_ops e)\<rparr>)) k = Some q" "\<not> expired q"
    let ?goal = "\<lambda>e. snaps_ok (of_snapshots (pd_now (me_ops e))) q \<or>
        op_State q \<in> {OutcomeUnknown, RollbackFailed} \<and> \<not> mr_NeedsRuntime q \<and> (\<forall>fs\<in>set (versions (me_ops e)). journal fs k = None)"
    have old: "?goal e"
      using inv q unfolding Inv_def materials_def by simp
    have k: "gm_get (me_records e) k = Some q"
      using q(1) by simp
    have j: "journal ?new k = journal ?now k" "?now \<in> set (versions (me_ops e))"
      by (simp_all add: journal_def)
    show "?goal (?e\<lparr>me_ops := rename_in (put_snapshot name c) (me_ops e)\<rparr>)"
    proof (cases "k = ident")
      case True
      then have "q = r"
        using k r by simp
      then show ?thesis
        using free(1) q(2) True j by simp
    next
      case False
      then have "idHash (op_ID q) \<noteq> idHash ident"
        using hash_differs [OF m k r] memory_record(1) [OF m k] by simp
      from put_snapshot_other [OF name this] show ?thesis
        using old j by auto
    qed
  qed
  show ?thesis
  proof (cases "replace_check (an_fault ?a) (mo_MaxBytes (me_opts e)) expected (gm_get (of_snapshots ?now) name) c")
    case (Some x)
    then have e': "e' = ?e" "err = Some x"
      using run by (simp_all add: replace_snapshot_def)
    moreover have "\<exists>t d ps. ?e = e\<lparr>me_tick := t, me_ops := d, me_points := ps\<rparr>"
      by (intro exI [of _ "Suc (me_tick e)"] exI [of _ "me_ops e"] exI [of _ "me_points e"]) simp
    ultimately show ?thesis
      using inv by auto
  next
    case None
    obtain x ds where s: "replace_steps (an_fault ?a) (put_snapshot name c) (me_ops e) = (x, ds)"
      by fastforce
    then have e': "err = x" "e' = ops_steps ds ?e"
      using run None by (simp_all add: replace_snapshot_def)
    have inv': "Inv X ?e" and keys: "gm_keys (of_journals (pd_now (me_ops ?e))) \<subseteq> gm_keys (of_journals (put_snapshot name c (pd_now (me_ops ?e))))"
      using inv by simp_all
    have same: "me_ops ?e = me_ops e"
      by simp
    have s': "replace_steps (an_fault ?a) (put_snapshot name c) (me_ops ?e) = (x, ds)"
      using s by simp
    have "fits ?e (put_snapshot name c (pd_now (me_ops ?e)))" "recorded X ?e (put_snapshot name c (pd_now (me_ops ?e)))"
        "materials (?e\<lparr>me_ops := rename_in (put_snapshot name c) (me_ops ?e)\<rparr>)"
      using fit rec mat by (simp_all only: same)
    note st = Inv_ops_replace [OF inv' this(1,2) keys this(3) s', unfolded same, folded e'(2)]
    have "\<exists>d ps. ops_steps ds f = f\<lparr>me_ops := d, me_points := ps\<rparr>" for f
    proof (induction ds arbitrary: f)
      case Nil
      show ?case
        by (intro exI [of _ "me_ops f"] exI [of _ "me_points f"]) simp
    next
      case (Cons d ds)
      obtain d' ps where "ops_steps ds (f\<lparr>me_ops := d, me_points := (me_store f, d) # me_points f\<rparr>) =
          f\<lparr>me_ops := d, me_points := (me_store f, d) # me_points f\<rparr>\<lparr>me_ops := d', me_points := ps\<rparr>"
        using Cons by blast
      then show ?case
        by (intro exI [of _ d'] exI [of _ ps]) simp
    qed
    then obtain d ps where form: "e' = ?e\<lparr>me_ops := d, me_points := ps\<rparr>"
      using e'(2) by blast
    have "\<exists>fs0\<in>set (versions (me_ops e)). of_journals fs = of_journals fs0" if "fs \<in> set (versions (me_ops e'))" for fs
    proof -
      have "fs = ?new \<or> fs \<in> set (versions (me_ops e))"
        using st(3) that by blast
      then show ?thesis
        by (auto intro: bexI [of _ ?now])
    qed
    moreover have "Inv X e'" "pd_now (me_ops e') = ?new"
      using st(1,2) by simp_all
    moreover have "\<exists>t d ps. e' = e\<lparr>me_tick := t, me_ops := d, me_points := ps\<rparr>"
      unfolding form by (intro exI [of _ "Suc (me_tick e)"] exI [of _ d] exI [of _ ps]) simp
    ultimately show ?thesis
      by blast
  qed
qed

section \<open>Preparing\<close>

lemma hex_digit_cases: "n < 16 \<Longrightarrow> hex_char (hex_digit n) \<and> ascii_lower (hex_digit n) = hex_digit n"
proof -
  assume "n < 16"
  then have "n \<in> set [0..<16]"
    by simp
  moreover have "\<forall>n\<in>set [0..<16]. hex_char (hex_digit n) \<and> ascii_lower (hex_digit n) = hex_digit n"
    by code_simp
  ultimately show ?thesis
    by blast
qed

lemma digestString_hex: "digestString (sha256_hex s)"
proof -
  have b: "byte_of c div 16 < 16" for c
    using nat_of_char_less_256 [of c] by (simp add: less_mult_imp_div_less)
  have "list_all hex_char (hex_EncodeToString t) \<and> map ascii_lower (hex_EncodeToString t) = hex_EncodeToString t" for t
    by (induction t) (simp_all add: hex_EncodeToString_def hex_digit_cases b)
  then show ?thesis
    by (simp add: digestString_def sha256_hex_def)
qed

lemma digests [simp]: "digestString (Digest s)" "digestString (idHash t)" "digestString (fingerprint rq)"
  by (simp_all add: Digest_def idHash_def fingerprint_def digestString_hex)

lemma new_record_sound:
  assumes "request_valid opts rq" "now \<noteq> 0"
  shows "sound (new_record rq old now) \<and> \<not> expired (new_record rq old now)"
  using assms by (simp add: sound_def expired_def new_record_def request_valid_def)

lemma ops_steps_records: "ops_steps ds (e\<lparr>me_records := R\<rparr>) = (ops_steps ds e)\<lparr>me_records := R\<rparr>"
proof (induction ds arbitrary: e)
  case (Cons d ds)
  have "ops_steps ds (e\<lparr>me_records := R, me_ops := d, me_points := ps\<rparr>) = ops_steps ds (e\<lparr>me_ops := d, me_points := ps, me_records := R\<rparr>)" for ps
    by (rule arg_cong [of _ _ "ops_steps ds"]) simp
  then show ?case
    using Cons.IH [of "e\<lparr>me_ops := d, me_points := (me_store e, d) # me_points e\<rparr>"] by simp
qed simp

lemma replace_snapshot_update:
  "replace_snapshot n c x (update_record ident f e) =
    (fst (replace_snapshot n c x e), update_record ident f (snd (replace_snapshot n c x e)))"
proof -
  have rec: "me_records (snd (replace_snapshot n c x e)) = me_records e"
    by (simp add: replace_snapshot_def Let_def split_beta split: option.splits)
  have "replace_snapshot n c x (e\<lparr>me_records := R\<rparr>) =
    (fst (replace_snapshot n c x e), (snd (replace_snapshot n c x e))\<lparr>me_records := R\<rparr>)" for R
  proof -
    have "ops_steps ds (e\<lparr>me_records := R, me_tick := Suc (me_tick e)\<rparr>) = ops_steps ds (e\<lparr>me_tick := Suc (me_tick e), me_records := R\<rparr>)" for ds
      by (rule arg_cong [of _ _ "ops_steps ds"]) simp
    then show ?thesis
      using ops_steps_records [where e = "e\<lparr>me_tick := Suc (me_tick e)\<rparr>" and R = R]
      by (simp add: replace_snapshot_def Let_def split_beta split: option.splits)
  qed
  then show ?thesis
    using rec by (simp add: update_record_def the_record_def)
qed

text \<open>The reserved record, before its material is written: it counts as uncertain.\<close>

lemma Inv_reserve:
  assumes rest: "at_rest e" and act: "me_active e = []" and fresh: "gm_get (me_records e) ident = None" "gm_get (me_keys e) (mr_KeyDigest r) = None"
    and room: "length (me_records e) < MaxManagedOperations" and absent: "journal (pd_now (me_ops e)) ident = None"
    and r: "sound r" "\<not> expired r" "op_ID r = ident" "op_State r = OutcomeUnknown" "\<not> mr_NeedsRuntime r" and st: "store_has (op_OldDigest r) e"
  shows "Inv {} (e\<lparr>me_records := gm_put ident r (me_records e), me_keys := gm_put (mr_KeyDigest r) ident (me_keys e), me_active := ident\<rparr>)"
    (is "Inv {} ?e")
    and "\<forall>fs\<in>set (versions (me_ops e)). journal fs ident = None"
proof -
  have inv: "Inv {} e"
    using rest by (simp add: at_rest_def)
  then have m: "memory_ok e"
    by (simp add: Inv_def)
  note mr = memory_record [OF m]
  have idn: "ident \<noteq> []"
    using r(1,3) safeID_nonempty by (auto simp: sound_def)
  have all_terminal: "terminal (op_State q)" if "gm_get (me_records e) k = Some q" for k q
    using mr(4,5) [OF that] act by auto
  show none: "\<forall>fs\<in>set (versions (me_ops e)). journal fs ident = None"
  proof
    fix fs assume "fs \<in> set (versions (me_ops e))"
    then have "gm_keys (of_journals fs) \<subseteq> gm_keys (of_journals (pd_now (me_ops e)))"
      using inv unfolding Inv_def by blast
    moreover have "journal_name ident \<notin> gm_keys (of_journals (pd_now (me_ops e)))"
      using absent by (simp add: gm_keys_get journal_def)
    ultimately show "journal fs ident = None"
      using gm_keys_get [of "journal_name ident" "of_journals fs"] by (auto simp: journal_def)
  qed
  have hash: "idHash k \<noteq> idHash ident" if k: "gm_get (me_records e) k = Some q" for k q
  proof
    assume "idHash k = idHash ident"
    then have "journal (pd_now (me_ops e)) k = None"
      using absent by (simp add: journal_def journal_name_def)
    moreover have "recorded {} e (pd_now (me_ops e))"
      using inv by (simp add: Inv_def)
    then have "\<exists>r'. journal (pd_now (me_ops e)) k = Some (Some r')"
      using k all_terminal [OF k] unfolding recorded_def by blast
    ultimately show False
      by simp
  qed
  have get: "gm_get (me_records ?e) k = (if k = ident then Some r else gm_get (me_records e) k)" for k
    by (simp add: gm_get_put)
  have keys: "gm_get (me_keys ?e) k = (if k = mr_KeyDigest r then Some ident else gm_get (me_keys e) k)" for k
    by (simp add: gm_get_put)
  have "memory_ok ?e"
    unfolding memory_ok_def
  proof (intro conjI allI impI)
    have wf: "gm_wf (me_records e)"
      using m by (simp add: memory_ok_def)
    show wf': "gm_wf (me_records ?e)"
      using wf by (simp add: gm_wf_put)
    then have "length (me_records ?e) = card (insert ident (gm_keys (me_records e)))"
      using gm_length_keys [of "me_records ?e"] by (simp add: gm_keys_put)
    also have "\<dots> \<le> Suc (length (me_records e))"
      using gm_length_keys [OF wf] by (simp add: card_insert_if)
    finally show "length (me_records ?e) \<le> MaxManagedOperations"
      using room by simp
    show "inj_on idHash (gm_keys (me_records ?e))"
    proof -
      have "inj_on idHash (gm_keys (me_records e))"
        using m by (simp add: memory_ok_def)
      moreover have "idHash ident \<notin> idHash ` (gm_keys (me_records e) - {ident})"
      proof
        assume "idHash ident \<in> idHash ` (gm_keys (me_records e) - {ident})"
        then obtain k where k: "idHash k = idHash ident" "k \<in> gm_keys (me_records e)"
          by (metis DiffD1 imageE)
        then obtain q where "gm_get (me_records e) k = Some q"
          by (auto simp: gm_keys_get)
        with hash k(1) show False
          by blast
      qed
      ultimately show ?thesis
        by (simp add: gm_keys_put)
    qed
    fix k q assume q: "gm_get (me_records ?e) k = Some q"
    show "op_ID q = k" "sound q"
      using q get r mr(1,2) by (auto split: if_splits)
    show "gm_get (me_keys ?e) (mr_KeyDigest q) = Some k"
      using q get keys mr(3) [of k q] fresh by (auto split: if_splits)
    show "terminal (op_State q)" if "k \<noteq> me_active ?e"
      using q get that all_terminal by (auto split: if_splits)
  next
    show "\<exists>q. gm_get (me_records ?e) (me_active ?e) = Some q \<and> \<not> expired q"
      using get r(2) by simp
  qed (use m in \<open>simp_all add: memory_ok_def\<close>)
  moreover have "store_ok ?e"
  proof -
    obtain s where s: "me_store e = durable s" "Digest s = op_OldDigest r"
      using st by (auto simp: store_has_def)
    have "readable (mo_MaxBytes (me_opts e)) s"
      using inv s(1) by (simp add: Inv_def store_ok_def)
    then show ?thesis
      using s by (simp add: store_ok_def the_record_def gm_get_put)
  qed
  moreover have "materials ?e"
    using inv none r get unfolding Inv_def materials_def by auto
  moreover have "fits ?e fs \<and> recorded {} ?e fs" if fs: "fs \<in> set (versions (me_ops e))" for fs
  proof
    have f: "fits e fs" and rc: "recorded {} e fs"
      using inv fs by (simp_all add: Inv_def)
    show "fits ?e fs"
      unfolding fits_def
    proof (intro conjI allI impI)
      fix n g assume g: "gm_get (of_journals fs) n = Some g"
      then obtain q required where q: "decodeManagedRecord g n = Some (q, required)" "mr_Version q = 2" "required \<longrightarrow> snaps_ok (of_snapshots fs) q"
          "\<not> terminal (op_State q) \<longrightarrow> op_ID q = me_active e" "\<exists>r'. gm_get (me_records e) (op_ID q) = Some r' \<and> same_operation q r'"
        using f unfolding fits_def by blast
      have "terminal (op_State q)" "op_ID q \<noteq> ident"
        using q(4,5) act mr(4) fresh(1) by fastforce+
      with q show "\<exists>q required. decodeManagedRecord g n = Some (q, required) \<and> mr_Version q = 2 \<and> (required \<longrightarrow> snaps_ok (of_snapshots fs) q) \<and>
          (\<not> terminal (op_State q) \<longrightarrow> op_ID q = me_active ?e) \<and> (\<exists>r'. gm_get (me_records ?e) (op_ID q) = Some r' \<and> same_operation q r')"
        by (intro exI [of _ q] exI [of _ required]) (simp add: gm_get_put)
    qed (use f in \<open>simp_all add: fits_def\<close>)
    show "recorded {} ?e fs"
      using rc get r(4) unfolding recorded_def by auto
  qed
  ultimately show "Inv {} ?e"
    using inv by (simp add: Inv_def)
qed

lemma replace_snapshot_kept:
  "kept e (snd (replace_snapshot n c x e))" "me_records (snd (replace_snapshot n c x e)) = me_records e"
  "me_active (snd (replace_snapshot n c x e)) = me_active e" "me_store (snd (replace_snapshot n c x e)) = me_store e"
  "me_running (snd (replace_snapshot n c x e)) = me_running e"
  by (simp_all add: replace_snapshot_def kept_def Let_def split_beta split: option.splits)

lemma prepare_write_rest:
  assumes rest: "at_rest e" and act: "me_active e = []" and valid: "request_valid (me_opts e) rq"
    and fresh: "gm_get (me_records e) (rq_ID rq) = None" "gm_get (me_keys e) (idHash (rq_IdempotencyKey rq)) = None"
    and room: "length (me_records e) < MaxManagedOperations" and absent: "journal (pd_now (me_ops e)) (rq_ID rq) = None"
    and st: "me_store e = durable old" and now: "now \<noteq> 0"
    and run: "prepare_write rq old now e = (res, e')"
  shows "at_rest e' \<and> (\<exists>r. gm_get (me_records e') (rq_ID rq) = Some r \<and> same_operation (new_record rq old now) r \<and> me_active e' = rq_ID rq \<and>
    me_store e' = me_store e \<and> (snd res = None \<longrightarrow> op_State r = Prepared \<and> fst res = Some (visibleOperation r) \<and>
      (\<forall>fs\<in>set (versions (me_ops e')). journaled (rq_ID rq) r fs)))"
proof -
  let ?i = "rq_ID rq"
  let ?r = "new_record rq old now"
  let ?ou = "?r\<lparr>op_State := OutcomeUnknown, op_ErrorCode := ''snapshot_write_failed''\<rparr>"
  let ?f = "\<lambda>r :: managed_record. r\<lparr>op_State := OutcomeUnknown, op_ErrorCode := ''snapshot_write_failed''\<rparr>"
  let ?start = "e\<lparr>me_records := gm_put ?i ?r (me_records e), me_keys := gm_put (mr_KeyDigest ?r) ?i (me_keys e), me_active := ?i\<rparr>"
  let ?shadow = "mark ?i OutcomeUnknown ''snapshot_write_failed''"
  have mark: "?shadow = update_record ?i ?f"
    by (rule ext) (simp add: mark_def)
  note sd = new_record_sound [OF valid now, of old]
  have fields: "op_ID ?r = ?i" "mr_KeyDigest ?r = idHash (rq_IdempotencyKey rq)" "op_OldDigest ?r = Digest old"
      "op_NewDigest ?r = Digest (Some (rq_Candidate rq))" "op_State ?r = Prepared" "\<not> mr_NeedsRuntime ?r" "mr_OldExists ?r = (old \<noteq> None)"
    by (simp_all add: new_record_def)
  have ou: "sound ?ou" "\<not> expired ?ou" "op_ID ?ou = ?i" "op_State ?ou = OutcomeUnknown" "\<not> mr_NeedsRuntime ?ou"
      "mr_KeyDigest ?ou = mr_KeyDigest ?r" "op_OldDigest ?ou = Digest old" "same_operation ?r ?ou" "same_operation ?ou ?r"
    using sd fields by (simp_all add: same_operation_def)
  have inv: "Inv {} e" "\<not> me_running e"
    using rest by (simp_all add: at_rest_def)
  have idn: "?i \<noteq> []"
    using valid safeID_nonempty by (simp add: request_valid_def)
  have has: "store_has (op_OldDigest ?ou) e"
    using st ou(7) by (auto simp: store_has_def)
  have sh0: "?shadow ?start = e\<lparr>me_records := gm_put ?i ?ou (me_records e), me_keys := gm_put (mr_KeyDigest ?ou) ?i (me_keys e), me_active := ?i\<rparr>"
    by (simp add: mark update_record_def the_record_def gm_get_put AList.update_last)
  have fresh': "gm_get (me_keys e) (mr_KeyDigest ?ou) = None"
    using fresh(2) fields(2) by simp
  note rs = Inv_reserve [OF rest act fresh(1) fresh' room absent ou(1-5) has]
  have inv0: "Inv {} (?shadow ?start)" and none0: "\<forall>fs\<in>set (versions (me_ops (?shadow ?start))). journal fs ?i = None"
    using rs(1) rs(2) by (simp add: sh0, simp add: mark)
  have get0: "gm_get (me_records (?shadow ?start)) ?i = Some ?ou" "me_opts (?shadow ?start) = me_opts e"
    by (simp_all add: sh0 gm_get_put)
  have small: "\<forall>b. Some (case old of Some b \<Rightarrow> b | None \<Rightarrow> []) = Some b \<longrightarrow> int (length b) \<le> mo_MaxBytes (me_opts (?shadow ?start))"
      "\<forall>b. Some (rq_Candidate rq) = Some b \<longrightarrow> int (length b) \<le> mo_MaxBytes (me_opts e)"
  proof -
    have "readable (mo_MaxBytes (me_opts e)) old" "0 \<le> mo_MaxBytes (me_opts e)"
      using inv st by (simp_all add: Inv_def store_ok_def memory_ok_def options_valid_def)
    then show "\<forall>b. Some (case old of Some b \<Rightarrow> b | None \<Rightarrow> []) = Some b \<longrightarrow> int (length b) \<le> mo_MaxBytes (me_opts (?shadow ?start))"
      by (simp add: get0(2) readable_def split: option.splits)
    show "\<forall>b. Some (rq_Candidate rq) = Some b \<longrightarrow> int (length b) \<le> mo_MaxBytes (me_opts e)"
      using valid by (simp add: request_valid_def)
  qed
  obtain err1 e1 where w1: "replace_snapshot (old_name ?i) (Some (case old of Some b \<Rightarrow> b | None \<Rightarrow> [])) [] ?start = (err1, e1)"
    by fastforce
  then have w1': "replace_snapshot (old_name ?i) (Some (case old of Some b \<Rightarrow> b | None \<Rightarrow> [])) [] (?shadow ?start) = (err1, ?shadow e1)"
    by (simp add: mark replace_snapshot_update)
  have free0: "expired ?ou \<or> op_State ?ou \<in> {OutcomeUnknown, RollbackFailed} \<and> \<not> mr_NeedsRuntime ?ou \<and> (\<forall>fs\<in>set (versions (me_ops (?shadow ?start))). journal fs ?i = None)"
    using ou none0 by simp
  have "\<forall>fs\<in>set (versions (me_ops (?shadow ?start))). \<forall>w. journal fs ?i = Some (Some w) \<longrightarrow> expired w"
    using none0 by auto
  from replace_snapshot_Inv [OF inv0 get0(1) free0 this insertI1 small(1) w1']
  have 1: "Inv {} (?shadow e1)" "\<forall>fs\<in>set (versions (me_ops (?shadow e1))). \<exists>fs0\<in>set (versions (me_ops (?shadow ?start))). of_journals fs = of_journals fs0"
      "err1 = None \<longrightarrow> pd_now (me_ops (?shadow e1)) = put_snapshot (old_name ?i) (Some (case old of Some b \<Rightarrow> b | None \<Rightarrow> [])) (pd_now (me_ops (?shadow ?start)))"
    by blast+
  note k1 = replace_snapshot_kept [where e = ?start and n = "old_name ?i" and c = "Some (case old of Some b \<Rightarrow> b | None \<Rightarrow> [])" and x = "[]", unfolded w1 snd_conv]
  have none1: "\<forall>fs\<in>set (versions (me_ops (?shadow e1))). journal fs ?i = None"
    using 1(2) none0 by (fastforce simp: journal_def)
  have get1: "gm_get (me_records (?shadow e1)) ?i = Some ?ou" "me_opts (?shadow e1) = me_opts e"
    using k1 by (simp_all add: mark the_record_def gm_get_put kept_def)
  obtain err2 e2 where w2: "replace_snapshot (new_name ?i) (Some (rq_Candidate rq)) [] e1 = (err2, e2)"
    by fastforce
  then have w2': "replace_snapshot (new_name ?i) (Some (rq_Candidate rq)) [] (?shadow e1) = (err2, ?shadow e2)"
    by (simp add: mark replace_snapshot_update)
  have free1: "expired ?ou \<or> op_State ?ou \<in> {OutcomeUnknown, RollbackFailed} \<and> \<not> mr_NeedsRuntime ?ou \<and> (\<forall>fs\<in>set (versions (me_ops (?shadow e1))). journal fs ?i = None)"
    using ou none1 by simp
  have "\<forall>fs\<in>set (versions (me_ops (?shadow e1))). \<forall>w. journal fs ?i = Some (Some w) \<longrightarrow> expired w"
    using none1 by auto
  from replace_snapshot_Inv [OF 1(1) get1(1) free1 this insertI2 [OF singletonI] small(2) [folded get1(2)] w2']
  have 2: "Inv {} (?shadow e2)" "err2 = None \<longrightarrow> pd_now (me_ops (?shadow e2)) = put_snapshot (new_name ?i) (Some (rq_Candidate rq)) (pd_now (me_ops (?shadow e1)))"
    by blast+
  note k2 = replace_snapshot_kept [where e = e1 and n = "new_name ?i" and c = "Some (rq_Candidate rq)" and x = "[]", unfolded w2 snd_conv]
  have rec2: "me_records e2 = gm_put ?i ?r (me_records e)" "me_store e2 = me_store e" "me_active e2 = ?i" "\<not> me_running e2"
    using k1 k2 inv(2) by simp_all
  have rec1: "me_records e1 = gm_put ?i ?r (me_records e)" "me_store e1 = me_store e" "me_active e1 = ?i" "\<not> me_running e1"
    using k1 inv(2) by simp_all
  have failed: "at_rest (?shadow ex) \<and> (\<exists>r. gm_get (me_records (?shadow ex)) ?i = Some r \<and> same_operation ?r r \<and> me_active (?shadow ex) = ?i \<and> me_store (?shadow ex) = me_store e)"
    if "Inv {} (?shadow ex)" "me_records ex = gm_put ?i ?r (me_records e)" "me_store ex = me_store e" "me_active ex = ?i" "\<not> me_running ex" for ex
    using that idn ou(8) by (auto simp: mark at_rest_def the_record_def gm_get_put)
  show ?thesis
  proof (cases "err1 = None \<and> err2 = None")
    case False
    consider "e' = ?shadow e1 \<and> snd res = Some ErrStorage" | "e' = ?shadow e2 \<and> snd res = Some ErrStorage"
      using run False w1 w2 by (cases err1; cases err2) (auto simp: prepare_write_def seen_def Let_def)
    then show ?thesis
      using failed [OF 1(1) rec1] failed [OF 2(1) rec2] by cases auto
  next
    case True
    have files: "of_snapshots (pd_now (me_ops e2)) = of_snapshots (put_snapshot (new_name ?i) (Some (rq_Candidate rq))
        (put_snapshot (old_name ?i) (Some (case old of Some b \<Rightarrow> b | None \<Rightarrow> [])) (pd_now (me_ops e))))"
      using True 1(3) 2(2) by (simp add: mark)
    have snaps: "snaps_ok (of_snapshots (pd_now (me_ops e2))) ?r"
      unfolding files snaps_ok_def using fields by (auto simp: gm_get_put split: option.splits)
    have e2: "update_record ?i (\<lambda>_. ?r) (?shadow e2) = e2"
    proof -
      have "gm_put ?i ?r (me_records e2) = me_records e2"
        by (simp add: rec2(1) AList.update_last)
      then show ?thesis
        by (simp add: mark update_record_def AList.update_last)
    qed
    have inv2: "Inv {} e2"
    proof -
      have g: "gm_get (me_records (?shadow e2)) ?i = Some ?ou"
        using rec2(1) by (simp add: mark the_record_def gm_get_put)
      have "snaps_ok (of_snapshots (pd_now (me_ops (?shadow e2)))) ?ou"
        using snaps snaps_ok_same [OF ou(8)] by (simp add: mark)
      then have "Inv {} (update_record ?i (\<lambda>_. ?r) (?shadow e2))"
        by (intro Inv_update [where f = "\<lambda>_. ?r" and r = ?ou, OF 2(1) g ou(9)]) (use sd ou(2) fields rec2(3) in \<open>simp_all add: mark\<close>)
      then show ?thesis
        by (simp add: e2)
    qed
    obtain err3 e3 where sv: "save ?i e2 = (err3, e3)"
      by fastforce
    have g2: "gm_get (me_records e2) ?i = Some ?r"
      using rec2(1) by (simp add: gm_get_put)
    from save_Inv [OF Inv_weaken [OF inv2, of "{?i}"] singletonI g2 _ sv] snaps
    obtain r3 where r3: "same_facts ?r r3" "op_State r3 = op_State ?r" "only_record ?i r3 e2 e3" "Inv {?i} e3" "still e2 e3" "me_active e3 = me_active e2"
        "of_snapshots (pd_now (me_ops e3)) = of_snapshots (pd_now (me_ops e2))"
        "\<forall>fs\<in>set (versions (me_ops e3)). journaled ?i ?r fs \<or> err3 \<noteq> None \<and> fs \<in> set (versions (me_ops e2))"
      by auto
    have g3: "gm_get (me_records e3) ?i = Some r3" "the_record e3 ?i = r3"
      using r3(3) only_record_the by (simp_all add: only_record_def)
    have "Inv ({?i} - {?i}) e3"
      by (rule Inv_include [OF r3(4) g3(1)]) (use r3(2) fields in simp)
    then have inv3: "Inv {} e3"
      by simp
    have same3: "same_operation ?r r3" "me_active e3 = ?i" "me_store e3 = me_store e"
      using r3(1,5,6) rec2 by (simp_all add: same_facts_def still_def)
    have "op_OldDigest r3 = Digest old" "op_State r3 = Prepared" "\<not> me_running e3" "me_store e3 = durable old"
      using same3(1,3) r3(2,5) rec2(4) fields(3,5) st by (simp_all add: same_operation_def still_def)
    then have rest3: "at_rest e3"
      using inv3 same3(2) g3(2) idn by (auto simp: at_rest_def old_digest_def store_has_def)
    have body: "(res, e') = (if err3 \<noteq> None then seen ?i (Some ErrStorage) (mark ?i OutcomeUnknown ''journal_failed'' e3) else seen ?i None e3)"
      using run w1 w2 True sv by (simp add: prepare_write_def Let_def)
    show ?thesis
    proof (cases "err3 = None")
      case True
      then have "e' = e3" "res = (Some (visibleOperation r3), None)"
        using body g3(2) by (simp_all add: seen_def)
      moreover have "\<forall>fs\<in>set (versions (me_ops e3)). journaled ?i r3 fs"
        using True r3(1,2,8) by (simp add: journaled_def same_facts_def)
      ultimately show ?thesis
        using rest3 g3(1) same3 r3(2) fields(5) by simp
    next
      case False
      then have e': "e' = mark ?i OutcomeUnknown ''journal_failed'' e3" "snd res \<noteq> None"
        using body by (simp_all add: seen_def)
      have "\<not> terminal (op_State r3)"
        using r3(2) fields(5) by simp
      note mr = mark_rest [OF rest3 g3(1) this, of OutcomeUnknown "''journal_failed''"]
      have "same_operation r3 (r3\<lparr>op_State := OutcomeUnknown, op_ErrorCode := ''journal_failed''\<rparr>)"
        by (simp add: same_operation_def)
      from same_operation_trans [OF same3(1) this] show ?thesis
        using mr e' same3 g3 by (auto simp: mark_def)
    qed
  qed
qed

lemma usage_loop_tick: "usage_loop fs used e = (res, e') \<Longrightarrow> \<exists>t. e' = e\<lparr>me_tick := t\<rparr>"
proof (induction fs arbitrary: used e)
  case Nil
  then show ?case
    by (auto intro: exI [of _ "me_tick e"])
next
  case (Cons nb fs)
  obtain name b where nb: "nb = (name, b)"
    by fastforce
  let ?e = "e\<lparr>me_tick := Suc (me_tick e)\<rparr>"
  have "e' = ?e \<or> (\<exists>u. usage_loop fs u ?e = (res, e'))"
    using Cons.prems by (auto simp: nb Let_def split: sum.splits if_splits)
  then show ?case
  proof
    assume "\<exists>u. usage_loop fs u ?e = (res, e')"
    then obtain t where "e' = ?e\<lparr>me_tick := t\<rparr>"
      using Cons.IH by blast
    then show ?thesis
      by auto
  qed blast
qed

lemma usage_tick:
  assumes "snapshotUsageLocked e = (res, e')"
  shows "\<exists>t. e' = e\<lparr>me_tick := t\<rparr>"
proof -
  let ?e = "e\<lparr>me_tick := Suc (me_tick e)\<rparr>"
  have "e' = ?e \<or> usage_loop (of_snapshots (pd_now (me_ops e))) 0 ?e = (res, e')"
    using assms by (auto simp: snapshotUsageLocked_def split: option.splits if_splits)
  then show ?thesis
  proof
    assume "usage_loop (of_snapshots (pd_now (me_ops e))) 0 ?e = (res, e')"
    then obtain t where "e' = ?e\<lparr>me_tick := t\<rparr>"
      using usage_loop_tick by blast
    then show ?thesis
      by auto
  qed blast
qed

text \<open>Either nothing but the gate has changed, or a record has been reserved for the request.\<close>

definition reserved :: "managed_request \<Rightarrow> op_result \<Rightarrow> managed_engine \<Rightarrow> managed_engine \<Rightarrow> bool" where
  "reserved rq res e e' \<longleftrightarrow> me_active e = [] \<and> gm_get (me_records e) (rq_ID rq) = None \<and>
    (\<exists>old now r. me_store e = durable old \<and> Digest old = rq_ExpectedDigest rq \<and>
    gm_get (me_records e') (rq_ID rq) = Some r \<and> same_operation (new_record rq old now) r \<and> me_active e' = rq_ID rq \<and>
    me_store e' = me_store e \<and> (snd res = None \<longrightarrow> op_State r = Prepared \<and> fst res = Some (visibleOperation r) \<and>
      (\<forall>fs\<in>set (versions (me_ops e')). journaled (rq_ID rq) r fs)))"

lemma gate_rest: "at_rest e \<Longrightarrow> at_rest (e\<lparr>me_recoveryGate := True\<rparr>)"
proof -
  assume rest: "at_rest e"
  have "recorded {} (e\<lparr>me_recoveryGate := True\<rparr>) fs" if "recorded {} e fs" for fs
    using that unfolding recorded_def by fastforce
  then have "Inv {} (e\<lparr>me_recoveryGate := True\<rparr>)"
    using rest by (simp add: at_rest_def Inv_def)
  then show ?thesis
    using rest by (simp add: at_rest_def store_has_def old_digest_def)
qed

lemma Prepare_rest:
  assumes rest: "at_rest e" and run: "Prepare ctx rq e = (res, e')"
  shows "at_rest e'" "(\<exists>t g. e' = e\<lparr>me_tick := t, me_recoveryGate := g\<rparr>) \<or> reserved rq res e e'"
proof -
  have m: "memory_ok e"
    using rest by (rule rest_memory)
  have same: "\<exists>t g. e = e\<lparr>me_tick := t, me_recoveryGate := g\<rparr>"
    by (intro exI [of _ "me_tick e"] exI [of _ "me_recoveryGate e"]) simp
  have "at_rest e' \<and> ((\<exists>t g. e' = e\<lparr>me_tick := t, me_recoveryGate := g\<rparr>) \<or> reserved rq res e e')"
  proof (cases "e' = e")
    case True
    then show ?thesis
      using rest same by simp
  next
    case False
    then have c: "request_valid (me_opts e) rq" "gm_get (me_records e) (rq_ID rq) = None"
        "gm_get (me_keys e) (idHash (rq_IdempotencyKey rq)) = None" "me_active e = []"
        "int (length (me_records e)) < mo_MaxOperations (me_opts e)" "prepare_checked rq e = (res, e')"
      using run by (auto simp: Prepare_def refused_def seen_def split: if_splits option.splits)
    have room: "length (me_records e) < MaxManagedOperations"
      using c(5) m by (simp add: memory_ok_def options_valid_def)
    obtain s0 where s0: "me_store e = durable s0"
      using rest c(4) by (auto simp: at_rest_def)
    let ?now = "an_now (me_env e (me_tick e))"
    let ?e1 = "e\<lparr>me_tick := Suc (me_tick e)\<rparr>"
    let ?e2 = "?e1\<lparr>me_tick := Suc (me_tick ?e1)\<rparr>"
    obtain cur where rd: "readStore ?e1 = (cur, ?e2)"
      using readStore_eq(1) by blast
    obtain us e3 where u: "snapshotUsageLocked ?e2 = (us, e3)"
      by fastforce
    obtain t where "e3 = ?e2\<lparr>me_tick := t\<rparr>"
      using usage_tick [OF u] by blast
    then have e3: "e3 = e\<lparr>me_tick := t\<rparr>"
      by simp
    let ?e4 = "e3\<lparr>me_tick := Suc (me_tick e3)\<rparr>"
    obtain j where pj: "probe_journal (rq_ID rq) e3 = (j, ?e4)"
      using probe_eq(1) by blast
    have "fair (me_env e3)"
      using m by (simp add: e3 memory_ok_def)
    then have j: "j = Inr (journal (pd_now (me_ops e)) (rq_ID rq) \<noteq> None)"
      using probe_eq(2) [of e3 "rq_ID rq"] pj by (simp add: e3)
    have go: "e' \<in> {?e1, ?e2, e3, ?e4\<lparr>me_recoveryGate := True\<rparr>} \<or>
        (\<exists>old. cur = Inr old \<and> Digest old = rq_ExpectedDigest rq \<and> j = Inr False \<and> prepare_write rq old ?now ?e4 = (res, e'))"
      using c(6) rd u pj by (auto simp: prepare_checked_def refused_def Let_def split: if_splits sum.splits)
    then show ?thesis
    proof
      assume "e' \<in> {?e1, ?e2, e3, ?e4\<lparr>me_recoveryGate := True\<rparr>}"
      moreover have "\<exists>t g. x = e\<lparr>me_tick := t, me_recoveryGate := g\<rparr>" if "x \<in> {?e1, ?e2, e3}" for x
      proof -
        have "x \<in> {e\<lparr>me_tick := Suc (me_tick e)\<rparr>, e\<lparr>me_tick := Suc (Suc (me_tick e))\<rparr>, e\<lparr>me_tick := t\<rparr>}"
          using that by (simp add: e3)
        then obtain t where "x = e\<lparr>me_tick := t\<rparr>"
          by blast
        then show ?thesis
          by (intro exI [of _ t] exI [of _ "me_recoveryGate e"]) simp
      qed
      moreover have "?e4\<lparr>me_recoveryGate := True\<rparr> = e\<lparr>me_tick := Suc (me_tick e3), me_recoveryGate := True\<rparr>"
        by (simp add: e3)
      moreover have "at_rest ?e1" "at_rest ?e2" "at_rest e3" "at_rest (?e4\<lparr>me_recoveryGate := True\<rparr>)"
        using rest gate_rest [of ?e4] by (simp_all add: e3)
      ultimately show ?thesis
        by (metis insert_iff singletonD)
    next
      assume "\<exists>old. cur = Inr old \<and> Digest old = rq_ExpectedDigest rq \<and> j = Inr False \<and> prepare_write rq old ?now ?e4 = (res, e')"
      then obtain old where o: "cur = Inr old" "Digest old = rq_ExpectedDigest rq" "j = Inr False" "prepare_write rq old ?now ?e4 = (res, e')"
        by blast
      have "old = s0"
        using readStore_eq(2) [of ?e1 old] rd o(1) s0 by simp
      then have st: "me_store ?e4 = durable old"
        using s0 by (simp add: e3)
      have pre: "at_rest ?e4" "me_active ?e4 = []" "request_valid (me_opts ?e4) rq" "gm_get (me_records ?e4) (rq_ID rq) = None"
          "gm_get (me_keys ?e4) (idHash (rq_IdempotencyKey rq)) = None" "length (me_records ?e4) < MaxManagedOperations"
          "journal (pd_now (me_ops ?e4)) (rq_ID rq) = None"
        using rest c room j o(3) by (simp_all add: e3)
      from prepare_write_rest [OF pre st fair_now [OF m] o(4)] show ?thesis
        using c(2,4) o(2) s0 \<open>old = s0\<close> unfolding reserved_def by (auto simp: e3)
    qed
  qed
  then show "at_rest e'" "(\<exists>t g. e' = e\<lparr>me_tick := t, me_recoveryGate := g\<rparr>) \<or> reserved rq res e e'"
    by simp_all
qed

end
