(* ===== verification/Managed_Prune.thy ===== *)
theory Managed_Prune
  imports Managed_Materials
begin

text \<open>
  Retention keeps an idle engine at rest: a record's snapshots go only after its expiry is in every content of the directory, and
  only operations that ended before the retention period expire, at most eight in a run.
\<close>

lemma gate_Inv:
  assumes "Inv X e"
  shows "Inv X (e\<lparr>me_recoveryGate := True\<rparr>)"
proof -
  have "recorded X (e\<lparr>me_recoveryGate := True\<rparr>) fs" if "recorded X e fs" for fs
    using that unfolding recorded_def by fastforce
  then show ?thesis
    using assms by (simp add: Inv_def)
qed

lemma recorded_journal:
  assumes "Inv {} e" "gm_get (me_records e) ident = Some r" "terminal (op_State r)" "fs \<in> set (versions (me_ops e))"
  shows "\<exists>w. journal fs ident = Some (Some w) \<and> op_State w = op_State r \<and> (expired r \<longrightarrow> me_recoveryGate e \<or> expired w)"
proof -
  have "recorded {} e fs"
    using assms(1,4) by (simp add: Inv_def)
  then show ?thesis
    using assms(2,3) unfolding recorded_def by blast
qed

definition only_files :: "managed_engine \<Rightarrow> managed_engine \<Rightarrow> bool" where
  "only_files e e' \<longleftrightarrow> (\<exists>t d ps. e' = e\<lparr>me_tick := t, me_ops := d, me_points := ps\<rparr>)"

lemma only_files_trans:
  assumes "only_files e e'" "only_files e' e''"
  shows "only_files e e''"
proof -
  obtain t d ps where 1: "e' = e\<lparr>me_tick := t, me_ops := d, me_points := ps\<rparr>"
    using assms(1) by (auto simp: only_files_def)
  obtain t' d' ps' where 2: "e'' = e'\<lparr>me_tick := t', me_ops := d', me_points := ps'\<rparr>"
    using assms(2) by (auto simp: only_files_def)
  have "e'' = e\<lparr>me_tick := t', me_ops := d', me_points := ps'\<rparr>"
    by (simp add: 1 2)
  then show ?thesis
    unfolding only_files_def by blast
qed

lemma only_files_tick [simp]: "only_files e (e\<lparr>me_tick := t\<rparr>)"
  unfolding only_files_def by (intro exI [of _ t] exI [of _ "me_ops e"] exI [of _ "me_points e"]) simp

lemma only_files_refl [simp]: "only_files e e"
  using only_files_tick [of e "me_tick e"] by simp

lemma only_files_same:
  assumes "only_files e e'"
  shows "me_records e' = me_records e" "me_active e' = me_active e" "me_recoveryGate e' = me_recoveryGate e" "me_store e' = me_store e"
    "me_opts e' = me_opts e" "me_env e' = me_env e" "me_running e' = me_running e" "me_keys e' = me_keys e"
  using assms by (auto simp: only_files_def)

lemma remove_snapshot_Inv:
  assumes inv: "Inv {} e" and r: "gm_get (me_records e) ident = Some r" "expired r" "terminal (op_State r)"
    and gate: "\<not> me_recoveryGate e" and name: "name \<in> {old_name ident, new_name ident}"
    and run: "remove_snapshot name out e = (err, ch, out', e')"
  shows "Inv {} e' \<and> only_files e e' \<and> gc_Expired out' = gc_Expired out"
proof -
  let ?e = "e\<lparr>me_tick := Suc (me_tick e)\<rparr>"
  obtain content where rd: "read_snapshot name e = (content, ?e)"
    using read_snapshot_eq(1) by blast
  have all: "\<forall>fs\<in>set (versions (me_ops ?e)). \<forall>w. journal fs ident = Some (Some w) \<longrightarrow> expired w"
    using recorded_journal [OF inv r(1,3)] r(2) gate by fastforce
  have inv1: "Inv {} ?e" "gm_get (me_records ?e) ident = Some r"
    using inv r(1) by simp_all
  show ?thesis
  proof (cases "\<exists>b. content = Inr (Some b)")
    case False
    then have "e' = ?e" "out' = out"
      using run rd by (auto simp: remove_snapshot_def split: sum.splits option.splits)
    then show ?thesis
      using inv by simp
  next
    case True
    then obtain b where b: "content = Inr (Some b)"
      by blast
    obtain err1 e1 where del: "replace_snapshot name None (Digest (Some b)) ?e = (err1, e1)"
      by fastforce
    have "\<forall>b. None = Some b \<longrightarrow> int (length b) \<le> mo_MaxBytes (me_opts ?e)"
      by simp
    from replace_snapshot_Inv [OF inv1 disjI1 [OF r(2)] all name this del]
    have "Inv {} e1" "only_files ?e e1"
      unfolding only_files_def by blast+
    then have "Inv {} e1 \<and> only_files e e1"
      using only_files_trans [OF only_files_tick] by blast
    moreover have "e' = e1" "gc_Expired out' = gc_Expired out"
      using run rd b del by (auto simp: remove_snapshot_def split: option.splits)
    ultimately show ?thesis
      by simp
  qed
qed

definition too_old :: "managed_options \<Rightarrow> instant \<Rightarrow> managed_record \<Rightarrow> bool" where
  "too_old opts now r \<longleftrightarrow> terminal (op_State r) \<and> \<not> mr_NeedsRuntime r \<and>
    (\<exists>t. mr_TerminalAt r = Some t \<and> t < now - mo_SnapshotRetentionDays opts * 24 * hour)"

text \<open>The records after a run: as they were, or expired because they had ended long ago.\<close>

definition retained :: "instant \<Rightarrow> managed_engine \<Rightarrow> managed_engine \<Rightarrow> bool" where
  "retained now e e' \<longleftrightarrow> gm_keys (me_records e') = gm_keys (me_records e) \<and> (\<forall>ident r. gm_get (me_records e) ident = Some r \<longrightarrow>
    (\<exists>r'. gm_get (me_records e') ident = Some r' \<and> same_operation r r' \<and> op_State r' = op_State r \<and>
      mr_TerminalAt r' = mr_TerminalAt r \<and> mr_NeedsRuntime r' = mr_NeedsRuntime r \<and>
      (expired r' \<noteq> expired r \<longrightarrow> too_old (me_opts e) now r)))"

lemma retained_refl: "me_records e' = me_records e \<Longrightarrow> retained now e e'"
  by (simp add: retained_def)

lemma expiry_persisted:
  assumes rest: "at_rest e" "me_active e = []" and r: "gm_get (me_records e) ident = Some r" "terminal (op_State r)" "\<not> expired r"
    and old: "too_old (me_opts e) now r" "now \<noteq> 0"
    and run: "persist ident (update_record ident (\<lambda>r. r\<lparr>op_MaterialsState := MaterialsExpired, op_MaterialsExpiryReason := ''ttl'',
           op_MaterialsExpiredAt := Some now\<rparr>) e) = (err, e')"
  defines "e'' \<equiv> if err = None then e' else e'\<lparr>me_recoveryGate := True\<rparr>"
  shows "Inv {} e'' \<and> still e e' \<and> me_active e' = [] \<and> (\<exists>r'. only_record ident r' e e' \<and> same_operation r r' \<and> op_State r' = op_State r \<and> expired r' \<and>
    mr_TerminalAt r' = mr_TerminalAt r \<and> mr_NeedsRuntime r' = mr_NeedsRuntime r)"
proof -
  let ?f = "\<lambda>r. r\<lparr>op_MaterialsState := MaterialsExpired, op_MaterialsExpiryReason := ''ttl'', op_MaterialsExpiredAt := Some now\<rparr>"
  let ?e = "update_record ident ?f e"
  have inv: "Inv {} e" and m: "memory_ok e"
    using rest by (simp_all add: at_rest_def Inv_def)
  note rec = memory_record [OF m r(1)]
  obtain t where t: "mr_TerminalAt r = Some t" "t < now - mo_SnapshotRetentionDays (me_opts e) * 24 * hour" "\<not> mr_NeedsRuntime r"
    using old(1) by (auto simp: too_old_def)
  have "0 \<le> mo_SnapshotRetentionDays (me_opts e) * 24 * hour"
    using m by (simp add: memory_ok_def options_valid_def hour_def second_def)
  then have le: "t \<le> now"
    using t(2) by linarith
  have f: "same_operation r (?f r)" "expired (?f r)" "sound (?f r)" "op_State (?f r) = op_State r"
    using rec(2) r(2,3) t(1,3) le old(2) by (auto simp: same_operation_def expired_def sound_def split: if_splits)
  have sn: "snaps_ok (of_snapshots (pd_now (me_ops e))) r"
    by (rule materials_snaps [OF inv r(1,3)]) (use r(2) in auto)
  have inv1: "Inv {ident} ?e"
    by (rule Inv_update [OF Inv_weaken [OF inv] r(1)]) (use f r(2) rec(4) rest(2) sn in auto)
  have r1: "gm_get (me_records ?e) ident = Some (?f r)"
    using rec(6) by simp
  have nosnap: "\<not> expired (?f r) \<longrightarrow> snaps_ok (of_snapshots (pd_now (me_ops ?e))) (?f r)"
    using f(2) by simp
  obtain now' where p: "Inv {ident} e'" "still ?e e'" "me_active e' = me_active ?e"
      "me_records e' = gm_put ident (normalizeRecordRetention now' (?f r)) (me_records ?e)" "now' \<noteq> 0"
      "\<forall>fs\<in>set (versions (me_ops e')). journaled ident (?f r) fs \<or> err \<noteq> None \<and> fs \<in> set (versions (me_ops ?e))"
    using persist_Inv [OF inv1 singletonI r1 nosnap run] by (elim exE conjE) (rule that)
  define r' where "r' = normalizeRecordRetention now' (?f r)"
  have r': "same_operation r r'" "op_State r' = op_State r" "expired r'" "only_record ident r' e e'" "gm_get (me_records e') ident = Some r'"
      "mr_TerminalAt r' = mr_TerminalAt r" "mr_NeedsRuntime r' = mr_NeedsRuntime r"
    using f p(4) rec(6) t(1) sound_version [OF f(3)] by (simp_all add: r'_def only_record_def gm_get_put normalizeRecordRetention_def Let_def)
  have gr: "Inv {ident} e''" "gm_get (me_records e'') ident = Some r'" "me_ops e'' = me_ops e'"
    using gate_Inv [OF p(1)] p(1) r'(5) by (simp_all add: e''_def)
  have "\<exists>w. journal fs ident = Some (Some w) \<and> op_State w = op_State r' \<and> (expired r' \<longrightarrow> me_recoveryGate e'' \<or> expired w)"
    if "fs \<in> set (versions (me_ops e''))" for fs
  proof -
    have "journaled ident (?f r) fs \<or> err \<noteq> None \<and> fs \<in> set (versions (me_ops e))"
      using p(6) that gr(3) by simp
    then show ?thesis
    proof
      assume "journaled ident (?f r) fs"
      then show ?thesis
        using f(2,4) r'(2) by (auto simp: journaled_def)
    next
      assume "err \<noteq> None \<and> fs \<in> set (versions (me_ops e))"
      then show ?thesis
        using recorded_journal [OF inv r(1,2), of fs] r'(2) by (auto simp: e''_def)
    qed
  qed
  then have "Inv ({ident} - {ident}) e''"
    by (intro Inv_include [OF gr(1,2)]) blast
  moreover have "still e e'"
    using still_trans [OF still_simps(2) p(2)] .
  ultimately show ?thesis
    using r' p(3) rest(2) by auto
qed

lemma retained_trans:
  assumes "retained now e e'" "retained now e' e''" "me_opts e' = me_opts e"
  shows "retained now e e''"
  unfolding retained_def
proof (intro conjI allI impI)
  show "gm_keys (me_records e'') = gm_keys (me_records e)"
    using assms by (simp add: retained_def)
next
  fix ident r assume "gm_get (me_records e) ident = Some r"
  then obtain r' where r': "gm_get (me_records e') ident = Some r'" "same_operation r r'" "op_State r' = op_State r"
      "mr_TerminalAt r' = mr_TerminalAt r" "mr_NeedsRuntime r' = mr_NeedsRuntime r" "expired r' \<noteq> expired r \<longrightarrow> too_old (me_opts e) now r"
    using assms(1) unfolding retained_def by blast
  then obtain r'' where r'': "gm_get (me_records e'') ident = Some r''" "same_operation r' r''" "op_State r'' = op_State r'"
      "mr_TerminalAt r'' = mr_TerminalAt r'" "mr_NeedsRuntime r'' = mr_NeedsRuntime r'" "expired r'' \<noteq> expired r' \<longrightarrow> too_old (me_opts e') now r'"
    using assms(2) unfolding retained_def by blast
  have "too_old (me_opts e) now r' = too_old (me_opts e) now r"
    using r' by (simp add: too_old_def)
  then show "\<exists>r'. gm_get (me_records e'') ident = Some r' \<and> same_operation r r' \<and> op_State r' = op_State r \<and>
      mr_TerminalAt r' = mr_TerminalAt r \<and> mr_NeedsRuntime r' = mr_NeedsRuntime r \<and> (expired r' \<noteq> expired r \<longrightarrow> too_old (me_opts e) now r)"
    using r' r'' same_operation_trans [OF r'(2) r''(2)] assms(3) by (intro exI [of _ r'']) auto
qed

text \<open>An engine without an operation, between two records of a run.\<close>

definition idle :: "managed_engine \<Rightarrow> bool" where
  "idle e \<longleftrightarrow> at_rest e \<and> me_active e = [] \<and> \<not> me_recoveryGate e"

lemma idle_files:
  assumes "idle e" "Inv {} e'" "only_files e e'"
  shows "idle e'" "retained now e e'"
  using assms only_files_same [OF assms(3)] by (simp_all add: idle_def at_rest_def retained_refl)

definition pruned :: "instant \<Rightarrow> managed_engine \<Rightarrow> managed_error option \<Rightarrow> managed_engine \<Rightarrow> bool" where
  "pruned now e err e' \<longleftrightarrow> at_rest e' \<and> (err = None \<longrightarrow> idle e') \<and> retained now e e' \<and> me_active e' = [] \<and> me_store e' = me_store e \<and>
    me_opts e' = me_opts e"

lemma pruned_same:
  assumes "idle e" "Inv {} e'" "only_files e e'"
  shows "pruned now e err e'"
  using assms idle_files [OF assms] only_files_same [OF assms(3)] by (simp add: pruned_def idle_def)

lemma pruned_trans:
  assumes "pruned now e None e'" "pruned now e' err e''"
  shows "pruned now e err e''"
  using assms retained_trans [of now e e' e''] by (simp add: pruned_def)

lemma remove_both:
  assumes idl: "idle e" and r: "gm_get (me_records e) ident = Some r" "expired r" "terminal (op_State r)"
    and run: "remove_snapshot (old_name ident) out e = (err1, c1, out1, e1)" "remove_snapshot (new_name ident) out1 e1 = (err2, c2, out2, e2)"
  shows "pruned now e err1 e1" "pruned now e err2 e2" "gc_Expired out1 = gc_Expired out" "gc_Expired out2 = gc_Expired out"
proof -
  have i: "Inv {} e" "\<not> me_recoveryGate e"
    using idl by (simp_all add: idle_def at_rest_def)
  have 1: "Inv {} e1" "only_files e e1" "gc_Expired out1 = gc_Expired out"
    using remove_snapshot_Inv [OF i(1) r i(2) _ run(1)] by simp_all
  note same = only_files_same [OF 1(2)]
  have "Inv {} e2" "only_files e1 e2" "gc_Expired out2 = gc_Expired out1"
    using remove_snapshot_Inv [OF 1(1) _ r(2,3) _ _ run(2)] r(1) same i(2) by simp_all
  then show "pruned now e err1 e1" "pruned now e err2 e2" "gc_Expired out1 = gc_Expired out" "gc_Expired out2 = gc_Expired out"
    using 1 idl pruned_same [OF idl 1(1,2)] pruned_same [OF idl, of e2] only_files_trans [OF 1(2)] by simp_all
qed

lemma expiry_pruned:
  assumes idl: "idle e" and r: "gm_get (me_records e) ident = Some r" "terminal (op_State r)" "\<not> expired r"
    and old: "too_old (me_opts e) now r" "now \<noteq> 0"
    and run: "persist ident (update_record ident (\<lambda>r. r\<lparr>op_MaterialsState := MaterialsExpired, op_MaterialsExpiryReason := ''ttl'',
           op_MaterialsExpiredAt := Some now\<rparr>) e) = (err, e')"
  defines "e'' \<equiv> if err = None then e' else e'\<lparr>me_recoveryGate := True\<rparr>"
  shows "pruned now e err e''" "\<exists>r'. gm_get (me_records e') ident = Some r' \<and> expired r' \<and> op_State r' = op_State r"
proof -
  have rest: "at_rest e" "me_active e = []"
    using idl by (simp_all add: idle_def)
  note ex = expiry_persisted [OF rest r old run]
  then obtain r' where r': "only_record ident r' e e'" "same_operation r r'" "op_State r' = op_State r" "expired r'"
      "mr_TerminalAt r' = mr_TerminalAt r" "mr_NeedsRuntime r' = mr_NeedsRuntime r"
    by blast
  have p: "Inv {} e''" "still e e'" "me_active e' = []"
    using ex by (simp_all add: e''_def)
  have "gm_keys (me_records e') = gm_keys (me_records e)"
    using r'(1) r(1) unfolding only_record_def by (intro set_eqI) (simp add: gm_keys_get)
  then have "retained now e e''"
    using r' old(1) r(1) by (auto simp: retained_def only_record_def e''_def)
  then show "pruned now e err e''"
    using p idl by (auto simp: pruned_def idle_def at_rest_def still_def kept_def e''_def)
  show "\<exists>r'. gm_get (me_records e') ident = Some r' \<and> expired r' \<and> op_State r' = op_State r"
    using r' by (auto simp: only_record_def)
qed

lemma prune_record_expired:
  assumes "gm_get (me_records e) ident = Some r" "expired r" "mr_Version r \<noteq> 1"
    and "remove_snapshot (old_name ident) out e = (err1, c1, out1, e1)" "remove_snapshot (new_name ident) out1 e1 = (err2, c2, out2, e2)"
  shows "prune_record ident now out e = (if err1 \<noteq> None then (err1, False, out1, e1) else if err2 \<noteq> None then (err2, False, out2, e2)
    else (None, c1 \<or> c2, out2, e2))"
  using assms by (simp add: prune_record_def the_record_def expired_def Let_def)

lemma prune_record_young:
  assumes "gm_get (me_records e) ident = Some r" "\<not> expired r" "mr_Version r \<noteq> 1" "\<not> too_old (me_opts e) now r"
    "terminal (op_State r)" "\<not> mr_NeedsRuntime r"
  shows "prune_record ident now out e = (None, False, out, e)"
  using assms by (simp add: prune_record_def the_record_def expired_def too_old_def Let_def split: option.split)

lemma prune_record_old:
  assumes "gm_get (me_records e) ident = Some r" "\<not> expired r" "mr_Version r \<noteq> 1" "too_old (me_opts e) now r"
    and "persist ident (update_record ident (\<lambda>r. r\<lparr>op_MaterialsState := MaterialsExpired, op_MaterialsExpiryReason := ''ttl'',
           op_MaterialsExpiredAt := Some now\<rparr>) e) = (err0, e0)"
    and "remove_snapshot (old_name ident) (out\<lparr>gc_Expired := Suc (gc_Expired out)\<rparr>) e0 = (err1, c1, out1, e1)"
      "remove_snapshot (new_name ident) out1 e1 = (err2, c2, out2, e2)"
  shows "prune_record ident now out e = (if err0 \<noteq> None then (err0, False, out, e0\<lparr>me_recoveryGate := True\<rparr>)
    else if err1 \<noteq> None then (err1, False, out1, e1) else if err2 \<noteq> None then (err2, False, out2, e2) else (None, True, out2, e2))"
proof -
  obtain t where t: "mr_TerminalAt r = Some t" "t < now - mo_SnapshotRetentionDays (me_opts e) * 24 * hour"
    using assms(4) by (auto simp: too_old_def)
  show ?thesis
    using assms(1,2,3,5,6,7) t by (simp add: prune_record_def the_record_def expired_def Let_def)
qed

lemma prune_record_pruned:
  assumes idl: "idle e" and r: "gm_get (me_records e) ident = Some r" "terminal (op_State r)" "\<not> mr_NeedsRuntime r"
    and now: "now \<noteq> 0" and run: "prune_record ident now out e = (err, ch, out', e')"
  shows "pruned now e err e' \<and> gc_Expired out' \<le> Suc (gc_Expired out) \<and>
    (err = None \<longrightarrow> gc_Expired out' \<le> gc_Expired out + (if ch then 1 else 0))"
proof -
  have m: "memory_ok e" and self: "pruned now e None e"
    using idl rest_memory pruned_same [OF idl, of e now None] by (simp_all add: idle_def at_rest_def)
  have v2: "mr_Version r \<noteq> 1"
    using sound_version [OF memory_record(2) [OF m r(1)]] by simp
  show ?thesis
  proof (cases "expired r")
    case True
    obtain err1 c1 out1 e1 where 1: "remove_snapshot (old_name ident) out e = (err1, c1, out1, e1)"
      by (metis prod_cases4)
    obtain err2 c2 out2 e2 where 2: "remove_snapshot (new_name ident) out1 e1 = (err2, c2, out2, e2)"
      by (metis prod_cases4)
    show ?thesis
      using run remove_both [OF idl r(1) True r(2) 1 2]
      unfolding prune_record_expired [OF r(1) True v2 1 2] by (auto split: if_splits)
  next
    case young: False
    show ?thesis
    proof (cases "too_old (me_opts e) now r")
      case False
      then show ?thesis
        using run self unfolding prune_record_young [OF r(1) young v2 False r(2,3)] by simp
    next
      case old: True
      obtain err0 e0 where 0: "persist ident (update_record ident (\<lambda>r. r\<lparr>op_MaterialsState := MaterialsExpired,
          op_MaterialsExpiryReason := ''ttl'', op_MaterialsExpiredAt := Some now\<rparr>) e) = (err0, e0)"
        by fastforce
      let ?o = "out\<lparr>gc_Expired := Suc (gc_Expired out)\<rparr>"
      obtain err1 c1 out1 e1 where 1: "remove_snapshot (old_name ident) ?o e0 = (err1, c1, out1, e1)"
        by (metis prod_cases4)
      obtain err2 c2 out2 e2 where 2: "remove_snapshot (new_name ident) out1 e1 = (err2, c2, out2, e2)"
        by (metis prod_cases4)
      note ex = expiry_pruned [OF idl r(1,2) young old now 0]
      note run = run [unfolded prune_record_old [OF r(1) young v2 old 0 1 2]]
      show ?thesis
      proof (cases "err0 = None")
        case False
        then show ?thesis
          using run ex(1) by auto
      next
        case True
        then have p: "pruned now e None e0"
          using ex(1) by simp
        then have idl0: "idle e0"
          by (simp add: pruned_def)
        obtain r' where r': "gm_get (me_records e0) ident = Some r'" "expired r'" "terminal (op_State r')"
          using ex(2) r(2) by metis
        note both = remove_both [OF idl0 r' 1 2]
        show ?thesis
          using run True both pruned_trans [OF p both(1)] pruned_trans [OF p both(2)] by (auto split: if_splits)
      qed
    qed
  qed
qed

lemma pruned_tick: "pruned now e err e' \<Longrightarrow> pruned now (e\<lparr>me_tick := t\<rparr>) err e'"
  by (simp add: pruned_def retained_def)

lemma idle_tick: "idle e \<Longrightarrow> idle (e\<lparr>me_tick := t\<rparr>) \<and> pruned now e err (e\<lparr>me_tick := t\<rparr>)"
  by (simp add: idle_def pruned_def retained_def)

lemma prune_loop_pruned:
  assumes "idle e" "set ids \<subseteq> gm_keys (me_records e)" "now \<noteq> 0" "gc_Expired out \<le> touched" "touched \<le> 8"
    and "prune_loop ids now touched out e = (out', err, e')"
  shows "pruned now e err e' \<and> gc_Expired out' \<le> 8"
  using assms
proof (induction ids arbitrary: touched out e)
  case Nil
  then show ?case
    using idle_tick [of e "me_tick e"] by simp
next
  case (Cons ident ids)
  let ?e = "e\<lparr>me_tick := Suc (me_tick e)\<rparr>"
  have idl: "idle ?e" and self: "\<And>x. pruned now e x ?e"
    using idle_tick [OF Cons.prems(1)] by simp_all
  obtain r where r: "gm_get (me_records ?e) ident = Some r"
    using Cons.prems(2) by (auto simp: gm_keys_get)
  have the: "the_record ?e ident = r" "the_record e ident = r"
    using r by (simp_all add: the_record_def)
  consider "an_cancelled (me_env e (me_tick e)) \<or> touched \<ge> 8"
    | "\<not> (an_cancelled (me_env e (me_tick e)) \<or> touched \<ge> 8)" "\<not> terminal (op_State r) \<or> mr_NeedsRuntime r"
    | "\<not> an_cancelled (me_env e (me_tick e))" "touched < 8" "terminal (op_State r)" "\<not> mr_NeedsRuntime r"
    by linarith
  then show ?case
  proof cases
    case 1
    then have "e' = ?e \<and> out' = out"
      using Cons.prems(6) by (auto split: if_splits)
    then show ?thesis
      using self Cons.prems(4,5) by simp
  next
    case 2
    then have "prune_loop ids now touched out ?e = (out', err, e')"
      using Cons.prems(6) the by (auto split: if_splits)
    moreover have "set ids \<subseteq> gm_keys (me_records ?e)"
      using Cons.prems(2) by simp
    ultimately have "pruned now ?e err e' \<and> gc_Expired out' \<le> 8"
      using Cons.IH [OF idl] Cons.prems(3,4,5) by blast
    then show ?thesis
      using pruned_trans [OF self] by blast
  next
    case 3
    obtain err1 ch out1 e1 where run: "prune_record ident now out ?e = (err1, ch, out1, e1)"
      by (metis prod_cases4)
    note p = prune_record_pruned [OF idl r 3(3,4) Cons.prems(3) run]
    have step: "(if err1 \<noteq> None then (out1, err1, e1) else prune_loop ids now (if ch then Suc touched else touched) out1 e1) = (out', err, e')"
      using Cons.prems(6) the 3 run by simp
    show ?thesis
    proof (cases "err1 = None")
      case False
      then show ?thesis
        using step p pruned_trans [OF self] Cons.prems(4) 3(2) by auto
    next
      case True
      then have q: "pruned now ?e None e1"
        using p by simp
      have "idle e1" "set ids \<subseteq> gm_keys (me_records e1)"
        using q Cons.prems(2) by (simp_all add: pruned_def retained_def)
      moreover have "gc_Expired out1 \<le> (if ch then Suc touched else touched)" "(if ch then Suc touched else touched) \<le> 8"
        using p True Cons.prems(4) 3(2) by (auto split: if_splits)
      ultimately have "pruned now e1 err e' \<and> gc_Expired out' \<le> 8"
        using Cons.IH Cons.prems(3) step True by simp
      then show ?thesis
        using pruned_trans [OF pruned_trans [OF self q]] by blast
    qed
  qed
qed

lemma Prune_rest:
  assumes rest: "at_rest e" and run: "PruneSnapshots ctx e = (out, err, e')"
  shows "at_rest e' \<and> (\<exists>now. retained now e e') \<and> gc_Expired out \<le> 8 \<and> me_store e' = me_store e \<and> me_opts e' = me_opts e"
proof (cases "ctx \<noteq> None \<or> me_closing e \<or> me_active e \<noteq> [] \<or> me_running e \<or> me_recoveryGate e \<or> me_restoreBlocked e")
  case True
  then have "e' = e \<and> gc_Expired out = 0"
    using run by (auto simp: PruneSnapshots_def Let_def split: if_splits)
  then show ?thesis
    using rest retained_refl [of e e] by auto
next
  case False
  let ?e = "e\<lparr>me_tick := Suc (me_tick e)\<rparr>" and ?now = "an_now (me_env e (me_tick e))"
  have idl: "idle e"
    using rest False by (simp add: idle_def)
  have m: "memory_ok e"
    by (rule rest_memory [OF rest])
  then have keys: "set (map fst (gm_sorted (me_records e))) \<subseteq> gm_keys (me_records ?e)"
    by (auto simp: gm_keys_def gm_sorted_def)
  have "prune_loop (map fst (gm_sorted (me_records e))) ?now 0 \<lparr>gc_Expired = 0, gc_RemovedBytes = 0\<rparr> ?e = (out, err, e')"
    using run False by (simp add: PruneSnapshots_def Let_def)
  from prune_loop_pruned [OF _ keys fair_now [OF m] _ _ this] idle_tick [OF idl]
  have "pruned ?now ?e err e' \<and> gc_Expired out \<le> 8"
    by simp
  then show ?thesis
    by (auto simp: pruned_def retained_def)
qed

end
