(* ===== verification/Managed_Open.thy ===== *)
theory Managed_Open
  imports Managed_Prune
begin

text \<open>
  Opening: whatever happens, every point of the start leaves a disk that can be opened again; if it succeeds, the engine is at
  rest, an unfinished operation is undone on disk, and without faults it succeeds.
\<close>

section \<open>Loading the journals\<close>

definition only_memory :: "managed_engine \<Rightarrow> managed_engine \<Rightarrow> bool" where
  "only_memory e e' \<longleftrightarrow> me_opts e' = me_opts e \<and> me_env e' = me_env e \<and> me_store e' = me_store e \<and> me_ops e' = me_ops e \<and>
    me_points e' = me_points e \<and> me_running e' = me_running e \<and> me_recoveryGate e' = me_recoveryGate e"

lemma only_memory_trans: "only_memory e e' \<Longrightarrow> only_memory e' e'' \<Longrightarrow> only_memory e e''"
  by (simp add: only_memory_def)

lemma only_memory_simps [simp]:
  "only_memory e e" "only_memory e (e\<lparr>me_tick := t\<rparr>)" "only_memory e (e\<lparr>me_records := R, me_keys := K\<rparr>)"
  "only_memory e (e\<lparr>me_active := a\<rparr>)" "only_memory e (update_record ident f e)"
  by (simp_all add: only_memory_def)

definition loaded :: "(string \<times> managed_record option) list \<Rightarrow> managed_engine \<Rightarrow> bool" where
  "loaded js e \<longleftrightarrow> gm_wf (me_records e) \<and> gm_get (me_records e) [] = None \<and> length (me_records e) = length js \<and>
    (\<forall>k r. gm_get (me_records e) k = Some r \<longleftrightarrow> op_ID r = k \<and> (journal_name k, Some r) \<in> set js) \<and>
    (\<forall>d k. gm_get (me_keys e) d = Some k \<longleftrightarrow> (\<exists>r. gm_get (me_records e) k = Some r \<and> mr_KeyDigest r = d)) \<and>
    (\<forall>k r. gm_get (me_records e) k = Some r \<longrightarrow> (if terminal (op_State r) then k \<noteq> me_active e else k = me_active e)) \<and>
    (me_active e \<noteq> [] \<longrightarrow> gm_get (me_records e) (me_active e) \<noteq> None) \<and>
    (\<forall>k r. gm_get (me_records e) k = Some r \<longrightarrow> \<not> expired r \<longrightarrow> snaps_ok (of_snapshots (pd_now (me_ops e))) r)"

lemma loaded_tick [simp]: "loaded js (e\<lparr>me_tick := t\<rparr>) = loaded js e"
  unfolding loaded_def by (simp cong: if_cong)

lemma gm_length_put: "gm_wf m \<Longrightarrow> gm_get m k = None \<Longrightarrow> length (gm_put k v m) = Suc (length m)"
  using gm_length_keys [of m] gm_length_keys [of "gm_put k v m"] gm_wf_put [of m k v]
  by (simp add: gm_keys_put gm_keys_get)

definition load_one :: "managed_record \<Rightarrow> managed_engine \<Rightarrow> managed_engine" where
  "load_one r e = (let e = e\<lparr>me_records := gm_put (op_ID r) r (me_records e), me_keys := gm_put (mr_KeyDigest r) (op_ID r) (me_keys e)\<rparr>
    in if terminal (op_State r) then e else e\<lparr>me_active := op_ID r\<rparr>)"

lemma load_one_fields [simp]:
  "me_records (load_one r e) = gm_put (op_ID r) r (me_records e)" "me_keys (load_one r e) = gm_put (mr_KeyDigest r) (op_ID r) (me_keys e)"
  "me_active (load_one r e) = (if terminal (op_State r) then me_active e else op_ID r)"
  "me_ops (load_one r e) = me_ops e" "me_opts (load_one r e) = me_opts e" "me_env (load_one r e) = me_env e"
  "me_store (load_one r e) = me_store e" "me_points (load_one r e) = me_points e" "me_running (load_one r e) = me_running e"
  "me_recoveryGate (load_one r e) = me_recoveryGate e" "only_memory e (load_one r e)" "me_tick (load_one r e) = me_tick e"
  by (simp_all add: load_one_def only_memory_def Let_def)

lemma loaded_step:
  assumes l: "loaded js e" and new: "journal_name (op_ID r) \<notin> fst ` set js" "op_ID r \<noteq> []"
    and key: "gm_get (me_keys e) (mr_KeyDigest r) = None" and act: "\<not> terminal (op_State r) \<Longrightarrow> me_active e = []"
    and snaps: "\<not> expired r \<Longrightarrow> snaps_ok (of_snapshots (pd_now (me_ops e))) r"
  shows "loaded (js @ [(journal_name (op_ID r), Some r)]) (load_one r e)"
proof -
  have recs: "\<And>k q. gm_get (me_records e) k = Some q \<longleftrightarrow> op_ID q = k \<and> (journal_name k, Some q) \<in> set js"
    and keys: "\<And>d k. gm_get (me_keys e) d = Some k \<longleftrightarrow> (\<exists>q. gm_get (me_records e) k = Some q \<and> mr_KeyDigest q = d)"
    and states: "\<And>k q. gm_get (me_records e) k = Some q \<Longrightarrow> (if terminal (op_State q) then k \<noteq> me_active e else k = me_active e)"
    and rest: "gm_wf (me_records e)" "gm_get (me_records e) [] = None" "length (me_records e) = length js" "me_active e \<noteq> [] \<longrightarrow> gm_get (me_records e) (me_active e) \<noteq> None"
      "\<And>k q. gm_get (me_records e) k = Some q \<Longrightarrow> \<not> expired q \<Longrightarrow> snaps_ok (of_snapshots (pd_now (me_ops e))) q"
    using l unfolding loaded_def by blast+
  have fresh: "gm_get (me_records e) (op_ID r) = None"
  proof (rule ccontr)
    assume "gm_get (me_records e) (op_ID r) \<noteq> None"
    then obtain q where "gm_get (me_records e) (op_ID r) = Some q"
      by blast
    then show False
      using recs [of "op_ID r" q] new(1) by force
  qed
  show ?thesis
    unfolding loaded_def
  proof (intro conjI allI)
    show "gm_wf (me_records (load_one r e))"
      using rest(1) by (simp add: gm_wf_put)
    show "gm_get (me_records (load_one r e)) [] = None"
      using rest(2) new(2) by (simp add: gm_get_put)
    show "length (me_records (load_one r e)) = length (js @ [(journal_name (op_ID r), Some r)])"
      using gm_length_put [OF rest(1) fresh] rest(3) by simp
    show "gm_get (me_records (load_one r e)) k = Some q \<longleftrightarrow>
        op_ID q = k \<and> (journal_name k, Some q) \<in> set (js @ [(journal_name (op_ID r), Some r)])" for k q
      using recs [of k q] fresh new(1) by (auto simp: gm_get_put)
    show "gm_get (me_keys (load_one r e)) d = Some k \<longleftrightarrow> (\<exists>q. gm_get (me_records (load_one r e)) k = Some q \<and> mr_KeyDigest q = d)" for d k
      using keys [of d k] key fresh by (auto simp: gm_get_put)
    show "gm_get (me_records (load_one r e)) k = Some q \<longrightarrow>
        (if terminal (op_State q) then k \<noteq> me_active (load_one r e) else k = me_active (load_one r e))" for k q
      using states [of k q] act new(2) fresh rest(2,4) recs [of k q] by (auto simp: gm_get_put split: if_splits)
    show "me_active (load_one r e) \<noteq> [] \<longrightarrow> gm_get (me_records (load_one r e)) (me_active (load_one r e)) \<noteq> None"
      using rest(4) by (simp add: gm_get_put)
    show "gm_get (me_records (load_one r e)) k = Some q \<longrightarrow> \<not> expired q \<longrightarrow> snaps_ok (of_snapshots (pd_now (me_ops (load_one r e)))) q" for k q
      using rest(5) snaps by (auto simp: gm_get_put)
  qed
qed

lemma checkExpiredResidues_tick: "checkExpiredResidues r e = (err, e') \<Longrightarrow> \<exists>t. e' = e\<lparr>me_tick := t\<rparr>"
proof -
  assume run: "checkExpiredResidues r e = (err, e')"
  let ?e = "e\<lparr>me_tick := Suc (me_tick e)\<rparr>"
  obtain a where 1: "read_snapshot (old_name (op_ID r)) e = (a, ?e)"
    using read_snapshot_eq(1) by blast
  obtain b where 2: "read_snapshot (new_name (op_ID r)) ?e = (b, ?e\<lparr>me_tick := Suc (me_tick ?e)\<rparr>)"
    using read_snapshot_eq(1) by blast
  have "e' = ?e \<or> e' = e\<lparr>me_tick := Suc (Suc (me_tick e))\<rparr>"
    using run 1 2 by (auto simp: checkExpiredResidues_def split: sum.splits)
  then show ?thesis
    by blast
qed

text \<open>The check of one record's materials.\<close>

definition materials_bad :: "managed_record \<Rightarrow> bool \<Rightarrow> managed_engine \<Rightarrow> bool \<times> managed_engine" where
  "materials_bad r required e = (if required
    then let (s, e) = snapshots r e in (case s of Inl _ \<Rightarrow> True | Inr _ \<Rightarrow> False, e)
    else let (err, e) = checkExpiredResidues r e in (err \<noteq> None, e))"

lemma materials_bad_tick:
  assumes "materials_bad r required e = (bad, e')"
  shows "\<exists>t. e' = e\<lparr>me_tick := t\<rparr>" "\<not> bad \<Longrightarrow> required \<Longrightarrow> snaps_ok (of_snapshots (pd_now (me_ops e))) r"
proof -
  obtain s e1 where s: "snapshots r e = (s, e1)"
    by fastforce
  obtain c e2 where c: "checkExpiredResidues r e = (c, e2)"
    by fastforce
  have "e' = (if required then e1 else e2)"
    using assms s c by (auto simp: materials_bad_def split: if_splits)
  then show "\<exists>t. e' = e\<lparr>me_tick := t\<rparr>"
    using snapshots_eq(1) [OF s] checkExpiredResidues_tick [OF c] by auto
  show "snaps_ok (of_snapshots (pd_now (me_ops e))) r" if ok: "\<not> bad" "required"
  proof -
    obtain old new where "s = Inr (old, new)"
      using assms s ok by (cases s) (auto simp: materials_bad_def)
    then show ?thesis
      using snapshots_eq(2) [OF s] by blast
  qed
qed

lemma load_loop_Cons:
  "load_loop ((name, file) # rest) e =
    (if length (me_records e) \<ge> MaxManagedOperations \<or> fault_error (an_fault (me_env e (me_tick e))) \<noteq> None
     then (Some ErrRecovery, if length (me_records e) \<ge> MaxManagedOperations then e else e\<lparr>me_tick := Suc (me_tick e)\<rparr>)
     else let e = e\<lparr>me_tick := Suc (me_tick e)\<rparr> in case decodeManagedRecord file name of
       None \<Rightarrow> (Some ErrRecovery, e)
     | Some (r, required) \<Rightarrow>
       if gm_get (me_keys e) (mr_KeyDigest r) \<noteq> None then (Some ErrRecovery, e)
       else let (bad, e) = materials_bad r required e
       in if bad then (Some ErrRecovery, e)
       else if \<not> terminal (op_State r) \<and> me_active e \<noteq> [] then (Some ErrRecovery, load_one r (e\<lparr>me_active := me_active e\<rparr>)\<lparr>me_active := me_active e\<rparr>)
       else load_loop rest (load_one r e))"
  by (simp add: materials_bad_def load_one_def Let_def split: option.split prod.split)

lemma load_loop_loaded:
  assumes "gm_wf (js @ rest)" "loaded js e"
    and "\<And>n f. (n, f) \<in> set rest \<Longrightarrow> \<exists>r required. decodeManagedRecord f n = Some (r, required) \<and> mr_Version r = 2"
    and "load_loop rest e = (err, e')"
  shows "only_memory e e' \<and> (err = None \<longrightarrow> loaded (js @ rest) e')"
  using assms
proof (induction rest arbitrary: js e)
  case Nil
  then show ?case
    by simp
next
  case (Cons nf rest)
  obtain name g where nf: "nf = (name, g)"
    by fastforce
  obtain r required where d: "decodeManagedRecord g name = Some (r, required)" "mr_Version r = 2"
    using Cons.prems(3) [of name g] nf by auto
  have dec: "g = Some r" "name = journal_name (op_ID r)" "sound r" "required = (\<not> expired r)"
    using decode_sound [OF d] by simp_all
  have idn: "op_ID r \<noteq> []"
    using dec(3) safeID_nonempty by (auto simp: sound_def)
  let ?e = "e\<lparr>me_tick := Suc (me_tick e)\<rparr>"
  obtain bad e1 where mb: "materials_bad r required ?e = (bad, e1)"
    by fastforce
  then obtain t where e1: "e1 = e\<lparr>me_tick := t\<rparr>"
    using materials_bad_tick(1) [OF mb] by auto
  have mem: "only_memory e e1"
    using e1 by simp
  have split: "only_memory e e' \<and> err \<noteq> None \<or> gm_get (me_keys e) (mr_KeyDigest r) = None \<and> \<not> bad \<and>
      (\<not> terminal (op_State r) \<longrightarrow> me_active e = []) \<and> load_loop rest (load_one r e1) = (err, e')"
    using Cons.prems(4) d(1) mb mem unfolding nf load_loop_Cons
    by (auto simp: only_memory_def e1 Let_def split: if_splits)
  then show ?case
  proof
    assume go: "gm_get (me_keys e) (mr_KeyDigest r) = None \<and> \<not> bad \<and>
      (\<not> terminal (op_State r) \<longrightarrow> me_active e = []) \<and> load_loop rest (load_one r e1) = (err, e')"
    have fresh: "journal_name (op_ID r) \<notin> fst ` set js"
      using Cons.prems(1) dec(2) nf by (auto simp: gm_wf_def)
    have l1: "loaded js e1"
      using Cons.prems(2) by (simp add: e1)
    have "loaded (js @ [(journal_name (op_ID r), Some r)]) (load_one r e1)"
      by (rule loaded_step [OF l1 fresh idn]) (use go materials_bad_tick(2) [OF mb] dec(4) in \<open>auto simp: e1\<close>)
    moreover have "gm_wf ((js @ [(journal_name (op_ID r), Some r)]) @ rest)"
      using Cons.prems(1) nf dec by simp
    ultimately have "only_memory (load_one r e1) e' \<and> (err = None \<longrightarrow> loaded ((js @ [(journal_name (op_ID r), Some r)]) @ rest) e')"
      by (intro Cons.IH) (use Cons.prems(3) go in auto)
    moreover have "only_memory e (load_one r e1)"
      using only_memory_trans [OF mem] by simp
    ultimately show ?thesis
      using only_memory_trans [of e "load_one r e1" e'] dec nf by simp
  qed blast
qed

section \<open>The engine after loading\<close>

definition started :: "store_snapshot \<Rightarrow> op_files \<Rightarrow> managed_engine \<Rightarrow> bool" where
  "started s fs e \<longleftrightarrow> fair (me_env e) \<and> options_valid (me_opts e) \<and> me_store e = durable s \<and> me_ops e = durable fs \<and>
    me_points e = [(durable s, durable fs)] \<and> \<not> me_running e \<and> \<not> me_recoveryGate e \<and> recoverable_disk (mo_MaxBytes (me_opts e)) s fs"

lemma started_memory: "started s fs e \<Longrightarrow> only_memory e e' \<Longrightarrow> started s fs e'"
  by (simp add: started_def only_memory_def)

lemma started_points: "started s fs e \<Longrightarrow> \<forall>p\<in>set (me_points e). recoverable_point (mo_MaxBytes (me_opts e)) p"
  by (simp add: started_def recoverable_point_def)

lemma recoverable_journal:
  assumes "recoverable_disk limit s fs" "gm_get (of_journals fs) n = Some f"
  shows "\<exists>r. f = Some r \<and> n = journal_name (op_ID r) \<and> sound r \<and> decodeManagedRecord f n = Some (r, \<not> expired r) \<and> mr_Version r = 2 \<and>
    (\<not> expired r \<longrightarrow> snaps_ok (of_snapshots fs) r) \<and> (\<not> terminal (op_State r) \<longrightarrow> Digest s \<in> {op_OldDigest r, op_NewDigest r})"
proof -
  obtain r required where r: "decodeManagedRecord f n = Some (r, required)" "mr_Version r = 2" "required \<longrightarrow> snaps_ok (of_snapshots fs) r"
      "\<not> terminal (op_State r) \<longrightarrow> Digest s \<in> {op_OldDigest r, op_NewDigest r}"
    using assms unfolding recoverable_disk_def by blast
  then show ?thesis
    using decode_sound [OF r(1,2)] by blast
qed

lemma loaded_record:
  assumes "loaded js e" "gm_get (me_records e) k = Some r"
  shows "op_ID r = k" "(journal_name k, Some r) \<in> set js" "gm_get (me_keys e) (mr_KeyDigest r) = Some k"
    "if terminal (op_State r) then k \<noteq> me_active e else k = me_active e"
    "\<not> expired r \<Longrightarrow> snaps_ok (of_snapshots (pd_now (me_ops e))) r"
  using assms unfolding loaded_def by blast+

lemma loaded_journal:
  assumes "loaded js e" "(journal_name (op_ID r), Some r) \<in> set js"
  shows "gm_get (me_records e) (op_ID r) = Some r"
  using assms unfolding loaded_def by blast

lemma loaded_Inv:
  assumes st: "started s fs e" and l: "loaded (of_journals fs) e"
  shows "Inv {} e"
proof -
  have rd: "recoverable_disk (mo_MaxBytes (me_opts e)) s fs" and wf: "gm_wf (of_journals fs)" and sizes: "readable (mo_MaxBytes (me_opts e)) s"
      "length (of_journals fs) \<le> MaxManagedOperations" "\<forall>n b. gm_get (of_snapshots fs) n = Some b \<longrightarrow> int (length b) \<le> mo_MaxBytes (me_opts e)"
    using st by (auto simp: started_def recoverable_disk_def)
  have now: "versions (me_ops e) = [fs]" "versions (me_store e) = [s]" "pd_now (me_ops e) = fs"
    using st by (simp_all add: started_def)
  have onfile: "gm_get (of_journals fs) (journal_name k) = Some (Some r)" if "gm_get (me_records e) k = Some r" for k r
    using loaded_record(2) [OF l that] gm_get_in [OF wf] by simp
  have rec: "op_ID r = k \<and> sound r \<and> gm_get (me_keys e) (mr_KeyDigest r) = Some k \<and> (k \<noteq> me_active e \<longrightarrow> terminal (op_State r))"
    if "gm_get (me_records e) k = Some r" for k r
    using loaded_record [OF l that] recoverable_journal [OF rd onfile [OF that]] by (auto split: if_splits)
  have active: "\<exists>r. gm_get (me_records e) (me_active e) = Some r \<and> \<not> terminal (op_State r) \<and> \<not> expired r" if act: "me_active e \<noteq> []"
  proof -
    obtain r where r: "gm_get (me_records e) (me_active e) = Some r"
      using l act unfolding loaded_def by blast
    then have "\<not> terminal (op_State r)"
      using loaded_record(4) [OF l r] by (auto split: if_splits)
    moreover have "sound r"
      using rec [OF r] by simp
    ultimately show ?thesis
      using r by (auto simp: sound_def split: if_splits)
  qed
  have "inj_on idHash (gm_keys (me_records e))"
  proof (rule inj_onI)
    fix k k' assume k: "k \<in> gm_keys (me_records e)" "k' \<in> gm_keys (me_records e)" "idHash k = idHash k'"
    then obtain r r' where r: "gm_get (me_records e) k = Some r" "gm_get (me_records e) k' = Some r'"
      by (auto simp: gm_keys_get)
    have "r = r'"
      using onfile [OF r(1)] onfile [OF r(2)] k(3) by (simp add: journal_name_def)
    then show "k = k'"
      using rec [OF r(1)] rec [OF r(2)] by simp
  qed
  moreover have "gm_wf (me_records e)" "length (me_records e) \<le> MaxManagedOperations"
    using l sizes(2) by (simp_all add: loaded_def)
  moreover have "fair (me_env e)" "options_valid (me_opts e)"
    using st by (simp_all add: started_def)
  ultimately have m: "memory_ok e"
    using rec active unfolding memory_ok_def by blast
  have "store_ok e"
    unfolding store_ok_def now
  proof (intro ballI conjI impI)
    fix v assume v: "v \<in> set [s]"
    then show "readable (mo_MaxBytes (me_opts e)) v"
      using sizes(1) by simp
    assume "me_active e \<noteq> []"
    then obtain r where r: "gm_get (me_records e) (me_active e) = Some r" "\<not> terminal (op_State r)"
      using active by blast
    then show "Digest v \<in> {op_OldDigest (the_record e (me_active e)), op_NewDigest (the_record e (me_active e))}"
      using recoverable_journal [OF rd onfile [OF r(1)]] v by (simp add: the_record_def)
  qed
  moreover have "materials e"
    using loaded_record(5) [OF l] now(3) unfolding materials_def by blast
  moreover have "fits e fs"
    unfolding fits_def
  proof (intro conjI allI impI)
    fix n f assume f: "gm_get (of_journals fs) n = Some f"
    obtain r where r: "f = Some r" "n = journal_name (op_ID r)" "decodeManagedRecord f n = Some (r, \<not> expired r)" "mr_Version r = 2"
        "\<not> expired r \<longrightarrow> snaps_ok (of_snapshots fs) r"
      using recoverable_journal [OF rd f] by blast
    have g: "gm_get (me_records e) (op_ID r) = Some r"
      using f r(1,2) gm_get_in [OF wf] by (intro loaded_journal [OF l]) simp
    then have "\<not> terminal (op_State r) \<longrightarrow> op_ID r = me_active e"
      using rec by blast
    then show "\<exists>r required. decodeManagedRecord f n = Some (r, required) \<and> mr_Version r = 2 \<and> (required \<longrightarrow> snaps_ok (of_snapshots fs) r) \<and>
        (\<not> terminal (op_State r) \<longrightarrow> op_ID r = me_active e) \<and> (\<exists>r'. gm_get (me_records e) (op_ID r) = Some r' \<and> same_operation r r')"
      using r g by (intro exI [of _ r] exI [of _ "\<not> expired r"]) simp
  qed (use wf sizes(3) in auto)
  moreover have "recorded {} e fs"
    using onfile unfolding recorded_def journal_def by blast
  ultimately show ?thesis
    using m now started_points [OF st] unfolding Inv_def by simp
qed

section \<open>The context history\<close>

lemma history_loop_terminal:
  assumes "history_loop records entries out = Inr ids" "\<forall>k\<in>set out. \<exists>r. gm_get records k = Some r \<and> terminal (op_State r)"
  shows "\<forall>k\<in>set ids. \<exists>r. gm_get records k = Some r \<and> terminal (op_State r)"
  using assms
proof (induction entries arbitrary: out)
  case Nil
  then show ?case
    by simp
next
  case (Cons en entries)
  obtain r where r: "gm_get records (he_ID en) = Some r" "terminal (op_State r)" "history_loop records entries (he_ID en # out) = Inr ids"
    using Cons.prems(1) by (simp split: option.splits if_splits)
  then have "\<forall>k\<in>set (he_ID en # out). \<exists>r. gm_get records k = Some r \<and> terminal (op_State r)"
    using Cons.prems(2) by simp
  from Cons.IH [OF r(3) this] show ?case .
qed

text \<open>Records that differ at most in their flag.\<close>

definition same_records :: "managed_engine \<Rightarrow> managed_engine \<Rightarrow> bool" where
  "same_records e e' \<longleftrightarrow> (\<forall>k. map_option (\<lambda>r. r\<lparr>mr_contextChanged := False\<rparr>) (gm_get (me_records e') k) =
    map_option (\<lambda>r. r\<lparr>mr_contextChanged := False\<rparr>) (gm_get (me_records e) k))"

lemma same_records_trans: "same_records e e' \<Longrightarrow> same_records e' e'' \<Longrightarrow> same_records e e''"
  by (simp add: same_records_def)

lemma same_records_refl [simp]: "same_records e e"
  by (simp add: same_records_def)

lemma flag_sound [simp]: "sound (r\<lparr>mr_contextChanged := b\<rparr>) = sound r" "expired (r\<lparr>mr_contextChanged := b\<rparr>) = expired r"
    "same_operation r (r\<lparr>mr_contextChanged := b\<rparr>)" "snaps_ok sn (r\<lparr>mr_contextChanged := b\<rparr>) = snaps_ok sn r"
  by (simp_all add: sound_def expired_def same_operation_def snaps_ok_def)

lemma context_changed_Inv:
  assumes "Inv {} e" "\<forall>k\<in>set ids. \<exists>r. gm_get (me_records e) k = Some r \<and> terminal (op_State r)"
  shows "Inv {} (context_changed ids e) \<and> same_records e (context_changed ids e) \<and> only_memory e (context_changed ids e) \<and>
    me_active (context_changed ids e) = me_active e \<and> me_tick (context_changed ids e) = me_tick e"
  using assms
proof (induction ids arbitrary: e)
  case Nil
  then show ?case
    by (simp add: context_changed_def)
next
  case (Cons k ids)
  let ?f = "\<lambda>r. r\<lparr>mr_contextChanged := True\<rparr>"
  let ?e = "update_record k ?f e"
  obtain r where r: "gm_get (me_records e) k = Some r" "terminal (op_State r)"
    using Cons.prems(2) by auto
  have m: "memory_ok e"
    using Cons.prems(1) by (simp add: Inv_def)
  have the: "the_record e k = r"
    using r by (simp add: the_record_def)
  have sn: "snaps_ok (of_snapshots (pd_now (me_ops e))) r" if "\<not> expired r"
    by (rule materials_snaps [OF Cons.prems(1) r(1) that]) (use r(2) in auto)
  have inv: "Inv {} ?e"
    by (rule Inv_update [OF Cons.prems(1) r(1)]) (use r(2) memory_record(2) [OF m r(1)] sn in auto)
  have "same_records e ?e"
    using r(1) the by (simp add: same_records_def)
  moreover have "\<forall>k\<in>set ids. \<exists>r. gm_get (me_records ?e) k = Some r \<and> terminal (op_State r)"
    using Cons.prems(2) the r(2) by simp
  from Cons.IH [OF inv this] have "Inv {} (context_changed ids ?e) \<and> same_records ?e (context_changed ids ?e) \<and>
      only_memory ?e (context_changed ids ?e) \<and> me_active (context_changed ids ?e) = me_active e \<and> me_tick (context_changed ids ?e) = me_tick e"
    by simp
  moreover have "context_changed (k # ids) e = context_changed ids ?e"
    by (simp add: context_changed_def)
  ultimately show ?case
    using same_records_trans only_memory_trans [OF only_memory_simps(5)] by metis
qed

section \<open>Undoing an unfinished operation\<close>

lemma Inv_save_open:
  assumes inv: "Inv {} e" and r: "gm_get (me_records e) ident = Some r" "\<not> terminal (op_State r)"
    and snaps: "snaps_ok (of_snapshots (pd_now (me_ops e))) r" and run: "save ident e = (err, e')"
  shows "\<exists>r'. same_facts r r' \<and> op_State r' = op_State r \<and> only_record ident r' e e' \<and> Inv {} e' \<and> still e e' \<and> me_active e' = me_active e \<and>
    of_snapshots (pd_now (me_ops e')) = of_snapshots (pd_now (me_ops e)) \<and> (err = None \<longrightarrow> (\<forall>fs\<in>set (versions (me_ops e')). journaled ident r fs))"
proof -
  have "Inv {ident} e"
    by (rule Inv_weaken [OF inv]) simp
  from save_Inv [OF this singletonI r(1) impI [OF snaps] run]
  obtain r' where r': "same_facts r r'" "op_State r' = op_State r" "only_record ident r' e e'" "Inv {ident} e'" "still e e'" "me_active e' = me_active e"
      "of_snapshots (pd_now (me_ops e')) = of_snapshots (pd_now (me_ops e))"
      "\<forall>fs\<in>set (versions (me_ops e')). journaled ident r fs \<or> err \<noteq> None \<and> fs \<in> set (versions (me_ops e))"
    by (elim exE conjE) (rule that)
  have "gm_get (me_records e') ident = Some r'"
    using r'(3) by (simp add: only_record_def)
  then have "Inv ({ident} - {ident}) e'"
    by (rule Inv_include [OF r'(4)]) (use r(2) r'(2) in simp)
  then show ?thesis
    using r' by auto
qed

definition undone_on_disk :: "string \<Rightarrow> managed_engine \<Rightarrow> bool" where
  "undone_on_disk ident e \<longleftrightarrow> me_active e = ident \<and> store_has (old_digest ident e) e \<and> (\<exists>r. gm_get (me_records e) ident = Some r \<and>
    op_State r = RollingBack \<and> mr_NeedsRuntime r \<and> \<not> op_StorePersisted r \<and> (\<forall>fs\<in>set (versions (me_ops e)). journaled ident r fs))"

abbreviation to_rolling_back :: "managed_record \<Rightarrow> managed_record" where
  "to_rolling_back r \<equiv> r\<lparr>op_State := RollingBack, op_ErrorCode := ''startup_recovery'', mr_NeedsRuntime := True,
    op_RuntimeApplied := False, op_Verification := noVerification\<rparr>"

lemma recover_early:
  assumes "me_active e = ident" "snapshots (the_record e ident) (e\<lparr>me_tick := Suc (me_tick e)\<rparr>) = (sn, e2)" "readStore e2 = (cur, e3)"
    and "the_record e3 ident = r" "recover e = (err, e')"
    and "\<not> (\<exists>old new c. sn = Inr (old, new) \<and> cur = Inr c \<and> mo_RecoveryCheck (me_opts e) \<and> an_ok (me_env e (me_tick e)) \<and>
      \<not> an_cancelled (me_env e (me_tick e)) \<and> Digest c \<in> {op_OldDigest r, op_NewDigest r})"
  shows "err \<noteq> None \<and> e' \<in> {e, e\<lparr>me_tick := Suc (me_tick e)\<rparr>, e2, e3}"
proof -
  obtain s where "sn = Inr s \<or> (\<exists>x. sn = Inl x)"
    by (cases sn) auto
  then consider "\<not> mo_RecoveryCheck (me_opts e) \<or> \<not> an_ok (me_env e (me_tick e)) \<or> an_cancelled (me_env e (me_tick e))"
    | x where "sn = Inl x" "mo_RecoveryCheck (me_opts e)" "an_ok (me_env e (me_tick e))" "\<not> an_cancelled (me_env e (me_tick e))"
    | old new x where "sn = Inr (old, new)" "cur = Inl x" "mo_RecoveryCheck (me_opts e)" "an_ok (me_env e (me_tick e))" "\<not> an_cancelled (me_env e (me_tick e))"
    | old new c where "sn = Inr (old, new)" "cur = Inr c" "mo_RecoveryCheck (me_opts e)" "an_ok (me_env e (me_tick e))" "\<not> an_cancelled (me_env e (me_tick e))"
    by (cases s; cases cur) blast+
  then show ?thesis
  proof cases
    case 1
    then have "recover e = (Some ErrRecovery, if mo_RecoveryCheck (me_opts e) then e\<lparr>me_tick := Suc (me_tick e)\<rparr> else e)"
      by (simp add: recover_def Let_def)
    then show ?thesis
      using assms(5) by simp
  next
    case 2
    then have "recover e = (Some ErrRecovery, e2)"
      using assms(1,2) by (simp add: recover_def Let_def)
    then show ?thesis
      using assms(5) by simp
  next
    case 3
    then have "recover e = (Some ErrRecovery, e3)"
      using assms(1,2,3) by (simp add: recover_def Let_def)
    then show ?thesis
      using assms(5) by simp
  next
    case 4
    then have "Digest c \<noteq> op_OldDigest r" "Digest c \<noteq> op_NewDigest r"
      using assms(6) by simp_all
    then have "recover e = (Some ErrRecovery, e3)"
      using 4 assms(1,2,3,4) by (simp add: recover_def Let_def)
    then show ?thesis
      using assms(5) by simp
  qed
qed

lemma recover_go:
  assumes "me_active e = ident" "snapshots (the_record e ident) (e\<lparr>me_tick := Suc (me_tick e)\<rparr>) = (Inr (old, new), e2)" "readStore e2 = (Inr c, e3)"
    and "mo_RecoveryCheck (me_opts e)" "an_ok (me_env e (me_tick e))" "\<not> an_cancelled (me_env e (me_tick e))"
    and "Digest c \<in> {op_OldDigest (the_record e3 ident), op_NewDigest (the_record e3 ident)}"
    and "save ident (update_record ident to_rolling_back e3) = (err5, e5)" "writeStore old (Digest c) e5 = (err6, e6)"
      "save ident (update_record ident (\<lambda>r. r\<lparr>op_StorePersisted := False\<rparr>) e6) = (err8, e8)"
  shows "recover e = (if err5 \<noteq> None then (Some ErrRecovery, e5) else if err6 \<noteq> None then (Some ErrRecovery, e6)
        else if err8 \<noteq> None then (Some ErrRecovery, e8) else (None, e8))"
  using assms(7)
proof (elim insertE emptyE)
  assume "Digest c = op_OldDigest (the_record e3 ident)"
  then show ?thesis
    using assms(1-6,8-10) by (simp add: recover_def Let_def)
next
  assume "Digest c = op_NewDigest (the_record e3 ident)"
  then show ?thesis
    using assms(1-6,8-10) by (simp add: recover_def Let_def)
qed

lemma recover_Inv:
  assumes inv: "Inv {} e" and act: "me_active e = ident" "ident \<noteq> []" and run: "recover e = (err, e')"
  shows "Inv {} e' \<and> kept e e' \<and> me_running e' = me_running e \<and>
    (\<forall>k. k \<noteq> ident \<longrightarrow> gm_get (me_records e') k = gm_get (me_records e) k) \<and> (err = None \<longrightarrow> undone_on_disk ident e' \<and>
    same_operation (the_record e ident) (the_record e' ident))"
proof -
  have m: "memory_ok e"
    using inv by (simp add: Inv_def)
  then obtain r where r: "gm_get (me_records e) ident = Some r" "\<not> expired r"
    using act by (auto simp: memory_ok_def)
  note rec = memory_record [OF m r(1)]
  let ?e1 = "e\<lparr>me_tick := Suc (me_tick e)\<rparr>"
  obtain sn e2 where sn: "snapshots r ?e1 = (sn, e2)"
    by fastforce
  then obtain t where e2: "e2 = e\<lparr>me_tick := t\<rparr>"
    using snapshots_eq(1) [OF sn] by auto
  let ?e3 = "e2\<lparr>me_tick := Suc (me_tick e2)\<rparr>"
  obtain cur where rd: "readStore e2 = (cur, ?e3)"
    using readStore_eq(1) by blast
  have e3: "?e3 = e\<lparr>me_tick := Suc (me_tick e2)\<rparr>"
    by (simp add: e2)
  have sn': "snapshots (the_record e ident) ?e1 = (sn, e2)"
    using sn rec(6) by simp
  let ?f = "to_rolling_back"
  let ?e4 = "update_record ident ?f ?e3"
  obtain err5 e5 where sv: "save ident ?e4 = (err5, e5)"
    by fastforce
  have early: ?thesis if "err \<noteq> None" "\<exists>t. e' = e\<lparr>me_tick := t\<rparr>"
    using that inv by (auto simp: kept_def)
  show ?thesis
  proof (cases "\<exists>old new c. sn = Inr (old, new) \<and> cur = Inr c \<and> mo_RecoveryCheck (me_opts e) \<and> an_ok (me_env e (me_tick e)) \<and>
      \<not> an_cancelled (me_env e (me_tick e)) \<and> Digest c \<in> {op_OldDigest r, op_NewDigest r}")
    case False
    have "the_record ?e3 ident = r"
      using rec(6) by (simp add: e2)
    from recover_early [OF act(1) sn' rd this run False]
    have "err \<noteq> None \<and> e' \<in> {e, ?e1, e2, ?e3}" .
    moreover have "\<exists>t. x = e\<lparr>me_tick := t\<rparr>" if "x \<in> {e, ?e1, e2, ?e3}" for x
    proof -
      have "x \<in> {e\<lparr>me_tick := me_tick e\<rparr>, ?e1, e\<lparr>me_tick := t\<rparr>, e\<lparr>me_tick := Suc (me_tick e2)\<rparr>}"
        using that e2 by auto
      then show ?thesis
        by blast
    qed
    ultimately show ?thesis
      using early by blast
  next
    case True
    then obtain old new c where ok: "sn = Inr (old, new)" "cur = Inr c" "mo_RecoveryCheck (me_opts e)" "an_ok (me_env e (me_tick e))"
        "\<not> an_cancelled (me_env e (me_tick e))" "Digest c \<in> {op_OldDigest r, op_NewDigest r}"
      by blast
    have snaps: "snaps_ok (of_snapshots (pd_now (me_ops e))) r" "Digest old = op_OldDigest r" "readable (mo_MaxBytes (me_opts e)) old"
      using snapshots_eq(2) [OF sn ok(1)] by simp_all
    obtain err6 e6 where wr: "writeStore old (Digest c) e5 = (err6, e6)"
      by fastforce
    let ?e7 = "update_record ident (\<lambda>r. r\<lparr>op_StorePersisted := False\<rparr>) e6"
    obtain err8 e8 where sv8: "save ident ?e7 = (err8, e8)"
      by fastforce
    have body: "(err, e') = (if err5 \<noteq> None then (Some ErrRecovery, e5) else if err6 \<noteq> None then (Some ErrRecovery, e6)
        else if err8 \<noteq> None then (Some ErrRecovery, e8) else (None, e8))"
      using run recover_go [OF act(1) sn' [unfolded ok(1)] rd [unfolded ok(2)] ok(3,4,5) _ sv wr sv8] ok(6) rec(6) by (simp add: e2)
    have "Inv {} ?e3" "gm_get (me_records ?e3) ident = Some r"
      using inv r(1) by (simp_all add: e2)
    note up = Inv_update [OF this, of ?f]
    have f: "sound (?f r)" "expired (?f r) = expired r" "same_operation r (?f r)"
      using rec(2) r(2) by (simp_all add: sound_def expired_def same_operation_def)
    have inv4: "Inv {} ?e4"
      by (rule up) (use f snaps(1) act r in \<open>auto simp: e2\<close>)
    have sn4: "snaps_ok (of_snapshots (pd_now (me_ops ?e4))) (?f r)"
      using snaps(1) snaps_ok_same [OF f(3)] by (simp add: e2)
    have "gm_get (me_records ?e4) ident = Some (?f r)"
      using rec(6) by (simp add: e2)
    from Inv_save_open [OF inv4 this _ sn4 sv]
    obtain r5 where r5: "same_facts (?f r) r5" "op_State r5 = RollingBack" "only_record ident r5 ?e4 e5" "Inv {} e5" "still ?e4 e5"
        "me_active e5 = me_active ?e4" "of_snapshots (pd_now (me_ops e5)) = of_snapshots (pd_now (me_ops ?e4))"
      by auto
    have same5: "same_operation r r5" "\<not> expired r5" "mr_NeedsRuntime r5"
      using r5(1) f r(2) same_operation_trans [OF f(3)] by (simp_all add: same_facts_def)
    have the5: "the_record e5 (me_active e5) = r5"
      using r5(6) act only_record_the [OF r5(3)] by (simp add: e2)
    have opts5: "me_opts e5 = me_opts e" "kept e e5" "me_running e5 = me_running e"
      using r5(5) by (simp_all add: still_def kept_def e2)
    have d: "Digest old \<in> {op_OldDigest (the_record e5 (me_active e5)), op_NewDigest (the_record e5 (me_active e5))}"
      using the5 same5(1) snaps(2) by (simp add: same_operation_def)
    have "readable (mo_MaxBytes (me_opts e5)) old"
      using opts5 snaps(3) by simp
    from writeStore_Inv [OF r5(4) d this wr]
    obtain t d ps where e6: "Inv {} e6" "e6 = e5\<lparr>me_tick := t, me_store := d, me_points := ps\<rparr>" "err6 = None \<longrightarrow> me_store e6 = durable old"
      by blast
    have r6: "gm_get (me_records e6) ident = Some r5"
      using e6(2) r5(3) by (simp add: only_record_def)
    have sn6: "snaps_ok (of_snapshots (pd_now (me_ops e6))) r5"
      using e6(2) r5(7) snaps(1) snaps_ok_same [OF same5(1)] by (simp add: e2)
    have m6: "sound r5"
      using memory_record(2) [OF _ r6] e6(1) by (simp add: Inv_def)
    let ?g = "\<lambda>r. r\<lparr>op_StorePersisted := False\<rparr>"
    have act6: "me_active e6 = ident"
      using e6(2) r5(6) act by (simp add: e2)
    have inv7: "Inv {} ?e7"
      by (rule Inv_update [OF e6(1) r6]) (use m6 act6 r5(2) sn6 in auto)
    have the6: "the_record e6 ident = r5"
      using r6 by (simp add: the_record_def)
    have "gm_get (me_records ?e7) ident = Some (?g r5)" "\<not> terminal (op_State (?g r5))" "snaps_ok (of_snapshots (pd_now (me_ops ?e7))) (?g r5)"
      using the6 r5(2) sn6 snaps_ok_same [of r5 "?g r5"] by simp_all
    from Inv_save_open [OF inv7 this sv8]
    obtain r8 where r8: "same_facts (?g r5) r8" "op_State r8 = RollingBack" "only_record ident r8 ?e7 e8" "Inv {} e8" "still ?e7 e8"
        "me_active e8 = ident" "err8 = None \<longrightarrow> (\<forall>fs\<in>set (versions (me_ops e8)). journaled ident (?g r5) fs)"
      using r5(2) act6 by auto
    have kept: "kept e e6" "kept e e8" "me_running e6 = me_running e" "me_running e8 = me_running e"
      using opts5(2,3) e6(2) r8(5) by (simp_all add: kept_def still_def)
    have others: "\<forall>k. k \<noteq> ident \<longrightarrow> gm_get (me_records e5) k = gm_get (me_records e) k"
        "\<forall>k. k \<noteq> ident \<longrightarrow> gm_get (me_records e6) k = gm_get (me_records e) k"
        "\<forall>k. k \<noteq> ident \<longrightarrow> gm_get (me_records e8) k = gm_get (me_records e) k"
      using r5(3) r8(3) e6(2) by (simp_all add: only_record_def e2)
    have the8: "the_record e8 ident = r8" "gm_get (me_records e8) ident = Some r8"
      using r8(3) only_record_the [OF r8(3)] by (simp_all add: only_record_def)
    have same8: "same_operation r r8" "mr_NeedsRuntime r8" "\<not> op_StorePersisted r8" "expired r8 = expired r5"
      using r8(1) same5 same_operation_trans [OF same5(1)] by (simp_all add: same_facts_def same_operation_def)
    have "undone_on_disk ident e8" if "err6 = None" "err8 = None"
    proof -
      have "me_store e8 = durable old"
        using e6(3) that r8(5) by (simp add: still_def)
      then have "store_has (old_digest ident e8) e8"
        using snaps(2) same8(1) the8 by (auto simp: store_has_def old_digest_def same_operation_def)
      moreover have "\<forall>fs\<in>set (versions (me_ops e8)). journaled ident r8 fs"
        using r8(2,7) r5(2) same8(4) that by (simp add: journaled_def)
      ultimately show ?thesis
        using r8(2,6) same8 the8(2) by (simp add: undone_on_disk_def)
    qed
    then show ?thesis
      using body r5(4) e6(1) r8(4) opts5 kept same8(1) the8 rec(6) others by (auto split: if_splits)
  qed
qed

section \<open>Opening\<close>

lemma loaded_empty: "me_records e = [] \<Longrightarrow> me_keys e = [] \<Longrightarrow> me_active e = [] \<Longrightarrow> loaded [] e"
  by (simp add: loaded_def)

definition load_result :: "store_snapshot \<Rightarrow> op_files \<Rightarrow> managed_engine \<Rightarrow> bool" where
  "load_result s fs e \<longleftrightarrow> started s fs e \<and> Inv {} e \<and> (\<exists>e0. loaded (of_journals fs) e0 \<and> same_records e0 e \<and> me_active e0 = me_active e)"

lemma load_safe:
  assumes st: "started s fs e" and l: "loaded [] e" and run: "load su e = (err, e')"
  shows "started s fs e' \<and> me_opts e' = me_opts e \<and> (err = None \<longrightarrow> load_result s fs e')"
proof -
  let ?e1 = "e\<lparr>me_tick := Suc (me_tick e)\<rparr>"
  have st1: "started s fs ?e1"
    by (rule started_memory [OF st]) simp
  have rd: "recoverable_disk (mo_MaxBytes (me_opts e)) s fs" and now: "pd_now (me_ops e) = fs"
    using st by (simp_all add: started_def)
  obtain err2 e2 where ll: "load_loop (of_journals fs) ?e1 = (err2, e2)"
    by fastforce
  have wf: "gm_wf (of_journals fs)"
    using rd by (simp add: recoverable_disk_def)
  have dec: "\<exists>r required. decodeManagedRecord f n = Some (r, required) \<and> mr_Version r = 2" if "(n, f) \<in> set (of_journals fs)" for n f
    using recoverable_journal [OF rd, of n f] that gm_get_in [OF wf] by blast
  have lp: "only_memory ?e1 e2" "err2 = None \<longrightarrow> loaded (of_journals fs) e2"
    using load_loop_loaded [of "[]" "of_journals fs", OF _ _ dec ll] wf l by simp_all
  have st2: "started s fs e2"
    by (rule started_memory [OF st1 lp(1)])
  have opts2: "me_opts e2 = me_opts e"
    using lp(1) by (simp add: only_memory_def)
  have cases: "(err, e') = (Some ErrRecovery, ?e1) \<or> err2 \<noteq> None \<and> (err, e') = (err2, e2) \<or> err2 = None \<and> loadContextHistory su e2 = (err, e')"
    using run now ll by (auto simp: load_def Let_def split: if_splits)
  then show ?thesis
  proof (elim disjE)
    assume "err2 = None \<and> loadContextHistory su e2 = (err, e')"
    then have l2: "loaded (of_journals fs) e2" and h: "loadContextHistory su e2 = (err, e')"
      using lp(2) by simp_all
    have inv2: "Inv {} e2"
      by (rule loaded_Inv [OF st2 l2])
    show ?thesis
    proof (cases "err = None")
      case False
      then have "e' = e2"
        using h by (auto simp: loadContextHistory_def split: sum.splits)
      then show ?thesis
        using st2 False opts2 by auto
    next
      case True
      then obtain entries ids where ids: "decodeContextHistory entries (me_records e2) = Inr ids" "e' = context_changed ids e2"
        using h by (auto simp: loadContextHistory_def split: sum.splits)
      then have "history_loop (me_records e2) entries [] = Inr ids"
        by (auto simp: decodeContextHistory_def split: if_splits)
      from context_changed_Inv [OF inv2 history_loop_terminal [OF this]]
      have c: "Inv {} e'" "same_records e2 e'" "only_memory e2 e'" "me_active e' = me_active e2"
        by (simp_all add: ids(2))
      have "started s fs e'"
        by (rule started_memory [OF st2 c(3)])
      then show ?thesis
        using c l2 opts2 unfolding load_result_def only_memory_def by metis
    qed
  qed (use st1 st2 opts2 in auto)
qed

definition fresh :: "managed_options \<Rightarrow> store_snapshot \<Rightarrow> op_files \<Rightarrow> (nat \<Rightarrow> answer) \<Rightarrow> managed_engine \<Rightarrow> bool" where
  "fresh opts s fs env e \<longleftrightarrow> (\<exists>service blocked t. e = (new_engine opts s fs env)\<lparr>me_serviceID := service, me_restoreBlocked := blocked, me_tick := t\<rparr>)"

lemma fresh_started:
  assumes "fresh opts s fs env e" "fair env" "recoverable_disk (mo_MaxBytes opts) s fs" "options_valid opts"
  shows "started s fs e" "loaded [] e" "me_opts e = opts" "\<not> me_closing e"
  using assms by (auto simp: fresh_def started_def new_engine_def loaded_def)

lemma Open_cases:
  assumes run: "Open su options s fs env = (err, e')"
  defines "opts \<equiv> options_defaults options"
  shows "err \<noteq> None \<and> (e' = new_engine opts s fs env \<or> fresh opts s fs env e') \<or> (options_valid opts \<and> (\<exists>e2. fresh opts s fs env e2 \<and>
    (load su e2 = (err, e') \<and> (err \<noteq> None \<or> me_active e' = []) \<or>
     (\<exists>e3. load su e2 = (None, e3) \<and> me_active e3 \<noteq> [] \<and> recover e3 = (err, e')))))"
proof (cases "options_valid opts \<and> store_name_ok (mo_StoreName opts) \<and> su_prepare su = None \<and>
    (\<exists>x. su_identity su = Inr x) \<and> (\<exists>x. su_restore su = Inr x)")
  case False
  then have "err \<noteq> None \<and> e' = new_engine opts s fs env"
    using run by (cases "su_prepare su"; cases "su_identity su"; cases "su_restore su") (auto simp: Open_def opts_def Let_def split: if_splits, metis+)
  then show ?thesis
    by blast
next
  case True
  then obtain service blocked where su: "su_identity su = Inr service" "su_restore su = Inr blocked"
    by blast
  let ?e = "new_engine opts s fs env"
  let ?e1 = "?e\<lparr>me_serviceID := service, me_restoreBlocked := blocked\<rparr>" and ?e2 = "?e\<lparr>me_serviceID := service, me_restoreBlocked := blocked, me_tick := Suc (me_tick ?e)\<rparr>"
  obtain cur where rd: "readStore ?e1 = (cur, ?e2)"
    using readStore_eq(1) [of ?e1] by auto
  obtain err3 e3 where ld: "load su ?e2 = (err3, e3)"
    by fastforce
  have fr: "fresh opts s fs env ?e2"
    unfolding fresh_def by blast
  have body: "(case cur of Inl x \<Rightarrow> (Some x, ?e2) | Inr _ \<Rightarrow> (case err3 of Some x \<Rightarrow> (Some x, e3)
      | None \<Rightarrow> if me_active e3 \<noteq> [] then recover e3 else (None, e3))) = Open su options s fs env"
    using True su rd ld unfolding opts_def by (cases cur; cases err3) (simp_all add: Open_def Let_def)
  show ?thesis
  proof (cases "\<exists>x. cur = Inl x")
    case True
    then have "err \<noteq> None" "e' = ?e2"
      using body run by auto
    then show ?thesis
      using fr by blast
  next
    case False
    then have body: "(case err3 of Some x \<Rightarrow> (Some x, e3) | None \<Rightarrow> if me_active e3 \<noteq> [] then recover e3 else (None, e3)) = (err, e')"
      using body run by (cases cur) simp_all
    then have "load su ?e2 = (err, e') \<and> (err \<noteq> None \<or> me_active e' = []) \<or>
        load su ?e2 = (None, e3) \<and> me_active e3 \<noteq> [] \<and> recover e3 = (err, e')"
      using ld by (cases err3) (auto split: if_splits)
    then show ?thesis
      using fr True by blast
  qed
qed

text \<open>What a start leaves, whether it succeeds or not.\<close>

lemma Open_safe:
  assumes fair: "fair env" and disk: "recoverable_disk (mo_MaxBytes (options_defaults options)) s fs"
    and run: "Open su options s fs env = (err, e')"
  shows "me_opts e' = options_defaults options \<and> (\<forall>p\<in>set (me_points e'). recoverable_point (mo_MaxBytes (options_defaults options)) p) \<and>
    (err = None \<longrightarrow> at_rest e')"
proof -
  consider "err \<noteq> None" "e' = new_engine (options_defaults options) s fs env \<or> fresh (options_defaults options) s fs env e'"
    | e2 where "options_valid (options_defaults options)" "fresh (options_defaults options) s fs env e2" "load su e2 = (err, e')" "err \<noteq> None \<or> me_active e' = []"
    | e2 e3 where "options_valid (options_defaults options)" "fresh (options_defaults options) s fs env e2" "load su e2 = (None, e3)" "me_active e3 \<noteq> []"
        "recover e3 = (err, e')"
    using Open_cases [OF run] by blast
  then show ?thesis
  proof cases
    case 1
    then show ?thesis
      using disk by (auto simp: fresh_def new_engine_def recoverable_point_def)
  next
    case 2
    note st = fresh_started [OF 2(2) fair disk 2(1)]
    have s': "started s fs e'" "me_opts e' = options_defaults options" "err = None \<longrightarrow> load_result s fs e'"
      using load_safe [OF st(1,2) 2(3)] st(3) by simp_all
    have "at_rest e'" if "err = None"
      using s' 2(4) that by (auto simp: at_rest_def load_result_def started_def)
    then show ?thesis
      using started_points [OF s'(1)] s'(2) by simp
  next
    case 3
    note st = fresh_started [OF 3(2) fair disk 3(1)]
    have r: "Inv {} e3" "\<not> me_running e3" "me_opts e3 = options_defaults options"
      using load_safe [OF st(1,2) 3(3)] st(3) by (simp_all add: load_result_def started_def)
    note rec = recover_Inv [OF r(1) refl 3(4,5)]
    have "at_rest e'" if "err = None"
      using rec that r(2) 3(4) by (auto simp: at_rest_def undone_on_disk_def the_record_def)
    moreover have "me_opts e' = options_defaults options" "Inv {} e'"
      using rec r(3) by (simp_all add: kept_def)
    ultimately show ?thesis
      by (simp add: Inv_def)
  qed
qed

section \<open>A start without faults\<close>

definition calm :: "(nat \<Rightarrow> answer) \<Rightarrow> bool" where
  "calm env \<longleftrightarrow> (\<forall>k. an_fault (env k) = Fine \<and> an_probe (env k) = Fine \<and> an_ok (env k) \<and> \<not> an_cancelled (env k) \<and> an_now (env k) \<noteq> 0)"

lemma calmD: "calm env \<Longrightarrow> an_fault (env k) = Fine" "calm env \<Longrightarrow> an_ok (env k)" "calm env \<Longrightarrow> \<not> an_cancelled (env k)"
  by (simp_all add: calm_def)

lemma calm_fair: "calm env \<Longrightarrow> fair env"
  by (simp add: calm_def fair_def fault_error_def)

lemma fault_error_Fine [simp]: "fault_error Fine = None"
  by (simp add: fault_error_def)

lemma read_file_calm: "readable limit content \<Longrightarrow> read_file Fine limit content = Inr content"
  by (auto simp: read_file_def readable_def split: option.splits)

definition sized :: "managed_engine \<Rightarrow> bool" where
  "sized e \<longleftrightarrow> (\<forall>n b. gm_get (of_snapshots (pd_now (me_ops e))) n = Some b \<longrightarrow> int (length b) \<le> mo_MaxBytes (me_opts e))"

lemma read_snapshot_calm:
  assumes "calm (me_env e)" "sized e"
  shows "read_snapshot n e = (Inr (gm_get (of_snapshots (pd_now (me_ops e))) n), e\<lparr>me_tick := Suc (me_tick e)\<rparr>)"
proof -
  have "readable (mo_MaxBytes (me_opts e)) (gm_get (of_snapshots (pd_now (me_ops e))) n)"
    using assms(2) by (auto simp: sized_def readable_def split: option.split)
  then show ?thesis
    using calmD(1) [OF assms(1)] by (simp add: read_snapshot_def read_file_calm)
qed

lemma snapshots_calm:
  assumes "calm (me_env e)" "sized e" "snaps_ok (of_snapshots (pd_now (me_ops e))) r" "\<not> expired r"
  shows "\<exists>old new. fst (snapshots r e) = Inr (old, new)"
proof -
  let ?e = "e\<lparr>me_tick := Suc (me_tick e)\<rparr>"
  obtain b n where sn: "gm_get (of_snapshots (pd_now (me_ops e))) (old_name (op_ID r)) = Some b" "gm_get (of_snapshots (pd_now (me_ops e))) (new_name (op_ID r)) = Some n"
    "mr_OldExists r \<or> b = []" "Digest (if mr_OldExists r then Some b else None) = op_OldDigest r" "Digest (Some n) = op_NewDigest r"
    using assms(3) by (auto simp: snaps_ok_def)
  have c: "calm (me_env ?e)" "sized ?e"
    using assms(1,2) by (simp_all add: sized_def)
  have ms: "op_MaterialsState r \<noteq> MaterialsExpired"
    using assms(4) by (simp add: expired_def)
  have no: "\<not> (\<not> mr_OldExists r \<and> b \<noteq> [])"
    using sn(3) by blast
  show ?thesis
    using read_snapshot_calm [OF assms(1,2), of "old_name (op_ID r)"] read_snapshot_calm [OF c, of "new_name (op_ID r)"] sn(1,2,4,5) ms no
    by (simp add: snapshots_def Let_def)
qed

lemma materials_calm:
  assumes "calm (me_env e)" "sized e" "required = (\<not> expired r)" "required \<Longrightarrow> snaps_ok (of_snapshots (pd_now (me_ops e))) r"
  shows "\<not> fst (materials_bad r required e)"
proof (cases required)
  case True
  then obtain old new where "fst (snapshots r e) = Inr (old, new)"
    using snapshots_calm [OF assms(1,2)] assms(3,4) by blast
  then show ?thesis
    using True by (auto simp: materials_bad_def split: prod.split)
next
  case False
  let ?e = "e\<lparr>me_tick := Suc (me_tick e)\<rparr>"
  have c: "calm (me_env ?e)" "sized ?e"
    using assms(1,2) by (simp_all add: sized_def)
  show ?thesis
    using False read_snapshot_calm [OF assms(1,2), of "old_name (op_ID r)"] read_snapshot_calm [OF c, of "new_name (op_ID r)"]
    by (simp add: materials_bad_def checkExpiredResidues_def)
qed

lemma load_loop_calm:
  assumes "recoverable_disk limit s fs" "of_journals fs = js @ rest" "loaded js e" "calm (me_env e)" "sized e" "me_ops e = durable fs"
  shows "fst (load_loop rest e) = None"
  using assms(2-)
proof (induction rest arbitrary: js e)
  case Nil
  then show ?case
    by simp
next
  case (Cons nf rest)
  obtain name g where nf: "nf = (name, g)"
    by fastforce
  have wf: "gm_wf (of_journals fs)" and room: "length (of_journals fs) \<le> MaxManagedOperations"
    using assms(1) by (simp_all add: recoverable_disk_def)
  have j: "gm_get (of_journals fs) name = Some g"
  proof -
    have "(name, g) \<in> set (of_journals fs)"
      using Cons.prems(1) nf by simp
    then show ?thesis
      using gm_get_in [OF wf] by blast
  qed
  obtain r where r: "g = Some r" "name = journal_name (op_ID r)" "sound r" "decodeManagedRecord g name = Some (r, \<not> expired r)"
      "\<not> expired r \<longrightarrow> snaps_ok (of_snapshots fs) r"
    using recoverable_journal [OF assms(1) j] by blast
  have unique: "n' = name" if "(n', Some q) \<in> set js" "mr_KeyDigest q = mr_KeyDigest r \<or> \<not> terminal (op_State q) \<and> \<not> terminal (op_State r)" for n' q
  proof -
    have "(n', Some q) \<in> set (of_journals fs)"
      using Cons.prems(1) that(1) by simp
    then have "gm_get (of_journals fs) n' = Some (Some q)"
      using gm_get_in [OF wf] by blast
    then show ?thesis
      using assms(1) j that(2) r(1) unfolding recoverable_disk_def by blast
  qed
  have new: "name \<notin> fst ` set js"
    using wf Cons.prems(1) nf by (auto simp: gm_wf_def)
  have key: "gm_get (me_keys e) (mr_KeyDigest r) = None"
  proof (rule ccontr)
    assume "gm_get (me_keys e) (mr_KeyDigest r) \<noteq> None"
    then obtain k q where q: "gm_get (me_records e) k = Some q" "mr_KeyDigest q = mr_KeyDigest r"
      using Cons.prems(2) unfolding loaded_def by blast
    have "(journal_name k, Some q) \<in> set js"
      using loaded_record(2) [OF Cons.prems(2) q(1)] .
    with unique [OF this] q(2) new show False
      by force
  qed
  have act: "me_active e = []" if n: "\<not> terminal (op_State r)"
  proof (rule ccontr)
    assume "me_active e \<noteq> []"
    then obtain q where q: "gm_get (me_records e) (me_active e) = Some q"
      using Cons.prems(2) unfolding loaded_def by blast
    then have "\<not> terminal (op_State q)"
      using loaded_record(4) [OF Cons.prems(2) q] by (auto split: if_splits)
    with unique [OF loaded_record(2) [OF Cons.prems(2) q]] n new loaded_record(2) [OF Cons.prems(2) q] show False
      by force
  qed
  let ?e = "e\<lparr>me_tick := Suc (me_tick e)\<rparr>"
  obtain bad e1 where mb: "materials_bad r (\<not> expired r) ?e = (bad, e1)"
    by fastforce
  have "\<not> bad"
    using materials_calm [of ?e "\<not> expired r" r] mb Cons.prems(3,4,5) r(5) by (simp add: sized_def)
  moreover obtain t where e1: "e1 = e\<lparr>me_tick := t\<rparr>"
    using materials_bad_tick(1) [OF mb] by auto
  have small: "\<not> MaxManagedOperations \<le> length (me_records e)"
    using Cons.prems(1,2) room by (simp add: loaded_def)
  moreover have "fault_error (an_fault (me_env e (me_tick e))) = None"
    using calmD(1) [OF Cons.prems(3)] by simp
  ultimately have step: "load_loop (nf # rest) e = load_loop rest (load_one r e1)"
    using r(4) key act mb unfolding nf load_loop_Cons by (auto simp: e1 Let_def)
  have idn: "op_ID r \<noteq> []"
    using r(3) safeID_nonempty by (auto simp: sound_def)
  have "loaded (js @ [(journal_name (op_ID r), Some r)]) (load_one r e1)"
    by (rule loaded_step) (use Cons.prems(2,5) new r(2,5) idn key act in \<open>auto simp: e1\<close>)
  moreover have "of_journals fs = (js @ [(journal_name (op_ID r), Some r)]) @ rest"
    using Cons.prems(1) nf r(1,2) by simp
  ultimately have "fst (load_loop rest (load_one r e1)) = None"
    by (intro Cons.IH) (use Cons.prems(3,4,5) in \<open>simp_all add: e1 sized_def\<close>)
  then show ?case
    using step by simp
qed

lemma save_calm:
  assumes "calm (me_env e)"
  shows "\<exists>e'. save ident e = (None, e') \<and> me_store e' = me_store e \<and> me_opts e' = me_opts e \<and> me_env e' = me_env e"
  using calmD(1) [OF assms] by (simp add: save_def persist_def replace_journal_def replace_steps_def Let_def)

lemma writeStore_calm:
  assumes "calm (me_env e)" "me_store e = durable s" "readable (mo_MaxBytes (me_opts e)) s" "readable (mo_MaxBytes (me_opts e)) desired"
  shows "\<exists>e'. writeStore desired (Digest s) e = (None, e') \<and> me_opts e' = me_opts e \<and> me_env e' = me_env e"
proof -
  have "replace_check Fine (mo_MaxBytes (me_opts e)) (Digest s) s desired = None"
    using assms(4) read_file_calm [OF assms(3)] by (auto simp: replace_check_def readable_def split: option.splits)
  then show ?thesis
    using calmD(1) [OF assms(1)] assms(2) by (simp add: writeStore_def replace_steps_def Let_def)
qed

lemma recover_calm:
  assumes calm: "calm (me_env e)" and sz: "sized e" and st: "me_store e = durable s" "readable (mo_MaxBytes (me_opts e)) s"
    and act: "me_active e = ident" and r: "gm_get (me_records e) ident = Some r" "snaps_ok (of_snapshots (pd_now (me_ops e))) r" "\<not> expired r"
      "Digest s \<in> {op_OldDigest r, op_NewDigest r}"
    and check: "mo_RecoveryCheck (me_opts e)"
  shows "fst (recover e) = None"
proof -
  have the: "the_record e ident = r"
    using r(1) by (simp add: the_record_def)
  let ?e1 = "e\<lparr>me_tick := Suc (me_tick e)\<rparr>"
  have c1: "calm (me_env ?e1)" "sized ?e1"
    using calm sz by (simp_all add: sized_def)
  have "snaps_ok (of_snapshots (pd_now (me_ops ?e1))) r"
    using r(2) by simp
  from snapshots_calm [OF c1 this r(3)]
  obtain old new e2 where sn: "snapshots r ?e1 = (Inr (old, new), e2)"
    by (metis prod.collapse)
  note sn2 = snapshots_eq [OF sn]
  obtain t where e2: "e2 = e\<lparr>me_tick := t\<rparr>"
    using sn2(1) by auto
  let ?e3 = "e\<lparr>me_tick := Suc t\<rparr>"
  have rd: "readStore e2 = (Inr s, ?e3)"
    using calmD(1) [OF calm] st read_file_calm [OF st(2)] by (simp add: readStore_def e2)
  obtain e5 where e5: "save ident (update_record ident to_rolling_back ?e3) = (None, e5)" "me_store e5 = durable s" "me_opts e5 = me_opts e" "me_env e5 = me_env e"
    using save_calm [of "update_record ident to_rolling_back ?e3" ident] calm st(1) by auto
  obtain e6 where e6: "writeStore old (Digest s) e5 = (None, e6)" "me_env e6 = me_env e"
    using writeStore_calm [of e5 s old] calm e5 st(2) sn2(2) [OF refl] by auto
  obtain e8 where e8: "save ident (update_record ident (\<lambda>r. r\<lparr>op_StorePersisted := False\<rparr>) e6) = (None, e8)"
    using save_calm [of "update_record ident (\<lambda>r. r\<lparr>op_StorePersisted := False\<rparr>) e6" ident] calm e6(2) by auto
  have "recover e = (None, e8)"
    using recover_go [OF act _ _ check calmD(2,3) [OF calm, of "me_tick e"] _ e5(1) e6(1) e8, of new e2] sn rd the r(4) by simp
  then show ?thesis
    by simp
qed

definition calm_startup :: "startup \<Rightarrow> bool" where
  "calm_startup su \<longleftrightarrow> su_prepare su = None \<and> (\<exists>x. su_identity su = Inr x) \<and> (\<exists>x. su_restore su = Inr x) \<and> su_history su = Inr []"

lemma fresh_fields:
  assumes "fresh opts s fs env e"
  shows "me_opts e = opts" "me_env e = env" "me_store e = durable s" "me_ops e = durable fs"
  using assms by (auto simp: fresh_def new_engine_def)

lemma load_calm:
  assumes disk: "recoverable_disk (mo_MaxBytes opts) s fs" and calm: "calm env" and su: "su_history su = Inr []"
    and fr: "fresh opts s fs env e" and names: "names_count fs \<le> MaxManagedOperations * 4 + 32"
  shows "\<exists>e'. load su e = (None, e') \<and> loaded (of_journals fs) e' \<and> only_memory e e'"
proof -
  note ff = fresh_fields [OF fr]
  let ?e1 = "e\<lparr>me_tick := Suc (me_tick e)\<rparr>"
  have l: "loaded [] ?e1"
    using fr by (auto simp: fresh_def new_engine_def loaded_def)
  have sz: "sized ?e1"
    using disk ff by (simp add: sized_def recoverable_disk_def)
  have wf: "gm_wf (of_journals fs)"
    using disk by (simp add: recoverable_disk_def)
  have dec: "\<exists>r required. decodeManagedRecord f n = Some (r, required) \<and> mr_Version r = 2" if "(n, f) \<in> set (of_journals fs)" for n f
    using recoverable_journal [OF disk, of n f] that gm_get_in [OF wf] by blast
  have "fst (load_loop (of_journals fs) ?e1) = None"
    by (rule load_loop_calm [OF disk _ l _ sz]) (use calm ff in simp_all)
  then obtain e2 where ll: "load_loop (of_journals fs) ?e1 = (None, e2)"
    by (metis prod.collapse)
  have lp: "only_memory ?e1 e2" "loaded (of_journals fs) e2"
    using load_loop_loaded [of "[]" "of_journals fs", OF _ l dec ll] wf by simp_all
  have "load su e = (None, e2)"
    using ll ff names su calmD(1) [OF calm]
    by (simp add: load_def loadContextHistory_def decodeContextHistory_def context_changed_def Let_def)
  moreover have "only_memory e e2"
    by (rule only_memory_trans [OF _ lp(1)]) simp
  ultimately show ?thesis
    using lp(2) by blast
qed

text \<open>What a successful start has made of a disk.\<close>

definition recovered :: "store_snapshot \<Rightarrow> op_files \<Rightarrow> managed_engine \<Rightarrow> bool" where
  "recovered s fs e \<longleftrightarrow>
    (\<forall>n r. gm_get (of_journals fs) n = Some (Some r) \<longrightarrow> (\<exists>r'. gm_get (me_records e) (op_ID r) = Some r' \<and> same_operation r r' \<and>
      op_State r' = (if terminal (op_State r) then op_State r else RollingBack))) \<and>
    (if \<exists>n r. gm_get (of_journals fs) n = Some (Some r) \<and> \<not> terminal (op_State r)
     then \<forall>n r. gm_get (of_journals fs) n = Some (Some r) \<and> \<not> terminal (op_State r) \<longrightarrow> me_active e = op_ID r \<and> store_has (op_OldDigest r) e
     else me_active e = [] \<and> me_store e = durable s)"

lemma same_records_get:
  assumes "same_records e0 e" "gm_get (me_records e0) k = Some r"
  shows "\<exists>r'. gm_get (me_records e) k = Some r' \<and> same_operation r r' \<and> op_State r' = op_State r"
proof -
  have "map_option (\<lambda>r. r\<lparr>mr_contextChanged := False\<rparr>) (gm_get (me_records e) k) = Some (r\<lparr>mr_contextChanged := False\<rparr>)"
    using assms by (simp add: same_records_def)
  then obtain r' where r': "gm_get (me_records e) k = Some r'" "r'\<lparr>mr_contextChanged := False\<rparr> = r\<lparr>mr_contextChanged := False\<rparr>"
    by auto
  have "op_State r' = op_State r" "op_ID r' = op_ID r" "mr_KeyDigest r' = mr_KeyDigest r" "op_OldDigest r' = op_OldDigest r"
      "op_NewDigest r' = op_NewDigest r" "mr_OldExists r' = mr_OldExists r"
    using arg_cong [of _ _ op_State, OF r'(2)] arg_cong [of _ _ op_ID, OF r'(2)] arg_cong [of _ _ mr_KeyDigest, OF r'(2)]
      arg_cong [of _ _ op_OldDigest, OF r'(2)] arg_cong [of _ _ op_NewDigest, OF r'(2)] arg_cong [of _ _ mr_OldExists, OF r'(2)]
    by simp_all
  then show ?thesis
    using r'(1) by (auto simp: same_operation_def)
qed

lemma load_result_records:
  assumes lr: "load_result s fs e" and j: "gm_get (of_journals fs) n = Some (Some r)"
  shows "\<exists>r'. gm_get (me_records e) (op_ID r) = Some r' \<and> same_operation r r' \<and> op_State r' = op_State r"
    "if terminal (op_State r) then op_ID r \<noteq> me_active e else op_ID r = me_active e"
proof -
  obtain e0 where e0: "loaded (of_journals fs) e0" "same_records e0 e" "me_active e0 = me_active e"
    using lr by (auto simp: load_result_def)
  have rd: "recoverable_disk (mo_MaxBytes (me_opts e)) s fs" and wf: "gm_wf (of_journals fs)"
    using lr by (auto simp: load_result_def started_def recoverable_disk_def)
  have "n = journal_name (op_ID r)" "(n, Some r) \<in> set (of_journals fs)"
    using recoverable_journal [OF rd j] j gm_get_in [OF wf] by auto
  then have g: "gm_get (me_records e0) (op_ID r) = Some r"
    using loaded_journal [OF e0(1)] by simp
  show "\<exists>r'. gm_get (me_records e) (op_ID r) = Some r' \<and> same_operation r r' \<and> op_State r' = op_State r"
    by (rule same_records_get [OF e0(2) g])
  show "if terminal (op_State r) then op_ID r \<noteq> me_active e else op_ID r = me_active e"
    using loaded_record(4) [OF e0(1) g] e0(3) by (auto split: if_splits)
qed

lemma load_result_active:
  assumes lr: "load_result s fs e" and act: "me_active e \<noteq> []"
  shows "\<exists>n r. gm_get (of_journals fs) n = Some (Some r) \<and> \<not> terminal (op_State r)"
proof -
  obtain e0 where e0: "loaded (of_journals fs) e0" "me_active e0 = me_active e"
    using lr by (auto simp: load_result_def)
  have wf: "gm_wf (of_journals fs)"
    using lr by (auto simp: load_result_def started_def recoverable_disk_def)
  obtain r where r: "gm_get (me_records e0) (me_active e0) = Some r"
    using e0 act unfolding loaded_def by force
  have "(journal_name (me_active e0), Some r) \<in> set (of_journals fs)" "\<not> terminal (op_State r)"
    using loaded_record(2,4) [OF e0(1) r] by (auto split: if_splits)
  then show ?thesis
    using gm_get_in [OF wf] by blast
qed

lemma Open_recovered:
  assumes fair: "fair env" and disk: "recoverable_disk (mo_MaxBytes (options_defaults options)) s fs"
    and run: "Open su options s fs env = (None, e')"
  shows "recovered s fs e'"
proof -
  have inner: "\<exists>n r. gm_get (of_journals fs) n = Some (Some r) \<and> \<not> terminal (op_State r)" if "me_active e3 \<noteq> []" "load_result s fs e3" for e3
    using load_result_active that by blast
  consider e2 where "options_valid (options_defaults options)" "fresh (options_defaults options) s fs env e2" "load su e2 = (None, e')" "me_active e' = []"
    | e2 e3 where "options_valid (options_defaults options)" "fresh (options_defaults options) s fs env e2" "load su e2 = (None, e3)" "me_active e3 \<noteq> []"
        "recover e3 = (None, e')"
    using Open_cases [OF run] by blast
  then show ?thesis
  proof cases
    case 1
    note st = fresh_started [OF 1(2) fair disk 1(1)]
    have lr: "load_result s fs e'"
      using load_safe [OF st(1,2) 1(3)] by simp
    have ended: "terminal (op_State r)" if j: "gm_get (of_journals fs) n = Some (Some r)" for n r
    proof (rule ccontr)
      assume n: "\<not> terminal (op_State r)"
      have "op_ID r = []"
        using load_result_records(2) [OF lr j] n 1(4) by simp
      moreover obtain r' where "gm_get (me_records e') (op_ID r) = Some r'"
        using load_result_records(1) [OF lr j] by blast
      moreover have "memory_ok e'"
        using lr by (simp add: load_result_def Inv_def)
      ultimately show False
        using memory_record(4) by metis
    qed
    have recs: "\<exists>r'. gm_get (me_records e') (op_ID r) = Some r' \<and> same_operation r r' \<and>
        op_State r' = (if terminal (op_State r) then op_State r else RollingBack)" if j: "gm_get (of_journals fs) n = Some (Some r)" for n r
      using load_result_records(1) [OF lr j] ended [OF j] by simp
    have none: "\<not> (\<exists>n r. gm_get (of_journals fs) n = Some (Some r) \<and> \<not> terminal (op_State r))"
      using ended by blast
    have "me_store e' = durable s"
      using lr by (simp add: load_result_def started_def)
    then show ?thesis
      using recs 1(4) unfolding recovered_def if_not_P [OF none] by blast
  next
    case 2
    note st = fresh_started [OF 2(2) fair disk 2(1)]
    have lr: "load_result s fs e3" and inv: "Inv {} e3"
      using load_safe [OF st(1,2) 2(3)] by (simp_all add: load_result_def)
    define ident where "ident = me_active e3"
    have act: "me_active e3 = ident" "ident \<noteq> []"
      using 2(4) by (simp_all add: ident_def)
    note rec = recover_Inv [OF inv act 2(5)]
    then have un: "me_active e' = ident" "store_has (old_digest ident e') e'" "same_operation (the_record e3 ident) (the_record e' ident)"
        and others: "\<And>k. k \<noteq> ident \<Longrightarrow> gm_get (me_records e') k = gm_get (me_records e3) k"
      by (simp_all add: undone_on_disk_def)
    obtain q where q: "gm_get (me_records e') ident = Some q" "op_State q = RollingBack"
      using rec by (auto simp: undone_on_disk_def)
    have same: "op_ID r = ident \<and> same_operation r q" if j: "gm_get (of_journals fs) n = Some (Some r)" "\<not> terminal (op_State r)" for n r
    proof -
      have i: "op_ID r = ident"
        using load_result_records(2) [OF lr j(1)] j(2) act(1) by simp
      obtain r3 where r3: "gm_get (me_records e3) ident = Some r3" "same_operation r r3"
        using load_result_records(1) [OF lr j(1)] i by blast
      have "same_operation r3 q"
        using un(3) r3(1) q(1) by (simp add: the_record_def)
      from same_operation_trans [OF r3(2) this] show ?thesis
        using i by simp
    qed
    have recs: "\<exists>r'. gm_get (me_records e') (op_ID r) = Some r' \<and> same_operation r r' \<and>
        op_State r' = (if terminal (op_State r) then op_State r else RollingBack)" if j: "gm_get (of_journals fs) n = Some (Some r)" for n r
    proof (cases "terminal (op_State r)")
      case True
      then have "op_ID r \<noteq> ident"
        using load_result_records(2) [OF lr j] act(1) by simp
      then show ?thesis
        using load_result_records(1) [OF lr j] others True by simp
    next
      case False
      then show ?thesis
        using same [OF j False] q by simp
    qed
    have "me_active e' = op_ID r \<and> store_has (op_OldDigest r) e'" if j: "gm_get (of_journals fs) n = Some (Some r)" "\<not> terminal (op_State r)" for n r
      using same [OF j] un(1,2) q(1) by (simp add: old_digest_def the_record_def same_operation_def)
    then have "\<forall>n r. gm_get (of_journals fs) n = Some (Some r) \<and> \<not> terminal (op_State r) \<longrightarrow> me_active e' = op_ID r \<and> store_has (op_OldDigest r) e'"
      by blast
    then show ?thesis
      using recs unfolding recovered_def if_P [OF load_result_active [OF lr 2(4)]] by blast
  qed
qed

lemma Open_calm:
  assumes calm: "calm env" and su: "calm_startup su" and disk: "recoverable_disk (mo_MaxBytes (options_defaults options)) s fs"
    and opts: "options_valid (options_defaults options)" "store_name_ok (mo_StoreName (options_defaults options))" "mo_RecoveryCheck options"
    and names: "names_count fs \<le> MaxManagedOperations * 4 + 32"
  shows "\<exists>e'. Open su options s fs env = (None, e')"
proof -
  let ?opts = "options_defaults options"
  let ?e = "new_engine ?opts s fs env"
  obtain service blocked where st: "su_prepare su = None" "su_identity su = Inr service" "su_restore su = Inr blocked" "su_history su = Inr []"
    using su by (auto simp: calm_startup_def)
  let ?e1 = "?e\<lparr>me_serviceID := service, me_restoreBlocked := blocked\<rparr>" and ?e2 = "?e\<lparr>me_serviceID := service, me_restoreBlocked := blocked, me_tick := Suc (me_tick ?e)\<rparr>"
  have fr: "fresh ?opts s fs env ?e2"
    unfolding fresh_def by blast
  note ff = fresh_fields [OF fr]
  have read: "readable (mo_MaxBytes ?opts) s"
    using disk by (simp add: recoverable_disk_def)
  then have rd: "readStore ?e1 = (Inr s, ?e2)"
    using calmD(1) [OF calm] read_file_calm by (simp add: readStore_def new_engine_def)
  obtain e3 where e3: "load su ?e2 = (None, e3)" "loaded (of_journals fs) e3" "only_memory ?e2 e3"
    using load_calm [OF disk calm st(4) fr names] by blast
  note fs = fresh_started [OF fr calm_fair [OF calm] disk opts(1)]
  have lr: "load_result s fs e3"
    using load_safe [OF fs(1,2) e3(1)] by simp
  have keep: "me_opts e3 = ?opts" "me_env e3 = env" "me_store e3 = durable s" "me_ops e3 = durable fs"
    using e3(3) ff by (simp_all add: only_memory_def)
  have "Open su options s fs env = (if me_active e3 \<noteq> [] then recover e3 else (None, e3))"
    using opts(1,2) st rd e3(1) by (simp add: Open_def Let_def)
  moreover have "fst (recover e3) = None" if act: "me_active e3 \<noteq> []"
  proof -
    obtain r where r: "gm_get (me_records e3) (me_active e3) = Some r"
      using e3(2) act unfolding loaded_def by blast
    have wf: "gm_wf (of_journals fs)"
      using disk by (simp add: recoverable_disk_def)
    have j: "gm_get (of_journals fs) (journal_name (me_active e3)) = Some (Some r)" and n: "\<not> terminal (op_State r)"
      using loaded_record(2,4) [OF e3(2) r] gm_get_in [OF wf] by (auto split: if_splits)
    have "sound r" "Digest s \<in> {op_OldDigest r, op_NewDigest r}"
      using recoverable_journal [OF disk j] n by auto
    moreover from this(1) have "\<not> expired r"
      using n by (auto simp: sound_def split: if_splits)
    moreover have "sized e3"
      using disk keep by (simp add: sized_def recoverable_disk_def)
    moreover have "mo_RecoveryCheck (me_opts e3)"
      using opts(3) keep(1) by (simp add: options_defaults_def)
    ultimately show ?thesis
      using recover_calm [of e3 s "me_active e3" r] calm keep read r loaded_record(5) [OF e3(2) r] by simp
  qed
  ultimately show ?thesis
    by (metis prod.collapse)
qed

end
