(* ===== verification/Managed_Lives.thy ===== *)
theory Managed_Lives
  imports Managed_Open Counter
begin

text \<open>
  The lives of a managed store: starts, calls, failed starts and stops of the machine, in any order. A stop may leave any content
  that a directory may have between two syncs. Whatever happens, the disk stays one that can be opened.
\<close>

section \<open>The options of an engine never change\<close>

lemma replace_journal_opts: "replace_journal ident e = (err, e') \<Longrightarrow> me_opts e' = me_opts e"
  by (auto simp: replace_journal_def Let_def split: prod.splits option.splits)

lemma persist_opts: "persist ident e = (err, e') \<Longrightarrow> me_opts e' = me_opts e"
  by (auto simp: persist_def Let_def dest: replace_journal_opts split: prod.splits)

lemma save_opts: "save ident e = (err, e') \<Longrightarrow> me_opts e' = me_opts e"
  by (auto simp: save_def Let_def dest: persist_opts)

lemma state_opts_run:
  assumes "state ident st code e = (err, e')"
  shows "me_opts e' = me_opts e"
proof -
  let ?e1 = "if terminal st \<and> \<not> terminal (op_State (the_record e ident))
    then update_record ident (\<lambda>r. r\<lparr>mr_TerminalAt := Some (an_now (me_env e (me_tick e)))\<rparr>) (e\<lparr>me_tick := Suc (me_tick e)\<rparr>) else e"
  obtain err2 e2 where sv: "save ident (update_record ident (\<lambda>r. r\<lparr>op_State := st, op_ErrorCode := code\<rparr>) ?e1) = (err2, e2)"
    by fastforce
  have "me_opts e2 = me_opts e"
    using save_opts [OF sv] by simp
  moreover have "snd (state ident st code e) = (case err2 of Some x \<Rightarrow> (update_record ident (\<lambda>r. r\<lparr>op_State := OutcomeUnknown, op_ErrorCode := ''journal_failed''\<rparr>) e2)\<lparr>me_active := ident\<rparr>
      | None \<Rightarrow> if terminal st \<and> \<not> me_running e2 \<and> me_active e2 = ident then e2\<lparr>me_active := []\<rparr> else e2)"
    using sv by (cases err2) (simp_all add: state_def Let_def cong: if_cong)
  ultimately show ?thesis
    using assms by (cases err2) simp_all
qed

lemma state_opts [simp]: "me_opts (snd (state ident st code e)) = me_opts e"
  using state_opts_run [of ident st code e] by (metis prod.collapse)

lemma settle_opts [simp]: "me_opts (settle ident st code e) = me_opts e"
  by (simp add: settle_def)

lemma begin_close_opts [simp]: "me_opts (begin_close e) = me_opts e"
  by (simp add: begin_close_def Let_def split: option.split)

lemma meanwhile_opts: "me_opts (snd (meanwhile_do live ident code acts c)) = me_opts (snd c)"
  by (induction live ident code acts c rule: meanwhile_do.induct) (simp_all add: request_abort_def)

lemma yield_opts [simp]: "me_opts (yield_lock ident e) = me_opts e"
  by (simp add: yield_lock_def Let_def meanwhile_opts split: prod.split)

lemma work_done_opts [simp]: "me_opts (work_done ident e) = me_opts e"
  by (simp add: work_done_def Let_def)

lemma replace_snapshot_opts: "replace_snapshot n c x e = (err, e') \<Longrightarrow> me_opts e' = me_opts e"
  using replace_snapshot_kept(1) [of e n c x] by (simp add: kept_def)

lemma prepare_write_opts:
  assumes "prepare_write rq old now e = (res, e')"
  shows "me_opts e' = me_opts e"
proof -
  let ?i = "rq_ID rq" and ?r = "new_record rq old now"
  let ?e = "e\<lparr>me_records := gm_put ?i ?r (me_records e), me_keys := gm_put (mr_KeyDigest ?r) ?i (me_keys e), me_active := ?i\<rparr>"
  obtain err1 e1 where 1: "replace_snapshot (old_name ?i) (Some (case old of Some b \<Rightarrow> b | None \<Rightarrow> [])) [] ?e = (err1, e1)"
    by fastforce
  obtain err2 e2 where 2: "replace_snapshot (new_name ?i) (Some (rq_Candidate rq)) [] e1 = (err2, e2)"
    by fastforce
  obtain err3 e3 where 3: "save ?i e2 = (err3, e3)"
    by fastforce
  have "me_opts e1 = me_opts e" "me_opts e2 = me_opts e" "me_opts e3 = me_opts e"
    using replace_snapshot_opts [OF 1] replace_snapshot_opts [OF 2] save_opts [OF 3] by simp_all
  then show ?thesis
    using assms 1 2 3 by (auto simp: prepare_write_def seen_def mark_def Let_def split: if_splits)
qed

lemma Prepare_opts:
  assumes "Prepare ctx rq e = (res, e')"
  shows "me_opts e' = me_opts e"
proof (cases "e' = e")
  case False
  then have c: "prepare_checked rq e = (res, e')"
    using assms by (auto simp: Prepare_def refused_def seen_def split: if_splits option.splits)
  let ?e1 = "e\<lparr>me_tick := Suc (me_tick e)\<rparr>"
  let ?e2 = "?e1\<lparr>me_tick := Suc (me_tick ?e1)\<rparr>"
  obtain cur where rd: "readStore ?e1 = (cur, ?e2)"
    using readStore_eq(1) by blast
  obtain us e3 where u: "snapshotUsageLocked ?e2 = (us, e3)"
    by fastforce
  then obtain t where e3: "e3 = ?e2\<lparr>me_tick := t\<rparr>"
    using usage_tick [OF u] by blast
  let ?e4 = "e3\<lparr>me_tick := Suc (me_tick e3)\<rparr>"
  obtain j where pj: "probe_journal (rq_ID rq) e3 = (j, ?e4)"
    using probe_eq(1) by blast
  have "e' \<in> {?e1, ?e2, e3, ?e4\<lparr>me_recoveryGate := True\<rparr>} \<or> (\<exists>old now. prepare_write rq old now ?e4 = (res, e'))"
    using c rd u pj by (auto simp: prepare_checked_def refused_def Let_def split: if_splits sum.splits)
  then show ?thesis
    by (auto simp: e3 dest: prepare_write_opts)
qed simp

lemma AttachRuntime_opts:
  assumes rest: "at_rest e" and run: "AttachRuntime complete e = (err, e')"
  shows "me_opts e' = me_opts e"
proof (cases "complete \<and> \<not> me_closing e \<and> \<not> me_attached e \<and> me_active e \<noteq> [] \<and> mr_NeedsRuntime (the_record e (me_active e))")
  case False
  then show ?thesis
    using run by (auto simp: AttachRuntime_def Let_def split: if_splits)
next
  case True
  let ?i = "me_active e" and ?e = "e\<lparr>me_attached := True\<rparr>"
  have m: "memory_ok e" and inv: "Inv {} e"
    using rest by (simp_all add: at_rest_def Inv_def)
  then obtain r where r: "gm_get (me_records e) ?i = Some r" "\<not> expired r"
    using True by (auto simp: memory_ok_def)
  have the: "the_record e ?i = r"
    using r(1) by (simp add: the_record_def)
  have sn: "snaps_ok (of_snapshots (pd_now (me_ops e))) r"
    by (rule materials_snaps [OF inv r]) (use True the in simp)
  have n: "\<not> terminal (op_State r)"
    using rest True the by (simp add: at_rest_def)
  have w: "work ?i (launch ?i ?e)" "the_record (launch ?i ?e) ?i = r" "me_opts (launch ?i ?e) = me_opts e"
    using launch_work [of ?e ?i r] rest r sn True by simp_all
  have "onward ?i (launch ?i ?e) (rollbackWorker ?i True (launch ?i ?e))"
    using rollbackWorker_outcome [OF w(1), of True] w(2) n by (simp add: outcome_def)
  moreover have "e' = work_done ?i (rollbackWorker ?i True (launch ?i ?e))"
    using run True by (simp add: AttachRuntime_def Let_def)
  ultimately show ?thesis
    using w(3) by (simp add: onward_def kept_def)
qed

lemma Apply_opts:
  assumes "at_rest e" "Apply ctx ident e = (res, e')"
  shows "me_opts e' = me_opts e"
proof (cases "\<exists>r. gm_get (me_records e) ident = Some r \<and> op_State r = Prepared")
  case True
  then obtain r where r: "gm_get (me_records e) ident = Some r" "op_State r = Prepared"
    by blast
  show ?thesis
    using Apply_prepared [OF assms(1) r assms(2)] by (simp add: concluded_def onward_def kept_def)
next
  case False
  then show ?thesis
    using Apply_other [OF _ assms(2)] by blast
qed

lemma Rollback_opts: "at_rest e \<Longrightarrow> Rollback ctx ident e = (res, e') \<Longrightarrow> me_opts e' = me_opts e"
  using Rollback_undone [of e ctx ident res e'] by (simp add: undone_def onward_def kept_def)

lemma expirePrepared_opts [simp]: "me_opts (expirePrepared ident e) = me_opts e"
  by (simp add: expirePrepared_def)

lemma Close_opts: "Close e = (err, e') \<Longrightarrow> me_opts e' = me_opts e"
  by (auto simp: Close_def Let_def)

section \<open>Lives\<close>

datatype life = Down store_snapshot op_files | Up managed_engine

datatype managed_call =
    CallAttachRuntime bool
  | CallPrepare "managed_error option" managed_request
  | CallTimer string
  | CallApply "managed_error option" string
  | CallRollback "managed_error option" string
  | CallPruneSnapshots "managed_error option"
  | CallClose

fun serve :: "managed_call \<Rightarrow> managed_engine \<Rightarrow> managed_engine" where
  "serve (CallAttachRuntime complete) e = snd (AttachRuntime complete e)"
| "serve (CallPrepare ctx rq) e = snd (Prepare ctx rq e)"
| "serve (CallTimer ident) e = (if gm_get (me_records e) ident = None then e else expirePrepared ident e)"
| "serve (CallApply ctx ident) e = snd (Apply ctx ident e)"
| "serve (CallRollback ctx ident) e = snd (Rollback ctx ident e)"
| "serve (CallPruneSnapshots ctx) e = snd (snd (PruneSnapshots ctx e))"
| "serve CallClose e = snd (Close e)"

text \<open>What the machine may find after a stop at a point of an engine's history.\<close>

definition leaves :: "managed_engine \<Rightarrow> store_snapshot \<Rightarrow> op_files \<Rightarrow> bool" where
  "leaves e s fs \<longleftrightarrow> (\<exists>p\<in>set (me_points e). s \<in> set (versions (fst p)) \<and> fs \<in> set (versions (snd p)))"

inductive life_step :: "managed_options \<Rightarrow> life \<Rightarrow> life \<Rightarrow> bool" for options where
  started: "fair env \<Longrightarrow> Open su options s fs env = (None, e) \<Longrightarrow> life_step options (Down s fs) (Up e)"
| not_started: "fair env \<Longrightarrow> Open su options s fs env = (Some err, e) \<Longrightarrow> leaves e s' fs' \<Longrightarrow> life_step options (Down s fs) (Down s' fs')"
| served: "life_step options (Up e) (Up (serve call e))"
| stopped: "leaves e s fs \<Longrightarrow> life_step options (Up e) (Down s fs)"

inductive_cases life_stepE: "life_step options l l'"

fun life_initial :: "managed_options \<Rightarrow> life \<Rightarrow> bool" where
  "life_initial options (Down s fs) \<longleftrightarrow> readable (mo_MaxBytes (options_defaults options)) s \<and> of_journals fs = [] \<and> of_snapshots fs = []"
| "life_initial options (Up e) \<longleftrightarrow> False"

fun life_ok :: "managed_options \<Rightarrow> life \<Rightarrow> bool" where
  "life_ok options (Down s fs) \<longleftrightarrow> recoverable_disk (mo_MaxBytes (options_defaults options)) s fs"
| "life_ok options (Up e) \<longleftrightarrow> at_rest e \<and> me_opts e = options_defaults options"

lemma life_ok_initial: "life_initial options l \<Longrightarrow> life_ok options l"
  by (cases l) (simp_all add: recoverable_disk_def)

lemma serve_ok:
  assumes rest: "at_rest e"
  shows "at_rest (serve call e)" "me_opts (serve call e) = me_opts e"
proof -
  have "at_rest (serve call e) \<and> me_opts (serve call e) = me_opts e"
  proof (cases call)
    case (CallAttachRuntime c)
    then show ?thesis
      using AttachRuntime_rest [OF rest, of c] AttachRuntime_opts [OF rest, of c] by (metis prod.collapse serve.simps(1))
  next
    case (CallPrepare ctx rq)
    then show ?thesis
      using Prepare_rest(1) [OF rest, of ctx rq] Prepare_opts [of ctx rq e] by (metis prod.collapse serve.simps(2))
  next
    case (CallTimer ident)
    then show ?thesis
      using rest expirePrepared_rest [OF rest] by auto
  next
    case (CallApply ctx ident)
    then show ?thesis
      using Apply_rest [OF rest, of ctx ident] Apply_opts [OF rest, of ctx ident] by (metis prod.collapse serve.simps(4))
  next
    case (CallRollback ctx ident)
    then show ?thesis
      using Rollback_undone [OF rest, of ctx ident] Rollback_opts [OF rest, of ctx ident] by (metis prod.collapse serve.simps(5) undone_def)
  next
    case (CallPruneSnapshots ctx)
    then show ?thesis
      using Prune_rest [OF rest, of ctx] by (metis prod.collapse serve.simps(6))
  next
    case CallClose
    then show ?thesis
      using Close_rest [OF rest] Close_opts [of e] by (metis prod.collapse serve.simps(7))
  qed
  then show "at_rest (serve call e)" "me_opts (serve call e) = me_opts e"
    by simp_all
qed

lemma leaves_recoverable:
  assumes "\<forall>p\<in>set (me_points e). recoverable_point limit p" "leaves e s fs"
  shows "recoverable_disk limit s fs"
  using assms by (auto simp: leaves_def recoverable_point_def)

lemma rest_points: "at_rest e \<Longrightarrow> \<forall>p\<in>set (me_points e). recoverable_point (mo_MaxBytes (me_opts e)) p"
  by (simp add: at_rest_def Inv_def)

lemma life_ok_step: "life_step options l l' \<Longrightarrow> life_ok options l \<Longrightarrow> life_ok options l'"
proof (induction rule: life_step.induct)
  case (started env su s fs e)
  then show ?case
    using Open_safe [OF started(1) _ started(2)] by simp
next
  case (not_started env su s fs err e s' fs')
  then have "\<forall>p\<in>set (me_points e). recoverable_point (mo_MaxBytes (options_defaults options)) p"
    using Open_safe [OF not_started(1) _ not_started(2)] by simp
  then show ?case
    using leaves_recoverable [OF _ not_started(3)] by simp
next
  case (served e call)
  then show ?case
    using serve_ok by simp
next
  case (stopped e s fs)
  then show ?case
    using leaves_recoverable [OF rest_points stopped(1)] by simp
qed

interpretation managed_life: invariant_machine "life_initial options" "life_step options" "life_ok options" for options
  by unfold_locales (simp_all add: life_ok_initial life_ok_step)

end
