(* ===== verification/Managed_Progress.thy ===== *)
theory Managed_Progress
  imports Managed_Lives
begin

text \<open>
  When nothing fails, no deadline passes and nobody interferes, applying a prepared operation confirms it: the store then holds
  the candidate.
\<close>

definition smooth :: "instant \<Rightarrow> (nat \<Rightarrow> answer) \<Rightarrow> bool" where
  "smooth deadline env \<longleftrightarrow> calm env \<and> (\<forall>k. an_during (env k) = [] \<and> an_after (env k) = [] \<and> vf_RuntimeLoaded (an_verify (env k)) \<and>
    vf_ResourcesReady (an_verify (env k)) \<and> an_now (env k) < deadline)"

lemma smoothD:
  assumes "smooth d env"
  shows "calm env" "an_during (env k) = []" "an_after (env k) = []" "vf_RuntimeLoaded (an_verify (env k))"
    "vf_ResourcesReady (an_verify (env k))" "an_now (env k) < d" "an_ok (env k)"
  using assms by (simp_all add: smooth_def calm_def)

text \<open>A worker under way, with the content of the store.\<close>

definition going :: "string \<Rightarrow> managed_record \<Rightarrow> store_snapshot \<Rightarrow> managed_engine \<Rightarrow> bool" where
  "going ident r s e \<longleftrightarrow> smooth (op_Deadline r) (me_env e) \<and> \<not> me_closing e \<and> me_store e = durable s \<and>
    readable (mo_MaxBytes (me_opts e)) s \<and> sized e \<and> snaps_ok (of_snapshots (pd_now (me_ops e))) r \<and> \<not> expired r \<and>
    same_operation r (the_record e ident) \<and> op_Deadline (the_record e ident) = op_Deadline r \<and> \<not> expired (the_record e ident)"

lemma going_tick [simp]: "going ident r s (e\<lparr>me_tick := t\<rparr>) = going ident r s e"
  by (simp add: going_def sized_def)

lemma going_calm: "going ident r s e \<Longrightarrow> calm (me_env e)"
  by (simp add: going_def smooth_def)

lemma yield_smooth: "smooth d (me_env e) \<Longrightarrow> yield_lock ident e = e\<lparr>me_tick := Suc (me_tick e)\<rparr>"
  by (simp add: yield_lock_def smoothD Let_def)

lemma run_phase_smooth:
  "smooth d (me_env e) \<Longrightarrow> me_abortCode e = [] \<Longrightarrow>
    run_phase ident code e = (me_env e (me_tick e), False, e\<lparr>me_tick := Suc (me_tick e)\<rparr>)"
  by (simp add: run_phase_def smoothD Let_def)

lemma save_smooth:
  assumes "calm (me_env e)"
  shows "\<exists>e' n u. save ident e = (None, e') \<and> me_store e' = me_store e \<and> me_opts e' = me_opts e \<and> me_env e' = me_env e \<and>
    me_abortCode e' = me_abortCode e \<and> me_closing e' = me_closing e \<and> me_running e' = me_running e \<and> me_active e' = me_active e \<and>
    of_snapshots (pd_now (me_ops e')) = of_snapshots (pd_now (me_ops e)) \<and>
    the_record e' ident = normalizeRecordRetention n ((the_record e ident)\<lparr>op_UpdatedAt := u\<rparr>)"
  using calmD(1) [OF assms]
  by (auto simp: save_def persist_def replace_journal_def replace_steps_def Let_def ops_steps_records the_record_def update_record_def
    gm_get_put rename_in_def sync_dir_def)

lemma record_fields [simp]:
  "op_Deadline (normalizeRecordRetention n r) = op_Deadline r"
  "same_operation r (r\<lparr>op_UpdatedAt := u\<rparr>)" "same_operation r (r\<lparr>op_State := st, op_ErrorCode := code\<rparr>)"
  "same_operation r (r\<lparr>mr_TerminalAt := at\<rparr>)"
  by (simp_all add: normalizeRecordRetention_def same_operation_def Let_def)

text \<open>Writing a record of version 2 changes neither what it is about nor the rest of the engine.\<close>

lemma normalize_materials: "op_MaterialsState r = MaterialsRetained \<Longrightarrow> op_MaterialsState (normalizeRecordRetention n r) = MaterialsRetained"
  by (simp add: normalizeRecordRetention_def Let_def)

definition going_update :: "(managed_record \<Rightarrow> managed_record) \<Rightarrow> bool" where
  "going_update f \<longleftrightarrow> (\<forall>r. same_operation r (f r) \<and> op_Deadline (f r) = op_Deadline r \<and> expired (f r) = expired r)"

lemma going_updates [simp]:
  "going_update (\<lambda>r. r\<lparr>op_State := st, op_ErrorCode := code\<rparr>)" "going_update (\<lambda>r. r\<lparr>mr_TerminalAt := at\<rparr>)"
  "going_update (\<lambda>r. r\<lparr>op_StorePersisted := b\<rparr>)" "going_update (\<lambda>r. r\<lparr>op_RuntimeApplied := b\<rparr>)" "going_update (\<lambda>r. r\<lparr>op_Verification := v\<rparr>)"
  by (simp_all add: going_update_def same_operation_def expired_def)

lemma going_changed:
  assumes "going ident r s e" "going_update f"
  shows "going ident r s (update_record ident f e)"
proof -
  have "same_operation r (f (the_record e ident))"
    using assms same_operation_trans [of r "the_record e ident"] by (simp add: going_def going_update_def)
  then show ?thesis
    using assms by (simp add: going_def going_update_def sized_def)
qed

lemma going_saved:
  assumes g: "going ident r s e"
  shows "\<exists>e'. save ident e = (None, e') \<and> going ident r s e' \<and> me_running e' = me_running e \<and> me_abortCode e' = me_abortCode e \<and>
    status ident e' = status ident e"
proof -
  have "calm (me_env e)"
    by (rule going_calm [OF g])
  from save_smooth [OF this, of ident] obtain e' n u where e': "save ident e = (None, e')" "me_store e' = me_store e" "me_opts e' = me_opts e"
      "me_env e' = me_env e" "me_abortCode e' = me_abortCode e" "me_closing e' = me_closing e" "me_running e' = me_running e" "me_active e' = me_active e"
      "of_snapshots (pd_now (me_ops e')) = of_snapshots (pd_now (me_ops e))"
      "the_record e' ident = normalizeRecordRetention n ((the_record e ident)\<lparr>op_UpdatedAt := u\<rparr>)"
    by (elim exE conjE) (rule that)
  have "same_operation r (the_record e' ident)" "\<not> expired (the_record e' ident)"
    using g same_operation_trans [of r "the_record e ident"] unfolding e'(10)
    by (simp_all add: going_def normalizeRecordRetention_def expired_def same_operation_def Let_def)
  then have "going ident r s e'"
    using g e' by (simp add: going_def sized_def)
  then show ?thesis
    using e' by simp
qed

lemma going_state:
  assumes g: "going ident r s e"
  shows "\<exists>e'. state ident st code e = (None, e') \<and> going ident r s e' \<and> me_running e' = me_running e \<and>
    me_abortCode e' = me_abortCode e \<and> status ident e' = st"
proof -
  let ?e1 = "if terminal st \<and> \<not> terminal (status ident e)
    then update_record ident (\<lambda>r. r\<lparr>mr_TerminalAt := Some (an_now (me_env e (me_tick e)))\<rparr>) (e\<lparr>me_tick := Suc (me_tick e)\<rparr>) else e"
  let ?e2 = "update_record ident (\<lambda>r. r\<lparr>op_State := st, op_ErrorCode := code\<rparr>) ?e1"
  have "going ident r s ?e1"
    using g going_changed [of ident r s "e\<lparr>me_tick := Suc (me_tick e)\<rparr>"] by simp
  then have g2: "going ident r s ?e2"
    by (rule going_changed) simp
  obtain e3 where e3: "save ident ?e2 = (None, e3)" "going ident r s e3" "me_running e3 = me_running ?e2" "me_abortCode e3 = me_abortCode ?e2" "status ident e3 = status ident ?e2"
    using going_saved [OF g2] by blast
  let ?e4 = "if terminal st \<and> \<not> me_running e3 \<and> me_active e3 = ident then e3\<lparr>me_active := []\<rparr> else e3"
  have "state ident st code e = (None, ?e4)"
    using e3(1) by (simp add: state_def Let_def cong: if_cong)
  moreover have "going ident r s ?e4"
    using e3(2) by (simp add: going_def sized_def)
  moreover have "me_running ?e4 = me_running e" "me_abortCode ?e4 = me_abortCode e" "status ident ?e4 = st"
    using e3(3,4,5) by simp_all
  ultimately show ?thesis
    by blast
qed

lemma going_read:
  assumes "going ident r s e"
  shows "readStore e = (Inr s, e\<lparr>me_tick := Suc (me_tick e)\<rparr>)"
  using assms calmD(1) [OF going_calm [OF assms]] read_file_calm by (simp add: going_def readStore_def)

lemma going_snapshots:
  assumes g: "going ident r s e"
  shows "\<exists>old new t. snapshots (the_record e ident) e = (Inr (old, new), e\<lparr>me_tick := t\<rparr>) \<and> Digest new = op_NewDigest r \<and>
    readable (mo_MaxBytes (me_opts e)) new"
proof -
  have same: "same_operation r (the_record e ident)" and sn: "snaps_ok (of_snapshots (pd_now (me_ops e))) r"
    and x: "\<not> expired (the_record e ident)" "sized e"
    using g by (simp_all add: going_def)
  have "snaps_ok (of_snapshots (pd_now (me_ops e))) (the_record e ident)"
    using sn snaps_ok_same [OF same] by simp
  from snapshots_calm [OF going_calm [OF g] x(2) this x(1)]
  obtain old new e1 where s: "snapshots (the_record e ident) e = (Inr (old, new), e1)"
    by (metis prod.collapse)
  have "Digest new = op_NewDigest (the_record e ident)" "readable (mo_MaxBytes (me_opts e)) new"
    using snapshots_eq(2) [OF s refl] by simp_all
  then show ?thesis
    using s snapshots_eq(1) [OF s] same by (auto simp: same_operation_def)
qed

lemma going_write:
  assumes g: "going ident r s e" and new: "readable (mo_MaxBytes (me_opts e)) new"
  shows "\<exists>e'. writeStore new (Digest s) e = (None, e') \<and> going ident r new e' \<and> the_record e' ident = the_record e ident \<and>
    me_running e' = me_running e \<and> me_abortCode e' = me_abortCode e"
proof -
  have "replace_check Fine (mo_MaxBytes (me_opts e)) (Digest s) s new = None"
    using new read_file_calm [of "mo_MaxBytes (me_opts e)" s] g by (auto simp: going_def replace_check_def readable_def split: option.splits)
  then have w: "\<exists>t ps. writeStore new (Digest s) e = (None, e\<lparr>me_tick := t, me_store := durable new, me_points := ps\<rparr>)"
    using calmD(1) [OF going_calm [OF g]] g
    by (auto simp: going_def writeStore_def replace_steps_def Let_def rename_in_def sync_dir_def durable_def)
  then obtain t ps where "writeStore new (Digest s) e = (None, e\<lparr>me_tick := t, me_store := durable new, me_points := ps\<rparr>)"
    by blast
  moreover have "going ident r new (e\<lparr>me_tick := t, me_store := durable new, me_points := ps\<rparr>)"
    using g new by (simp add: going_def sized_def the_record_def)
  ultimately show ?thesis
    by (auto simp: the_record_def)
qed

lemma going_verify:
  assumes g: "going ident r s e" and new: "Digest s = op_NewDigest r" and run: "me_running e" "me_abortCode e = []"
  shows "\<exists>e'. apply_verify ident e = e' \<and> going ident r s e' \<and> status ident e' = Confirmed"
proof -
  have sm: "smooth (op_Deadline r) (me_env e)" "me_abortCode e = []"
    using g run by (simp_all add: going_def)
  let ?e1 = "e\<lparr>me_tick := Suc (me_tick e)\<rparr>"
  let ?e2 = "?e1\<lparr>me_tick := Suc (me_tick ?e1)\<rparr>"
  let ?a = "me_env e (Suc (me_tick e))"
  have y: "yield_lock ident e = ?e1" and p: "run_phase ident ''deadline_expired'' ?e1 = (?a, False, ?e2)"
    using yield_smooth [OF sm(1)] run_phase_smooth [of "op_Deadline r" ?e1] sm by simp_all
  have g2: "going ident r s ?e2"
    using g by simp
  let ?e3 = "?e2\<lparr>me_tick := Suc (me_tick ?e2)\<rparr>"
  have rd: "readStore ?e2 = (Inr s, ?e3)"
    by (rule going_read [OF g2])
  let ?e4 = "update_record ident (\<lambda>r. r\<lparr>op_Verification := an_verify ?a\<rparr>) ?e3"
  have "going ident r s ?e4"
    by (rule going_changed) (use g2 in simp_all)
  from going_state [OF this] obtain e5 where e5: "state ident Confirmed [] ?e4 = (None, e5)" "going ident r s e5" "me_running e5 = me_running ?e4"
      "status ident e5 = Confirmed"
    by blast
  have dg: "Digest s = op_NewDigest (the_record ?e3 ident)"
    using g new by (simp add: going_def same_operation_def)
  have "apply_verify ident e = e5"
    using y p rd e5(1) dg sm smoothD(4,5,7) [OF sm(1)] by (simp add: apply_verify_def)
  then show ?thesis
    using e5 by simp
qed

lemma going_runtime:
  assumes g: "going ident r s e" and new: "Digest s = op_NewDigest r" and run: "me_running e" "me_abortCode e = []"
  shows "going ident r s (apply_runtime ident e) \<and> status ident (apply_runtime ident e) = Confirmed"
proof -
  have sm: "smooth (op_Deadline r) (me_env e)" "me_abortCode e = []"
    using g run by (simp_all add: going_def)
  let ?e1 = "e\<lparr>me_tick := Suc (me_tick e)\<rparr>"
  let ?e2 = "?e1\<lparr>me_tick := Suc (me_tick ?e1)\<rparr>"
  let ?a = "me_env e (Suc (me_tick e))"
  have y: "yield_lock ident e = ?e1" and p: "run_phase ident ''deadline_expired'' ?e1 = (?a, False, ?e2)"
    using yield_smooth [OF sm(1)] run_phase_smooth [of "op_Deadline r" ?e1] sm by simp_all
  let ?e3 = "update_record ident (\<lambda>r. r\<lparr>op_RuntimeApplied := True\<rparr>) ?e2"
  have "going ident r s ?e3"
    by (rule going_changed) (use g in simp_all)
  from going_state [OF this] obtain e4 where e4: "state ident Verifying [] ?e3 = (None, e4)" "going ident r s e4" "me_running e4 = me_running ?e3"
      "me_abortCode e4 = me_abortCode ?e3"
    by blast
  have "apply_runtime ident e = apply_verify ident e4"
    using y p e4(1) sm smoothD(7) [OF sm(1)] by (simp add: apply_runtime_def)
  moreover have "me_running e4" "me_abortCode e4 = []"
    using e4(3,4) run by simp_all
  ultimately show ?thesis
    using going_verify [OF e4(2) new] by auto
qed

lemma going_store:
  assumes g: "going ident r s e" and old: "Digest s = op_OldDigest r" and new: "Digest new = op_NewDigest r" "readable (mo_MaxBytes (me_opts e)) new"
    and run: "me_running e" "me_abortCode e = []"
  shows "going ident r new (apply_store ident new e) \<and> status ident (apply_store ident new e) = Confirmed"
proof -
  have dg: "op_OldDigest (the_record e ident) = Digest s"
    using g old by (simp add: going_def same_operation_def)
  obtain e1 where e1: "writeStore new (Digest s) e = (None, e1)" "going ident r new e1" "me_running e1 = me_running e" "me_abortCode e1 = me_abortCode e"
    using going_write [OF g new(2)] by blast
  have "going ident r new (update_record ident (\<lambda>r. r\<lparr>op_StorePersisted := True\<rparr>) e1)"
    by (rule going_changed [OF e1(2)]) simp
  from going_saved [OF this] obtain e2 where e2: "save ident (update_record ident (\<lambda>r. r\<lparr>op_StorePersisted := True\<rparr>) e1) = (None, e2)"
      "going ident r new e2" "me_running e2 = me_running e1" "me_abortCode e2 = me_abortCode e1"
    by auto
  let ?e3 = "e2\<lparr>me_tick := Suc (me_tick e2)\<rparr>"
  have sm: "smooth (op_Deadline r) (me_env e2)" "me_abortCode e2 = []" "op_Deadline (the_record e2 ident) = op_Deadline r"
    using e1(4) e2(2,4) run(2) by (simp_all add: going_def)
  have "apply_store ident new e = apply_runtime ident ?e3"
    using dg e1(1) e2(1) sm smoothD(6) [OF sm(1)] by (simp add: apply_store_def)
  moreover have "going ident r new ?e3" "me_running ?e3" "me_abortCode ?e3 = []"
    using e1(3) e2(2,3) run sm(2) by simp_all
  ultimately show ?thesis
    using going_runtime [of ident r new ?e3] new(1) by simp
qed

lemma going_worker:
  assumes g: "going ident r s e" and old: "Digest s = op_OldDigest r" and run: "me_running e" "me_abortCode e = []"
  shows "\<exists>new. going ident r new (applyWorker ident e) \<and> status ident (applyWorker ident e) = Confirmed"
proof -
  have sm: "smooth (op_Deadline r) (me_env e)" "me_abortCode e = []"
    using g run by (simp_all add: going_def)
  let ?e1 = "e\<lparr>me_tick := Suc (me_tick e)\<rparr>"
  let ?e2 = "?e1\<lparr>me_tick := Suc (me_tick ?e1)\<rparr>"
  let ?e3 = "?e2\<lparr>me_tick := Suc (me_tick ?e2)\<rparr>"
  let ?a = "me_env e (Suc (Suc (me_tick e)))"
  have y: "yield_lock ident e = ?e1" "yield_lock ident ?e1 = ?e2" and p: "run_phase ident ''deadline_expired'' ?e2 = (?a, False, ?e3)"
    using yield_smooth [OF sm(1)] yield_smooth [of "op_Deadline r" ?e1] run_phase_smooth [of "op_Deadline r" ?e2] sm by simp_all
  have g3: "going ident r s ?e3"
    using g by simp
  obtain old' new t where sn: "snapshots (the_record ?e3 ident) ?e3 = (Inr (old', new), ?e3\<lparr>me_tick := t\<rparr>)" "Digest new = op_NewDigest r"
      "readable (mo_MaxBytes (me_opts ?e3)) new"
    using going_snapshots [OF g3] by blast
  let ?e4 = "e\<lparr>me_tick := Suc t\<rparr>"
  have d: "op_Deadline (the_record e ident) = op_Deadline r"
    using g by (simp add: going_def)
  have "applyWorker ident e = apply_store ident new ?e4"
    using y p sn(1) sm d smoothD(6,7) [OF sm(1)] by (simp add: applyWorker_def)
  moreover have "going ident r s ?e4" "me_running ?e4" "me_abortCode ?e4 = []" "readable (mo_MaxBytes (me_opts ?e4)) new"
    using g run sn(3) by simp_all
  ultimately show ?thesis
    using going_store [of ident r s ?e4 new] old sn(2) by auto
qed

lemma work_done_status:
  assumes "smooth d (me_env e)"
  shows "status ident (work_done ident e) = status ident e"
  using yield_smooth [OF assms] by (simp add: work_done_def Let_def)

lemma Apply_smooth:
  assumes rest: "at_rest e" and r: "gm_get (me_records e) ident = Some r" "op_State r = Prepared"
    and ready: "me_attached e" "\<not> me_closing e" "\<not> me_recoveryGate e" "\<not> me_restoreBlocked e"
    and smooth: "smooth (op_Deadline r) (me_env e)"
  shows "status ident (snd (Apply None ident e)) = Confirmed"
proof -
  note p = rest_prepared [OF rest r]
  obtain s where s: "me_store e = durable s" "Digest s = op_OldDigest r"
    using p(3) by (auto simp: store_has_def)
  have inv: "Inv {} e" and idle: "\<not> me_running e"
    using rest by (simp_all add: at_rest_def)
  have x: "\<not> expired r"
    using rest_nonterminal [OF rest r(1)] r(2) by simp
  have "store_ok e" "fits e (pd_now (me_ops e))"
    using inv by (simp_all add: Inv_def)
  then have "readable (mo_MaxBytes (me_opts e)) s" "sized e"
    using s(1) by (simp_all add: store_ok_def sized_def fits_def)
  then have g: "going ident r s e"
    using smooth ready(2) s(1) p(2,5) x by (simp add: going_def)
  let ?e1 = "e\<lparr>me_tick := Suc (me_tick e)\<rparr>"
  have g1: "going ident r s ?e1"
    using g by simp
  let ?e2 = "?e1\<lparr>me_tick := Suc (me_tick ?e1)\<rparr>"
  have rd: "readStore ?e1 = (Inr s, ?e2)"
    by (rule going_read [OF g1])
  have "going ident r s ?e2"
    using g by simp
  from going_state [OF this] obtain e3 where e3: "state ident Applying [] ?e2 = (None, e3)" "going ident r s e3"
    by blast
  let ?l = "launch ident e3"
  have gl: "going ident r s ?l" "me_running ?l" "me_abortCode ?l = []"
    using e3(2) by (simp_all add: launch_def going_def sized_def the_record_def)
  obtain new where w: "going ident r new (applyWorker ident ?l)" "status ident (applyWorker ident ?l) = Confirmed"
    using going_worker [OF gl(1) s(2) gl(2,3)] by blast
  have ms: "op_MaterialsState r \<noteq> MaterialsExpired"
    using x by (simp add: expired_def)
  have now: "an_now (me_env e (me_tick e)) < op_Deadline r"
    using smoothD(6) [OF smooth] .
  have "snd (Apply None ident e) = work_done ident (applyWorker ident ?l)"
    using ready idle r ms now rd s(2) e3(1) by (simp add: Apply_def)
  then show ?thesis
    using work_done_status [of "op_Deadline r"] w by (simp add: going_def)
qed

end
