(* ===== verification/Managed_Claims.thy ===== *)
theory Managed_Claims
  imports Managed_Progress
begin

text \<open>
  What a caller of the managed store can rely on, in every life that the store may have had: an unfinished change can always be
  undone, an operation that has ended did what its state says, and an outcome that was reported is not forgotten.
\<close>

definition reachable_life :: "managed_options \<Rightarrow> life \<Rightarrow> bool" where
  "reachable_life options l \<longleftrightarrow> (\<exists>l0. life_initial options l0 \<and> (life_step options)\<^sup>*\<^sup>* l0 l)"

lemma reachable_ok: "reachable_life options l \<Longrightarrow> life_ok options l"
  using managed_life.inv_reachable by (auto simp: reachable_life_def)

lemma reachable_rest: "reachable_life options (Up e) \<Longrightarrow> at_rest e \<and> me_opts e = options_defaults options"
  using reachable_ok by fastforce

lemma reachable_step: "reachable_life options l \<Longrightarrow> life_step options l l' \<Longrightarrow> reachable_life options l'"
  unfolding reachable_life_def by (meson rtranclp.rtrancl_into_rtrancl)

lemma reachable_initial: "life_initial options l \<Longrightarrow> reachable_life options l"
  by (auto simp: reachable_life_def)

text \<open>The disk under an engine at rest, as the next start will find it.\<close>

lemma rest_disk:
  assumes rest: "at_rest e" and v: "s \<in> set (versions (me_store e))" "fs \<in> set (versions (me_ops e))"
  shows "recoverable_disk (mo_MaxBytes (me_opts e)) s fs"
    "gm_get (me_records e) ident = Some r \<Longrightarrow> terminal (op_State r) \<Longrightarrow>
      \<exists>w. gm_get (of_journals fs) (journal_name ident) = Some (Some w) \<and> op_ID w = ident \<and> op_State w = op_State r \<and> same_operation r w"
    "me_active e = [] \<Longrightarrow> gm_get (of_journals fs) n = Some (Some w) \<Longrightarrow> terminal (op_State w)"
proof -
  have inv: "Inv {} e" and m: "memory_ok e" and fit: "fits e fs"
    using rest v by (simp_all add: at_rest_def Inv_def)
  have st: "store_ok e"
    using inv by (simp add: Inv_def)
  show "recoverable_disk (mo_MaxBytes (me_opts e)) s fs"
    by (rule fits_recoverable [OF m st v(1) fit])
  show "\<exists>w. gm_get (of_journals fs) (journal_name ident) = Some (Some w) \<and> op_ID w = ident \<and> op_State w = op_State r \<and> same_operation r w"
    if r: "gm_get (me_records e) ident = Some r" "terminal (op_State r)" for ident r
  proof -
    obtain w where w: "journal fs ident = Some (Some w)" "op_State w = op_State r"
      using recorded_journal [OF inv r v(2)] by blast
    then have j: "gm_get (of_journals fs) (journal_name ident) = Some (Some w)"
      by (simp add: journal_def)
    obtain q where q: "journal_name ident = journal_name (op_ID w)" "gm_get (me_records e) (op_ID w) = Some q" "same_operation w q"
      using fits_Some [OF fit j] by blast
    have "op_ID w = ident"
      using hash_differs [OF m q(2) r(1)] q(1) by (simp add: journal_name_inj)
    then show ?thesis
      using j w(2) q(2) r(1) same_operation_sym [OF q(3)] by (intro exI [of _ w]) simp
  qed
  show "terminal (op_State w)" if act: "me_active e = []" and j: "gm_get (of_journals fs) n = Some (Some w)" for n w
  proof (rule ccontr)
    assume n: "\<not> terminal (op_State w)"
    have "\<not> terminal (op_State w) \<longrightarrow> op_ID w = me_active e" "sound w"
      using fits_Some [OF fit j] by simp_all
    then have "op_ID w = []" "safeID (op_ID w)"
      using n act by (simp_all add: sound_def)
    then show False
      using safeID_nonempty by blast
  qed
qed

lemma outcome_survives:
  assumes rest: "at_rest e" and v: "s \<in> set (versions (me_store e))" "fs \<in> set (versions (me_ops e))"
    and r: "gm_get (me_records e) ident = Some r" "terminal (op_State r)"
    and opts: "me_opts e = options_defaults options" and fair: "fair env" and run: "Open su options s fs env = (None, e2)"
  shows "\<exists>r2. gm_get (me_records e2) ident = Some r2 \<and> same_operation r r2 \<and> op_State r2 = op_State r"
    "me_active e = [] \<Longrightarrow> me_store e2 = me_store e \<and> me_active e2 = []"
proof -
  note disk = rest_disk [OF rest v]
  have rec: "recovered s fs e2"
    using Open_recovered [OF fair _ run] disk(1) opts by simp
  obtain w where w: "gm_get (of_journals fs) (journal_name ident) = Some (Some w)" "op_ID w = ident" "op_State w = op_State r" "same_operation r w"
    using disk(2) [OF r] by blast
  obtain r2 where r2: "gm_get (me_records e2) ident = Some r2" "same_operation w r2" "op_State r2 = (if terminal (op_State w) then op_State w else RollingBack)"
    using rec w(1,2) unfolding recovered_def by blast
  then show "\<exists>r2. gm_get (me_records e2) ident = Some r2 \<and> same_operation r r2 \<and> op_State r2 = op_State r"
    using w(3) r(2) same_operation_trans [OF w(4) r2(2)] by simp
  show "me_store e2 = me_store e \<and> me_active e2 = []" if act: "me_active e = []"
  proof -
    obtain s0 where "me_store e = durable s0"
      using rest act by (auto simp: at_rest_def)
    moreover have none: "\<not> (\<exists>n r. gm_get (of_journals fs) n = Some (Some r) \<and> \<not> terminal (op_State r))"
      using disk(3) [OF act] by blast
    ultimately show ?thesis
      using rec v(1) unfolding recovered_def if_not_P [OF none] by simp
  qed
qed

section \<open>Preparing twice\<close>

lemma ops_steps_files: "only_files e (ops_steps ds e)"
proof (induction ds arbitrary: e)
  case (Cons d ds)
  have "only_files e (e\<lparr>me_ops := d, me_points := (me_store e, d) # me_points e\<rparr>)"
    unfolding only_files_def by (intro exI [of _ "me_tick e"] exI [of _ d] exI [of _ "(me_store e, d) # me_points e"]) simp
  from only_files_trans [OF this Cons.IH] show ?case
    by simp
qed simp

lemma ops_steps_tick [simp]: "only_files e (ops_steps ds (e\<lparr>me_tick := t\<rparr>))"
  by (rule only_files_trans [OF only_files_tick ops_steps_files])

lemma only_files_flags:
  "only_files e e' \<Longrightarrow> me_closing e' = me_closing e" "only_files e e' \<Longrightarrow> me_restoreBlocked e' = me_restoreBlocked e"
  by (auto simp: only_files_def)

lemma replace_snapshot_files: "replace_snapshot n c x e = (err, e') \<Longrightarrow> only_files e e'"
  by (auto simp: replace_snapshot_def Let_def split: option.splits prod.splits)

lemma save_kept:
  assumes "save ident e = (err, e')"
  shows "me_closing e' = me_closing e" "me_restoreBlocked e' = me_restoreBlocked e" "me_recoveryGate e' = me_recoveryGate e"
    "\<exists>n u. the_record e' ident = normalizeRecordRetention n ((the_record e ident)\<lparr>op_UpdatedAt := u\<rparr>)"
    "gm_get (me_records e') ident = Some (the_record e' ident)"
proof -
  obtain err1 e1 where 1: "replace_journal ident (update_record ident (normalizeRecordRetention (an_now (me_env e (Suc (me_tick e)))))
      ((update_record ident (\<lambda>r. r\<lparr>op_UpdatedAt := an_now (me_env e (me_tick e))\<rparr>) (e\<lparr>me_tick := Suc (me_tick e)\<rparr>))\<lparr>me_tick := Suc (Suc (me_tick e))\<rparr>)) = (err1, e1)"
    by fastforce
  have "only_files (update_record ident (normalizeRecordRetention (an_now (me_env e (Suc (me_tick e)))))
      ((update_record ident (\<lambda>r. r\<lparr>op_UpdatedAt := an_now (me_env e (me_tick e))\<rparr>) (e\<lparr>me_tick := Suc (me_tick e)\<rparr>))\<lparr>me_tick := Suc (Suc (me_tick e))\<rparr>)) e1"
    using 1 by (auto simp: replace_journal_def Let_def split: option.splits prod.splits)
  moreover have "e1 = e'"
    using assms 1 by (simp add: save_def persist_def)
  ultimately show "me_closing e' = me_closing e" "me_restoreBlocked e' = me_restoreBlocked e" "me_recoveryGate e' = me_recoveryGate e"
    "\<exists>n u. the_record e' ident = normalizeRecordRetention n ((the_record e ident)\<lparr>op_UpdatedAt := u\<rparr>)"
    "gm_get (me_records e') ident = Some (the_record e' ident)"
    using only_files_same(1,3) only_files_flags by (auto simp: the_record_def)
qed

lemma prepare_write_matches:
  assumes "prepare_write rq old now e = ((res, None), e')"
  shows "mr_KeyDigest (the_record e' (rq_ID rq)) = idHash (rq_IdempotencyKey rq)" "mr_Fingerprint (the_record e' (rq_ID rq)) = fingerprint rq"
    "me_closing e' = me_closing e" "me_restoreBlocked e' = me_restoreBlocked e" "me_recoveryGate e' = me_recoveryGate e"
    "res = Some (visibleOperation (the_record e' (rq_ID rq)))" "gm_get (me_records e') (rq_ID rq) = Some (the_record e' (rq_ID rq))"
proof -
  let ?i = "rq_ID rq" and ?r = "new_record rq old now"
  let ?e = "e\<lparr>me_records := gm_put ?i ?r (me_records e), me_keys := gm_put (mr_KeyDigest ?r) ?i (me_keys e), me_active := ?i\<rparr>"
  obtain err1 e1 where 1: "replace_snapshot (old_name ?i) (Some (case old of Some b \<Rightarrow> b | None \<Rightarrow> [])) [] ?e = (err1, e1)"
    by fastforce
  obtain err2 e2 where 2: "replace_snapshot (new_name ?i) (Some (rq_Candidate rq)) [] e1 = (err2, e2)"
    by fastforce
  obtain err3 e3 where 3: "save ?i e2 = (err3, e3)"
    by fastforce
  have f: "only_files ?e e2"
    by (rule only_files_trans [OF replace_snapshot_files [OF 1] replace_snapshot_files [OF 2]])
  have e3: "e' = e3" "res = Some (visibleOperation (the_record e3 ?i))"
    using assms 1 2 3 by (auto simp: prepare_write_def seen_def Let_def split: if_splits)
  have r2: "the_record e2 ?i = ?r"
    using only_files_same(1) [OF f] by (simp add: the_record_def gm_get_put)
  note k = save_kept [OF 3]
  obtain n u where r3: "the_record e3 ?i = normalizeRecordRetention n (?r\<lparr>op_UpdatedAt := u\<rparr>)"
    using k(4) r2 by auto
  show "mr_KeyDigest (the_record e' ?i) = idHash (rq_IdempotencyKey rq)" "mr_Fingerprint (the_record e' ?i) = fingerprint rq"
    by (simp_all add: e3 r3 normalizeRecordRetention_def new_record_def Let_def)
  show "me_closing e' = me_closing e" "me_restoreBlocked e' = me_restoreBlocked e" "me_recoveryGate e' = me_recoveryGate e"
    using k(1,2,3) only_files_flags [OF f] only_files_same(3) [OF f] by (simp_all add: e3)
  show "res = Some (visibleOperation (the_record e' ?i))" "gm_get (me_records e') ?i = Some (the_record e' ?i)"
    using e3 k(5) by simp_all
qed

lemma prepare_checked_success:
  assumes "prepare_checked rq e = ((Some op, None), e')"
  shows "\<exists>old now t. prepare_write rq old now (e\<lparr>me_tick := t\<rparr>) = ((Some op, None), e')"
proof -
  let ?e1 = "e\<lparr>me_tick := Suc (me_tick e)\<rparr>"
  let ?e2 = "?e1\<lparr>me_tick := Suc (me_tick ?e1)\<rparr>"
  obtain cur where rd: "readStore ?e1 = (cur, ?e2)"
    using readStore_eq(1) by blast
  obtain us e3 where u: "snapshotUsageLocked ?e2 = (us, e3)"
    by fastforce
  then obtain t where e3: "e3 = ?e2\<lparr>me_tick := t\<rparr>"
    using usage_tick [OF u] by blast
  let ?e4 = "e3\<lparr>me_tick := Suc (me_tick e3)\<rparr>"
  obtain j where pj: "probe_journal (rq_ID rq) e3 = (j, ?e4)"
    using probe_eq(1) by blast
  have "\<exists>old now. prepare_write rq old now ?e4 = ((Some op, None), e')"
    using assms rd u pj by (auto simp: prepare_checked_def refused_def Let_def split: if_splits sum.splits)
  then show ?thesis
    using e3 by auto
qed

lemma Prepare_again:
  assumes run: "Prepare ctx rq e = ((Some op, None), e')"
  shows "Prepare None rq e' = ((Some op, None), e')"
proof (cases "gm_get (me_records e) (rq_ID rq)")
  case (Some r)
  then have "ctx = None" "e' = e"
    using run by (auto simp: Prepare_def refused_def seen_def split: if_splits)
  then show ?thesis
    using run by simp
next
  case None
  then have c: "request_valid (me_opts e) rq" "\<not> me_closing e" "\<not> me_recoveryGate e" "\<not> me_restoreBlocked e" "prepare_checked rq e = ((Some op, None), e')"
    using run by (auto simp: Prepare_def refused_def split: if_splits)
  obtain old now t where w: "prepare_write rq old now (e\<lparr>me_tick := t\<rparr>) = ((Some op, None), e')"
    using prepare_checked_success [OF c(5)] by blast
  note m = prepare_write_matches [OF w]
  have "me_opts e' = me_opts e"
    by (rule Prepare_opts [OF run])
  then show ?thesis
    using m c by (simp add: Prepare_def seen_def)
qed

section \<open>While a worker runs\<close>

lemma running_refuses:
  assumes m: "memory_ok e" and run: "me_running e" "me_active e = ident" "ident \<noteq> []" "me_attached e" "status ident e \<noteq> Prepared"
  shows "snd (AttachRuntime complete e) = e" "snd (Prepare ctx rq e) = e" "snd (Apply ctx k e) = e"
    "snd (snd (PruneSnapshots ctx e)) = e" "k \<noteq> ident \<Longrightarrow> snd (Rollback ctx k e) = e" "gm_get (me_records e) k \<noteq> None \<Longrightarrow> expirePrepared k e = e"
proof -
  have np: "op_State r \<noteq> Prepared" if "gm_get (me_records e) k = Some r" for k r
    using memory_record(5,6) [OF m that] run(2,5) by (cases "k = ident") auto
  show "snd (AttachRuntime complete e) = e"
    using run(4) by (simp add: AttachRuntime_def)
  show "snd (Prepare ctx rq e) = e"
    using run by (simp add: Prepare_def refused_def split: option.split)
  show "snd (Apply ctx k e) = e"
    using np by (simp add: Apply_def split: option.split)
  show "snd (snd (PruneSnapshots ctx e)) = e"
    using run by (simp add: PruneSnapshots_def Let_def)
  show "snd (Rollback ctx k e) = e" if "k \<noteq> ident"
    using run that by (simp add: Rollback_def split: option.split)
  show "expirePrepared k e = e" if "gm_get (me_records e) k \<noteq> None"
    using np that by (auto simp: expirePrepared_def the_record_def)
qed

section \<open>Journals that do not decode\<close>

lemma load_loop_decodes:
  assumes "load_loop js e = (None, e')"
  shows "\<forall>(n, f)\<in>set js. decodeManagedRecord f n \<noteq> None"
  using assms
proof (induction js arbitrary: e)
  case (Cons nf js)
  obtain n g where nf: "nf = (n, g)"
    by fastforce
  obtain e1 where e1: "decodeManagedRecord g n \<noteq> None" "load_loop js e1 = (None, e')"
    using Cons.prems unfolding nf load_loop_Cons by (auto simp: Let_def split: if_splits option.splits prod.splits)
  show ?case
    using Cons.IH [OF e1(2)] e1(1) nf by simp
qed simp

lemma Open_decodes:
  assumes "Open su options s fs env = (None, e')" "gm_get (of_journals fs) n = Some f"
  shows "decodeManagedRecord f n \<noteq> None"
proof -
  obtain e2 e3 where e: "fresh (options_defaults options) s fs env e2" "load su e2 = (None, e3)"
    using Open_cases [OF assms(1)] by auto
  obtain e4 where "load_loop (of_journals fs) (e2\<lparr>me_tick := Suc (me_tick e2)\<rparr>) = (None, e4)"
    using e(2) fresh_fields(4) [OF e(1)] by (auto simp: load_def Let_def split: if_splits prod.splits)
  from load_loop_decodes [OF this] show ?thesis
    using map_of_SomeD [OF assms(2)] by auto
qed

section \<open>Small facts about the calls\<close>

lemma state_calm:
  assumes "calm (me_env e)"
  shows "fst (state ident st code e) = None"
proof -
  let ?e1 = "if terminal st \<and> \<not> terminal (op_State (the_record e ident))
    then update_record ident (\<lambda>r. r\<lparr>mr_TerminalAt := Some (an_now (me_env e (me_tick e)))\<rparr>) (e\<lparr>me_tick := Suc (me_tick e)\<rparr>) else e"
  have "calm (me_env (update_record ident (\<lambda>r. r\<lparr>op_State := st, op_ErrorCode := code\<rparr>) ?e1))"
    using assms by simp
  from save_calm [OF this, of ident] obtain e2
    where "save ident (update_record ident (\<lambda>r. r\<lparr>op_State := st, op_ErrorCode := code\<rparr>) ?e1) = (None, e2)"
    by blast
  then show ?thesis
    by (simp add: state_def Let_def cong: if_cong)
qed

lemma Prepare_known:
  assumes "Prepare ctx rq e = ((Some op, None), e')"
  shows "gm_get (me_records e') (rq_ID rq) \<noteq> None"
proof (cases "gm_get (me_records e) (rq_ID rq)")
  case (Some r)
  then show ?thesis
    using assms by (auto simp: Prepare_def refused_def seen_def split: if_splits)
next
  case None
  then have "prepare_checked rq e = ((Some op, None), e')"
    using assms by (auto simp: Prepare_def refused_def split: if_splits)
  from prepare_checked_success [OF this] show ?thesis
    using prepare_write_matches(7) by force
qed

lemma with_operation_fields [simp]: "mr_Version (with_operation op r) = mr_Version r" "op_MaterialsState (with_operation op r) = op_MaterialsState op"
    "op_ID (with_operation op r) = op_ID op"
  by (cases op; simp add: with_operation_def Operation.defs managed_record.defs)+

end
