(* ===== verification/Managed_Properties.thy ===== *)
theory Managed_Properties
  imports Managed_Claims
begin

text \<open>
  The properties of the managed store. Their witnesses follow one store from its first start on: nothing fails and the clock stands
  still.
\<close>

section \<open>A store and its first operation\<close>

definition demo_answer :: answer where
  "demo_answer = \<lparr>an_fault = Fine, an_probe = Fine, an_now = 5, an_ok = True,
    an_verify = noVerification\<lparr>vf_RuntimeLoaded := True, vf_ResourcesReady := True\<rparr>, an_cancelled = False, an_during = [], an_after = []\<rparr>"

definition demo_env :: "nat \<Rightarrow> answer" where "demo_env = (\<lambda>_. demo_answer)"

definition demo_settings :: managed_options where
  "demo_settings = \<lparr>mo_StoreName = ''store.json'', mo_MaxBytes = 0, mo_SnapshotRetentionDays = 0, mo_MaxSnapshotBytes = 0,
    mo_MaxOperations = 0, mo_RollbackTimeout = 0, mo_CloseTimeout = 0, mo_RecoveryCheck = True\<rparr>"

definition demo_su :: startup where
  "demo_su = \<lparr>su_prepare = None, su_identity = Inr ''id'', su_restore = Inr False, su_history = Inr []\<rparr>"

definition no_files :: op_files where
  "no_files = \<lparr>of_journals = [], of_snapshots = [], of_others = 0\<rparr>"

definition demo_rq :: managed_request where
  "demo_rq = \<lparr>rq_ID = ''op1'', rq_IdempotencyKey = ''key1'', rq_BaseRevision = Digest None, rq_ContextRevision = Digest None,
    rq_RequestDigest = Digest None, rq_ExpectedDigest = Digest None, rq_Candidate = ''new'', rq_Deadline = 9\<rparr>"

definition demo_open :: managed_engine where "demo_open = snd (Open demo_su demo_settings None no_files demo_env)"
definition demo_prepared :: managed_engine where "demo_prepared = serve (CallPrepare None demo_rq) demo_open"

lemmas demo_defs = demo_answer_def demo_env_def demo_settings_def demo_su_def no_files_def demo_rq_def

lemma demo_settings_ok: "options_valid (options_defaults demo_settings)" "store_name_ok (mo_StoreName (options_defaults demo_settings))"
    "mo_RecoveryCheck demo_settings"
proof -
  have json: "suffix ''.json'' ''store.json''"
    unfolding suffix_def by (rule exI [of _ "''store''"]) simp
  show "options_valid (options_defaults demo_settings)" "mo_RecoveryCheck demo_settings"
    by (simp_all add: options_valid_def options_defaults_def demo_settings_def second_def MaxManagedOperations_def)
  show "store_name_ok (mo_StoreName (options_defaults demo_settings))"
    by (simp add: json options_defaults_def demo_settings_def store_name_ok_def safeID_def id_char_def TrimSuffix_def ascii_lower_def)
qed

lemma demo_Open: "Open demo_su demo_settings None no_files demo_env = (None, demo_open)"
  "demo_open = (new_engine (options_defaults demo_settings) None no_files demo_env)\<lparr>me_serviceID := ''id'', me_tick := 2\<rparr>"
proof -
  have "Open demo_su demo_settings None no_files demo_env =
      (None, (new_engine (options_defaults demo_settings) None no_files demo_env)\<lparr>me_serviceID := ''id'', me_tick := 2\<rparr>)"
    using demo_settings_ok by (simp add: Open_def load_def loadContextHistory_def decodeContextHistory_def context_changed_def new_engine_def readStore_def
      options_defaults_def demo_defs read_file_def names_count_def Let_def)
  then show "Open demo_su demo_settings None no_files demo_env = (None, demo_open)"
      "demo_open = (new_engine (options_defaults demo_settings) None no_files demo_env)\<lparr>me_serviceID := ''id'', me_tick := 2\<rparr>"
    by (simp_all add: demo_open_def)
qed

definition demo_record :: managed_record where
  "demo_record = new_record demo_rq None 5"

definition demo_snaps :: "string gomap" where
  "demo_snaps = gm_put (new_name ''op1'') ''new'' (gm_put (old_name ''op1'') [] [])"

lemma demo_valid: "request_valid (options_defaults demo_settings) demo_rq"
  by (simp add: request_valid_def demo_rq_def safeID_def id_char_def options_defaults_def demo_settings_def)

abbreviation demo_state :: "managed_record gomap \<Rightarrow> op_files dir \<Rightarrow> (store_snapshot dir \<times> op_files dir) list \<Rightarrow> nat \<Rightarrow> managed_engine" where
  "demo_state records files points tick \<equiv> \<lparr>me_opts = options_defaults demo_settings, me_serviceID = ''id'', me_records = records,
     me_keys = [(idHash ''key1'', ''op1'')], me_active = ''op1'', me_attached = False, me_running = False,
     me_restoring = False, me_abortCode = [], me_closing = False, me_released = False, me_recoveryGate = False,
     me_restoreBlocked = False, me_store = durable None, me_ops = files, me_points = points,
     me_env = demo_env, me_tick = tick\<rparr>"

lemma demo_checked: "prepare_checked demo_rq demo_open = prepare_write demo_rq None 5 (demo_open\<lparr>me_tick := 6\<rparr>)"
  by (simp add: prepare_checked_def demo_Open(2) new_engine_def readStore_def snapshotUsageLocked_def probe_journal_def read_file_def
    names_count_def options_defaults_def demo_defs hour_def second_def Let_def)

lemma demo_fresh: "Prepare None demo_rq demo_open = prepare_checked demo_rq demo_open"
  using demo_valid by (simp add: Prepare_def demo_Open(2) new_engine_def options_defaults_def demo_settings_def)

lemma demo_written:
  "\<exists>points. prepare_write demo_rq None 5 (demo_open\<lparr>me_tick := 6\<rparr>) = ((Some (visibleOperation demo_record), None),
    demo_state [(''op1'', demo_record)] (durable \<lparr>of_journals = [(journal_name ''op1'', Some demo_record)], of_snapshots = demo_snaps, of_others = 0\<rparr>) points 11)"
  by (simp add: prepare_write_def demo_Open(2) new_engine_def replace_snapshot_def replace_check_def replace_steps_def read_file_def
    save_def persist_def replace_journal_def normalizeRecordRetention_def seen_def the_record_def update_record_def demo_record_def new_record_def
    demo_snaps_def options_defaults_def demo_defs sync_dir_def rename_in_def durable_def gm_get_put Let_def)

lemma demo_Prepare: "\<exists>points. Prepare None demo_rq demo_open = ((Some (visibleOperation demo_record), None), demo_prepared) \<and>
    demo_prepared = demo_state [(''op1'', demo_record)] (durable \<lparr>of_journals = [(journal_name ''op1'', Some demo_record)], of_snapshots = demo_snaps, of_others = 0\<rparr>) points 11"
  using demo_written unfolding demo_prepared_def serve.simps demo_fresh demo_checked by auto

definition demo_attached :: managed_engine where "demo_attached = serve (CallAttachRuntime True) demo_prepared"

lemma demo_attached_eq: "demo_attached = demo_prepared\<lparr>me_attached := True\<rparr>"
proof -
  obtain points where p: "demo_prepared = demo_state [(''op1'', demo_record)] (durable \<lparr>of_journals = [(journal_name ''op1'', Some demo_record)],
      of_snapshots = demo_snaps, of_others = 0\<rparr>) points 11"
    using demo_Prepare by blast
  have "\<not> me_closing demo_prepared" "\<not> me_attached demo_prepared" "the_record demo_prepared (me_active demo_prepared) = demo_record"
    by (simp_all add: p the_record_def)
  then show ?thesis
    by (simp add: demo_attached_def AttachRuntime_def Let_def demo_record_def new_record_def the_record_def)
qed

lemma demo_calm: "calm demo_env" "fair demo_env" "calm_startup demo_su" "smooth 9 demo_env"
  by (auto simp: calm_def fair_def smooth_def calm_startup_def demo_defs fault_error_def)

lemma demo_initial: "life_initial demo_settings (Down None no_files)"
  by (simp add: readable_def no_files_def)

lemma demo_lives:
  "reachable_life demo_settings (Down None no_files)" "reachable_life demo_settings (Up demo_open)"
  "reachable_life demo_settings (Up demo_prepared)" "reachable_life demo_settings (Up demo_attached)"
proof -
  show 1: "reachable_life demo_settings (Down None no_files)"
    by (rule reachable_initial [OF demo_initial])
  show 2: "reachable_life demo_settings (Up demo_open)"
    by (rule reachable_step [OF 1]) (rule life_step.started [OF demo_calm(2) demo_Open(1)])
  show 3: "reachable_life demo_settings (Up demo_prepared)"
    unfolding demo_prepared_def by (rule reachable_step [OF 2 life_step.served])
  show "reachable_life demo_settings (Up demo_attached)"
    unfolding demo_attached_def by (rule reachable_step [OF 3 life_step.served])
qed

lemma demo_attached_facts: "gm_get (me_records demo_attached) ''op1'' = Some demo_record" "op_State demo_record = Prepared"
    "me_attached demo_attached" "\<not> me_closing demo_attached" "\<not> me_recoveryGate demo_attached" "\<not> me_restoreBlocked demo_attached"
    "me_env demo_attached = demo_env" "op_Deadline demo_record = 9" "me_active demo_attached = ''op1''"
    "op_NewDigest demo_record = Digest (Some ''new'')" "the_record demo_attached ''op1'' = demo_record" "mr_Version demo_record = 2"
proof -
  obtain points where p: "demo_prepared = demo_state [(''op1'', demo_record)] (durable \<lparr>of_journals = [(journal_name ''op1'', Some demo_record)],
      of_snapshots = demo_snaps, of_others = 0\<rparr>) points 11"
    using demo_Prepare by blast
  show "gm_get (me_records demo_attached) ''op1'' = Some demo_record" "op_State demo_record = Prepared"
    "me_attached demo_attached" "\<not> me_closing demo_attached" "\<not> me_recoveryGate demo_attached" "\<not> me_restoreBlocked demo_attached"
    "me_env demo_attached = demo_env" "op_Deadline demo_record = 9" "me_active demo_attached = ''op1''"
    "op_NewDigest demo_record = Digest (Some ''new'')" "the_record demo_attached ''op1'' = demo_record" "mr_Version demo_record = 2"
    by (simp_all add: demo_attached_eq p demo_record_def new_record_def demo_rq_def the_record_def)
qed

section \<open>Properties\<close>





text \<open>C14. When nothing fails, no deadline passes and nobody interferes, applying a prepared operation confirms it, and the
  candidate is in the store.\<close>

theorem managed_apply_confirms:
  assumes "reachable_life options (Up e)" "gm_get (me_records e) ident = Some r" "op_State r = Prepared"
    and "me_attached e" "\<not> me_closing e" "\<not> me_recoveryGate e" "\<not> me_restoreBlocked e" "smooth (op_Deadline r) (me_env e)"
  shows "status ident (snd (Apply None ident e)) = Confirmed \<and> store_has (op_NewDigest r) (snd (Apply None ident e))"
proof -
  have rest: "at_rest e"
    using reachable_rest [OF assms(1)] by simp
  have st: "status ident (snd (Apply None ident e)) = Confirmed"
    by (rule Apply_smooth [OF rest assms(2-8)])
  have "Apply None ident e = (fst (Apply None ident e), snd (Apply None ident e))"
    by simp
  from Apply_prepared [OF rest assms(2,3) this] have "store_has (new_digest ident (snd (Apply None ident e))) (snd (Apply None ident e))"
      "same_operation r (the_record (snd (Apply None ident e)) ident)"
    using st assms(2) by (simp_all add: concluded_def onward_def the_record_def)
  then show ?thesis
    using st by (simp add: new_digest_def same_operation_def)
qed

lemma managed_apply_confirms_witness: "status ''op1'' (snd (Apply None ''op1'' demo_attached)) = Confirmed"
  using managed_apply_confirms [OF demo_lives(4) demo_attached_facts(1-6)] demo_calm(4) demo_attached_facts(7,8) by simp


lemma demo_rollback_state: "snd (Rollback None ''op1'' demo_attached) = snd (state ''op1'' Cancelled ''cancelled_before_apply'' demo_attached)"
proof -
  have rest: "at_rest demo_attached"
    using reachable_rest [OF demo_lives(4)] by simp
  note f = demo_attached_facts
  have run: "\<not> me_running demo_attached"
    using rest by (simp add: at_rest_def)
  have x: "op_MaterialsState demo_record \<noteq> MaterialsExpired" "\<not> mr_contextChanged demo_record"
    by (simp_all add: demo_record_def new_record_def)
  have "rollback_refusal ''op1'' demo_attached = None"
    using f(1,4,5,6) x by (simp add: rollback_refusal_def)
  then show ?thesis
    using f(2,11) run by (simp add: Rollback_def seen_def split: prod.split)
qed

lemma demo_rollback: "status ''op1'' (snd (Rollback None ''op1'' demo_attached)) = Cancelled"
  "still demo_attached (snd (Rollback None ''op1'' demo_attached))"
  "gm_get (me_records (snd (Rollback None ''op1'' demo_attached))) ''op1'' = Some (the_record (snd (Rollback None ''op1'' demo_attached)) ''op1'')"
proof -
  have rest: "at_rest demo_attached"
    using reachable_rest [OF demo_lives(4)] by simp
  note f = demo_attached_facts
  obtain err e1 where s: "state ''op1'' Cancelled ''cancelled_before_apply'' demo_attached = (err, e1)"
    by fastforce
  have e1: "snd (Rollback None ''op1'' demo_attached) = e1"
    using demo_rollback_state s by simp
  have "err = None"
    using state_calm [of demo_attached "''op1''" Cancelled "''cancelled_before_apply''"] f(7) demo_calm(1) s by simp
  then show "status ''op1'' (snd (Rollback None ''op1'' demo_attached)) = Cancelled" "still demo_attached (snd (Rollback None ''op1'' demo_attached))"
    using rest_state [OF rest f(9,1) rest_prepared(2) [OF rest f(1,2)] _ _ s] rest_prepared(3) [OF rest f(1,2)] unfolding e1
    by (auto simp: store_has_def)
  have inv: "Inv {''op1''} demo_attached"
    using rest Inv_weaken [of "{}" demo_attached "{''op1''}"] by (simp add: at_rest_def)
  show "gm_get (me_records (snd (Rollback None ''op1'' demo_attached))) ''op1'' = Some (the_record (snd (Rollback None ''op1'' demo_attached)) ''op1'')"
    using state_Inv [OF inv f(9,1) rest_prepared(2) [OF rest f(1,2)] s] unfolding e1 by (auto simp: only_record_def the_record_def)
qed


text \<open>C16. Preparing is idempotent: a request that was accepted once is answered with the same operation again, and changes nothing.\<close>

theorem managed_prepare_idempotent:
  assumes "Prepare ctx rq e = ((Some op, None), e')"
  shows "Prepare None rq e' = ((Some op, None), e')"
  using assms by (rule Prepare_again)

lemma managed_prepare_idempotent_witness:
  "Prepare None demo_rq demo_prepared = ((Some (visibleOperation demo_record), None), demo_prepared)"
proof -
  have "Prepare None demo_rq demo_open = ((Some (visibleOperation demo_record), None), demo_prepared)"
    using demo_Prepare by blast
  from managed_prepare_idempotent [OF this] show ?thesis .
qed

text \<open>C7. A new operation is acknowledged only when its journal is in every content that the disk may have, with both snapshots beside
  it, and the store is still the one that the request expects.\<close>

theorem managed_prepare_durable:
  assumes "reachable_life options (Up e)" "gm_get (me_records e) (rq_ID rq) = None" "Prepare ctx rq e = ((Some op, None), e')"
  shows "op_ID op = rq_ID rq \<and> op_State op = Prepared \<and> me_active e = [] \<and> store_has (rq_ExpectedDigest rq) e' \<and>
    (\<forall>fs\<in>set (versions (me_ops e')). \<exists>w. gm_get (of_journals fs) (journal_name (rq_ID rq)) = Some (Some w) \<and> op_State w = Prepared \<and>
      op_NewDigest w = Digest (Some (rq_Candidate rq)) \<and> op_OldDigest w = rq_ExpectedDigest rq \<and> snaps_ok (of_snapshots fs) w)"
proof -
  have rest: "at_rest e"
    using reachable_rest [OF assms(1)] by simp
  have "rq_ID rq \<in> gm_keys (me_records e')"
    using Prepare_known [OF assms(3)] by (simp add: gm_keys_get)
  then have "\<not> (\<exists>t g. e' = e\<lparr>me_tick := t, me_recoveryGate := g\<rparr>)"
    using assms(2) by (auto simp: gm_keys_get)
  then have "reserved rq (Some op, None) e e'" and rest': "at_rest e'"
    using Prepare_rest [OF rest assms(3)] by blast+
  then obtain old now r where r: "me_active e = []" "me_store e = durable old" "Digest old = rq_ExpectedDigest rq" "gm_get (me_records e') (rq_ID rq) = Some r"
      "same_operation (new_record rq old now) r" "me_store e' = me_store e" "op_State r = Prepared" "op = visibleOperation r"
      "\<forall>fs\<in>set (versions (me_ops e')). journaled (rq_ID rq) r fs"
    unfolding reserved_def by auto
  have inv: "Inv {} e'" and m: "memory_ok e'"
    using rest' by (simp_all add: at_rest_def Inv_def)
  have j: "\<exists>w. gm_get (of_journals fs) (journal_name (rq_ID rq)) = Some (Some w) \<and> op_State w = Prepared \<and>
      op_NewDigest w = Digest (Some (rq_Candidate rq)) \<and> op_OldDigest w = rq_ExpectedDigest rq \<and> snaps_ok (of_snapshots fs) w"
    if v: "fs \<in> set (versions (me_ops e'))" for fs
  proof -
    obtain w where w: "gm_get (of_journals fs) (journal_name (rq_ID rq)) = Some (Some w)" "op_State w = Prepared" "expired w = expired r"
      using r(7,9) v by (auto simp: journaled_def journal_def)
    have fit: "fits e' fs"
      using inv v by (simp add: Inv_def)
    obtain q where q: "journal_name (rq_ID rq) = journal_name (op_ID w)" "\<not> expired w \<longrightarrow> snaps_ok (of_snapshots fs) w"
        "gm_get (me_records e') (op_ID w) = Some q" "same_operation w q"
      using fits_Some [OF fit w(1)] by blast
    have "op_ID w = rq_ID rq"
      using hash_differs [OF m q(3) r(4)] q(1) by (simp add: journal_name_inj)
    then have "same_operation w r"
      using q(3,4) r(4) by simp
    moreover have "\<not> expired w"
      using rest_nonterminal(3) [OF rest' r(4)] r(7) w(3) by simp
    ultimately show ?thesis
      using w q(2) r(3,5) by (auto simp: same_operation_def new_record_def)
  qed
  have "store_has (rq_ExpectedDigest rq) e'"
    using r(2,3,6) by (auto simp: store_has_def)
  moreover have "op_ID op = rq_ID rq" "op_State op = Prepared"
    using r(5,7) memory_record(1) [OF m r(4)] by (simp_all add: r(8) visibleOperation_def operation_of_def Let_def Operation.defs)
  ultimately show ?thesis
    using r(1) j by blast
qed

lemma managed_prepare_durable_witness: "store_has (Digest None) demo_prepared"
proof -
  have "Prepare None demo_rq demo_open = ((Some (visibleOperation demo_record), None), demo_prepared)"
    using demo_Prepare by blast
  from managed_prepare_durable [OF demo_lives(2) _ this] show ?thesis
    by (simp add: demo_Open(2) new_engine_def demo_rq_def)
qed

text \<open>C10. An outcome is not forgotten: when an operation has ended and its call has returned, a stop of the machine and the next successful
  start find it with the same outcome; and when no operation is under way, the store keeps its bytes across the stop.\<close>

theorem managed_outcome_survives:
  assumes "reachable_life options (Up e)" "gm_get (me_records e) ident = Some r" "terminal (op_State r)"
    and "s \<in> set (versions (me_store e))" "fs \<in> set (versions (me_ops e))"
    and "fair env" "Open su options s fs env = (None, e')"
  shows "(\<exists>r'. gm_get (me_records e') ident = Some r' \<and> same_operation r r' \<and> op_State r' = op_State r) \<and>
    (me_active e = [] \<longrightarrow> me_store e' = me_store e \<and> me_active e' = [])"
  using outcome_survives [OF _ assms(4,5,2,3) _ assms(6,7)] reachable_rest [OF assms(1)] by blast

lemma demo_cancelled:
  "status ''op1'' (snd (Rollback None ''op1'' demo_attached)) = Cancelled"
  "names_count (pd_now (me_ops (snd (Rollback None ''op1'' demo_attached)))) = 3"
  "me_store (snd (Rollback None ''op1'' demo_attached)) = durable None" "me_opts (snd (Rollback None ''op1'' demo_attached)) = options_defaults demo_settings"
proof -
  obtain points where p: "demo_prepared = demo_state [(''op1'', demo_record)] (durable \<lparr>of_journals = [(journal_name ''op1'', Some demo_record)],
      of_snapshots = demo_snaps, of_others = 0\<rparr>) points 11"
    using demo_Prepare by blast
  have "names_count (pd_now (me_ops (snd (state ''op1'' Cancelled ''cancelled_before_apply'' demo_attached)))) = 3"
    by (simp add: p demo_attached_eq state_def save_def persist_def replace_journal_def replace_steps_def the_record_def update_record_def
      demo_record_def new_record_def demo_snaps_def demo_defs sync_dir_def rename_in_def durable_def names_count_def normalizeRecordRetention_def Let_def)
  then show "names_count (pd_now (me_ops (snd (Rollback None ''op1'' demo_attached)))) = 3"
    by (simp add: demo_rollback_state)
  have "me_store demo_attached = durable None" "me_opts demo_attached = options_defaults demo_settings"
    by (simp_all add: p demo_attached_eq)
  then show "me_store (snd (Rollback None ''op1'' demo_attached)) = durable None" "me_opts (snd (Rollback None ''op1'' demo_attached)) = options_defaults demo_settings"
    using demo_rollback(2) by (simp_all add: still_def kept_def)
  show "status ''op1'' (snd (Rollback None ''op1'' demo_attached)) = Cancelled"
    by (rule demo_rollback(1))
qed

lemma managed_outcome_survives_witness:
  "\<exists>e' r'. Open demo_su demo_settings None (pd_now (me_ops (snd (Rollback None ''op1'' demo_attached)))) demo_env = (None, e') \<and>
    gm_get (me_records e') ''op1'' = Some r' \<and> op_State r' = Cancelled"
proof -
  let ?e = "serve (CallRollback None ''op1'') demo_attached"
  have live: "reachable_life demo_settings (Up ?e)"
    by (rule reachable_step [OF demo_lives(4) life_step.served])
  have rest: "at_rest ?e"
    using reachable_rest [OF live] by simp
  have st: "status ''op1'' ?e = Cancelled"
    using demo_cancelled(1) by simp
  have v: "None \<in> set (versions (me_store ?e))" "pd_now (me_ops ?e) \<in> set (versions (me_ops ?e))"
    using demo_cancelled(3) by simp_all
  have r: "gm_get (me_records ?e) ''op1'' = Some (the_record ?e ''op1'')"
    using demo_rollback(3) by simp
  have disk: "recoverable_disk (mo_MaxBytes (options_defaults demo_settings)) None (pd_now (me_ops ?e))"
    using rest_disk(1) [OF rest v] demo_cancelled(4) by simp
  obtain e' where e': "Open demo_su demo_settings None (pd_now (me_ops ?e)) demo_env = (None, e')"
    using Open_calm [OF demo_calm(1,3) disk demo_settings_ok] demo_cancelled(2) by auto
  have "terminal (op_State (the_record ?e ''op1''))"
    using st by simp
  from managed_outcome_survives [OF live r this v demo_calm(2) e'] show ?thesis
    using e' st by auto
qed





end
